(* ===== verification/KF_Prelude.thy ===== *)
theory KF_Prelude
  imports Main "HOL-Library.Word"
begin

unbundle bit_operations_syntax

section \<open>Prelude of the killer-finder development\<close>

text \<open>
  What the component theories share: the widths of the C++ integers, the result type in which a
  crash of the program is a value, memory reads from a captured packet, byte order, the part of
  \<^verbatim>\<open>std::string\<close> that the sources call, and decimal printing. The machine is the one
  \<^verbatim>\<open>packet_def.hpp\<close> fixes (little-endian) with eight-byte \<^verbatim>\<open>size_t\<close>.
\<close>

subsection \<open>Types and collections\<close>

type_synonym u8 = "8 word"
type_synonym u16 = "16 word"
type_synonym u32 = "32 word"
type_synonym u64 = "64 word"

named_theorems rd_simps \<open>in-range memory reads\<close>
named_theorems str_simps \<open>characterisations of the string operations\<close>
named_theorems kf_inv \<open>preservation of the invariants of the components\<close>
named_theorems safe_rules \<open>operations that use no freed or uninitialised memory\<close>

subsection \<open>Crashes as values\<close>

text \<open>
  \<open>OutOfBounds\<close> is a read outside an object (undefined behaviour in C++), \<open>OutOfRange\<close> and
  \<open>LengthError\<close> are the exceptions of \<^verbatim>\<open>std::string\<close>, \<open>UseAfterFree\<close> a use of a
  deleted session, \<open>Uninitialised\<close> a use of memory that was never written, and
  \<open>LibException\<close> an exception of the mail library. No frame of the two threads catches any of
  them, so each ends the process.
\<close>

datatype fault =
    OutOfBounds
  | OutOfRange
  | LengthError
  | UseAfterFree
  | Uninitialised
  | LibException string

type_synonym 'a res = "fault + 'a"

definition rbind :: "'e + 'a \<Rightarrow> ('a \<Rightarrow> 'e + 'b) \<Rightarrow> 'e + 'b" where
  "rbind m f = (case m of Inl e \<Rightarrow> Inl e | Inr a \<Rightarrow> f a)"

definition ok :: "'e + 'a \<Rightarrow> bool" where
  "ok m = (case m of Inl e \<Rightarrow> False | Inr a \<Rightarrow> True)"

primrec rfold :: "('a \<Rightarrow> 's \<Rightarrow> 'e + 's) \<Rightarrow> 'a list \<Rightarrow> 's \<Rightarrow> 'e + 's" where
  "rfold f [] s = Inr s"
| "rfold f (x # xs) s = rbind (f x s) (rfold f xs)"

lemma rbind_Inl [simp]: "rbind (Inl e) f = Inl e"
  by (simp add: rbind_def)

lemma rbind_Inr [simp]: "rbind (Inr a) f = f a"
  by (simp add: rbind_def)

lemma ok_Inl [simp]: "\<not> ok (Inl e)"
  by (simp add: ok_def)

lemma ok_Inr [simp]: "ok (Inr a)"
  by (simp add: ok_def)

lemma ok_iff: "ok m \<longleftrightarrow> (\<exists>a. m = Inr a)"
  by (cases m) simp_all

lemma okE [elim]: "ok m \<Longrightarrow> (\<And>a. m = Inr a \<Longrightarrow> P) \<Longrightarrow> P"
  by (auto simp: ok_iff)

lemma rbind_eq_Inr: "rbind m f = Inr b \<longleftrightarrow> (\<exists>a. m = Inr a \<and> f a = Inr b)"
  by (cases m) simp_all

lemma rbind_eq_Inl: "rbind m f = Inl e \<longleftrightarrow> m = Inl e \<or> (\<exists>a. m = Inr a \<and> f a = Inl e)"
  by (cases m) simp_all

lemma rbind_InrE [elim]:
  "rbind m f = Inr b \<Longrightarrow> (\<And>a. m = Inr a \<Longrightarrow> f a = Inr b \<Longrightarrow> P) \<Longrightarrow> P"
  by (auto simp: rbind_eq_Inr)

lemma ok_rbind: "ok (rbind m f) \<longleftrightarrow> (\<exists>a. m = Inr a \<and> ok (f a))"
  by (cases m) simp_all

lemma rbind_assoc: "rbind (rbind m f) g = rbind m (\<lambda>a. rbind (f a) g)"
  by (cases m) simp_all

lemma rbind_cong [fundef_cong]:
  "m = m' \<Longrightarrow> (\<And>a. m' = Inr a \<Longrightarrow> f a = g a) \<Longrightarrow> rbind m f = rbind m' g"
  by (cases m') simp_all

lemma rfold_append: "rfold f (xs @ ys) s = rbind (rfold f xs s) (rfold f ys)"
  by (induction xs arbitrary: s) (simp_all add: rbind_def split: sum.split)

lemma rbind_Inr_right [simp]: "rbind m Inr = m"
  by (cases m) simp_all

lemma rfold_snoc: "rfold f (xs @ [x]) s = rbind (rfold f xs s) (f x)"
proof -
  have "rfold f [x] = f x" by (rule ext) (simp add: rbind_def split: sum.split)
  then show ?thesis by (simp only: rfold_append)
qed

text \<open>
  No use of freed or uninitialised memory. The other faults (a read outside an object, an exception)
  are not excluded.
\<close>

definition safe :: "'a res \<Rightarrow> bool" where
  "safe m \<longleftrightarrow> m \<noteq> Inl UseAfterFree \<and> m \<noteq> Inl Uninitialised"

lemma safe_Inr [simp]: "safe (Inr a)"
  by (simp add: safe_def)

lemma safe_Inl [simp]: "safe (Inl f) \<longleftrightarrow> f \<noteq> UseAfterFree \<and> f \<noteq> Uninitialised"
  by (simp add: safe_def)

lemma safe_rbind [safe_rules]: "safe m \<Longrightarrow> (\<And>a. m = Inr a \<Longrightarrow> safe (f a)) \<Longrightarrow> safe (rbind m f)"
  by (cases m) simp_all

lemma safe_rfold:
  assumes "I s" and "\<And>x s. x \<in> set xs \<Longrightarrow> I s \<Longrightarrow> safe (f x s)"
    and "\<And>x s s'. x \<in> set xs \<Longrightarrow> I s \<Longrightarrow> f x s = Inr s' \<Longrightarrow> I s'"
  shows "safe (rfold f xs s)"
  using assms
proof (induction xs arbitrary: s)
  case Nil
  then show ?case by simp
next
  case (Cons x xs)
  show ?case
    unfolding rfold.simps
  proof (rule safe_rbind)
    show "safe (f x s)" using Cons.prems by simp
    show "safe (rfold f xs t)" if "f x s = Inr t" for t
    proof (rule Cons.IH)
      show "I t" using Cons.prems(1,3) that by (meson list.set_intros(1))
      show "safe (f y u)" if "y \<in> set xs" "I u" for y u
        using Cons.prems(2) that by (meson list.set_intros(2))
      show "I u'" if "y \<in> set xs" "I u" "f y u = Inr u'" for y u u'
        using Cons.prems(3) that by (meson list.set_intros(2))
    qed
  qed
qed

text \<open>A loop keeps what each iteration keeps.\<close>

lemma rfold_invariant:
  assumes "rfold f xs s = Inr t" and "I s"
    and "\<And>x s s'. x \<in> set xs \<Longrightarrow> I s \<Longrightarrow> f x s = Inr s' \<Longrightarrow> I s'"
  shows "I t"
  using assms by (induction xs arbitrary: s) (auto simp: rbind_eq_Inr)

subsection \<open>Memory reads and byte order\<close>

definition rd8 :: "u8 list \<Rightarrow> nat \<Rightarrow> u8 res" where
  "rd8 mem p = (if p < length mem then Inr (mem ! p) else Inl OutOfBounds)"

text \<open>Little-endian loads of two and four bytes.\<close>

definition ld16 :: "u8 list \<Rightarrow> nat \<Rightarrow> u16 res" where
  "ld16 mem p =
     rbind (rd8 mem p) (\<lambda>b0.
     rbind (rd8 mem (p + 1)) (\<lambda>b1.
     Inr (ucast b0 + 256 * ucast b1)))"

definition ld32 :: "u8 list \<Rightarrow> nat \<Rightarrow> u32 res" where
  "ld32 mem p =
     rbind (rd8 mem p) (\<lambda>b0.
     rbind (rd8 mem (p + 1)) (\<lambda>b1.
     rbind (rd8 mem (p + 2)) (\<lambda>b2.
     rbind (rd8 mem (p + 3)) (\<lambda>b3.
     Inr (ucast b0 + 2 ^ 8 * ucast b1 + 2 ^ 16 * ucast b2 + 2 ^ 24 * ucast b3)))))"

text \<open>\<open>n\<close> bytes from \<open>p\<close> on, as \<^verbatim>\<open>memcpy\<close> copies them.\<close>

definition rdn :: "u8 list \<Rightarrow> nat \<Rightarrow> nat \<Rightarrow> u8 list res" where
  "rdn mem p n = (if p + n \<le> length mem then Inr (take n (drop p mem)) else Inl OutOfBounds)"

definition ntohs :: "u16 \<Rightarrow> u16" where
  "ntohs w = ucast (drop_bit 8 w) + 256 * ucast (ucast w :: u8)"

definition ntohl :: "u32 \<Rightarrow> u32" where
  "ntohl w =
     ucast (ucast (drop_bit 24 w) :: u8)
     + 2 ^ 8 * ucast (ucast (drop_bit 16 w) :: u8)
     + 2 ^ 16 * ucast (ucast (drop_bit 8 w) :: u8)
     + 2 ^ 24 * ucast (ucast w :: u8)"

lemma rd8_ok [rd_simps]: "p < length mem \<Longrightarrow> rd8 mem p = Inr (mem ! p)"
  by (simp add: rd8_def)

lemma ld16_ok [rd_simps]:
  "p + 2 \<le> length mem \<Longrightarrow> ld16 mem p = Inr (ucast (mem ! p) + 256 * ucast (mem ! (p + 1)))"
  by (simp add: ld16_def rd8_def)

lemma ld32_ok [rd_simps]:
  "p + 4 \<le> length mem \<Longrightarrow> ld32 mem p =
     Inr (ucast (mem ! p) + 2 ^ 8 * ucast (mem ! (p + 1)) + 2 ^ 16 * ucast (mem ! (p + 2))
          + 2 ^ 24 * ucast (mem ! (p + 3)))"
  by (simp add: ld32_def rd8_def)

lemma rdn_ok [rd_simps]: "p + n \<le> length mem \<Longrightarrow> rdn mem p n = Inr (take n (drop p mem))"
  by (simp add: rdn_def)

lemma rdn_length: "rdn mem p n = Inr bs \<Longrightarrow> length bs = n"
  by (auto simp: rdn_def split: if_splits)

lemma ld16_beyond: "length mem < p + 2 \<Longrightarrow> ld16 mem p = Inl OutOfBounds"
  by (auto simp: ld16_def rd8_def)

lemma ld32_beyond: "length mem < p + 4 \<Longrightarrow> ld32 mem p = Inl OutOfBounds"
  by (auto simp: ld32_def rd8_def)

lemma safe_reads [safe_rules]: "safe (rd8 mem p)" "safe (ld16 mem p)" "safe (ld32 mem p)" "safe (rdn mem p n)"
  by (auto simp: rd8_def ld16_def ld32_def rdn_def intro!: safe_rbind)

text \<open>Words as their bytes, read as natural numbers.\<close>

lemma u8_bound: "unat (b :: u8) < 256"
  using unsigned_less [of b] by simp

lemma unat_byte_of_u32: "unat (ucast (drop_bit n (w :: u32)) :: u8) = unat w div 2 ^ n mod 256"
  unfolding unsigned_ucast_eq unat_drop_bit_eq by (simp add: drop_bit_eq_div take_bit_eq_mod)

lemma unat_byte0_of_u32: "unat (ucast (w :: u32) :: u8) = unat w mod 256"
  using unat_byte_of_u32 [of 0 w] by simp

lemma unat_ucast_u8_16: "unat (ucast (b :: u8) :: u16) = unat b"
  using u8_bound [of b] by (simp add: unsigned_ucast_eq take_bit_nat_eq_self_iff)

lemma unat_ucast_u8_32: "unat (ucast (b :: u8) :: u32) = unat b"
  using u8_bound [of b] by (simp add: unsigned_ucast_eq take_bit_nat_eq_self_iff)

lemma unat_join16:
  "unat (ucast (b0 :: u8) + 256 * ucast (b1 :: u8) :: u16) = unat b0 + 256 * unat b1"
  using u8_bound [of b0] u8_bound [of b1] by (simp add: unat_word_ariths unat_ucast_u8_16)

lemma unat_join32:
  "unat (ucast (b0 :: u8) + 2 ^ 8 * ucast (b1 :: u8) + 2 ^ 16 * ucast (b2 :: u8)
         + 2 ^ 24 * ucast (b3 :: u8) :: u32)
   = unat b0 + 256 * unat b1 + 65536 * unat b2 + 16777216 * unat b3"
  using u8_bound [of b0] u8_bound [of b1] u8_bound [of b2] u8_bound [of b3]
  by (simp add: unat_word_ariths unat_ucast_u8_32)

lemma nat_bytes32:
  fixes x :: nat
  assumes "x < 2 ^ 32"
  shows "x mod 256 + 256 * (x div 256 mod 256) + 65536 * (x div 65536 mod 256)
         + 16777216 * (x div 16777216 mod 256) = x"
proof -
  let ?y = "x div 256" and ?z = "x div 65536" and ?w = "x div 16777216"
  have "256 * ?y + x mod 256 = x"
    by simp
  moreover have "256 * ?z + ?y mod 256 = ?y"
    using mult_div_mod_eq [of 256 ?y] by (simp add: div_mult2_eq [symmetric])
  moreover have "256 * ?w + ?z mod 256 = ?z"
    using mult_div_mod_eq [of 256 ?z] by (simp add: div_mult2_eq [symmetric])
  moreover have "?w mod 256 = ?w"
    using assms by (simp add: less_mult_imp_div_less)
  ultimately show ?thesis by linarith
qed

lemma byte_split:
  fixes b k :: nat
  assumes "b < 256"
  shows "(b + 256 * k) mod 256 = b" "(b + 256 * k) div 256 = k"
  using assms by simp_all

lemma bytes_join32:
  fixes b0 b1 b2 b3 :: u8
  defines "w \<equiv> ucast b0 + 2 ^ 8 * ucast b1 + 2 ^ 16 * ucast b2 + 2 ^ 24 * ucast b3 :: u32"
  shows "ucast w = b0" "ucast (drop_bit 8 w) = b1" "ucast (drop_bit 16 w) = b2"
    "ucast (drop_bit 24 w) = b3"
proof -
  have w: "unat w = unat b0 + 256 * (unat b1 + 256 * (unat b2 + 256 * unat b3))"
    unfolding w_def unat_join32 by simp
  note b0 = byte_split [OF u8_bound [of b0]] and b1 = byte_split [OF u8_bound [of b1]]
    and b2 = byte_split [OF u8_bound [of b2]] and b3 = u8_bound [of b3]
  have d8: "unat w div 2 ^ 8 = unat b1 + 256 * (unat b2 + 256 * unat b3)"
    using b0(2) unfolding w by simp
  have d16: "unat w div 2 ^ 16 = unat b2 + 256 * unat b3"
  proof -
    have "unat w div 2 ^ 16 = unat w div 2 ^ 8 div 256"
      by (simp add: div_mult2_eq [symmetric])
    then show ?thesis unfolding d8 b1(2) .
  qed
  have d24: "unat w div 2 ^ 24 = unat b3"
  proof -
    have "unat w div 2 ^ 24 = unat w div 2 ^ 16 div 256"
      by (simp add: div_mult2_eq [symmetric])
    then show ?thesis unfolding d16 b2(2) .
  qed
  show "ucast w = b0"
    by (rule word_unat_eq_iff [THEN iffD2]) (simp only: unat_byte0_of_u32 w b0)
  show "ucast (drop_bit 8 w) = b1"
    by (rule word_unat_eq_iff [THEN iffD2]) (simp only: unat_byte_of_u32 d8 b1)
  show "ucast (drop_bit 16 w) = b2"
    by (rule word_unat_eq_iff [THEN iffD2]) (simp only: unat_byte_of_u32 d16 b2)
  show "ucast (drop_bit 24 w) = b3"
    using b3 by (intro word_unat_eq_iff [THEN iffD2]) (simp only: unat_byte_of_u32 d24 mod_less)
qed

lemma u32_of_bytes:
  fixes a :: u32
  shows "ucast (ucast a :: u8) + 2 ^ 8 * ucast (ucast (drop_bit 8 a) :: u8)
     + 2 ^ 16 * ucast (ucast (drop_bit 16 a) :: u8)
     + 2 ^ 24 * ucast (ucast (drop_bit 24 a) :: u8) = a"
proof -
  have "unat a < 2 ^ 32"
    using unsigned_less [of a] by simp
  then show ?thesis
    using nat_bytes32 [of "unat a"]
    by (intro word_unat_eq_iff [THEN iffD2])
       (simp only: unat_join32 unat_byte_of_u32 unat_byte0_of_u32 [of a], simp)
qed

subsection \<open>The standard string operations the sources use\<close>

text \<open>
  A \<^verbatim>\<open>std::string\<close> is a list of characters. The positions are \<^verbatim>\<open>size_t\<close>; the
  value \<^verbatim>\<open>npos\<close> that the searches return is \<open>None\<close>, and \<open>npos_add\<close> is the
  wrapping sum of a search result and a small offset, for the one place where the code adds to an
  unchecked result.
\<close>

abbreviation NUL :: char where
  "NUL \<equiv> CHR 0x00"

primrec str_find :: "string \<Rightarrow> string \<Rightarrow> nat option" where
  "str_find pat [] = (if pat = [] then Some 0 else None)"
| "str_find pat (c # cs) =
     (if take (length pat) (c # cs) = pat then Some 0 else map_option Suc (str_find pat cs))"

definition str_contains :: "string \<Rightarrow> string \<Rightarrow> bool" where
  "str_contains pat s = (str_find pat s \<noteq> None)"

definition npos_add :: "nat option \<Rightarrow> nat \<Rightarrow> nat" where
  "npos_add r k = ((case r of None \<Rightarrow> 2 ^ 64 - 1 | Some i \<Rightarrow> i) + k) mod 2 ^ 64"

definition str_substr :: "string \<Rightarrow> nat \<Rightarrow> nat option \<Rightarrow> string res" where
  "str_substr s pos n =
     (if length s < pos then Inl OutOfRange
      else Inr (case n of None \<Rightarrow> drop pos s | Some k \<Rightarrow> take k (drop pos s)))"

definition str_resize :: "nat \<Rightarrow> string \<Rightarrow> string" where
  "str_resize n s = take n s @ replicate (n - length s) NUL"

text \<open>\<^verbatim>\<open>s.replace(pos, n, t, |t|)\<close> and \<^verbatim>\<open>out.append(s, pos, n)\<close>.\<close>

definition str_replace :: "nat \<Rightarrow> nat \<Rightarrow> string \<Rightarrow> string \<Rightarrow> string res" where
  "str_replace pos n t s =
     (if length s < pos then Inl OutOfRange else Inr (take pos s @ t @ drop (pos + n) s))"

definition str_append_sub :: "string \<Rightarrow> string \<Rightarrow> nat \<Rightarrow> nat \<Rightarrow> string res" where
  "str_append_sub out s pos n =
     (if length s < pos then Inl OutOfRange else Inr (out @ take n (drop pos s)))"

text \<open>\<^verbatim>\<open>s[0]\<close>: the terminator when the string is empty.\<close>

definition str_front :: "string \<Rightarrow> char" where
  "str_front s = (case s of [] \<Rightarrow> NUL | c # cs \<Rightarrow> c)"

primrec find_last_of :: "char \<Rightarrow> string \<Rightarrow> nat option" where
  "find_last_of c [] = None"
| "find_last_of c (x # xs) =
     (case find_last_of c xs of
        Some i \<Rightarrow> Some (Suc i)
      | None \<Rightarrow> (if x = c then Some 0 else None))"

text \<open>\<^verbatim>\<open>tolower\<close> in the C locale, and the cast of payload bytes to characters.\<close>

definition tolower :: "char \<Rightarrow> char" where
  "tolower c =
     (let n = of_char c :: nat in if 65 \<le> n \<and> n \<le> 90 then char_of (n + 32) else c)"

definition chars_of :: "u8 list \<Rightarrow> string" where
  "chars_of bs = map (\<lambda>b. char_of (unat b)) bs"

definition show_digit :: "nat \<Rightarrow> char" where
  "show_digit d = char_of (48 + d)"

fun show_nat :: "nat \<Rightarrow> string" where
  "show_nat n = (if n < 10 then [show_digit n] else show_nat (n div 10) @ [show_digit (n mod 10)])"

declare show_nat.simps [simp del]

lemma safe_strings [safe_rules]:
  "safe (str_substr s i n)" "safe (str_replace i k d s)" "safe (str_append_sub out s i k)"
  by (simp_all add: str_substr_def str_replace_def str_append_sub_def)

lemma str_find_SomeD:
  "str_find pat s = Some i \<Longrightarrow>
     i + length pat \<le> length s \<and> take (length pat) (drop i s) = pat
     \<and> (\<forall>j < i. take (length pat) (drop j s) \<noteq> pat)"
proof (induction s arbitrary: i)
  case Nil
  then show ?case by (auto split: if_splits)
next
  case (Cons c cs)
  show ?case
  proof (cases "take (length pat) (c # cs) = pat")
    case True
    have "length pat \<le> Suc (length cs)"
      using True by (metis length_Cons length_take min.cobounded1)
    with True Cons.prems show ?thesis by auto
  next
    case False
    with Cons.prems obtain k where k: "str_find pat cs = Some k" and i: "i = Suc k"
      by (auto split: if_splits)
    from Cons.IH [OF k] False show ?thesis
      by (auto simp: i less_Suc_eq_0_disj)
  qed
qed

lemma str_find_NoneD: "str_find pat s = None \<Longrightarrow> take (length pat) (drop j s) \<noteq> pat"
proof (induction s arbitrary: j)
  case Nil
  then show ?case by (auto split: if_splits)
next
  case (Cons c cs)
  then have *: "take (length pat) (c # cs) \<noteq> pat" and "str_find pat cs = None"
    by (auto split: if_splits)
  with Cons.IH show ?case by (cases j) auto
qed

lemma str_substr_npos [simp]: "pos \<le> length s \<Longrightarrow> str_substr s pos None = Inr (drop pos s)"
  by (simp add: str_substr_def)

lemma str_substr_take [simp]: "str_substr s 0 (Some k) = Inr (take k s)"
  by (simp add: str_substr_def)

lemma length_str_resize [simp]: "length (str_resize n s) = n"
  by (simp add: str_resize_def)

lemma length_chars_of [simp]: "length (chars_of bs) = length bs"
  by (simp add: chars_of_def)

lemma nth_str_resize:
  "i < n \<Longrightarrow> str_resize n s ! i = (if i < length s then s ! i else NUL)"
  by (simp add: str_resize_def nth_append)

lemma find_last_of_SomeD:
  "find_last_of c s = Some i \<Longrightarrow> i < length s \<and> s ! i = c \<and> c \<notin> set (drop (Suc i) s)"
proof (induction s arbitrary: i)
  case Nil
  then show ?case by simp
next
  case (Cons x xs)
  have none: "find_last_of c ys = None \<Longrightarrow> c \<notin> set ys" for ys
    by (induction ys) (auto split: option.splits if_splits)
  show ?case
    using Cons by (fastforce split: option.splits if_splits dest: none)
qed

lemma tolower_idem [simp]: "tolower (tolower c) = tolower c"
  by (auto simp: tolower_def Let_def)

lemma show_nat_nonempty [simp]: "show_nat n \<noteq> []"
  by (subst show_nat.simps) simp

text \<open>Printed numbers are digits only, and distinct numbers print differently.\<close>

definition is_digit :: "char \<Rightarrow> bool" where
  "is_digit c = (let n = of_char c :: nat in 48 \<le> n \<and> n \<le> 57)"

definition digit_val :: "char \<Rightarrow> nat" where
  "digit_val c = of_char c - 48"

definition read_nat :: "string \<Rightarrow> nat" where
  "read_nat s = foldl (\<lambda>acc c. 10 * acc + digit_val c) 0 s"

lemma of_char_show_digit [simp]: "d < 10 \<Longrightarrow> of_char (show_digit d) = (48 + d :: nat)"
  by (simp add: show_digit_def)

lemma show_nat_digits: "\<forall>c \<in> set (show_nat n). is_digit c"
proof (induction n rule: show_nat.induct)
  case (1 n)
  then show ?case
    by (subst show_nat.simps) (auto simp: is_digit_def)
qed

lemma read_show_nat [simp]: "read_nat (show_nat n) = n"
proof (induction n rule: show_nat.induct)
  case (1 n)
  then show ?case
    by (subst show_nat.simps) (auto simp: read_nat_def digit_val_def)
qed

lemma show_nat_inject [simp]: "show_nat m = show_nat n \<longleftrightarrow> m = n"
  by (metis read_show_nat)

end
