(* ===== verification/KF_IpAddress.thy ===== *)
theory KF_IpAddress
  imports KF_Prelude
begin

section \<open>CIpAddress: IPv4 and IPv6 addresses\<close>

text \<open>
  \<^verbatim>\<open>CIpAddress\<close> is sixteen bytes; an IPv4 address fills the first four and zeroes the rest.
  The theory has the constructors, the accessors, the order the comparison operators give, and the
  fold value that the session hash is built from.
\<close>

subsection \<open>Data and operations\<close>

datatype CIpAddress = CIpAddress (m_addr: "u8 list")

definition wf_ip :: "CIpAddress \<Rightarrow> bool" where
  "wf_ip a = (length (m_addr a) = 16)"

definition CIpAddress_default :: CIpAddress where
  "CIpAddress_default = CIpAddress (replicate 16 0)"

text \<open>The four bytes of an \<^verbatim>\<open>in_addr_t\<close> in memory, first byte first.\<close>

definition bytes_of_u32 :: "u32 \<Rightarrow> u8 list" where
  "bytes_of_u32 a = [ucast a, ucast (drop_bit 8 a), ucast (drop_bit 16 a), ucast (drop_bit 24 a)]"

definition CIpAddress_v4 :: "u32 \<Rightarrow> CIpAddress" where
  "CIpAddress_v4 a =
     CIpAddress ([bytes_of_u32 a ! 0, bytes_of_u32 a ! 1, bytes_of_u32 a ! 2, bytes_of_u32 a ! 3]
                 @ replicate 12 0)"

definition CIpAddress_v6 :: "u8 list \<Rightarrow> CIpAddress" where
  "CIpAddress_v6 a = CIpAddress (take 16 a)"

definition getIpv4 :: "CIpAddress \<Rightarrow> u32" where
  "getIpv4 a =
     ucast (m_addr a ! 0) + 2 ^ 8 * ucast (m_addr a ! 1)
     + 2 ^ 16 * ucast (m_addr a ! 2) + 2 ^ 24 * ucast (m_addr a ! 3)"

definition getIpv6 :: "CIpAddress \<Rightarrow> u8 list" where
  "getIpv6 a = take 16 (m_addr a)"

definition getBit :: "CIpAddress \<Rightarrow> nat \<Rightarrow> bool" where
  "getBit a i = (m_addr a ! (i div 8) AND push_bit (7 - i mod 8) 1 \<noteq> 0)"

definition getQuad :: "CIpAddress \<Rightarrow> int \<Rightarrow> u32" where
  "getQuad a i =
     (if 0 \<le> i \<and> i \<le> 3 then
        push_bit 24 (ucast (m_addr a ! (nat i * 4 + 0))) OR
        push_bit 16 (ucast (m_addr a ! (nat i * 4 + 2))) OR
        push_bit 8 (ucast (m_addr a ! (nat i * 4 + 1))) OR
        ucast (m_addr a ! (nat i * 4 + 3))
      else 0)"

definition getDquad :: "CIpAddress \<Rightarrow> int \<Rightarrow> u64" where
  "getDquad a i = push_bit 32 (ucast (getQuad a (i * 2 + 1))) OR ucast (getQuad a (i * 2))"

definition sizeof_size_t :: nat where
  "sizeof_size_t = 8"

definition getFoldValue :: "CIpAddress \<Rightarrow> u64" where
  "getFoldValue a =
     (let b = (\<lambda>i. ucast (m_addr a ! i) :: u32) in
      if sizeof_size_t = 4 then
        ucast ((b 0 + b 4 + b 8 + b 12) OR
               push_bit 8 (b 1 + b 5 + b 9 + b 13) OR
               push_bit 16 (b 2 + b 6 + b 10 + b 14) OR
               push_bit 24 (b 3 + b 7 + b 11 + b 15))
      else
        ucast ((b 0 + b 4 + b 8 + b 12) +
               (b 1 + b 5 + b 9 + b 13) +
               (b 2 + b 6 + b 10 + b 14) +
               (b 3 + b 7 + b 11 + b 15)))"

text \<open>\<^verbatim>\<open>memcmp\<close> of two byte arrays; only the sign of its result is used.\<close>

fun memcmp :: "u8 list \<Rightarrow> u8 list \<Rightarrow> int" where
  "memcmp [] [] = 0"
| "memcmp [] (y # ys) = - 1"
| "memcmp (x # xs) [] = 1"
| "memcmp (x # xs) (y # ys) = (if x < y then - 1 else if y < x then 1 else memcmp xs ys)"

definition ip_eq :: "CIpAddress \<Rightarrow> CIpAddress \<Rightarrow> bool" where
  "ip_eq a b = (memcmp (m_addr a) (m_addr b) = 0)"

definition isV4 :: "CIpAddress \<Rightarrow> bool" where
  "isV4 a = (take 4 (drop 4 (m_addr a)) = [0, 0, 0, 0] \<and>
             take 4 (drop 8 (m_addr a)) = [0, 0, 0, 0] \<and>
             take 4 (drop 12 (m_addr a)) = [0, 0, 0, 0])"

text \<open>The stream operator prints the first four bytes.\<close>

definition show_ip :: "CIpAddress \<Rightarrow> string" where
  "show_ip b =
     show_nat (unat (m_addr b ! 0)) @ ''.'' @ show_nat (unat (m_addr b ! 1)) @ ''.'' @
     show_nat (unat (m_addr b ! 2)) @ ''.'' @ show_nat (unat (m_addr b ! 3))"

subsection \<open>The order of the comparison operators\<close>

lemma memcmp_zero_iff [simp]: "memcmp xs ys = 0 \<longleftrightarrow> xs = ys"
  by (induction xs ys rule: memcmp.induct) auto

lemma memcmp_refl [simp]: "memcmp xs xs = 0"
  by simp

lemma memcmp_swap: "memcmp ys xs = - memcmp xs ys"
  by (induction xs ys rule: memcmp.induct) auto

lemma memcmp_trans: "memcmp xs ys \<le> 0 \<Longrightarrow> memcmp ys zs \<le> 0 \<Longrightarrow> memcmp xs zs \<le> 0"
proof (induction xs ys arbitrary: zs rule: memcmp.induct)
  case 1
  then show ?case by simp
next
  case (2 y ys)
  then show ?case by (cases zs) simp_all
next
  case (3 x xs)
  then show ?case by simp
next
  case (4 x xs y ys)
  then show ?case by (cases zs) (auto split: if_splits)
qed

instantiation CIpAddress :: linorder
begin

definition less_eq_CIpAddress :: "CIpAddress \<Rightarrow> CIpAddress \<Rightarrow> bool" where
  "less_eq_CIpAddress a b = (memcmp (m_addr a) (m_addr b) \<le> 0)"

definition less_CIpAddress :: "CIpAddress \<Rightarrow> CIpAddress \<Rightarrow> bool" where
  "less_CIpAddress a b = (memcmp (m_addr a) (m_addr b) < 0)"

instance
proof
  fix a b c :: CIpAddress
  show "a < b \<longleftrightarrow> a \<le> b \<and> \<not> b \<le> a"
    by (auto simp: less_CIpAddress_def less_eq_CIpAddress_def memcmp_swap [of "m_addr b" "m_addr a"])
  show "a \<le> a"
    by (simp add: less_eq_CIpAddress_def)
  show "a \<le> b \<Longrightarrow> b \<le> c \<Longrightarrow> a \<le> c"
    by (auto simp: less_eq_CIpAddress_def intro: memcmp_trans)
  show "a \<le> b \<Longrightarrow> b \<le> a \<Longrightarrow> a = b"
    using memcmp_zero_iff [of "m_addr a" "m_addr b"]
    by (auto simp: less_eq_CIpAddress_def memcmp_swap [of "m_addr b" "m_addr a"]
        intro: CIpAddress.expand)
  show "a \<le> b \<or> b \<le> a"
    by (auto simp: less_eq_CIpAddress_def memcmp_swap [of "m_addr b" "m_addr a"])
qed

end

subsection \<open>Lemmas\<close>

lemma ip_eq_iff [simp]: "ip_eq a b \<longleftrightarrow> a = b"
  by (auto simp: ip_eq_def intro: CIpAddress.expand)

lemma wf_CIpAddress_v4 [simp]: "wf_ip (CIpAddress_v4 a)"
  by (simp add: wf_ip_def CIpAddress_v4_def)

lemma wf_CIpAddress_v6 [simp]: "length bs = 16 \<Longrightarrow> wf_ip (CIpAddress_v6 bs)"
  by (simp add: wf_ip_def CIpAddress_v6_def)

lemma getIpv4_CIpAddress_v4 [simp]: "getIpv4 (CIpAddress_v4 a) = a"
  by (simp only: getIpv4_def CIpAddress_v4_def bytes_of_u32_def)
     (simp add: u32_of_bytes [of a, simplified])

lemma isV4_CIpAddress_v4 [simp]: "isV4 (CIpAddress_v4 a)"
  by (simp add: isV4_def CIpAddress_v4_def eval_nat_numeral)

lemma CIpAddress_v4_inject [simp]: "CIpAddress_v4 a = CIpAddress_v4 b \<longleftrightarrow> a = b"
  by (metis getIpv4_CIpAddress_v4)

subsection \<open>Properties\<close>

text \<open>Four bytes in network order.\<close>

definition be32 :: "u8 \<Rightarrow> u8 \<Rightarrow> u8 \<Rightarrow> u8 \<Rightarrow> u32" where
  "be32 b0 b1 b2 b3 = push_bit 24 (ucast b0) OR push_bit 16 (ucast b1) OR push_bit 8 (ucast b2) OR ucast b3"

lemma bit_u8_beyond: "8 \<le> n \<Longrightarrow> \<not> bit (b :: u8) n"
  using bit_imp_le_length [of b n] by auto

lemma be32_byte1: "k < 8 \<Longrightarrow> bit (be32 b0 b1 b2 b3) (16 + k) = bit b1 k"
  by (simp add: be32_def bit_simps bit_u8_beyond)

lemma be32_inj_byte1:
  assumes "be32 b0 b1 b2 b3 = be32 c0 c1 c2 c3"
  shows "b1 = c1"
proof (rule bit_word_eqI)
  fix k assume "k < LENGTH(8)"
  then show "bit b1 k = bit c1 k"
    using arg_cong [OF assms, of "\<lambda>w. bit w (16 + k)"] be32_byte1 [of k] by simp
qed

text \<open>
  \<^verbatim>\<open>getQuad\<close> does not read a group of four address bytes in network order: the two middle
  bytes are exchanged, so that the result is the network-order value exactly when they are equal.
\<close>

theorem getQuad_exchanges_middle_bytes:
  assumes "0 \<le> i" and "i \<le> 3"
  shows "getQuad a i = be32 (m_addr a ! (nat i * 4)) (m_addr a ! (nat i * 4 + 2))
       (m_addr a ! (nat i * 4 + 1)) (m_addr a ! (nat i * 4 + 3)) \<and>
     (getQuad a i = be32 (m_addr a ! (nat i * 4)) (m_addr a ! (nat i * 4 + 1))
       (m_addr a ! (nat i * 4 + 2)) (m_addr a ! (nat i * 4 + 3))
      \<longleftrightarrow> m_addr a ! (nat i * 4 + 1) = m_addr a ! (nat i * 4 + 2))"
proof -
  have q: "getQuad a i = be32 (m_addr a ! (nat i * 4)) (m_addr a ! (nat i * 4 + 2))
      (m_addr a ! (nat i * 4 + 1)) (m_addr a ! (nat i * 4 + 3))"
    using assms by (simp add: getQuad_def be32_def)
  show ?thesis
    unfolding q by (auto dest: be32_inj_byte1)
qed

theorem getQuad_exchanges_middle_bytes_witness:
  "getQuad (CIpAddress_v4 0x0200000A) 0 = be32 10 0 0 2 \<and> getQuad (CIpAddress_v4 0x04030201) 0 \<noteq> be32 1 2 3 4"
proof -
  have addr: "m_addr (CIpAddress_v4 0x0200000A) = [10, 0, 0, 2] @ replicate 12 0"
    "m_addr (CIpAddress_v4 0x04030201) = [1, 2, 3, 4] @ replicate 12 0"
    by (code_simp, code_simp)
  show ?thesis
    using getQuad_exchanges_middle_bytes [of 0 "CIpAddress_v4 0x0200000A"]
      getQuad_exchanges_middle_bytes [of 0 "CIpAddress_v4 0x04030201"]
    unfolding addr by simp metis
qed

end
