(* ===== verification/KF_Packet.thy ===== *)
theory KF_Packet
  imports KF_IpAddress
begin

section \<open>Packet headers and the views of layers 2 to 4\<close>

text \<open>
  The structs of \<^verbatim>\<open>packet_def.hpp\<close> as accessors over the captured bytes, and the three
  classes \<^verbatim>\<open>CL2Info\<close>, \<^verbatim>\<open>CL3Info\<close> and \<^verbatim>\<open>CL4Info\<close> that hold what the decoder
  has found so far. A pointer into the packet is an offset into the captured bytes, and a read that
  leaves them is the fault \<open>OutOfBounds\<close>.
\<close>

subsection \<open>Constants\<close>

definition ETHERTYPE_VLAN :: u16 where "ETHERTYPE_VLAN = 0x8100"
definition ETHERTYPE_MPLS :: u16 where "ETHERTYPE_MPLS = 0x8847"

definition NULL_HDRLEN :: nat where "NULL_HDRLEN = 4"
definition PPP_HDRLEN :: nat where "PPP_HDRLEN = 4"
definition SLL_HDR_LEN :: nat where "SLL_HDR_LEN = 16"

definition IPPROTO_TCP :: u8 where "IPPROTO_TCP = 6"
definition IPPROTO_UDP :: u8 where "IPPROTO_UDP = 17"

definition DLT_NULL :: int where "DLT_NULL = 0"
definition DLT_EN10MB :: int where "DLT_EN10MB = 1"
definition DLT_IEEE802 :: int where "DLT_IEEE802 = 6"
definition DLT_PPP :: int where "DLT_PPP = 9"
definition DLT_RAW :: int where "DLT_RAW = 101"
definition DLT_LINUX_SLL :: int where "DLT_LINUX_SLL = 113"

definition IP_OFFMASK :: u16 where "IP_OFFMASK = 0x1fff"

definition TH_FIN :: u8 where "TH_FIN = 0x01"
definition TH_SYN :: u8 where "TH_SYN = 0x02"
definition TH_RST :: u8 where "TH_RST = 0x04"
definition TH_PUSH :: u8 where "TH_PUSH = 0x08"
definition TH_ACK :: u8 where "TH_ACK = 0x10"
definition TH_URG :: u8 where "TH_URG = 0x20"

definition FLAG_SET :: "u8 \<Rightarrow> u8 \<Rightarrow> bool" where
  "FLAG_SET vector flag = (vector AND flag \<noteq> 0)"

text \<open>Address families of the BSD loopback header, from the system headers.\<close>

definition AF_INET :: u32 where "AF_INET = 2"
definition AF_INET6 :: u32 where "AF_INET6 = 10"

subsection \<open>Header fields\<close>

definition sizeof_ether_header :: nat where "sizeof_ether_header = 14"
definition sizeof_ip4_hdr :: nat where "sizeof_ip4_hdr = 20"
definition sizeof_ip6_hdr :: nat where "sizeof_ip6_hdr = 40"
definition sizeof_tcphdr :: nat where "sizeof_tcphdr = 20"

definition ether_type :: "u8 list \<Rightarrow> nat \<Rightarrow> u16 res" where
  "ether_type mem p = ld16 mem (p + 12)"

definition sll_protocol :: "u8 list \<Rightarrow> nat \<Rightarrow> u16 res" where
  "sll_protocol mem p = ld16 mem (p + 14)"

definition ip_hl :: "u8 list \<Rightarrow> nat \<Rightarrow> u8 res" where
  "ip_hl mem p = rbind (rd8 mem p) (\<lambda>b. Inr (b AND 15))"

definition ip_v :: "u8 list \<Rightarrow> nat \<Rightarrow> u8 res" where
  "ip_v mem p = rbind (rd8 mem p) (\<lambda>b. Inr (drop_bit 4 b))"

definition ip_len :: "u8 list \<Rightarrow> nat \<Rightarrow> u16 res" where
  "ip_len mem p = ld16 mem (p + 2)"

definition ip_id :: "u8 list \<Rightarrow> nat \<Rightarrow> u16 res" where
  "ip_id mem p = ld16 mem (p + 4)"

definition ip_off :: "u8 list \<Rightarrow> nat \<Rightarrow> u16 res" where
  "ip_off mem p = ld16 mem (p + 6)"

definition ip_p :: "u8 list \<Rightarrow> nat \<Rightarrow> u8 res" where
  "ip_p mem p = rd8 mem (p + 9)"

definition ip_src :: "u8 list \<Rightarrow> nat \<Rightarrow> u32 res" where
  "ip_src mem p = ld32 mem (p + 12)"

definition ip_dst :: "u8 list \<Rightarrow> nat \<Rightarrow> u32 res" where
  "ip_dst mem p = ld32 mem (p + 16)"

definition ip6_un1_plen :: "u8 list \<Rightarrow> nat \<Rightarrow> u16 res" where
  "ip6_un1_plen mem p = ld16 mem (p + 4)"

definition ip6_un1_nxt :: "u8 list \<Rightarrow> nat \<Rightarrow> u8 res" where
  "ip6_un1_nxt mem p = rd8 mem (p + 6)"

definition ip6_src :: "u8 list \<Rightarrow> nat \<Rightarrow> u8 list res" where
  "ip6_src mem p = rdn mem (p + 8) 16"

definition ip6_dst :: "u8 list \<Rightarrow> nat \<Rightarrow> u8 list res" where
  "ip6_dst mem p = rdn mem (p + 24) 16"

definition th_sport :: "u8 list \<Rightarrow> nat \<Rightarrow> u16 res" where
  "th_sport mem p = ld16 mem p"

definition th_dport :: "u8 list \<Rightarrow> nat \<Rightarrow> u16 res" where
  "th_dport mem p = ld16 mem (p + 2)"

definition th_seq :: "u8 list \<Rightarrow> nat \<Rightarrow> u32 res" where
  "th_seq mem p = ld32 mem (p + 4)"

definition th_ack :: "u8 list \<Rightarrow> nat \<Rightarrow> u32 res" where
  "th_ack mem p = ld32 mem (p + 8)"

definition th_off :: "u8 list \<Rightarrow> nat \<Rightarrow> u8 res" where
  "th_off mem p = rbind (rd8 mem (p + 12)) (\<lambda>b. Inr (drop_bit 4 b))"

definition th_flags :: "u8 list \<Rightarrow> nat \<Rightarrow> u8 res" where
  "th_flags mem p = rd8 mem (p + 13)"

lemmas hdr_defs = ether_type_def sll_protocol_def ip_hl_def ip_v_def ip_len_def ip_id_def
  ip_off_def ip_p_def ip_src_def ip_dst_def ip6_un1_plen_def ip6_un1_nxt_def ip6_src_def
  ip6_dst_def th_sport_def th_dport_def th_seq_def th_ack_def th_off_def th_flags_def

lemmas hdr_sizes = sizeof_ether_header_def sizeof_ip4_hdr_def sizeof_ip6_hdr_def
  sizeof_tcphdr_def NULL_HDRLEN_def PPP_HDRLEN_def SLL_HDR_LEN_def

subsection \<open>CL2Info\<close>

record pcap_pkthdr =
  ts_sec :: int
  caplen :: u32
  pkt_len :: u32

record CL2Info =
  m_pcapHdr :: pcap_pkthdr
  m_pcapData :: "u8 list"
  m_L3Data :: nat
  m_L3Datalen :: nat
  m_pcapDlt :: int

definition mk_CL2Info :: "pcap_pkthdr \<Rightarrow> u8 list \<Rightarrow> nat \<Rightarrow> nat \<Rightarrow> int \<Rightarrow> CL2Info" where
  "mk_CL2Info header pcapData ipHeader ipdataLen type =
     \<lparr>m_pcapHdr = header, m_pcapData = pcapData, m_L3Data = ipHeader,
      m_L3Datalen = ipdataLen, m_pcapDlt = type\<rparr>"

definition getIpVersion :: "CL2Info \<Rightarrow> int res" where
  "getIpVersion l2 =
     (if sizeof_ip4_hdr \<le> m_L3Datalen l2 then
        rbind (ip_v (m_pcapData l2) (m_L3Data l2)) (\<lambda>v. Inr (uint v))
      else Inr 0)"

definition nshort :: "u8 list \<Rightarrow> nat \<Rightarrow> u16 res" where
  "nshort buf pos =
     rbind (rd8 buf pos) (\<lambda>b0.
     rbind (rd8 buf (pos + 1)) (\<lambda>b1.
     Inr (push_bit 8 (ucast b0) OR ucast b1)))"

definition getEtherType :: "CL2Info \<Rightarrow> u16 res" where
  "getEtherType l2 =
     (if m_pcapDlt l2 = DLT_IEEE802 \<or> m_pcapDlt l2 = DLT_EN10MB then
        rbind (ether_type (m_pcapData l2) 0) (\<lambda>t. Inr (ntohs t))
      else Inr 0)"

definition getVlan :: "CL2Info \<Rightarrow> int res" where
  "getVlan l2 =
     rbind (getEtherType l2) (\<lambda>t.
       if t = ETHERTYPE_VLAN then
         rbind (nshort (m_pcapData l2) sizeof_ether_header) (\<lambda>v. Inr (uint v))
       else Inr (- 1))"

subsection \<open>CL3Info\<close>

record CL3Info =
  m_pL2Info :: CL2Info
  m_L4Data :: nat
  m_L4Datalen :: nat
  m_src :: CIpAddress
  m_dst :: CIpAddress
  m_payloadProtocol :: u8
  m_id :: "u16 option"

text \<open>The identification field is written for IPv4 only, hence the option.\<close>

definition mk_CL3Info :: "CL2Info \<Rightarrow> nat \<Rightarrow> nat \<Rightarrow> CIpAddress \<Rightarrow> CIpAddress \<Rightarrow> CL3Info res" where
  "mk_CL3Info l2 l4Data l4Len src dst =
     rbind (getIpVersion l2) (\<lambda>v.
       if v = 4 then
         rbind (ip_p (m_pcapData l2) (m_L3Data l2)) (\<lambda>proto.
         rbind (ip_id (m_pcapData l2) (m_L3Data l2)) (\<lambda>i.
         Inr \<lparr>m_pL2Info = l2, m_L4Data = l4Data, m_L4Datalen = l4Len, m_src = src, m_dst = dst,
              m_payloadProtocol = proto, m_id = Some i\<rparr>))
       else if v = 6 then
         rbind (ip6_un1_nxt (m_pcapData l2) (m_L3Data l2)) (\<lambda>proto.
         Inr \<lparr>m_pL2Info = l2, m_L4Data = l4Data, m_L4Datalen = l4Len, m_src = src, m_dst = dst,
              m_payloadProtocol = proto, m_id = None\<rparr>)
       else
         Inr \<lparr>m_pL2Info = l2, m_L4Data = l4Data, m_L4Datalen = l4Len, m_src = src, m_dst = dst,
              m_payloadProtocol = 0, m_id = None\<rparr>)"

subsection \<open>CL4Info\<close>

text \<open>
  The payload is a pointer and a length; nothing here checks that the range lies inside the captured
  bytes, so a copy of the payload may fault later.
\<close>

record CL4Info =
  m_pL3Info :: CL3Info
  m_L5Data :: nat
  m_L5Datalen :: nat
  m_srcPort :: u16
  m_dstPort :: u16
  m_seqNum :: u32
  m_ackNum :: u32
  m_synSet :: bool
  m_ackSet :: bool
  m_finSet :: bool
  m_rstSet :: bool
  m_pushSet :: bool
  m_urgSet :: bool
  m_ackPacket :: bool

definition mk_CL4Info :: "CL3Info \<Rightarrow> nat \<Rightarrow> nat \<Rightarrow> u16 \<Rightarrow> u16 \<Rightarrow> CL4Info res" where
  "mk_CL4Info l3 l5Data l5Len srcPort dstPort =
     (let mem = m_pcapData (m_pL2Info l3); p = m_L4Data l3 in
      rbind (th_seq mem p) (\<lambda>sq.
      rbind (th_ack mem p) (\<lambda>ak.
      rbind (th_flags mem p) (\<lambda>fl.
      Inr \<lparr>m_pL3Info = l3, m_L5Data = l5Data, m_L5Datalen = l5Len,
           m_srcPort = srcPort, m_dstPort = dstPort,
           m_seqNum = ntohl sq, m_ackNum = ntohl ak,
           m_synSet = FLAG_SET fl TH_SYN, m_ackSet = FLAG_SET fl TH_ACK,
           m_finSet = FLAG_SET fl TH_FIN, m_rstSet = FLAG_SET fl TH_RST,
           m_pushSet = FLAG_SET fl TH_PUSH, m_urgSet = FLAG_SET fl TH_URG,
           m_ackPacket = (l5Len = 0 \<and> \<not> FLAG_SET fl (NOT TH_ACK))\<rparr>))))"

end
