(* ===== verification/KF_SessionId.thy ===== *)
theory KF_SessionId
  imports KF_Packet
begin

section \<open>CTcpSessionId: the key of a connection\<close>

text \<open>
  A session identifier is the two endpoints of a connection. Its equality ignores the direction, so
  that the packets of both directions find the same session; the hash must therefore ignore it too.
  The contract between a key type and \<^verbatim>\<open>std::unordered_map\<close> is the locale \<open>hashed_key\<close>,
  and the map operations the pool uses are proved correct from it.
\<close>

subsection \<open>Data and operations\<close>

record CTcpSessionId =
  m_srcIp :: CIpAddress
  m_srcPort_id :: u16
  m_dstIp :: CIpAddress
  m_dstPort_id :: u16

definition mk_CTcpSessionId :: "CIpAddress \<Rightarrow> u16 \<Rightarrow> CIpAddress \<Rightarrow> u16 \<Rightarrow> CTcpSessionId" where
  "mk_CTcpSessionId srcIp srcPort dstIp dstPort =
     \<lparr>m_srcIp = srcIp, m_srcPort_id = srcPort, m_dstIp = dstIp, m_dstPort_id = dstPort\<rparr>"

definition getHash :: "CTcpSessionId \<Rightarrow> u64" where
  "getHash k =
     (getFoldValue (m_srcIp k) + getFoldValue (m_dstIp k)) XOR
     (ucast (m_srcPort_id k) + ucast (m_dstPort_id k))"

definition sessEqual :: "CTcpSessionId \<Rightarrow> CTcpSessionId \<Rightarrow> bool" where
  "sessEqual a b =
     (if ip_eq (m_srcIp a) (m_srcIp b) \<and> m_srcPort_id a = m_srcPort_id b \<and>
         ip_eq (m_dstIp a) (m_dstIp b) \<and> m_dstPort_id a = m_dstPort_id b then True
      else if ip_eq (m_srcIp a) (m_dstIp b) \<and> m_srcPort_id a = m_dstPort_id b \<and>
         ip_eq (m_dstIp a) (m_srcIp b) \<and> m_dstPort_id a = m_srcPort_id b then True
      else False)"

text \<open>The two overloads of \<^verbatim>\<open>getIdStr\<close> have the same body.\<close>

definition show_addr_bytes :: "nat \<Rightarrow> CIpAddress \<Rightarrow> string" where
  "show_addr_bytes loop a = concat (map (\<lambda>i. show_nat (unat (m_addr a ! i)) @ ''.'') [0..<loop])"

definition getIdStr :: "CTcpSessionId \<Rightarrow> string" where
  "getIdStr k =
     (let loop = (if isV4 (m_srcIp k) \<and> isV4 (m_dstIp k) then 4 else 16) in
      show_addr_bytes loop (m_srcIp k) @ show_nat (unat (m_srcPort_id k)) @ ''-'' @
      show_addr_bytes loop (m_dstIp k) @ show_nat (unat (m_dstPort_id k)))"

text \<open>The identifier of the opposite direction.\<close>

definition reverse_id :: "CTcpSessionId \<Rightarrow> CTcpSessionId" where
  "reverse_id k = mk_CTcpSessionId (m_dstIp k) (m_dstPort_id k) (m_srcIp k) (m_srcPort_id k)"

subsection \<open>The contract of a hashed key, and the map operations\<close>

text \<open>
  \<^verbatim>\<open>find\<close>, \<^verbatim>\<open>operator[]=\<close> and \<^verbatim>\<open>erase\<close> of an unordered map with user-supplied
  hash and equality. The map is the list of its entries in iteration order; a lookup only sees
  entries whose hash agrees. \<open>umap_insert\<close> keeps the stored key of an existing entry, as
  \<^verbatim>\<open>operator[]\<close> does, and a new entry may stand anywhere in the iteration order; the
  statements below hold for every list, hence for every order.
\<close>

definition umap_find :: "('k \<Rightarrow> u64) \<Rightarrow> ('k \<Rightarrow> 'k \<Rightarrow> bool) \<Rightarrow> 'k \<Rightarrow> ('k \<times> 'v) list \<Rightarrow> 'v option" where
  "umap_find h eq k m = map_option snd (List.find (\<lambda>(k', _). h k' = h k \<and> eq k k') m)"

primrec umap_insert ::
  "('k \<Rightarrow> u64) \<Rightarrow> ('k \<Rightarrow> 'k \<Rightarrow> bool) \<Rightarrow> 'k \<Rightarrow> 'v \<Rightarrow> ('k \<times> 'v) list \<Rightarrow> ('k \<times> 'v) list" where
  "umap_insert h eq k v [] = [(k, v)]"
| "umap_insert h eq k v (e # es) =
     (if h (fst e) = h k \<and> eq k (fst e) then (fst e, v) # es else e # umap_insert h eq k v es)"

primrec umap_erase ::
  "('k \<Rightarrow> u64) \<Rightarrow> ('k \<Rightarrow> 'k \<Rightarrow> bool) \<Rightarrow> 'k \<Rightarrow> ('k \<times> 'v) list \<Rightarrow> ('k \<times> 'v) list" where
  "umap_erase h eq k [] = []"
| "umap_erase h eq k (e # es) =
     (if h (fst e) = h k \<and> eq k (fst e) then es else e # umap_erase h eq k es)"

text \<open>No two entries of a well-formed map have equal keys.\<close>

primrec umap_wf :: "('k \<Rightarrow> 'k \<Rightarrow> bool) \<Rightarrow> ('k \<times> 'v) list \<Rightarrow> bool" where
  "umap_wf eq [] = True"
| "umap_wf eq (e # es) = ((\<forall>e' \<in> set es. \<not> eq (fst e) (fst e')) \<and> umap_wf eq es)"

locale hashed_key =
  fixes h :: "'k \<Rightarrow> u64"
    and eq :: "'k \<Rightarrow> 'k \<Rightarrow> bool"
  assumes eq_refl: "eq a a"
    and eq_sym: "eq a b \<Longrightarrow> eq b a"
    and eq_trans: "eq a b \<Longrightarrow> eq b c \<Longrightarrow> eq a c"
    and eq_hash: "eq a b \<Longrightarrow> h a = h b"
begin

lemma find_Nil [simp]: "umap_find h eq k [] = None"
  by (simp add: umap_find_def)

lemma find_Cons:
  "umap_find h eq k (e # es) = (if eq k (fst e) then Some (snd e) else umap_find h eq k es)"
  using eq_hash [of k "fst e"] by (auto simp: umap_find_def split: prod.splits)

text \<open>A lookup does not depend on which of several equal keys is asked for.\<close>

lemma find_cong: "eq j k \<Longrightarrow> umap_find h eq j m = umap_find h eq k m"
  by (induction m) (auto simp: find_Cons intro: eq_sym eq_trans)

lemma insert_Cons:
  "umap_insert h eq k v (e # es) =
     (if eq k (fst e) then (fst e, v) # es else e # umap_insert h eq k v es)"
  using eq_hash [of k "fst e"] by auto

lemma erase_Cons:
  "umap_erase h eq k (e # es) = (if eq k (fst e) then es else e # umap_erase h eq k es)"
  using eq_hash [of k "fst e"] by auto

lemma find_insert:
  "umap_find h eq j (umap_insert h eq k v m) = (if eq j k then Some v else umap_find h eq j m)"
proof (induction m)
  case Nil
  then show ?case by (simp add: find_Cons)
next
  case (Cons e es)
  show ?case
  proof (cases "eq k (fst e)")
    case True
    then have "eq j (fst e) \<longleftrightarrow> eq j k"
      using eq_trans eq_sym by blast
    then show ?thesis
      using True by (simp del: umap_insert.simps add: insert_Cons find_Cons)
  next
    case False
    have "\<not> (eq j (fst e) \<and> eq j k)"
      using False eq_trans eq_sym by blast
    then show ?thesis
      using False Cons.IH by (auto simp del: umap_insert.simps simp add: insert_Cons find_Cons)
  qed
qed

lemma find_NoneD: "umap_find h eq k m = None \<Longrightarrow> e \<in> set m \<Longrightarrow> \<not> eq k (fst e)"
  by (induction m) (auto simp: find_Cons split: if_splits)

lemma find_SomeD: "umap_find h eq k m = Some v \<Longrightarrow> \<exists>k'. (k', v) \<in> set m \<and> eq k k'"
  by (induction m) (auto simp: find_Cons split: if_splits)

lemma find_Some_iff:
  "umap_wf eq m \<Longrightarrow> umap_find h eq k m = Some v \<longleftrightarrow> (\<exists>k'. (k', v) \<in> set m \<and> eq k k')"
proof (induction m)
  case Nil
  then show ?case by simp
next
  case (Cons e es)
  show ?case
  proof (cases "eq k (fst e)")
    case True
    have "\<not> eq k k'" if "(k', w) \<in> set es" for k' w
    proof
      assume "eq k k'"
      with True have "eq (fst e) k'" using eq_sym eq_trans by blast
      with Cons.prems that show False by force
    qed
    with True show ?thesis by (cases e) (auto simp: find_Cons)
  next
    case False
    with Cons show ?thesis by (cases e) (auto simp: find_Cons)
  qed
qed

lemma find_erase:
  assumes "umap_wf eq m"
  shows "umap_find h eq j (umap_erase h eq k m) = (if eq j k then None else umap_find h eq j m)"
  using assms
proof (induction m)
  case Nil
  then show ?case by simp
next
  case (Cons e es)
  show ?case
  proof (cases "eq k (fst e)")
    case True
    have "umap_find h eq j es = None" if "eq j k"
    proof (rule ccontr)
      assume "umap_find h eq j es \<noteq> None"
      then obtain v k' where "(k', v) \<in> set es" and "eq j k'"
        using find_SomeD by fastforce
      moreover from this have "eq (fst e) k'"
        using True that eq_sym eq_trans by blast
      ultimately show False using Cons.prems by force
    qed
    moreover have "eq j (fst e) \<longleftrightarrow> eq j k"
      using True eq_sym eq_trans by blast
    ultimately show ?thesis
      using True by (simp del: umap_erase.simps add: erase_Cons find_Cons)
  next
    case False
    have "\<not> (eq j (fst e) \<and> eq j k)"
      using False eq_trans eq_sym by blast
    then show ?thesis
      using False Cons by (auto simp del: umap_erase.simps simp add: erase_Cons find_Cons)
  qed
qed

lemma set_insert_fresh:
  "umap_find h eq k m = None \<Longrightarrow> set (umap_insert h eq k v m) = insert (k, v) (set m)"
proof (induction m)
  case Nil
  then show ?case by simp
next
  case (Cons e es)
  then have "\<not> eq k (fst e)" "umap_find h eq k es = None"
    by (auto simp: find_Cons split: if_splits)
  with Cons.IH show ?case
    by (auto simp del: umap_insert.simps simp add: insert_Cons)
qed

lemma wf_insert_fresh:
  "umap_wf eq m \<Longrightarrow> umap_find h eq k m = None \<Longrightarrow> umap_wf eq (umap_insert h eq k v m)"
proof (induction m)
  case Nil
  then show ?case by simp
next
  case (Cons e es)
  then have ne: "\<not> eq k (fst e)" and none: "umap_find h eq k es = None"
    by (auto simp: find_Cons split: if_splits)
  then have "\<not> eq (fst e) k" using eq_sym by blast
  with ne none Cons show ?case
    by (auto simp del: umap_insert.simps simp add: insert_Cons set_insert_fresh)
qed

lemma set_erase_subset: "set (umap_erase h eq k m) \<subseteq> set m"
  by (induction m) (auto simp del: umap_erase.simps(2) simp add: erase_Cons)

lemma wf_erase: "umap_wf eq m \<Longrightarrow> umap_wf eq (umap_erase h eq k m)"
proof (induction m)
  case Nil
  then show ?case by simp
next
  case (Cons e es)
  then show ?case
    using set_erase_subset [of k es]
    by (auto simp del: umap_erase.simps(2) simp add: erase_Cons)
qed

text \<open>Where a found entry stands, and where a fresh one is put.\<close>

lemma find_split:
  assumes "umap_find h eq k m = Some v"
  obtains xs k' ys where "m = xs @ (k', v) # ys" and "eq k k'" and "umap_erase h eq k m = xs @ ys"
  using assms
proof (induction m arbitrary: thesis)
  case Nil
  then show ?case by simp
next
  case (Cons e es)
  show ?case
  proof (cases "eq k (fst e)")
    case True
    then show ?thesis
      using Cons.prems(1) [of "[]" "fst e" es] Cons.prems(2)
      by (auto simp: find_Cons erase_Cons simp del: umap_erase.simps)
  next
    case False
    then obtain xs k' ys where "es = xs @ (k', v) # ys" "eq k k'" "umap_erase h eq k es = xs @ ys"
      using Cons.IH Cons.prems(2) by (auto simp: find_Cons)
    then show ?thesis
      using Cons.prems(1) [of "e # xs" k' ys] False by (simp add: erase_Cons del: umap_erase.simps)
  qed
qed

lemma insert_fresh: "umap_find h eq k m = None \<Longrightarrow> umap_insert h eq k v m = m @ [(k, v)]"
  by (induction m) (auto simp: find_Cons insert_Cons simp del: umap_insert.simps(2) split: if_splits)

lemma set_erase:
  "umap_wf eq m \<Longrightarrow> set (umap_erase h eq k m) = {e \<in> set m. \<not> eq k (fst e)}"
proof (induction m)
  case Nil
  then show ?case by simp
next
  case (Cons e es)
  have "\<not> eq k (fst e')" if "eq k (fst e)" "e' \<in> set es" for e'
    using that Cons.prems eq_sym eq_trans by (metis umap_wf.simps(2))
  with Cons show ?case
    by (auto simp del: umap_erase.simps(2) simp add: erase_Cons)
qed

end

subsection \<open>The session identifier satisfies the contract\<close>

lemma sessEqual_iff:
  "sessEqual a b \<longleftrightarrow> a = b \<or> a = reverse_id b"
  by (cases a; cases b) (auto simp: sessEqual_def reverse_id_def mk_CTcpSessionId_def)

lemma reverse_id_invol [simp]: "reverse_id (reverse_id k) = k"
  by (simp add: reverse_id_def mk_CTcpSessionId_def)

lemma getHash_reverse [simp]: "getHash (reverse_id k) = getHash k"
  by (simp add: getHash_def reverse_id_def mk_CTcpSessionId_def add.commute)

interpretation sid: hashed_key getHash sessEqual
proof unfold_locales
  fix a b c :: CTcpSessionId
  show "sessEqual a a" by (simp add: sessEqual_iff)
  show "sessEqual a b \<Longrightarrow> sessEqual b a" by (auto simp: sessEqual_iff)
  show "sessEqual a b \<Longrightarrow> sessEqual b c \<Longrightarrow> sessEqual a c" by (auto simp: sessEqual_iff)
  show "sessEqual a b \<Longrightarrow> getHash a = getHash b" by (auto simp: sessEqual_iff)
qed

subsection \<open>Properties\<close>

text \<open>
  C28. The key contract of \<^verbatim>\<open>std::unordered_map\<close>. Equality of session identifiers holds exactly
  for the same connection seen from either end; it is an equivalence; and equal identifiers have
  equal hash values, without which one direction of a connection would not be found.
\<close>

theorem session_key_contract:
  "(sessEqual a b \<longleftrightarrow> a = b \<or> a = reverse_id b) \<and> sessEqual a a \<and> (sessEqual a b = sessEqual b a) \<and>
   getHash (reverse_id a) = getHash a \<and> (getHash a \<noteq> getHash b \<longrightarrow> \<not> sessEqual a b)"
  using sessEqual_iff [of a b] sid.eq_refl [of a] sid.eq_sym [of a b] sid.eq_sym [of b a]
    sid.eq_hash [of a b] getHash_reverse [of a]
  by blast

theorem session_key_contract_witness:
  "\<not> sessEqual (mk_CTcpSessionId (CIpAddress_v4 1) 5000 (CIpAddress_v4 2) 80)
               (mk_CTcpSessionId (CIpAddress_v4 1) 5001 (CIpAddress_v4 2) 80)"
proof -
  have "getHash (mk_CTcpSessionId (CIpAddress_v4 1) 5000 (CIpAddress_v4 2) 80) \<noteq>
        getHash (mk_CTcpSessionId (CIpAddress_v4 1) 5001 (CIpAddress_v4 2) 80)"
    by code_simp
  then show ?thesis
    using session_key_contract [of "mk_CTcpSessionId (CIpAddress_v4 1) 5000 (CIpAddress_v4 2) 80"
        "mk_CTcpSessionId (CIpAddress_v4 1) 5001 (CIpAddress_v4 2) 80"] by blast
qed

end
