(* ===== verification/KF_SegBuf.thy ===== *)
theory KF_SegBuf
  imports KF_Prelude
begin

section \<open>CTcpSegBuf: reassembly of one direction of a connection\<close>

text \<open>
  The buffer holds the bytes from the sequence number \<open>m_start\<close> up to \<open>m_end\<close>; \<open>m_used\<close> marks
  what the active decoder has consumed. All three are 32-bit sequence numbers, and the size of a
  segment is a \<^verbatim>\<open>size_t\<close>: the sum \<^verbatim>\<open>seq + size\<close> is computed in 64 bits and cut to 32
  when it is stored.
\<close>

subsection \<open>Operations\<close>

record CTcpSegBuf =
  m_start :: u32
  m_end :: u32
  m_used :: u32
  m_buf :: string

definition CTcpSegBuf_init :: CTcpSegBuf where
  "CTcpSegBuf_init = \<lparr>m_start = 0, m_end = 0, m_used = 0, m_buf = []\<rparr>"

definition setStartSeq :: "u32 \<Rightarrow> CTcpSegBuf \<Rightarrow> CTcpSegBuf" where
  "setStartSeq seq b = b\<lparr>m_start := seq\<rparr>"

definition insertData :: "u32 \<Rightarrow> string \<Rightarrow> CTcpSegBuf \<Rightarrow> CTcpSegBuf res" where
  "insertData seq buf b =
     (let size = length buf;
          b1 = (if m_start b = 0 then b\<lparr>m_start := seq\<rparr> else b);
          b2 = (if unat (m_end b1) < unat seq + size then
                  (let e = of_nat (unat seq + size) :: u32 in
                   b1\<lparr>m_end := e, m_buf := str_resize (unat (e - m_start b1)) (m_buf b1)\<rparr>)
                else b1)
      in rbind (str_replace (unat (seq - m_start b2)) size buf (m_buf b2)) (\<lambda>s.
         Inr (b2\<lparr>m_buf := s\<rparr>)))"

definition dumpUnusedData :: "CTcpSegBuf \<Rightarrow> (string \<times> CTcpSegBuf) res" where
  "dumpUnusedData b =
     rbind (str_append_sub [] (m_buf b) (unat (m_used b - m_start b))
              (unat ((m_end b - m_start b) - (m_used b - m_start b)))) (\<lambda>out.
     Inr (out, b\<lparr>m_used := m_end b\<rparr>))"

definition getBuf :: "CTcpSegBuf \<Rightarrow> string" where
  "getBuf b = m_buf b"

definition setUsedPos :: "u32 \<Rightarrow> CTcpSegBuf \<Rightarrow> CTcpSegBuf" where
  "setUsedPos used b = b\<lparr>m_used := m_start b + used\<rparr>"

subsection \<open>What the buffer promises\<close>

text \<open>
  Writing \<open>d\<close> at offset \<open>i\<close>: bytes outside the written range stay, and a gap before it is filled
  with NUL characters.
\<close>

definition overlay :: "nat \<Rightarrow> string \<Rightarrow> string \<Rightarrow> string" where
  "overlay i d buf =
     map (\<lambda>k. if i \<le> k \<and> k < i + length d then d ! (k - i)
              else if k < length buf then buf ! k else NUL)
         [0..<max (length buf) (i + length d)]"

text \<open>
  The invariant of a buffer whose start is known: it is empty and \<open>m_end\<close> was never written, or
  \<open>m_end\<close> is \<open>m_start\<close> plus the length of the buffer and nothing has wrapped.
\<close>

definition seg_wf :: "CTcpSegBuf \<Rightarrow> bool" where
  "seg_wf b \<longleftrightarrow>
     m_start b \<noteq> 0 \<and>
     (m_end b = 0 \<and> m_buf b = [] \<or>
      unat (m_start b) + length (m_buf b) < 2 ^ 32 \<and>
      m_end b = m_start b + of_nat (length (m_buf b)))"

text \<open>A segment of a stream: an offset and a length.\<close>

type_synonym segment = "nat \<times> nat"

definition seg_data :: "string \<Rightarrow> segment \<Rightarrow> string" where
  "seg_data D sg = take (snd sg) (drop (fst sg) D)"

definition seg_in :: "string \<Rightarrow> segment \<Rightarrow> bool" where
  "seg_in D sg \<longleftrightarrow> 0 < snd sg \<and> fst sg + snd sg \<le> length D"

definition covered :: "segment list \<Rightarrow> nat \<Rightarrow> bool" where
  "covered segs k \<longleftrightarrow> (\<exists>sg \<in> set segs. fst sg \<le> k \<and> k < fst sg + snd sg)"

text \<open>Insert the segments of a stream that starts at sequence number \<open>s\<close>, in the given order.\<close>

definition insert_segments :: "u32 \<Rightarrow> string \<Rightarrow> segment list \<Rightarrow> CTcpSegBuf \<Rightarrow> CTcpSegBuf res" where
  "insert_segments s D = rfold (\<lambda>sg. insertData (s + of_nat (fst sg)) (seg_data D sg))"

text \<open>Insert and dump after each segment, as the active decoder does; the dumps are collected.\<close>

primrec feed ::
  "u32 \<Rightarrow> string \<Rightarrow> segment list \<Rightarrow> CTcpSegBuf \<Rightarrow> (string list \<times> CTcpSegBuf) res" where
  "feed s D [] b = Inr ([], b)"
| "feed s D (sg # segs) b =
     rbind (insertData (s + of_nat (fst sg)) (seg_data D sg) b) (\<lambda>b1.
     rbind (dumpUnusedData b1) (\<lambda>(out, b2).
     rbind (feed s D segs b2) (\<lambda>(outs, b3). Inr (out # outs, b3))))"

text \<open>Each segment starts at or before the end of what has arrived (no hole).\<close>

primrec gap_free :: "nat \<Rightarrow> segment list \<Rightarrow> bool" where
  "gap_free n [] = True"
| "gap_free n (sg # segs) = (fst sg \<le> n \<and> gap_free (max n (fst sg + snd sg)) segs)"

primrec reach_of :: "nat \<Rightarrow> segment list \<Rightarrow> nat" where
  "reach_of n [] = n"
| "reach_of n (sg # segs) = reach_of (max n (fst sg + snd sg)) segs"

subsection \<open>One insertion\<close>

lemma length_overlay [simp]: "length (overlay i d buf) = max (length buf) (i + length d)"
  by (simp add: overlay_def)

lemma nth_overlay:
  "k < max (length buf) (i + length d) \<Longrightarrow>
     overlay i d buf ! k =
       (if i \<le> k \<and> k < i + length d then d ! (k - i)
        else if k < length buf then buf ! k else NUL)"
  by (simp add: overlay_def)

lemma replace_resized:
  assumes "length buf \<le> n" and "n = i + length d"
  shows "str_replace i (length d) d (str_resize n buf) = Inr (overlay i d buf)"
  using assms by (auto simp: str_replace_def intro!: nth_equalityI
      simp: nth_append nth_overlay nth_str_resize)

lemma replace_inside:
  assumes "i + length d \<le> length buf"
  shows "str_replace i (length d) d buf = Inr (overlay i d buf)"
  using assms by (auto simp: str_replace_def intro!: nth_equalityI
      simp: nth_append nth_overlay max_def)

lemma unat_add_nowrap:
  "unat (s :: u32) + n < 2 ^ 32 \<Longrightarrow> unat (s + of_nat n) = unat s + n"
  by (simp add: unat_word_ariths unat_of_nat)

lemma insertData_overlay:
  assumes wf: "seg_wf b" and fits: "unat (m_start b) + i + length d < 2 ^ 32" and ne: "d \<noteq> []"
  shows "insertData (m_start b + of_nat i) d b =
     Inr (b\<lparr>m_end := m_start b + of_nat (length (overlay i d (m_buf b))),
            m_buf := overlay i d (m_buf b)\<rparr>)"
proof -
  let ?s = "m_start b" and ?n = "i + length d"
  have s0: "?s \<noteq> 0" and cases: "m_end b = 0 \<and> m_buf b = [] \<or>
      unat ?s + length (m_buf b) < 2 ^ 32 \<and> m_end b = ?s + of_nat (length (m_buf b))"
    using wf by (auto simp: seg_wf_def)
  have seq: "unat (?s + of_nat i) = unat ?s + i"
    using fits by (intro unat_add_nowrap) simp
  have pos: "unat (of_nat i :: u32) = i"
    using fits by (simp add: unat_of_nat)
  have sum: "of_nat (unat (?s + of_nat i) + length d) = ?s + of_nat ?n"
    unfolding seq by (simp add: add.assoc)
  have len: "unat (of_nat i + of_nat (length d) :: u32) = ?n"
    using fits by (simp add: unat_word_ariths unat_of_nat)
  show ?thesis
  proof (cases "length (m_buf b) < ?n")
    case True
    have "unat (m_end b) < unat (?s + of_nat i) + length d"
      using cases True s0 ne unfolding seq by (auto simp: unat_add_nowrap unat_gt_0)
    moreover have "length (overlay i d (m_buf b)) = ?n"
      using True by simp
    ultimately show ?thesis
      using replace_resized [of "m_buf b" ?n i d] True s0
      by (simp only: insertData_def Let_def sum if_True if_False)
         (simp add: pos len add.assoc)
  next
    case False
    then have "m_buf b \<noteq> []"
      using ne by auto
    with cases have e: "unat ?s + length (m_buf b) < 2 ^ 32"
        "m_end b = ?s + of_nat (length (m_buf b))"
      by auto
    then have "unat (m_end b) = unat ?s + length (m_buf b)"
      by (simp add: unat_add_nowrap)
    then have "\<not> unat (m_end b) < unat (?s + of_nat i) + length d"
      using False unfolding seq by simp
    moreover have "length (overlay i d (m_buf b)) = length (m_buf b)"
      using False by simp
    ultimately show ?thesis
      using replace_inside [of i d "m_buf b"] False s0 e
      by (simp only: insertData_def Let_def if_False) (simp add: pos)
  qed
qed

lemma seg_wf_insertData:
  assumes "seg_wf b" and "unat (m_start b) + i + length d < 2 ^ 32" and "d \<noteq> []"
    and "unat (m_start b) + length (m_buf b) < 2 ^ 32"
  shows "seg_wf (b\<lparr>m_end := m_start b + of_nat (length (overlay i d (m_buf b))),
                   m_buf := overlay i d (m_buf b)\<rparr>)"
  using assms by (auto simp: seg_wf_def max_def)

subsection \<open>Any order of arrival\<close>

text \<open>The content of a buffer that has received the segments \<open>segs\<close> of the stream \<open>D\<close>.\<close>

definition assembled :: "string \<Rightarrow> segment list \<Rightarrow> string" where
  "assembled D segs =
     map (\<lambda>k. if covered segs k then D ! k else NUL) [0..<reach_of 0 segs]"

lemma reach_of_snoc: "reach_of n (segs @ [sg]) = max (reach_of n segs) (fst sg + snd sg)"
  by (induction segs arbitrary: n) auto

lemma reach_of_le: "n \<le> length D \<Longrightarrow> \<forall>sg \<in> set segs. seg_in D sg \<Longrightarrow> reach_of n segs \<le> length D"
  by (induction segs arbitrary: n) (auto simp: seg_in_def)

lemma reach_of_ge: "n \<le> reach_of n segs"
  by (induction segs arbitrary: n) (auto intro: le_trans [OF max.cobounded1])

lemma covered_snoc:
  "covered (segs @ [sg]) k \<longleftrightarrow> covered segs k \<or> fst sg \<le> k \<and> k < fst sg + snd sg"
  by (auto simp: covered_def)

lemma covered_less_reach: "covered segs k \<Longrightarrow> k < reach_of n segs"
proof (induction segs rule: rev_induct)
  case Nil
  then show ?case by (simp add: covered_def)
next
  case (snoc sg segs)
  then show ?case by (auto simp: covered_snoc reach_of_snoc)
qed

lemma length_seg_data: "seg_in D sg \<Longrightarrow> length (seg_data D sg) = snd sg"
  by (auto simp: seg_in_def seg_data_def)

lemma seg_data_nonempty: "seg_in D sg \<Longrightarrow> seg_data D sg \<noteq> []"
  by (auto simp: seg_in_def seg_data_def)

lemma overlay_assembled:
  assumes "seg_in D sg"
  shows "overlay (fst sg) (seg_data D sg) (assembled D segs) = assembled D (segs @ [sg])"
proof (rule nth_equalityI)
  show "length (overlay (fst sg) (seg_data D sg) (assembled D segs))
      = length (assembled D (segs @ [sg]))"
    using assms by (simp add: assembled_def length_seg_data reach_of_snoc)
next
  fix k
  assume k: "k < length (overlay (fst sg) (seg_data D sg) (assembled D segs))"
  have "seg_data D sg ! (k - fst sg) = D ! k" if "fst sg \<le> k" "k < fst sg + snd sg"
    using that assms by (simp add: seg_data_def seg_in_def)
  moreover have "k < reach_of 0 segs" if "covered segs k"
    using that by (rule covered_less_reach)
  ultimately show "overlay (fst sg) (seg_data D sg) (assembled D segs) ! k
      = assembled D (segs @ [sg]) ! k"
    using k assms
    by (auto simp: nth_overlay assembled_def length_seg_data reach_of_snoc covered_snoc)
qed

lemma insert_segments_assembled:
  assumes "s \<noteq> 0" and "unat s + length D < 2 ^ 32" and "\<forall>sg \<in> set segs. seg_in D sg"
    and "m_start b = s" and "m_end b = 0" and "m_buf b = []"
  shows "\<exists>b'. insert_segments s D segs b = Inr b' \<and> m_start b' = s \<and> m_used b' = m_used b
     \<and> m_buf b' = assembled D segs \<and> seg_wf b'"
  using assms(3)
proof (induction segs rule: rev_induct)
  case Nil
  show ?case
    using assms by (simp add: insert_segments_def assembled_def seg_wf_def)
next
  case (snoc sg segs)
  then obtain b' where b': "insert_segments s D segs b = Inr b'" "m_start b' = s"
      "m_used b' = m_used b" "m_buf b' = assembled D segs" "seg_wf b'"
    by auto
  have sg: "seg_in D sg" and segs: "\<forall>sg \<in> set segs. seg_in D sg"
    using snoc.prems by auto
  have le: "reach_of 0 segs \<le> length D"
    using segs by (intro reach_of_le) auto
  have fits: "unat (m_start b') + fst sg + length (seg_data D sg) < 2 ^ 32"
    using sg assms(2) b'(2) by (simp add: length_seg_data) (simp add: seg_in_def)
  have fits': "unat (m_start b') + length (m_buf b') < 2 ^ 32"
    using le assms(2) b' by (simp add: assembled_def)
  note ins = insertData_overlay [OF b'(5) fits seg_data_nonempty [OF sg]]
  note wf = seg_wf_insertData [OF b'(5) fits seg_data_nonempty [OF sg] fits']
  have "insert_segments s D (segs @ [sg]) b
      = insertData (m_start b' + of_nat (fst sg)) (seg_data D sg) b'"
    using b'(1,2) by (simp add: insert_segments_def rfold_snoc)
  with ins wf b' show ?case
    by (simp add: overlay_assembled [OF sg])
qed

subsection \<open>In-order arrival: every byte is handed to the decoder once\<close>

lemma dumpUnusedData_wf:
  assumes "m_end b = m_start b + of_nat (length (m_buf b))"
    and "unat (m_start b) + length (m_buf b) < 2 ^ 32"
    and "m_used b = m_start b + of_nat u" and "u \<le> length (m_buf b)"
  shows "dumpUnusedData b = Inr (drop u (m_buf b), b\<lparr>m_used := m_end b\<rparr>)"
proof -
  have u: "unat (of_nat u :: u32) = u" and e: "unat (of_nat (length (m_buf b)) :: u32) = length (m_buf b)"
    using assms(2,4) by (simp_all add: unat_of_nat)
  have "unat (of_nat (length (m_buf b)) - of_nat u :: u32) = length (m_buf b) - u"
    using assms(4) u e by (simp add: unat_sub word_le_nat_alt)
  then show ?thesis
    using assms(1,3,4) by (simp add: dumpUnusedData_def str_append_sub_def u)
qed

lemma overlay_prefix:
  assumes "seg_in D sg" and "fst sg \<le> n" and "n \<le> length D"
  shows "overlay (fst sg) (seg_data D sg) (take n D) = take (max n (fst sg + snd sg)) D"
proof (rule nth_equalityI)
  show "length (overlay (fst sg) (seg_data D sg) (take n D))
      = length (take (max n (fst sg + snd sg)) D)"
    using assms by (auto simp: length_seg_data) (auto simp: seg_in_def)
next
  fix k
  assume "k < length (overlay (fst sg) (seg_data D sg) (take n D))"
  moreover have "seg_data D sg ! (k - fst sg) = D ! k" if "fst sg \<le> k" "k < fst sg + snd sg"
    using that assms(1) by (simp add: seg_data_def seg_in_def)
  ultimately show "overlay (fst sg) (seg_data D sg) (take n D) ! k
      = take (max n (fst sg + snd sg)) D ! k"
    using assms by (auto simp: nth_overlay length_seg_data)
qed

lemma drop_take_glue:
  assumes "n \<le> m" and "m \<le> r" and "m \<le> length D"
  shows "drop n (take m D) @ drop m (take r D) = drop n (take r D)"
proof -
  have "take r D = take m D @ drop m (take r D)"
    using assms(2) by (metis append_take_drop_id min.absorb1 take_take)
  then have "drop n (take r D) = drop n (take m D @ drop m (take r D))"
    by simp
  also have "\<dots> = drop n (take m D) @ drop m (take r D)"
    using assms(1,3) by simp
  finally show ?thesis by simp
qed

lemma feed_gap_free:
  assumes "unat s + length D < 2 ^ 32" and "\<forall>sg \<in> set segs. seg_in D sg"
    and "gap_free n segs" and "n \<le> length D"
    and "seg_wf b" and "m_start b = s" and "m_buf b = take n D" and "m_used b = s + of_nat n"
  shows "\<exists>outs b'. feed s D segs b = Inr (outs, b') \<and> concat outs = drop n (take (reach_of n segs) D)
     \<and> m_buf b' = take (reach_of n segs) D"
  using assms(2-8)
proof (induction segs arbitrary: n b)
  case Nil
  then show ?case by simp
next
  case (Cons sg segs)
  let ?n = "max n (fst sg + snd sg)"
  have sg: "seg_in D sg" and segs: "\<forall>sg \<in> set segs. seg_in D sg"
    and gap: "fst sg \<le> n" "gap_free ?n segs"
    using Cons.prems by auto
  have le: "?n \<le> length D"
    using Cons.prems(3) sg by (simp add: seg_in_def)
  have blen: "length (m_buf b) = n"
    using Cons.prems by simp
  have fits: "unat (m_start b) + fst sg + length (seg_data D sg) < 2 ^ 32"
    using sg assms(1) Cons.prems(5) by (simp add: length_seg_data) (simp add: seg_in_def)
  have fits': "unat (m_start b) + length (m_buf b) < 2 ^ 32"
    using assms(1) Cons.prems(3,5) blen by simp
  define b1 where "b1 = b\<lparr>m_end := m_start b + of_nat (length (overlay (fst sg) (seg_data D sg) (m_buf b))),
       m_buf := overlay (fst sg) (seg_data D sg) (m_buf b)\<rparr>"
  have ins: "insertData (s + of_nat (fst sg)) (seg_data D sg) b = Inr b1"
    using insertData_overlay [OF Cons.prems(4) fits seg_data_nonempty [OF sg]] Cons.prems(5)
    by (simp add: b1_def)
  have wf: "seg_wf b1"
    unfolding b1_def by (rule seg_wf_insertData [OF Cons.prems(4) fits seg_data_nonempty [OF sg] fits'])
  have buf: "m_buf b1 = take ?n D"
    using overlay_prefix [OF sg gap(1) Cons.prems(3)] Cons.prems(6) by (simp add: b1_def)
  have blen1: "length (m_buf b1) = ?n"
    using le by (simp add: buf)
  have end1: "m_end b1 = m_start b1 + of_nat (length (m_buf b1))"
    by (simp add: b1_def)
  have dump: "dumpUnusedData b1 = Inr (drop n (m_buf b1), b1\<lparr>m_used := m_end b1\<rparr>)"
    using end1 blen1 Cons.prems(5,7) assms(1) le
    by (intro dumpUnusedData_wf) (auto simp: b1_def)
  obtain outs b' where rec: "feed s D segs (b1\<lparr>m_used := m_end b1\<rparr>) = Inr (outs, b')"
      and outs: "concat outs = drop ?n (take (reach_of ?n segs) D)"
      and fin: "m_buf b' = take (reach_of ?n segs) D"
  proof -
    have "seg_wf (b1\<lparr>m_used := m_end b1\<rparr>)"
      using wf by (simp add: seg_wf_def)
    moreover have "m_start b1 = s"
      using Cons.prems(5) by (simp add: b1_def)
    ultimately show ?thesis
      using Cons.IH [OF segs gap(2) le, of "b1\<lparr>m_used := m_end b1\<rparr>"] buf end1 blen1 that
      by auto
  qed
  have mono: "m \<le> reach_of m xs" for m xs
    by (rule reach_of_ge)
  have "drop n (m_buf b1) @ drop ?n (take (reach_of ?n segs) D) = drop n (take (reach_of ?n segs) D)"
    unfolding buf by (rule drop_take_glue) (use le mono in auto)
  with rec outs fin dump ins show ?case by simp
qed

subsection \<open>Properties\<close>

lemma assembled_full:
  assumes "\<forall>sg \<in> set segs. seg_in D sg" and "\<forall>k < length D. covered segs k"
  shows "assembled D segs = D"
proof -
  have "reach_of 0 segs \<le> length D"
    using assms(1) by (intro reach_of_le) auto
  moreover have "length D \<le> reach_of 0 segs"
    using assms(2) covered_less_reach by (metis le_less_linear less_irrefl)
  ultimately show ?thesis
    using assms(2) by (auto simp: assembled_def intro!: nth_equalityI)
qed

text \<open>
  C16. Reassembly. The segments of a byte stream may arrive in any order, overlap and repeat: once
  every byte has been covered, the buffer is the stream. The stream starts at the sequence number
  after the SYN and does not reach the end of the 32-bit sequence space.
\<close>

theorem reassembly_any_order:
  assumes "s \<noteq> 0" and "unat s + length D < 2 ^ 32"
    and "\<forall>sg \<in> set segs. seg_in D sg" and "\<forall>k < length D. covered segs k"
  shows "\<exists>b. insert_segments s D segs (setStartSeq s CTcpSegBuf_init) = Inr b \<and> getBuf b = D"
proof -
  have "m_start (setStartSeq s CTcpSegBuf_init) = s" "m_end (setStartSeq s CTcpSegBuf_init) = 0"
    "m_buf (setStartSeq s CTcpSegBuf_init) = []"
    by (simp_all add: setStartSeq_def CTcpSegBuf_init_def)
  from insert_segments_assembled [OF assms(1-3) this] show ?thesis
    using assembled_full [OF assms(3,4)] by (auto simp: getBuf_def)
qed

theorem reassembly_any_order_witness:
  "\<exists>b. insert_segments 1000 ''GET /a'' [(3, 3), (1, 4), (3, 3), (0, 2)]
        (setStartSeq 1000 CTcpSegBuf_init) = Inr b \<and> getBuf b = ''GET /a''"
proof (rule reassembly_any_order)
  show "\<forall>k < length ''GET /a''. covered [(3, 3), (1, 4), (3, 3), (0, 2)] k"
    by (simp add: covered_def) presburger
qed (simp_all add: seg_in_def)



text \<open>
  C31. A hole. When a segment arrives early, the dump hands the decoder NUL characters in place of
  the missing bytes; when the missing bytes arrive, they are stored, but the dump that follows is
  empty, so the active decoder never sees them.
\<close>

theorem hole_is_never_delivered:
  assumes "s \<noteq> 0" and "0 < h" and "length early = h + n" and "0 < n"
    and "unat s + h + n < 2 ^ 32"
  defines "b0 \<equiv> setUsedPos 0 (setStartSeq s CTcpSegBuf_init)"
  shows "\<exists>b1 b2. insertData (s + of_nat h) (drop h early) b0 = Inr b1
     \<and> dumpUnusedData b1 = Inr (replicate h NUL @ drop h early, b2)
     \<and> (\<exists>b3 b4. insertData s (take h early) b2 = Inr b3
        \<and> dumpUnusedData b3 = Inr ([], b4) \<and> getBuf b4 = early)"
proof -
  have b0: "seg_wf b0" "m_start b0 = s" "m_buf b0 = []" "m_used b0 = s"
    using assms(1) by (simp_all add: b0_def seg_wf_def setUsedPos_def setStartSeq_def CTcpSegBuf_init_def)
  let ?d = "drop h early"
  have len: "length ?d = n" "?d \<noteq> []" "length (take h early) = h" "take h early \<noteq> []"
    using assms(2-4) by auto
  have buf1: "overlay h ?d [] = replicate h NUL @ ?d"
    using len by (auto simp: nth_overlay nth_append intro!: nth_equalityI)
  define b1 where "b1 = b0\<lparr>m_end := s + of_nat (h + n), m_buf := replicate h NUL @ ?d\<rparr>"
  have ins1: "insertData (s + of_nat h) ?d b0 = Inr b1"
    using insertData_overlay [OF b0(1), of h ?d] assms(3,5) b0(2,3) len
    by (simp add: b1_def buf1)
  have dump1: "dumpUnusedData b1 = Inr (replicate h NUL @ ?d, b1\<lparr>m_used := m_end b1\<rparr>)"
    using dumpUnusedData_wf [of b1 0] b0 assms(3,5) len by (simp add: b1_def)
  define b2 where "b2 = b1\<lparr>m_used := m_end b1\<rparr>"
  have wf2: "seg_wf b2" and m2: "m_start b2 = s" "m_buf b2 = replicate h NUL @ ?d" "m_end b2 = s + of_nat (h + n)"
    using b0 assms(1,3,5) len by (auto simp: b2_def b1_def seg_wf_def)
  have buf2: "overlay 0 (take h early) (m_buf b2) = early"
    using assms(3) m2 by (auto simp: nth_overlay nth_append max_def intro!: nth_equalityI split: if_splits)
  define b3 where "b3 = b2\<lparr>m_end := s + of_nat (h + n), m_buf := early\<rparr>"
  have ins2: "insertData s (take h early) b2 = Inr b3"
    using insertData_overlay [OF wf2, of 0 "take h early"] assms(3,5) len m2 buf2
    by (simp add: b3_def)
  have "dumpUnusedData b3 = Inr (drop (h + n) early, b3\<lparr>m_used := m_end b3\<rparr>)"
    using dumpUnusedData_wf [of b3 "h + n"] m2 assms(3,5) by (simp add: b3_def b2_def b1_def)
  then show ?thesis
    using ins1 dump1 ins2 assms(3) by (auto simp: b2_def [symmetric] b3_def getBuf_def)
qed

theorem hole_is_never_delivered_witness:
  "\<exists>b1 b2. insertData 13 ''t:'' (setUsedPos 0 (setStartSeq 10 CTcpSegBuf_init)) = Inr b1
     \<and> dumpUnusedData b1 = Inr (replicate 3 NUL @ ''t:'', b2)
     \<and> (\<exists>b3 b4. insertData 10 ''Hos'' b2 = Inr b3
        \<and> dumpUnusedData b3 = Inr ([], b4) \<and> getBuf b4 = ''Host:'')"
  using hole_is_never_delivered [of 10 3 "''Host:''" 2] by simp



end
