(* ===== verification/KF_Config.thy ===== *)
theory KF_Config
  imports KF_Prelude
begin

section \<open>CConfig and the command line\<close>

text \<open>
  The configuration: the defaults, the values read from the XML file, and the command line options
  that override them. libxml2 is a parameter, the function from a file name to the parsed document;
  getopt is a parameter too, as the sequence of options it delivers.
\<close>

subsection \<open>Reading numbers from a stream\<close>

definition is_space :: "char \<Rightarrow> bool" where
  "is_space c = (let n = of_char c :: nat in n = 32 \<or> 9 \<le> n \<and> n \<le> 13)"

text \<open>Skip white space, take an optional sign and the longest run of digits.\<close>

definition scan_number :: "string \<Rightarrow> bool \<times> string" where
  "scan_number s =
     (let t = dropWhile is_space s in
      case t of
        [] \<Rightarrow> (False, [])
      | c # cs \<Rightarrow>
          if c = CHR ''-'' then (True, takeWhile is_digit cs)
          else if c = CHR ''+'' then (False, takeWhile is_digit cs)
          else (False, takeWhile is_digit t))"

text \<open>\<^verbatim>\<open>iss >> item\<close> for an \<^verbatim>\<open>int\<close>: 0 on failure, the nearest bound on overflow.\<close>

definition read_int :: "string \<Rightarrow> int" where
  "read_int s =
     (let (neg, ds) = scan_number s; v = int (read_nat ds) in
      if neg then max (- (2 ^ 31)) (- v) else min (2 ^ 31 - 1) v)"

text \<open>The same for an \<^verbatim>\<open>uint16_t\<close>; a minus sign negates modulo the width.\<close>

definition read_u16 :: "string \<Rightarrow> u16" where
  "read_u16 s =
     (let (neg, ds) = scan_number s; v = read_nat ds in
      if 2 ^ 16 \<le> v then 65535
      else if neg then - of_nat v else of_nat v)"

text \<open>\<^verbatim>\<open>atoi\<close>: a 64-bit \<^verbatim>\<open>strtol\<close> cut to 32 bits.\<close>

definition atoi :: "string \<Rightarrow> int" where
  "atoi s =
     (let (neg, ds) = scan_number s;
          v = (if neg then max (- (2 ^ 63)) (- int (read_nat ds))
               else min (2 ^ 63 - 1) (int (read_nat ds)))
      in sint (of_int v :: u32))"

text \<open>The loop of the set-valued nodes: the items between semicolons, and a non-empty rest.\<close>

function semi_items :: "string \<Rightarrow> string list" where
  "semi_items tmp =
     (case str_find '';'' tmp of
        Some index \<Rightarrow> take index tmp # semi_items (drop (index + 1) tmp)
      | None \<Rightarrow> (if 0 < length tmp then [tmp] else []))"
  by pat_completeness auto
termination
  by (relation "measure length") (auto dest!: str_find_SomeD)

declare semi_items.simps [simp del]

subsection \<open>The configuration object\<close>

record CConfig =
  m_mode :: string
  m_offlineFile :: string
  m_dev :: string
  m_filter :: string
  m_packetNum :: int
  m_poolLen :: int
  m_httpPorts :: "u16 set"
  m_smtpPorts :: "u16 set"
  m_caredHttpMethods :: "int set"
  m_caredContentTypes :: "string set"
  m_pcapTimeout :: int
  m_maxDb :: int
  m_logLevel :: int
  m_rootPath :: string

definition setDefault :: CConfig where
  "setDefault =
     \<lparr>m_mode = ''online'',
      m_offlineFile = ''./killer-finder.pcap'',
      m_dev = ''eth0'',
      m_filter = ''tcp'',
      m_packetNum = 20,
      m_poolLen = 1024,
      m_httpPorts = {80},
      m_smtpPorts = {25},
      m_caredHttpMethods = {1, 3, 4},
      m_caredContentTypes = {''application''},
      m_pcapTimeout = 1,
      m_maxDb = 10000,
      m_logLevel = 6,
      m_rootPath = ''/usr/local/killer''\<rparr>"

text \<open>One child of the root element: its name and its content.\<close>

type_synonym xml_node = "string \<times> string"

definition load_node :: "xml_node \<Rightarrow> CConfig \<Rightarrow> CConfig" where
  "load_node nd c =
     (let (name, content) = nd in
      if name = ''mode'' then c\<lparr>m_mode := content\<rparr>
      else if name = ''offlineFile'' then c\<lparr>m_offlineFile := content\<rparr>
      else if name = ''packetNum'' then c\<lparr>m_packetNum := read_int content\<rparr>
      else if name = ''dev'' then c\<lparr>m_dev := content\<rparr>
      else if name = ''filter'' then c\<lparr>m_filter := content\<rparr>
      else if name = ''httpPorts'' then
        c\<lparr>m_httpPorts := m_httpPorts c \<union> set (map read_u16 (semi_items content))\<rparr>
      else if name = ''poolLen'' then c\<lparr>m_poolLen := read_int content\<rparr>
      else if name = ''caredHttpMethods'' then
        c\<lparr>m_caredHttpMethods := m_caredHttpMethods c \<union> set (map read_int (semi_items content))\<rparr>
      else if name = ''caredContentTypes'' then
        c\<lparr>m_caredContentTypes := m_caredContentTypes c \<union> set (semi_items content)\<rparr>
      else if name = ''pcapTimeout'' then c\<lparr>m_pcapTimeout := read_int content\<rparr>
      else if name = ''maxDb'' then c\<lparr>m_maxDb := read_int content\<rparr>
      else if name = ''logLevel'' then c\<lparr>m_logLevel := read_int content\<rparr>
      else if name = ''rootPath'' then c\<lparr>m_rootPath := content\<rparr>
      else c)"

text \<open>
  A parsed file: \<open>None\<close> when libxml2 cannot parse it, \<open>Some None\<close> when the document is empty,
  otherwise the name of the root element and its children.
\<close>

type_synonym xml_doc = "(string \<times> xml_node list) option option"

definition loadFromFile :: "(string \<Rightarrow> xml_doc) \<Rightarrow> string \<Rightarrow> CConfig \<Rightarrow> CConfig" where
  "loadFromFile xmlParseFile configFileName c =
     (let fileName = (if length configFileName \<noteq> 0 then configFileName
                      else ''/usr/local/etc/config.xml'') in
      case xmlParseFile fileName of
        None \<Rightarrow> c
      | Some None \<Rightarrow> c
      | Some (Some (root, children)) \<Rightarrow> (if root \<noteq> ''root'' then c else fold load_node children c))"

definition mk_CConfig :: "(string \<Rightarrow> xml_doc) \<Rightarrow> string \<Rightarrow> CConfig" where
  "mk_CConfig xmlParseFile configFileName = loadFromFile xmlParseFile configFileName setDefault"

text \<open>The singleton: the first caller's file name decides, later ones are ignored.\<close>

definition CConfig_getInstance ::
  "(string \<Rightarrow> xml_doc) \<Rightarrow> string \<Rightarrow> CConfig option \<Rightarrow> CConfig \<times> CConfig option" where
  "CConfig_getInstance xmlParseFile configFileName inst =
     (case inst of
        None \<Rightarrow> (let c = mk_CConfig xmlParseFile configFileName in (c, Some c))
      | Some c \<Rightarrow> (c, Some c))"

subsection \<open>The command line\<close>

datatype cmd_opt =
    Opt_m string
  | Opt_f string
  | Opt_n string
  | Opt_d string
  | Opt_o string
  | Opt_c string
  | Opt_h
  | Opt_other

record cmd_args =
  a_mode :: string
  a_filter :: string
  a_packetNum :: string
  a_device :: string
  a_offlineFile :: string
  a_configFile :: string

definition no_args :: cmd_args where
  "no_args = \<lparr>a_mode = [], a_filter = [], a_packetNum = [], a_device = [], a_offlineFile = [],
              a_configFile = []\<rparr>"

text \<open>\<open>None\<close>: the help text was printed and the process exits.\<close>

primrec scan_opts :: "cmd_opt list \<Rightarrow> cmd_args \<Rightarrow> cmd_args option" where
  "scan_opts [] a = Some a"
| "scan_opts (opt # opts) a =
     (case opt of
        Opt_m s \<Rightarrow> scan_opts opts (a\<lparr>a_mode := s\<rparr>)
      | Opt_f s \<Rightarrow> scan_opts opts (a\<lparr>a_filter := s\<rparr>)
      | Opt_n s \<Rightarrow> scan_opts opts (a\<lparr>a_packetNum := s\<rparr>)
      | Opt_d s \<Rightarrow> scan_opts opts (a\<lparr>a_device := s\<rparr>)
      | Opt_o s \<Rightarrow> scan_opts opts (a\<lparr>a_offlineFile := s\<rparr>)
      | Opt_c s \<Rightarrow> scan_opts opts (a\<lparr>a_configFile := s\<rparr>)
      | Opt_h \<Rightarrow> None
      | Opt_other \<Rightarrow> scan_opts opts a)"

definition apply_args :: "cmd_args \<Rightarrow> CConfig \<Rightarrow> CConfig" where
  "apply_args a c0 =
     (let c1 = (if length (a_mode a) \<noteq> 0 then
                  (if a_mode a = ''online'' \<or> a_mode a = ''offline'' then c0\<lparr>m_mode := a_mode a\<rparr>
                   else c0)
                else c0);
          c2 = (if length (a_filter a) \<noteq> 0 then c1\<lparr>m_filter := a_filter a\<rparr> else c1);
          c3 = (if length (a_packetNum a) \<noteq> 0 then c2\<lparr>m_packetNum := atoi (a_packetNum a)\<rparr> else c2);
          c4 = (if length (a_device a) \<noteq> 0 then c3\<lparr>m_dev := a_device a\<rparr> else c3)
      in if length (a_offlineFile a) \<noteq> 0 then c4\<lparr>m_offlineFile := a_offlineFile a\<rparr> else c4)"

definition parserCmdLine :: "(string \<Rightarrow> xml_doc) \<Rightarrow> cmd_opt list \<Rightarrow> CConfig option" where
  "parserCmdLine xmlParseFile opts =
     (case scan_opts opts no_args of
        None \<Rightarrow> None
      | Some a \<Rightarrow>
          (let (config, _) = CConfig_getInstance xmlParseFile
                 (if length (a_configFile a) = 0 then ''/usr/local/killer/etc/config.xml''
                  else a_configFile a) None
           in Some (apply_args a config)))"

subsection \<open>Lemmas\<close>

lemma semi_items_Nil [simp]: "semi_items [] = []"
  by (subst semi_items.simps) simp

text \<open>Items without a semicolon are read back from the list joined by semicolons.\<close>

definition semi_join :: "string list \<Rightarrow> string" where
  "semi_join items = concat (map (\<lambda>s. s @ '';'') items)"

lemma str_find_char_append:
  "c \<notin> set xs \<Longrightarrow> str_find [c] (xs @ c # ys) = Some (length xs)"
  by (induction xs) auto

lemma str_find_char_none: "c \<notin> set xs \<Longrightarrow> str_find [c] xs = None"
  by (induction xs) auto

lemma semi_items_join:
  "\<forall>s \<in> set items. CHR '';'' \<notin> set s \<Longrightarrow> semi_items (semi_join items) = items"
proof (induction items)
  case Nil
  then show ?case by (simp add: semi_join_def)
next
  case (Cons s items)
  have "str_find '';'' (semi_join (s # items)) = Some (length s)"
    using Cons.prems str_find_char_append [of "CHR '';''" s "semi_join items"]
    by (simp add: semi_join_def)
  then show ?case
    using Cons by (subst semi_items.simps) (simp add: semi_join_def)
qed

lemma scan_number_digits:
  assumes "\<forall>c \<in> set ds. is_digit c" and "ds \<noteq> []"
  shows "scan_number ds = (False, ds)"
proof -
  obtain c cs where ds: "ds = c # cs" using assms(2) by (cases ds) auto
  have c: "48 \<le> (of_char c :: nat)" "of_char c \<le> (57 :: nat)"
    using assms(1) by (auto simp: ds is_digit_def Let_def)
  then have "\<not> is_space c" "c \<noteq> CHR ''-''" "c \<noteq> CHR ''+''"
    by (auto simp: is_space_def Let_def)
  with assms(1) show ?thesis
    by (simp add: ds scan_number_def)
qed

lemma read_u16_show: "n < 2 ^ 16 \<Longrightarrow> read_u16 (show_nat n) = of_nat n"
  using scan_number_digits [OF show_nat_digits show_nat_nonempty, of n]
  by (simp add: read_u16_def)

lemma load_node_httpPorts_mono: "m_httpPorts c \<subseteq> m_httpPorts (load_node nd c)"
  by (cases nd) (auto simp: load_node_def Let_def)

lemma load_node_smtpPorts [simp]: "m_smtpPorts (load_node nd c) = m_smtpPorts c"
  by (cases nd) (auto simp: load_node_def Let_def)

lemma fold_load_node_smtpPorts [simp]: "m_smtpPorts (fold load_node nds c) = m_smtpPorts c"
  by (induction nds arbitrary: c) auto

lemma fold_load_node_httpPorts_mono: "m_httpPorts c \<subseteq> m_httpPorts (fold load_node nds c)"
proof (induction nds arbitrary: c)
  case Nil
  then show ?case by simp
next
  case (Cons nd nds)
  then show ?case
    using load_node_httpPorts_mono [of c nd] Cons.IH [of "load_node nd c"] by auto
qed

subsection \<open>Properties\<close>

text \<open>
  The ports of a configuration file. When the root element has a node \<^verbatim>\<open>httpPorts\<close> with
  decimal ports separated by semicolons, the program listens on all of them and on the default
  port 80, whatever other nodes the file has.
\<close>

theorem http_ports_are_loaded:
  assumes "xmlParseFile f = Some (Some (''root'', before @ (''httpPorts'', semi_join (map show_nat ports)) # after))"
    and "f \<noteq> []" and "\<forall>n \<in> set ports. n < 2 ^ 16"
  shows "insert 80 (of_nat ` set ports) \<subseteq> m_httpPorts (mk_CConfig xmlParseFile f)"
proof -
  define c1 where "c1 = fold load_node before setDefault"
  define c2 where "c2 = load_node (''httpPorts'', semi_join (map show_nat ports)) c1"
  have "\<not> is_digit CHR '';''"
    by code_simp
  then have "CHR '';'' \<notin> set (show_nat n)" for n
    using show_nat_digits [of n] by blast
  then have "\<forall>s \<in> set (map show_nat ports). CHR '';'' \<notin> set s"
    by auto
  then have items: "semi_items (semi_join (map show_nat ports)) = map show_nat ports"
    by (rule semi_items_join)
  have "map read_u16 (map show_nat ports) = map of_nat ports"
    using assms(3) by (simp add: read_u16_show)
  then have "m_httpPorts c2 = m_httpPorts c1 \<union> of_nat ` set ports"
    unfolding c2_def load_node_def by (simp add: items image_image [symmetric] del: map_map) (metis list.set_map)
  moreover have "80 \<in> m_httpPorts c1"
    using fold_load_node_httpPorts_mono [of setDefault before] by (auto simp: c1_def setDefault_def)
  moreover have "m_httpPorts c2 \<subseteq> m_httpPorts (mk_CConfig xmlParseFile f)"
    using assms(1,2) fold_load_node_httpPorts_mono [of c2 after]
    by (simp add: mk_CConfig_def loadFromFile_def c2_def c1_def)
  ultimately show ?thesis by blast
qed

theorem http_ports_are_loaded_witness:
  "insert 80 (of_nat ` set [8080, 3128]) \<subseteq> m_httpPorts (mk_CConfig
     (\<lambda>_. Some (Some (''root'', [] @ (''httpPorts'', semi_join (map show_nat [8080, 3128])) # [])))
     ''c.xml'')"
  by (rule http_ports_are_loaded [of _ _ "[]" "[8080, 3128]" "[]"]) simp_all

text \<open>
  The SMTP ports cannot be configured: whatever the file says, the set is the default.
\<close>

theorem smtp_ports_are_fixed: "m_smtpPorts (mk_CConfig xmlParseFile f) = {25}"
  by (simp add: mk_CConfig_def loadFromFile_def Let_def setDefault_def split: option.split prod.split)

text \<open>
  The command line against the file. Without \<^verbatim>\<open>-h\<close> the program runs with the configuration
  of the file, and an option that is given replaces exactly its own setting: the last \<^verbatim>\<open>-n\<close>, for
  instance, decides the packet count, and an unknown mode is ignored.
\<close>

theorem command_line_overrides:
  assumes "scan_opts opts no_args = Some a" and "a_configFile a = []"
  shows "\<exists>c. parserCmdLine xmlParseFile opts = Some c \<and>
     (let c0 = mk_CConfig xmlParseFile ''/usr/local/killer/etc/config.xml'' in
      m_mode c = (if a_mode a = ''online'' \<or> a_mode a = ''offline'' then a_mode a else m_mode c0) \<and>
      m_filter c = (if a_filter a = [] then m_filter c0 else a_filter a) \<and>
      m_packetNum c = (if a_packetNum a = [] then m_packetNum c0 else atoi (a_packetNum a)) \<and>
      m_dev c = (if a_device a = [] then m_dev c0 else a_device a) \<and>
      m_offlineFile c = (if a_offlineFile a = [] then m_offlineFile c0 else a_offlineFile a) \<and>
      m_httpPorts c = m_httpPorts c0 \<and> m_smtpPorts c = m_smtpPorts c0 \<and> m_rootPath c = m_rootPath c0)"
  using assms
  by (auto simp: parserCmdLine_def CConfig_getInstance_def apply_args_def Let_def)

theorem command_line_overrides_witness:
  "\<exists>c. parserCmdLine (\<lambda>_. None) [Opt_n ''5'', Opt_m ''both'', Opt_n ''7''] = Some c \<and>
     m_packetNum c = atoi ''7'' \<and> m_mode c = m_mode setDefault"
  using command_line_overrides [of "[Opt_n ''5'', Opt_m ''both'', Opt_n ''7'']"
      "no_args\<lparr>a_packetNum := ''7'', a_mode := ''both''\<rparr>" "\<lambda>_. None"]
  by (auto simp: no_args_def Let_def mk_CConfig_def loadFromFile_def)

end
