(* ===== verification/KF_DB.thy ===== *)
theory KF_DB
  imports KF_Config "HOL-Library.AList"
begin

section \<open>CDBManager: the reputation database\<close>

text \<open>
  Three maps from names to verdicts (\<^verbatim>\<open>"1"\<close> block, \<^verbatim>\<open>"0"\<close> allow), loaded from text files,
  and a map of IPv4 addresses made from the first. The file contents and \<^verbatim>\<open>inet_aton\<close> are
  parameters.
\<close>

subsection \<open>Operations\<close>

type_synonym DbMap = "(string \<times> string) list"

record CDBManager =
  m_httpMap :: "DbMap list"
  m_ip4Map :: "u32 \<rightharpoonup> string"

definition I_IPV4_MAP :: nat where "I_IPV4_MAP = 0"
definition I_DOMAIN_MAP :: nat where "I_DOMAIN_MAP = 1"
definition I_HOSTNAME_MAP :: nat where "I_HOSTNAME_MAP = 2"

definition CDBManager_init :: CDBManager where
  "CDBManager_init = \<lparr>m_httpMap = [[], [], []], m_ip4Map = Map.empty\<rparr>"

text \<open>
  \<^verbatim>\<open>strsep\<close> cuts at every delimiter and works on the C string, that is up to the first NUL;
  \<open>split\<close> keeps the non-empty pieces.
\<close>

fun strsep_tokens :: "string \<Rightarrow> string \<Rightarrow> string list" where
  "strsep_tokens d [] = [[]]"
| "strsep_tokens d (c # cs) =
     (if c \<in> set d then [] # strsep_tokens d cs
      else (case strsep_tokens d cs of t # ts \<Rightarrow> (c # t) # ts | [] \<Rightarrow> [[c]]))"

definition split_str :: "string \<Rightarrow> string \<Rightarrow> string list" where
  "split_str str d = filter (\<lambda>tmp. tmp \<noteq> []) (strsep_tokens d (takeWhile (\<lambda>c. c \<noteq> NUL) str))"

text \<open>The loop over the lines of one file.\<close>

primrec load_lines :: "int \<Rightarrow> int \<Rightarrow> string list \<Rightarrow> DbMap \<Rightarrow> DbMap res" where
  "load_lines maxDb num [] m = Inr m"
| "load_lines maxDb num (line # rest) m =
     (if length line = 0 \<or> str_front line = CHR '' '' \<or> str_front line = CHR 0x09 then
        load_lines maxDb num rest m
      else
        (let result = split_str line [CHR 0x09] in
         if length result < 2 then Inl OutOfBounds
         else
           (let m' = AList.update (result ! 0) (result ! 1) m in
            if maxDb \<noteq> 0 then
              (if num + 1 > maxDb then Inr m' else load_lines maxDb (num + 1) rest m')
            else load_lines maxDb num rest m')))"

definition db_file :: "string \<Rightarrow> nat \<Rightarrow> string" where
  "db_file rootPath i =
     rootPath @
     (if i = I_IPV4_MAP then ''/db/2_ipv4.txt''
      else if i = I_DOMAIN_MAP then ''/db/2_domain.txt''
      else if i = I_HOSTNAME_MAP then ''/db/2_hostname.txt''
      else [])"

text \<open>
  The loop that fills the address map. \<open>addr\<close> is declared outside the loop and keeps its value when
  \<^verbatim>\<open>inet_aton\<close> rejects an entry; before the first success it is uninitialised.
\<close>

primrec fill_ip4 ::
  "(string \<Rightarrow> u32 option) \<Rightarrow> u32 option \<Rightarrow> DbMap \<Rightarrow> (u32 \<rightharpoonup> string) \<Rightarrow> (u32 \<rightharpoonup> string) res" where
  "fill_ip4 inet_aton addr [] m = Inr m"
| "fill_ip4 inet_aton addr (e # es) m =
     (let addr' = (case inet_aton (fst e) of Some a \<Rightarrow> Some a | None \<Rightarrow> addr) in
      case addr' of
        None \<Rightarrow> Inl Uninitialised
      | Some a \<Rightarrow> fill_ip4 inet_aton addr' es (m(a \<mapsto> snd e)))"

definition CDBManager_start ::
  "CConfig \<Rightarrow> (string \<Rightarrow> string list) \<Rightarrow> (string \<Rightarrow> u32 option) \<Rightarrow> CDBManager \<Rightarrow> CDBManager res" where
  "CDBManager_start cfg read_lines inet_aton db =
     rbind (rfold (\<lambda>i maps.
         rbind (load_lines (m_maxDb cfg) 0 (read_lines (db_file (m_rootPath cfg) i)) (maps ! i)) (\<lambda>m.
         Inr (maps[i := m]))) [0..<length (m_httpMap db)] (m_httpMap db)) (\<lambda>maps.
     rbind (fill_ip4 inet_aton None (maps ! I_IPV4_MAP) (m_ip4Map db)) (\<lambda>ip4.
     Inr (db\<lparr>m_httpMap := maps, m_ip4Map := ip4\<rparr>)))"

definition hostname_map :: "CDBManager \<Rightarrow> string \<rightharpoonup> string" where
  "hostname_map db = map_of (m_httpMap db ! I_HOSTNAME_MAP)"

definition domain_map :: "CDBManager \<Rightarrow> string \<rightharpoonup> string" where
  "domain_map db = map_of (m_httpMap db ! I_DOMAIN_MAP)"

text \<open>Step 3 of the lookup, and its result when neither verdict is returned.\<close>

definition domain_step :: "CDBManager \<Rightarrow> string \<Rightarrow> bool \<Rightarrow> bool" where
  "domain_step db host' hit =
     (let result = split_str host' ''.'' in
      if 2 \<le> length result then
        (let domain = result ! (length result - 2) @ ''.'' @ result ! (length result - 1) in
         case domain_map db domain of
           Some v \<Rightarrow> (if v = ''1'' then True else if v = ''0'' then False else True)
         | None \<Rightarrow> False)
      else hit)"

definition isUrlHit :: "CDBManager \<Rightarrow> string \<Rightarrow> string \<Rightarrow> string \<Rightarrow> bool" where
  "isUrlHit db prot host path =
     (if prot = ''http'' \<or> prot = ''https'' \<or> prot = ''ftp'' then
        (let host' = (case str_find '':'' host of Some pos \<Rightarrow> take pos host | None \<Rightarrow> host);
             path' = (if str_front path \<noteq> CHR ''/'' then ''/'' @ path else path);
             hosts = hostname_map db;
             step3 = (\<lambda>hit. domain_step db host' hit);
             step2 = (case hosts host' of
                        Some v \<Rightarrow> (if v = ''1'' then True else if v = ''0'' then False else step3 True)
                      | None \<Rightarrow> step3 False)
         in case hosts (host' @ path') of
              Some v \<Rightarrow> (if v = ''1'' then True else if v = ''0'' then False else step2)
            | None \<Rightarrow> step2)
      else False)"

definition isIpv4Hit :: "CDBManager \<Rightarrow> u32 \<Rightarrow> bool" where
  "isIpv4Hit db ip4 = (m_ip4Map db ip4 \<noteq> None)"

subsection \<open>Lemmas on splitting\<close>

lemma strsep_tokens_nonempty: "strsep_tokens d s \<noteq> []"
  by (induction s) (auto split: list.splits)

lemma strsep_tokens_no_delim: "\<forall>t \<in> set (strsep_tokens d s). set t \<inter> set d = {}"
proof (induction s)
  case Nil
  then show ?case by simp
next
  case (Cons c cs)
  then show ?case
    using strsep_tokens_nonempty [of d cs] by (auto split: list.splits)
qed

lemma strsep_tokens_append:
  assumes "set t \<inter> set d = {}" and "c \<in> set d"
  shows "strsep_tokens d (t @ c # s) = t # strsep_tokens d s"
  using assms by (induction t) auto

lemma strsep_tokens_single: "set t \<inter> set d = {} \<Longrightarrow> strsep_tokens d t = [t]"
  by (induction t) auto

text \<open>A host made of labels joined by dots is split into its labels.\<close>

fun dot_join :: "string list \<Rightarrow> string" where
  "dot_join [] = []"
| "dot_join [l] = l"
| "dot_join (l # ls) = l @ ''.'' @ dot_join ls"

definition wf_label :: "string \<Rightarrow> bool" where
  "wf_label l \<longleftrightarrow> l \<noteq> [] \<and> CHR ''.'' \<notin> set l \<and> CHR '':'' \<notin> set l \<and> NUL \<notin> set l"

lemma dot_join_chars:
  "\<forall>l \<in> set ls. P CHR ''.'' \<and> (\<forall>c \<in> set l. P c) \<Longrightarrow> c \<in> set (dot_join ls) \<Longrightarrow> P c"
  by (induction ls rule: dot_join.induct) auto

lemma strsep_dot_join:
  "ls \<noteq> [] \<Longrightarrow> \<forall>l \<in> set ls. wf_label l \<Longrightarrow> strsep_tokens ''.'' (dot_join ls) = ls"
proof (induction ls rule: dot_join.induct)
  case 1
  then show ?case by simp
next
  case (2 l)
  then show ?case by (simp add: strsep_tokens_single wf_label_def)
next
  case (3 l k ls)
  then show ?case
    using strsep_tokens_append [of l "''.''" "CHR ''.''" "dot_join (k # ls)"]
    by (simp add: wf_label_def)
qed

lemma split_str_dot_join:
  assumes "ls \<noteq> []" and "\<forall>l \<in> set ls. wf_label l"
  shows "split_str (dot_join ls) ''.'' = ls"
proof -
  have "c \<noteq> NUL" if "c \<in> set (dot_join ls)" for c
    using that assms(2) dot_join_chars [of ls "\<lambda>c. c \<noteq> NUL" c] by (auto simp: wf_label_def)
  then have "takeWhile (\<lambda>c. c \<noteq> NUL) (dot_join ls) = dot_join ls"
    by (simp add: takeWhile_eq_all_conv)
  moreover have "filter (\<lambda>tmp. tmp \<noteq> []) ls = ls"
    using assms(2) by (auto simp: filter_id_conv wf_label_def)
  ultimately show ?thesis
    unfolding split_str_def by (simp only: strsep_dot_join [OF assms])
qed

lemma split_two_fields:
  assumes "k \<noteq> []" and "v \<noteq> []" and "CHR 0x09 \<notin> set k" and "CHR 0x09 \<notin> set v"
    and "NUL \<notin> set k" and "NUL \<notin> set v"
  shows "split_str (k @ [CHR 0x09] @ v) [CHR 0x09] = [k, v]"
proof -
  have "takeWhile (\<lambda>c. c \<noteq> NUL) (k @ [CHR 0x09] @ v) = k @ [CHR 0x09] @ v"
    using assms(5,6) by (auto simp: takeWhile_eq_all_conv)
  moreover have "strsep_tokens [CHR 0x09] (k @ [CHR 0x09] @ v) = [k, v]"
    using assms(3,4) strsep_tokens_append [of k "[CHR 0x09]" "CHR 0x09" v]
    by (simp add: strsep_tokens_single)
  ultimately show ?thesis
    unfolding split_str_def using assms(1,2) by (simp only:) simp
qed

lemma split_no_delim:
  assumes "CHR 0x09 \<notin> set line"
  shows "length (split_str line [CHR 0x09]) < 2"
proof -
  have "CHR 0x09 \<notin> set (takeWhile (\<lambda>c. c \<noteq> NUL) line)"
    using assms by (auto dest: set_takeWhileD)
  then show ?thesis
    by (simp add: split_str_def strsep_tokens_single)
qed

lemma update_fresh: "k \<notin> fst ` set m \<Longrightarrow> AList.update k v m = m @ [(k, v)]"
  by (induction m) auto

subsection \<open>Loading a file\<close>

text \<open>An entry that a line can hold, and its line.\<close>

definition db_entry :: "string \<times> string \<Rightarrow> bool" where
  "db_entry e \<longleftrightarrow>
     fst e \<noteq> [] \<and> snd e \<noteq> [] \<and> CHR 0x09 \<notin> set (fst e @ snd e) \<and> NUL \<notin> set (fst e @ snd e)
     \<and> hd (fst e) \<noteq> CHR '' ''"

definition db_line :: "string \<times> string \<Rightarrow> string" where
  "db_line e = fst e @ [CHR 0x09] @ snd e"

lemma load_db_line:
  assumes "db_entry e" and "fst e \<notin> fst ` set m"
  shows "load_lines maxDb num (db_line e # rest) m =
     (if maxDb \<noteq> 0 then
        (if num + 1 > maxDb then Inr (m @ [e]) else load_lines maxDb (num + 1) rest (m @ [e]))
      else load_lines maxDb num rest (m @ [e]))"
proof -
  have "split_str (db_line e) [CHR 0x09] = [fst e, snd e]"
    using assms(1) unfolding db_line_def by (intro split_two_fields) (auto simp: db_entry_def)
  moreover have "length (db_line e) \<noteq> 0" "str_front (db_line e) \<noteq> CHR '' ''" "str_front (db_line e) \<noteq> CHR 0x09"
    using assms(1) by (cases "fst e"; auto simp: db_line_def db_entry_def str_front_def)+
  ultimately show ?thesis
    using update_fresh [OF assms(2), of "snd e"] by (simp only: load_lines.simps Let_def) simp
qed

lemma load_db_lines:
  assumes "\<forall>e \<in> set es. db_entry e" and "distinct (map fst (m @ es))" and "0 \<le> num" and "num \<le> maxDb" and "0 < maxDb"
  shows "load_lines maxDb num (map db_line es) m = Inr (m @ take (nat (maxDb - num) + 1) es)"
  using assms
proof (induction es arbitrary: m num)
  case Nil
  then show ?case by simp
next
  case (Cons e es)
  have e: "db_entry e" "fst e \<notin> fst ` set m"
    using Cons.prems by auto
  show ?case
  proof (cases "num + 1 > maxDb")
    case True
    then show ?thesis
      using Cons.prems(4,5) by (simp add: load_db_line [OF e] del: load_lines.simps)
  next
    case False
    have "nat (maxDb - num) = Suc (nat (maxDb - (num + 1)))"
      using False by simp
    then show ?thesis
      using False Cons.prems Cons.IH [of "m @ [e]" "num + 1"]
      by (simp add: load_db_line [OF e] del: load_lines.simps)
  qed
qed

lemma load_db_lines_all:
  assumes "\<forall>e \<in> set es. db_entry e" and "distinct (map fst (m @ es))"
  shows "load_lines 0 num (map db_line es) m = Inr (m @ es)"
  using assms
proof (induction es arbitrary: m)
  case Nil
  then show ?case by simp
next
  case (Cons e es)
  then have e: "db_entry e" "fst e \<notin> fst ` set m"
    by auto
  then show ?case
    using Cons.prems Cons.IH [of "m @ [e]"] by (simp add: load_db_line [OF e] del: load_lines.simps)
qed

subsection \<open>Properties\<close>

text \<open>The first lookup that has a result.\<close>

primrec first_found :: "string option list \<Rightarrow> string option" where
  "first_found [] = None"
| "first_found (r # rs) = (case r of Some v \<Rightarrow> Some v | None \<Rightarrow> first_found rs)"

lemma host_without_port:
  assumes "\<forall>l \<in> set ls. wf_label l" and "port = [] \<or> (\<exists>q. port = '':'' @ q)"
  shows "(case str_find '':'' (dot_join ls @ port) of
       Some pos \<Rightarrow> take pos (dot_join ls @ port) | None \<Rightarrow> dot_join ls @ port) = dot_join ls"
proof -
  have colon: "CHR '':'' \<notin> set (dot_join ls)"
    using assms(1) dot_join_chars [of ls "\<lambda>c. c \<noteq> CHR '':''" "CHR '':''"] by (auto simp: wf_label_def)
  then have "str_find '':'' (dot_join ls) = None"
    by (rule str_find_char_none)
  then show ?thesis
    using assms(2) colon str_find_char_append [of "CHR '':''" "dot_join ls"] by auto
qed

text \<open>
  The order of the lookups. For a host of at least two labels, with or without a port, and a
  database whose verdicts are all 0 or 1, a URL is a hit exactly when the first entry found among the
  full URL, the host name and the domain of its last two labels says 1.
\<close>

theorem url_lookup_order:
  assumes "prot = ''http'' \<or> prot = ''https'' \<or> prot = ''ftp''"
    and "2 \<le> length ls" and "\<forall>l \<in> set ls. wf_label l" and "port = [] \<or> (\<exists>q. port = '':'' @ q)"
    and "\<forall>v \<in> ran (hostname_map db) \<union> ran (domain_map db). v = ''0'' \<or> v = ''1''"
  shows "isUrlHit db prot (dot_join ls @ port) (''/'' @ rest) \<longleftrightarrow>
     first_found [hostname_map db (dot_join ls @ ''/'' @ rest), hostname_map db (dot_join ls),
       domain_map db (ls ! (length ls - 2) @ ''.'' @ ls ! (length ls - 1))] = Some ''1''"
proof -
  have split: "split_str (dot_join ls) ''.'' = ls"
    using assms(2,3) by (intro split_str_dot_join) auto
  have h: "v = ''0'' \<or> v = ''1''" if "hostname_map db x = Some v" for v x
    using assms(5) that by (auto simp: ran_def)
  have d: "v = ''0'' \<or> v = ''1''" if "domain_map db x = Some v" for v x
    using assms(5) that by (auto simp: ran_def)
  show ?thesis
    using assms(1,2) h d
    unfolding isUrlHit_def Let_def host_without_port [OF assms(3,4)]
    by (auto simp: domain_step_def split str_front_def Let_def split: option.splits)
qed

theorem url_lookup_order_witness:
  "isUrlHit \<lparr>m_httpMap = [[], [(''b.c'', ''1'')], [(''a.b.c/x'', ''0'')]], m_ip4Map = Map.empty\<rparr>
     ''http'' ''a.b.c:8080'' ''/y'' \<and>
   \<not> isUrlHit \<lparr>m_httpMap = [[], [(''b.c'', ''1'')], [(''a.b.c/x'', ''0'')]], m_ip4Map = Map.empty\<rparr>
     ''http'' ''a.b.c:8080'' ''/x''"
proof -
  let ?db = "\<lparr>m_httpMap = [[], [(''b.c'', ''1'')], [(''a.b.c/x'', ''0'')]], m_ip4Map = Map.empty\<rparr>"
  have maps: "hostname_map ?db = [''a.b.c/x'' \<mapsto> ''0'']" "domain_map ?db = [''b.c'' \<mapsto> ''1'']"
    by (simp_all add: hostname_map_def domain_map_def I_HOSTNAME_MAP_def I_DOMAIN_MAP_def)
  have "\<forall>l \<in> set [''a'', ''b'', ''c'']. wf_label l"
    by (simp add: wf_label_def)
  then show ?thesis
    using url_lookup_order [of "''http''" "[''a'', ''b'', ''c'']" "'':8080''" ?db "''y''"]
      url_lookup_order [of "''http''" "[''a'', ''b'', ''c'']" "'':8080''" ?db "''x''"]
    unfolding maps by simp
qed

text \<open>
  C30. Loading a database file. A file of well-formed lines with different keys is read back as the
  list of its entries; with a positive limit the entries kept are one more than the limit.
\<close>

theorem db_file_loads_limit_plus_one:
  assumes "\<forall>e \<in> set es. db_entry e" and "distinct (map fst es)" and "0 \<le> maxDb"
  shows "load_lines maxDb 0 (map db_line es) [] = Inr (if maxDb = 0 then es else take (nat maxDb + 1) es)"
  using assms load_db_lines [of es "[]" 0 maxDb] load_db_lines_all [of es "[]" 0] by simp

theorem db_file_loads_limit_plus_one_witness:
  "load_lines 1 0 (map db_line [(''a.org'', ''1''), (''b.org'', ''0''), (''c.org'', ''1'')]) []
     = Inr [(''a.org'', ''1''), (''b.org'', ''0'')]"
  using db_file_loads_limit_plus_one [of "[(''a.org'', ''1''), (''b.org'', ''0''), (''c.org'', ''1'')]" 1]
  by (simp add: db_entry_def del: load_lines.simps)

text \<open>
  A line without a tab ends the process at start: the error is logged, and the second field is
  read all the same.
\<close>

theorem line_without_tab_reads_out_of_bounds:
  assumes "line \<noteq> []" and "hd line \<noteq> CHR '' ''" and "CHR 0x09 \<notin> set line"
  shows "load_lines maxDb num (line # rest) m = Inl OutOfBounds"
proof -
  have "str_front line \<noteq> CHR '' ''" "str_front line \<noteq> CHR 0x09"
    using assms by (cases line; auto simp: str_front_def)+
  then show ?thesis
    using assms(1) split_no_delim [OF assms(3)] by simp
qed

theorem line_without_tab_reads_out_of_bounds_witness:
  "load_lines 10000 0 [''evil.org 1''] [] = Inl OutOfBounds"
  by (rule line_without_tab_reads_out_of_bounds) simp_all

end
