(* ===== verification/KF_HttpInfo.thy ===== *)
theory KF_HttpInfo
  imports KF_Config
begin

section \<open>CHttpInfo, CMailInfo: what the decoders collect\<close>

text \<open>
  The message objects: \<^verbatim>\<open>CHttpInfo\<close> with its two subclasses (as record extensions) and the
  mail objects of the SMTP decoder. The print methods only write to the log.
\<close>

subsection \<open>HTTP messages\<close>

record CHttpInfo =
  m_currentField :: string
  m_currentValue :: string
  m_headerMap :: "string \<rightharpoonup> string"
  m_body :: string
  m_contentLength :: u64
  m_contentEncoding :: string
  m_contentType :: string

record CRequestHttpInfo = CHttpInfo +
  m_reqUrl :: string
  m_method :: int

record CResponseHttpInfo = CHttpInfo +
  m_status :: int
  m_descreption :: string

definition UNKNOWN_CONTENT_TYPE :: string where
  "UNKNOWN_CONTENT_TYPE = ''UnknownType''"

definition mk_CHttpInfo :: CHttpInfo where
  "mk_CHttpInfo =
     \<lparr>m_currentField = [], m_currentValue = [], m_headerMap = Map.empty, m_body = [],
      m_contentLength = 0, m_contentEncoding = [], m_contentType = UNKNOWN_CONTENT_TYPE\<rparr>"

definition mk_CRequestHttpInfo :: CRequestHttpInfo where
  "mk_CRequestHttpInfo =
     CHttpInfo.extend mk_CHttpInfo (CRequestHttpInfo.fields [] 0) \<lparr>m_body := []\<rparr>"

definition mk_CResponseHttpInfo :: CResponseHttpInfo where
  "mk_CResponseHttpInfo =
     CHttpInfo.extend mk_CHttpInfo (CResponseHttpInfo.fields 0 []) \<lparr>m_body := []\<rparr>"

definition insertField :: "string \<Rightarrow> 'a CHttpInfo_scheme \<Rightarrow> 'a CHttpInfo_scheme" where
  "insertField buf i = (if m_currentField i = [] then i\<lparr>m_currentField := m_currentField i @ buf\<rparr> else i)"

definition insertValue :: "string \<Rightarrow> 'a CHttpInfo_scheme \<Rightarrow> 'a CHttpInfo_scheme" where
  "insertValue buf i =
     (if m_currentField i = [] then i
      else
        (let i1 = i\<lparr>m_currentValue := m_currentValue i @ buf\<rparr>;
             i2 = i1\<lparr>m_headerMap := (m_headerMap i1)(m_currentField i1 \<mapsto> m_currentValue i1)\<rparr>;
             i3 = (if str_contains ''Content-Type'' (m_currentField i2)
                   then i2\<lparr>m_contentType := m_currentValue i2\<rparr> else i2)
         in i3\<lparr>m_currentField := [], m_currentValue := []\<rparr>))"

definition setBody :: "string \<Rightarrow> 'a CHttpInfo_scheme \<Rightarrow> 'a CHttpInfo_scheme" where
  "setBody buf i = i\<lparr>m_body := m_body i @ buf\<rparr>"

definition clearCurrentBuf :: "'a CHttpInfo_scheme \<Rightarrow> 'a CHttpInfo_scheme" where
  "clearCurrentBuf i = i\<lparr>m_currentField := [], m_currentValue := []\<rparr>"

definition setUrl :: "string \<Rightarrow> CRequestHttpInfo \<Rightarrow> CRequestHttpInfo" where
  "setUrl buf r = r\<lparr>m_reqUrl := m_reqUrl r @ buf\<rparr>"

definition setMethod :: "int \<Rightarrow> CRequestHttpInfo \<Rightarrow> CRequestHttpInfo" where
  "setMethod m r = r\<lparr>m_method := m\<rparr>"

definition setStatus :: "int \<Rightarrow> CResponseHttpInfo \<Rightarrow> CResponseHttpInfo" where
  "setStatus s r = r\<lparr>m_status := s\<rparr>"

definition isContentTypeCared :: "CConfig \<Rightarrow> 'a CHttpInfo_scheme \<Rightarrow> bool" where
  "isContentTypeCared cfg i =
     (if m_contentType i = UNKNOWN_CONTENT_TYPE then True
      else (\<exists>ct \<in> m_caredContentTypes cfg. str_contains ct (m_contentType i)))"

subsection \<open>Mails\<close>

record CMailText =
  t_mainType :: string
  t_subType :: string
  t_content :: string
  m_embeddedObjects :: "string list"

record CAttachment =
  m_mainType :: string
  m_subType :: string
  m_name :: string
  m_description :: string
  m_content :: string

record CMailInfo =
  m_mimeMap :: "string \<rightharpoonup> string"
  m_text :: CMailText
  m_attachments :: "CAttachment list"

definition EXPEDITOR :: string where "EXPEDITOR = ''Expeditor''"
definition RECIPIENTS :: string where "RECIPIENTS = ''Recipients''"
definition BLIND_COPY_RECIPIENTS :: string where "BLIND_COPY_RECIPIENTS = ''BlindCopyRecipients''"
definition DATE :: string where "DATE = ''Date''"
definition SUBJECT :: string where "SUBJECT = ''Subject''"
definition COPY_RECIPIENTS :: string where "COPY_RECIPIENTS = ''CopyRecipients''"

definition mk_CMailText :: CMailText where
  "mk_CMailText = \<lparr>t_mainType = [], t_subType = [], t_content = [], m_embeddedObjects = []\<rparr>"

definition mk_CMailInfo :: CMailInfo where
  "mk_CMailInfo = \<lparr>m_mimeMap = Map.empty, m_text = mk_CMailText, m_attachments = []\<rparr>"

definition attachment_cared :: "CConfig \<Rightarrow> CAttachment \<Rightarrow> bool" where
  "attachment_cared cfg a =
     (if length (m_mainType a) = 0 \<or> length (m_subType a) = 0 then True
      else (\<exists>ct \<in> m_caredContentTypes cfg.
              str_contains ct (m_mainType a) \<or> str_contains ct (m_subType a)))"

subsection \<open>Header fields arrive in pairs\<close>

text \<open>A field callback followed by a value callback stores the header and clears the scratch pair.\<close>

lemma insertValue_insertField:
  assumes "m_currentField i = []" and "m_currentValue i = []" and "f \<noteq> []"
  shows "m_headerMap (insertValue v (insertField f i)) = (m_headerMap i)(f \<mapsto> v)"
    and "m_currentField (insertValue v (insertField f i)) = []"
    and "m_currentValue (insertValue v (insertField f i)) = []"
    and "m_body (insertValue v (insertField f i)) = m_body i"
    and "m_contentType (insertValue v (insertField f i)) =
           (if str_contains ''Content-Type'' f then v else m_contentType i)"
  using assms by (simp_all add: insertValue_def insertField_def Let_def)

end
