(* ===== verification/KF_State.thy ===== *)
theory KF_State
  imports KF_SessionId KF_SegBuf KF_DB KF_HttpInfo
begin

section \<open>The state of a session\<close>

text \<open>
  \<^verbatim>\<open>CTcpSession\<close> owns its two decoders and two segment buffers. The decoders point back to the
  session and change it (the block flag, the consumed position), so their operations are functions
  on the session. The HTTP parser library is a parameter: \<open>'p\<close> is its state, and a run over a
  buffer is the sequence of callbacks it makes, each with the parser fields the callbacks read. All
  callbacks of the program return 0 and none writes the parser, so this sequence does not depend on
  what they do.
\<close>

datatype http_parser_type = HTTP_REQUEST | HTTP_RESPONSE

record hp_view =
  hp_state :: nat
  hp_method :: int
  hp_status_code :: int

datatype http_cb =
    On_message_begin
  | On_url string
  | On_status string
  | On_header_field string
  | On_header_value string
  | On_headers_complete
  | On_body string
  | On_message_complete

type_synonym http_event = "hp_view \<times> http_cb"

text \<open>The initial state for a type, and the run over a buffer: callbacks, new state, errno.\<close>

record 'p http_lib =
  http_parser_init :: "http_parser_type \<Rightarrow> 'p"
  http_parser_execute :: "'p \<Rightarrow> string \<Rightarrow> http_event list \<times> 'p \<times> nat"

record 'p CHttpTxnDecoder =
  m_parserType :: http_parser_type
  m_parser :: "'p option"
  m_requestVector :: "CRequestHttpInfo list"
  m_responseVector :: "CResponseHttpInfo list"
  m_url :: string
  m_hostField :: string
  m_hostValue :: string
  m_activeMethod :: int

text \<open>The parser is allocated but not initialised by the constructor: \<open>None\<close>.\<close>

definition mk_CHttpTxnDecoder :: "'p CHttpTxnDecoder" where
  "mk_CHttpTxnDecoder =
     \<lparr>m_parserType = HTTP_REQUEST, m_parser = None, m_requestVector = [], m_responseVector = [],
      m_url = [], m_hostField = [], m_hostValue = [], m_activeMethod = 0\<rparr>"

record CSmtpTxnDecoder =
  m_mailInfoVector :: "CMailInfo list"
  m_mailDataVector :: "string list"

definition mk_CSmtpTxnDecoder :: CSmtpTxnDecoder where
  "mk_CSmtpTxnDecoder = \<lparr>m_mailInfoVector = [], m_mailDataVector = []\<rparr>"

datatype tcp_sm =
    TCP_SM_INIT
  | TCP_SM_HANDSHAKE
  | TCP_SM_CLIENT_SENDING
  | TCP_SM_SERVER_SENDING
  | TCP_SM_CLIENT_FINISHED
  | TCP_SM_SERVER_FINISHED
  | TCP_SM_CLOSED

datatype direction = DIRECTION_UNKOWN | DIRECTION_TO_SERVER | DIRECTION_TO_CLIENT

datatype protocol = PROTOCOL_UNKNOWN | PROTOCOL_HTTP | PROTOCOL_SMTP

record 'p CTcpSession =
  m_sessId :: CTcpSessionId
  m_tcpTxnId :: u64
  m_tcpState :: tcp_sm
  m_activeFlg :: bool
  m_protocol :: protocol
  m_httpDecoder :: "'p CHttpTxnDecoder"
  m_smtpDecoder :: CSmtpTxnDecoder
  m_lastUpdateTime :: int
  m_shouldBlock :: bool
  m_continuousSeg :: "direction \<Rightarrow> CTcpSegBuf"

definition session_protocol :: "CConfig \<Rightarrow> CTcpSessionId \<Rightarrow> protocol" where
  "session_protocol cfg sid =
     (if m_dstPort_id sid \<in> m_httpPorts cfg then PROTOCOL_HTTP
      else if m_dstPort_id sid \<in> m_smtpPorts cfg then PROTOCOL_SMTP
      else PROTOCOL_UNKNOWN)"

text \<open>
  The constructor. The number and the time stamp are left unset by the code; the pool and the packet
  handler write them before anything reads them, and here they start as 0.
\<close>

definition mk_CTcpSession :: "CConfig \<Rightarrow> CTcpSessionId \<Rightarrow> 'p CTcpSession" where
  "mk_CTcpSession cfg sid =
     \<lparr>m_sessId = sid, m_tcpTxnId = 0, m_tcpState = TCP_SM_HANDSHAKE, m_activeFlg = True,
      m_protocol = session_protocol cfg sid,
      m_httpDecoder = mk_CHttpTxnDecoder, m_smtpDecoder = mk_CSmtpTxnDecoder,
      m_lastUpdateTime = 0, m_shouldBlock = False, m_continuousSeg = (\<lambda>_. CTcpSegBuf_init)\<rparr>"

definition getContinuousBuf :: "direction \<Rightarrow> 'p CTcpSession \<Rightarrow> CTcpSegBuf" where
  "getContinuousBuf dir s = m_continuousSeg s dir"

definition putContinuousBuf :: "direction \<Rightarrow> CTcpSegBuf \<Rightarrow> 'p CTcpSession \<Rightarrow> 'p CTcpSession" where
  "putContinuousBuf dir b s = s\<lparr>m_continuousSeg := (m_continuousSeg s)(dir := b)\<rparr>"

definition upd_http :: "('p CHttpTxnDecoder \<Rightarrow> 'p CHttpTxnDecoder) \<Rightarrow> 'p CTcpSession \<Rightarrow> 'p CTcpSession" where
  "upd_http f s = s\<lparr>m_httpDecoder := f (m_httpDecoder s)\<rparr>"

definition upd_smtp :: "(CSmtpTxnDecoder \<Rightarrow> CSmtpTxnDecoder) \<Rightarrow> 'p CTcpSession \<Rightarrow> 'p CTcpSession" where
  "upd_smtp f s = s\<lparr>m_smtpDecoder := f (m_smtpDecoder s)\<rparr>"

definition getDirection :: "CL4Info \<Rightarrow> 'p CTcpSession \<Rightarrow> direction" where
  "getDirection l4 s =
     (if ip_eq (m_srcIp (m_sessId s)) (m_src (m_pL3Info l4)) \<and>
         m_srcPort_id (m_sessId s) = m_srcPort l4
      then DIRECTION_TO_SERVER else DIRECTION_TO_CLIENT)"

definition isClosed :: "'p CTcpSession \<Rightarrow> bool" where
  "isClosed s = (m_tcpState s = TCP_SM_CLOSED)"

definition setActiveFlg :: "bool \<Rightarrow> 'p CTcpSession \<Rightarrow> 'p CTcpSession" where
  "setActiveFlg f s = s\<lparr>m_activeFlg := f\<rparr>"

definition setBlockFlg :: "bool \<Rightarrow> 'p CTcpSession \<Rightarrow> 'p CTcpSession" where
  "setBlockFlg f s = s\<lparr>m_shouldBlock := f\<rparr>"

definition setNum :: "u64 \<Rightarrow> 'p CTcpSession \<Rightarrow> 'p CTcpSession" where
  "setNum num s = s\<lparr>m_tcpTxnId := num\<rparr>"

definition setLastUpdateTime :: "int \<Rightarrow> 'p CTcpSession \<Rightarrow> 'p CTcpSession" where
  "setLastUpdateTime t s = s\<lparr>m_lastUpdateTime := t\<rparr>"

lemmas sess_defs = getContinuousBuf_def putContinuousBuf_def upd_http_def upd_smtp_def
  isClosed_def setActiveFlg_def setBlockFlg_def setNum_def setLastUpdateTime_def

end
