(* ===== verification/KF_Log.thy ===== *)
theory KF_Log
  imports KF_Config
begin

section \<open>CLog: the file system checks\<close>

text \<open>
  The two helpers that the decoders call before they write files, and the start of the log. The
  system calls \<^verbatim>\<open>access\<close>, \<^verbatim>\<open>mkdir\<close> and \<^verbatim>\<open>statfs\<close> are parameters. The text of
  the log itself is output only and is not modelled.
\<close>

record fs_ops =
  access_ok :: "string \<Rightarrow> bool"
  access_enoent :: "string \<Rightarrow> bool"
  mkdir_ok :: "string \<Rightarrow> bool"
  statfs :: "string \<Rightarrow> (nat \<times> nat) option"

definition makeDir :: "fs_ops \<Rightarrow> string \<Rightarrow> bool" where
  "makeDir fs path = (if \<not> access_ok fs path then (if \<not> mkdir_ok fs path then False else True) else True)"

text \<open>\<open>statfs\<close> returns the free blocks and the block size, which is positive.\<close>

definition isFileSystemOk :: "fs_ops \<Rightarrow> string \<Rightarrow> bool" where
  "isFileSystemOk fs path =
     (if \<not> makeDir fs path then False
      else
        (let limit = 200 * 1024 * 1024 :: nat in
         case statfs fs path of
           None \<Rightarrow> False
         | Some (f_bavail, f_bsize) \<Rightarrow> (if f_bavail < limit div f_bsize then False else True)))"

text \<open>
  The log object: the level is only set when the directory exists or could be made; otherwise the
  field keeps an indeterminate value, here \<open>None\<close>.
\<close>

record CLog =
  log_file :: "string option"
  log_level :: "int option"

definition mk_CLog :: "fs_ops \<Rightarrow> CConfig \<Rightarrow> CLog" where
  "mk_CLog fs cfg =
     (let path = m_rootPath cfg @ ''/logs'' in
      if \<not> access_ok fs path \<and> \<not> access_enoent fs path then \<lparr>log_file = None, log_level = None\<rparr>
      else if \<not> access_ok fs path \<and> \<not> mkdir_ok fs path then \<lparr>log_file = None, log_level = None\<rparr>
      else \<lparr>log_file = Some (path @ ''/killer-finder.log''), log_level = Some (m_logLevel cfg)\<rparr>)"

text \<open>Whether a message of the given level is written.\<close>

definition log_enabled :: "CLog \<Rightarrow> int \<Rightarrow> bool res" where
  "log_enabled l level =
     (case log_level l of None \<Rightarrow> Inl Uninitialised | Some n \<Rightarrow> Inr (level \<le> n))"

text \<open>
  Files are only written when there is room: if the check succeeds then the directory exists or
  was made, and 200 MB are free up to one block.
\<close>

theorem file_system_check_means_space:
  assumes "isFileSystemOk fs path" and "\<And>n bs. statfs fs path = Some (n, bs) \<Longrightarrow> 0 < bs"
  shows "(access_ok fs path \<or> mkdir_ok fs path) \<and>
     (\<exists>n bs. statfs fs path = Some (n, bs) \<and> 200 * 1024 * 1024 < (n + 1) * bs)"
proof -
  obtain n bs where st: "statfs fs path = Some (n, bs)" and "200 * 1024 * 1024 div bs \<le> n"
    and mk: "makeDir fs path"
    using assms(1) by (auto simp: isFileSystemOk_def Let_def split: if_splits option.splits)
  then have "200 * 1024 * 1024 div bs < n + 1" by simp
  then have "200 * 1024 * 1024 < (n + 1) * bs"
    using assms(2) [OF st] by (simp only: div_less_iff_less_mult)
  with st mk show ?thesis
    by (auto simp: makeDir_def split: if_splits)
qed

theorem file_system_check_means_space_witness:
  "(\<exists>n bs. statfs \<lparr>access_ok = \<lambda>_. True, access_enoent = \<lambda>_. False, mkdir_ok = \<lambda>_. False,
        statfs = \<lambda>_. Some (100000, 4096)\<rparr> ''/f'' = Some (n, bs) \<and> 200 * 1024 * 1024 < (n + 1) * bs)"
  using file_system_check_means_space [of "\<lparr>access_ok = \<lambda>_. True, access_enoent = \<lambda>_. False,
      mkdir_ok = \<lambda>_. False, statfs = \<lambda>_. Some (100000, 4096)\<rparr>" "''/f''"]
  by (simp add: isFileSystemOk_def makeDir_def)

end
