(* ===== verification/KF_HttpDecoder.thy ===== *)
theory KF_HttpDecoder
  imports KF_State KF_Log
begin

section \<open>CHttpTxnDecoder\<close>

text \<open>
  The decoder has two modes. Active: while the connection lives, each payload is parsed as it
  arrives, and the URL and the Host header are looked up in the database. Inactive: after the
  connection has closed, the two whole buffers are parsed, the messages are collected, and cared
  response bodies are written to files.
\<close>

subsection \<open>Callbacks\<close>

definition upd_last :: "('a \<Rightarrow> 'a) \<Rightarrow> 'a list \<Rightarrow> 'a list" where
  "upd_last f xs = (if xs = [] then [] else butlast xs @ [f (last xs)])"

definition messageBeginCb :: "'p CTcpSession \<Rightarrow> 'p CTcpSession" where
  "messageBeginCb s =
     (if \<not> m_activeFlg s then
        (case m_parserType (m_httpDecoder s) of
           HTTP_REQUEST \<Rightarrow>
             upd_http (\<lambda>d. d\<lparr>m_requestVector := m_requestVector d @ [mk_CRequestHttpInfo]\<rparr>) s
         | HTTP_RESPONSE \<Rightarrow>
             upd_http (\<lambda>d. d\<lparr>m_responseVector := m_responseVector d @ [mk_CResponseHttpInfo]\<rparr>) s)
      else s)"

definition requestUrlCb :: "hp_view \<Rightarrow> string \<Rightarrow> 'p CTcpSession \<Rightarrow> 'p CTcpSession res" where
  "requestUrlCb p buf s =
     (if m_activeFlg s then
        (let s1 = upd_http (\<lambda>d. d\<lparr>m_url := m_url d @ buf\<rparr>) s in
         Inr (if hp_state p = 32 then upd_http (\<lambda>d. d\<lparr>m_activeMethod := hp_method p\<rparr>) s1 else s1))
      else if m_requestVector (m_httpDecoder s) = [] then Inl OutOfBounds
      else Inr (upd_http (\<lambda>d. d\<lparr>m_requestVector := upd_last (setUrl buf) (m_requestVector d)\<rparr>) s))"

definition responseStatusCb :: "string \<Rightarrow> 'p CTcpSession \<Rightarrow> 'p CTcpSession" where
  "responseStatusCb buf s = s"

definition headerFieldCb :: "hp_view \<Rightarrow> string \<Rightarrow> 'p CTcpSession \<Rightarrow> 'p CTcpSession" where
  "headerFieldCb p buf s =
     (if m_activeFlg s then
        (let hostF = m_hostField (m_httpDecoder s) @ buf;
             hostF' = (if hp_state p = 44 then
                         (let low = map tolower hostF in if low \<noteq> ''host'' then [] else low)
                       else hostF)
         in upd_http (\<lambda>d. d\<lparr>m_hostField := hostF'\<rparr>) s)
      else
        (case m_parserType (m_httpDecoder s) of
           HTTP_REQUEST \<Rightarrow>
             upd_http (\<lambda>d. d\<lparr>m_requestVector := upd_last (insertField buf) (m_requestVector d)\<rparr>) s
         | HTTP_RESPONSE \<Rightarrow>
             upd_http (\<lambda>d. d\<lparr>m_responseVector := upd_last (insertField buf) (m_responseVector d)\<rparr>) s))"

text \<open>
  The protocol and the path that the Host callback passes to the database. The result of
  \<^verbatim>\<open>url.find("://")\<close> is not checked before 3 is added to it, so that a URL without
  \<^verbatim>\<open>://\<close> that does not start with a slash is cut at position 2.
\<close>

definition url_prot :: "string \<Rightarrow> string" where
  "url_prot url = (case str_find ''://'' url of Some pos \<Rightarrow> take pos url | None \<Rightarrow> ''http'')"

definition url_path :: "string \<Rightarrow> string res" where
  "url_path url =
     (if str_front url \<noteq> CHR ''/'' then
        rbind (str_substr url (npos_add (str_find ''://'' url) 3) None) (\<lambda>tmp.
        case str_find ''/'' tmp of
          Some pos \<Rightarrow> str_substr tmp pos None
        | None \<Rightarrow> Inr ''/'')
      else Inr url)"

definition headerValueCb ::
  "CDBManager \<Rightarrow> hp_view \<Rightarrow> string \<Rightarrow> 'p CTcpSession \<Rightarrow> 'p CTcpSession res" where
  "headerValueCb db p buf s =
     (if m_activeFlg s then
        (if m_hostField (m_httpDecoder s) = ''host'' then
           (let s1 = upd_http (\<lambda>d. d\<lparr>m_hostValue := m_hostValue d @ buf\<rparr>) s;
                hostV = m_hostValue (m_httpDecoder s1);
                url = m_url (m_httpDecoder s1)
            in if hp_state p = 50 then
                 rbind (url_path url) (\<lambda>path.
                 Inr (setBlockFlg (isUrlHit db (url_prot url) hostV path) s1))
               else Inr s1)
         else Inr s)
      else
        Inr (case m_parserType (m_httpDecoder s) of
           HTTP_REQUEST \<Rightarrow>
             upd_http (\<lambda>d. d\<lparr>m_requestVector := upd_last (insertValue buf) (m_requestVector d)\<rparr>) s
         | HTTP_RESPONSE \<Rightarrow>
             upd_http (\<lambda>d. d\<lparr>m_responseVector := upd_last (insertValue buf) (m_responseVector d)\<rparr>) s))"

definition headersCompleteCb :: "CDBManager \<Rightarrow> 'p CTcpSession \<Rightarrow> 'p CTcpSession" where
  "headersCompleteCb db s =
     (if m_activeFlg s then
        (let url = m_url (m_httpDecoder s);
             s1 = (if length (m_hostValue (m_httpDecoder s)) = 0 then
                     (case str_find ''://'' url of
                        Some hostPos \<Rightarrow>
                          (let prot = take hostPos url;
                               host = drop (hostPos + 3) url;
                               pathPos = str_find ''/'' host;
                               path = (case pathPos of None \<Rightarrow> ''/'' | Some i \<Rightarrow> drop i host);
                               host' = (case pathPos of None \<Rightarrow> host | Some i \<Rightarrow> take i host)
                           in setBlockFlg (isUrlHit db prot host' path) s)
                      | None \<Rightarrow> s)
                   else s)
         in upd_http (\<lambda>d. d\<lparr>m_hostField := [], m_hostValue := [], m_url := []\<rparr>) s1)
      else s)"

definition body_cb :: "string \<Rightarrow> 'p CTcpSession \<Rightarrow> 'p CTcpSession" where
  "body_cb buf s =
     (if \<not> m_activeFlg s then
        (case m_parserType (m_httpDecoder s) of
           HTTP_REQUEST \<Rightarrow>
             upd_http (\<lambda>d. d\<lparr>m_requestVector := upd_last (setBody buf) (m_requestVector d)\<rparr>) s
         | HTTP_RESPONSE \<Rightarrow>
             upd_http (\<lambda>d. d\<lparr>m_responseVector := upd_last (setBody buf) (m_responseVector d)\<rparr>) s)
      else s)"

definition messageCompleteCb :: "hp_view \<Rightarrow> 'p CTcpSession \<Rightarrow> 'p CTcpSession" where
  "messageCompleteCb p s =
     (if \<not> m_activeFlg s then
        (case m_parserType (m_httpDecoder s) of
           HTTP_REQUEST \<Rightarrow>
             upd_http (\<lambda>d. d\<lparr>m_requestVector := upd_last (setMethod (hp_method p)) (m_requestVector d)\<rparr>) s
         | HTTP_RESPONSE \<Rightarrow>
             upd_http (\<lambda>d. d\<lparr>m_responseVector := upd_last (setStatus (hp_status_code p)) (m_responseVector d)\<rparr>) s)
      else s)"

text \<open>The table \<^verbatim>\<open>settings\<close>: which callback serves which event.\<close>

definition http_callback :: "CDBManager \<Rightarrow> http_event \<Rightarrow> 'p CTcpSession \<Rightarrow> 'p CTcpSession res" where
  "http_callback db ev s =
     (case snd ev of
        On_message_begin \<Rightarrow> Inr (messageBeginCb s)
      | On_url buf \<Rightarrow> requestUrlCb (fst ev) buf s
      | On_status buf \<Rightarrow> Inr (responseStatusCb buf s)
      | On_header_field buf \<Rightarrow> Inr (headerFieldCb (fst ev) buf s)
      | On_header_value buf \<Rightarrow> headerValueCb db (fst ev) buf s
      | On_headers_complete \<Rightarrow> Inr (headersCompleteCb db s)
      | On_body buf \<Rightarrow> Inr (body_cb buf s)
      | On_message_complete \<Rightarrow> Inr (messageCompleteCb (fst ev) s))"

subsection \<open>Running the parser\<close>

definition parserInit :: "'p http_lib \<Rightarrow> http_parser_type \<Rightarrow> 'p CTcpSession \<Rightarrow> 'p CTcpSession" where
  "parserInit lib type s =
     upd_http (\<lambda>d. d\<lparr>m_parserType := type, m_parser := Some (http_parser_init lib type)\<rparr>) s"

definition parserExecute ::
  "'p http_lib \<Rightarrow> CDBManager \<Rightarrow> string \<Rightarrow> 'p CTcpSession \<Rightarrow> (bool \<times> 'p CTcpSession) res" where
  "parserExecute lib db buf s =
     (case m_parser (m_httpDecoder s) of
        None \<Rightarrow> Inl Uninitialised
      | Some p \<Rightarrow>
          (let (evs, p', err) = http_parser_execute lib p buf in
           rbind (rfold (http_callback db) evs s) (\<lambda>s1.
           Inr (err = 0, upd_http (\<lambda>d. d\<lparr>m_parser := Some p'\<rparr>) s1))))"

definition http_dir :: "http_parser_type \<Rightarrow> direction" where
  "http_dir type = (if type = HTTP_REQUEST then DIRECTION_TO_SERVER else DIRECTION_TO_CLIENT)"

definition decodeHttpActive ::
  "'p http_lib \<Rightarrow> CDBManager \<Rightarrow> http_parser_type \<Rightarrow> 'p CTcpSession \<Rightarrow> (bool \<times> 'p CTcpSession) res" where
  "decodeHttpActive lib db type s =
     (let dir = http_dir type in
      rbind (dumpUnusedData (getContinuousBuf dir s)) (\<lambda>(buf, b).
      rbind (parserExecute lib db buf (putContinuousBuf dir b s)) (\<lambda>(good, s1).
      if \<not> good then
        (let s2 = parserInit lib type s1 in
         Inr (False, putContinuousBuf dir (setUsedPos 0 (getContinuousBuf dir s2)) s2))
      else Inr (True, s1))))"

definition decodeHttpInactive ::
  "'p http_lib \<Rightarrow> CDBManager \<Rightarrow> http_parser_type \<Rightarrow> 'p CTcpSession \<Rightarrow> (bool \<times> 'p CTcpSession) res" where
  "decodeHttpInactive lib db type s =
     (let buf = getBuf (getContinuousBuf (http_dir type) s) in
      rbind (parserExecute lib db buf s) (\<lambda>(good, s1).
      if \<not> good then Inr (False, s1) else Inr (True, s1)))"

definition decodeHttp_type ::
  "'p http_lib \<Rightarrow> CDBManager \<Rightarrow> http_parser_type \<Rightarrow> 'p CTcpSession \<Rightarrow> (bool \<times> 'p CTcpSession) res" where
  "decodeHttp_type lib db type s =
     (if m_activeFlg s then decodeHttpActive lib db type s else decodeHttpInactive lib db type s)"

definition decodeHttp ::
  "'p http_lib \<Rightarrow> CDBManager \<Rightarrow> 'p CTcpSession \<Rightarrow> (bool \<times> 'p CTcpSession) res" where
  "decodeHttp lib db s =
     (if \<not> m_activeFlg s then
        rbind (decodeHttp_type lib db HTTP_REQUEST (parserInit lib HTTP_REQUEST s)) (\<lambda>(_, s1).
        rbind (decodeHttp_type lib db HTTP_RESPONSE (parserInit lib HTTP_RESPONSE s1)) (\<lambda>(_, s2).
        Inr (True, s2)))
      else Inr (False, s))"

subsection \<open>Saving the bodies\<close>

text \<open>The content type as part of a file name: slashes become plus signs, blanks go.\<close>

definition ct_name :: "string \<Rightarrow> string" where
  "ct_name ct =
     concat (map (\<lambda>c. if c = CHR ''/'' then ''+'' else if c = CHR '' '' then [] else [c]) ct)"

definition url_file_name :: "string \<Rightarrow> string res" where
  "url_file_name url =
     rbind (case str_find ''://'' url of
              Some pos \<Rightarrow> str_substr url (pos + 3) None
            | None \<Rightarrow> Inr url) (\<lambda>tmpurl.
     case find_last_of CHR ''/'' tmpurl of
       None \<Rightarrow> Inr ''_name=none''
     | Some pos \<Rightarrow>
         (if pos + 1 = length tmpurl then Inr ''_name=none''
          else
            rbind (str_substr tmpurl (pos + 1) None) (\<lambda>tmpname.
            Inr (''_name='' @
              (case str_find ''?'' tmpname of
                 Some q \<Rightarrow> take q tmpname
               | None \<Rightarrow>
                   (case str_find ''#'' tmpname of
                      Some h \<Rightarrow> take h tmpname
                    | None \<Rightarrow> tmpname))))))"

definition response_file_name :: "'p CTcpSession \<Rightarrow> nat \<Rightarrow> CRequestHttpInfo \<Rightarrow> CResponseHttpInfo \<Rightarrow> string res" where
  "response_file_name s i req resp =
     rbind (url_file_name (m_reqUrl req)) (\<lambda>suffix.
     Inr (getIdStr (m_sessId s) @ ''_'' @ ct_name (m_contentType resp) @ ''_'' @ show_nat i @ suffix))"

definition saves_response :: "CConfig \<Rightarrow> CResponseHttpInfo \<Rightarrow> bool" where
  "saves_response cfg resp =
     (if m_status resp \<noteq> 200 then False
      else if \<not> isContentTypeCared cfg resp then False
      else if length (m_body resp) = 0 then False
      else True)"

text \<open>
  The loop over the paired messages. The stream \<open>path\<close> is not reset between iterations: each name
  is appended to all earlier ones. The result is the list of files that are opened and their
  contents.
\<close>

primrec save_responses ::
  "CConfig \<Rightarrow> 'p CTcpSession \<Rightarrow> nat \<Rightarrow> (CRequestHttpInfo \<times> CResponseHttpInfo) list \<Rightarrow> string
   \<Rightarrow> (string \<times> string) list res" where
  "save_responses cfg s i [] path = Inr []"
| "save_responses cfg s i (rr # rrs) path =
     (if \<not> saves_response cfg (snd rr) then save_responses cfg s (i + 1) rrs path
      else
        rbind (response_file_name s i (fst rr) (snd rr)) (\<lambda>name.
        (let path' = path @ ''/'' @ name in
         rbind (save_responses cfg s (i + 1) rrs path') (\<lambda>files.
         Inr ((path', m_body (snd rr)) # files)))))"

definition saveToFile_http ::
  "CConfig \<Rightarrow> fs_ops \<Rightarrow> nat \<Rightarrow> 'p CTcpSession \<Rightarrow> (string \<times> string) list res" where
  "saveToFile_http cfg fs now s =
     (let path = m_rootPath cfg @ ''/'' @ ''files'' in
      if \<not> isFileSystemOk fs path then Inr []
      else
        (let path' = path @ ''/'' @ show_nat (now div 60) in
         if \<not> makeDir fs path' then Inr []
         else
           save_responses cfg s 0
             (zip (m_requestVector (m_httpDecoder s)) (m_responseVector (m_httpDecoder s))) path'))"

subsection \<open>What the decoder leaves alone\<close>

text \<open>The fields of the session that the decoder has no business with.\<close>

definition sess_frame :: "'p CTcpSession \<Rightarrow>
    CTcpSessionId \<times> u64 \<times> tcp_sm \<times> bool \<times> protocol \<times> CSmtpTxnDecoder \<times> int" where
  "sess_frame s =
     (m_sessId s, m_tcpTxnId s, m_tcpState s, m_activeFlg s, m_protocol s, m_smtpDecoder s,
      m_lastUpdateTime s)"

lemmas callback_defs = messageBeginCb_def requestUrlCb_def responseStatusCb_def headerFieldCb_def
  headerValueCb_def headersCompleteCb_def body_cb_def messageCompleteCb_def

lemma sess_frame_upd_http [simp]: "sess_frame (upd_http f s) = sess_frame s"
  by (simp add: sess_frame_def upd_http_def)

lemma sess_frame_setBlockFlg [simp]: "sess_frame (setBlockFlg b s) = sess_frame s"
  by (simp add: sess_frame_def setBlockFlg_def)

lemma sess_frame_putContinuousBuf [simp]: "sess_frame (putContinuousBuf d b s) = sess_frame s"
  by (simp add: sess_frame_def putContinuousBuf_def)

lemma upd_http_parser [simp]:
  "m_parser (m_httpDecoder (upd_http f s)) = m_parser (f (m_httpDecoder s))"
  by (simp add: upd_http_def)

lemma setBlockFlg_fields [simp]:
  "m_httpDecoder (setBlockFlg b s) = m_httpDecoder s"
  "m_continuousSeg (setBlockFlg b s) = m_continuousSeg s"
  by (simp_all add: setBlockFlg_def)

lemma upd_http_continuousSeg [simp]: "m_continuousSeg (upd_http f s) = m_continuousSeg s"
  by (simp add: upd_http_def)

lemma http_callback_frame:
  assumes "http_callback db ev s = Inr s'"
  shows "sess_frame s' = sess_frame s"
    and "m_continuousSeg s' = m_continuousSeg s"
    and "m_parser (m_httpDecoder s') = m_parser (m_httpDecoder s)"
  using assms
  by (auto simp: http_callback_def callback_defs Let_def
      split: http_cb.splits http_parser_type.splits if_splits option.splits)

lemma callbacks_frame:
  assumes "rfold (http_callback db) evs s = Inr s'"
  shows "sess_frame s' = sess_frame s \<and> m_continuousSeg s' = m_continuousSeg s \<and>
     m_parser (m_httpDecoder s') = m_parser (m_httpDecoder s)"
  using assms by (rule rfold_invariant) (auto dest: http_callback_frame)

lemma parserExecute_frame:
  assumes "parserExecute lib db buf s = Inr (good, s')"
  shows "sess_frame s' = sess_frame s \<and> m_continuousSeg s' = m_continuousSeg s \<and>
     m_parser (m_httpDecoder s') \<noteq> None"
  using assms
  by (auto simp: parserExecute_def rbind_eq_Inr split: option.splits prod.splits
      dest!: callbacks_frame)

lemma decodeHttp_type_frame:
  assumes "decodeHttp_type lib db type s = Inr (good, s')"
  shows "sess_frame s' = sess_frame s \<and> m_parser (m_httpDecoder s') \<noteq> None"
  using assms
  by (auto simp: decodeHttp_type_def decodeHttpActive_def decodeHttpInactive_def Let_def
      rbind_eq_Inr parserInit_def putContinuousBuf_def split: if_splits
      dest!: parserExecute_frame) (auto simp: sess_frame_def upd_http_def)

lemma sess_frameD:
  assumes "sess_frame s' = sess_frame s"
  shows "m_sessId s' = m_sessId s" "m_tcpTxnId s' = m_tcpTxnId s" "m_tcpState s' = m_tcpState s"
    "m_activeFlg s' = m_activeFlg s" "m_protocol s' = m_protocol s"
    "m_smtpDecoder s' = m_smtpDecoder s" "m_lastUpdateTime s' = m_lastUpdateTime s"
  using assms by (simp_all add: sess_frame_def)

subsection \<open>Which faults the active decoder can have\<close>

lemma str_substr_fault: "str_substr s i n = Inl f \<Longrightarrow> f = OutOfRange"
  by (auto simp: str_substr_def split: if_splits)

lemma url_path_fault: "url_path url = Inl f \<Longrightarrow> f = OutOfRange"
  by (auto simp: url_path_def rbind_eq_Inl dest: str_substr_fault split: if_splits option.splits)

lemma http_callback_fault:
  "http_callback db ev s = Inl f \<Longrightarrow> m_activeFlg s \<Longrightarrow> f = OutOfRange"
  by (auto simp: http_callback_def callback_defs Let_def rbind_eq_Inl dest: url_path_fault
      split: http_cb.splits if_splits)

lemma callbacks_fault:
  "rfold (http_callback db) evs s = Inl f \<Longrightarrow> m_activeFlg s \<Longrightarrow> f = OutOfRange"
proof (induction evs arbitrary: s)
  case Nil
  then show ?case by simp
next
  case (Cons ev evs)
  then show ?case
    by (auto simp: rbind_eq_Inl dest: http_callback_fault sess_frameD(4) [OF http_callback_frame(1)])
qed

lemma decodeHttpActive_fault:
  assumes "decodeHttpActive lib db type s = Inl f" and "m_activeFlg s"
    and "m_parser (m_httpDecoder s) \<noteq> None"
  shows "f = OutOfRange"
  using assms
  by (auto simp: decodeHttpActive_def parserExecute_def dumpUnusedData_def str_append_sub_def
      Let_def rbind_eq_Inl putContinuousBuf_def split: if_splits option.splits prod.splits
      dest!: callbacks_fault)

subsection \<open>Properties\<close>

text \<open>
  The parser may report an element in several pieces; only the last piece is reported in the state
  that the callbacks wait for.
\<close>

definition pieces :: "hp_view \<Rightarrow> hp_view \<Rightarrow> (string \<Rightarrow> http_cb) \<Rightarrow> string list \<Rightarrow> http_event list" where
  "pieces v vl cb us = map (\<lambda>u. (v, cb u)) (butlast us) @ [(vl, cb (last us))]"

lemma concat_butlast_last: "us \<noteq> [] \<Longrightarrow> concat (butlast us) @ last us = concat us"
  by (induction us) auto

lemma upd_http_compose: "upd_http f (upd_http g s) = upd_http (f \<circ> g) s"
  by (simp add: upd_http_def)

lemma active_upd_http [simp]: "m_activeFlg (upd_http f s) = m_activeFlg s"
  by (simp add: upd_http_def)

lemma decoder_upd_http [simp]: "m_httpDecoder (upd_http f s) = f (m_httpDecoder s)"
  by (simp add: upd_http_def)

lemma url_inner_pieces:
  "m_activeFlg s \<Longrightarrow> hp_state v \<noteq> 32 \<Longrightarrow>
     rfold (http_callback db) (map (\<lambda>u. (v, On_url u)) us) s =
       Inr (upd_http (\<lambda>d. d\<lparr>m_url := m_url d @ concat us\<rparr>) s)"
  by (induction us arbitrary: s)
     (simp_all add: http_callback_def requestUrlCb_def upd_http_compose o_def,
      simp add: upd_http_def)

lemma url_pieces:
  assumes "m_activeFlg s" and "hp_state v \<noteq> 32" and "hp_state vl = 32" and "us \<noteq> []"
  shows "rfold (http_callback db) (pieces v vl On_url us) s =
     Inr (upd_http (\<lambda>d. d\<lparr>m_url := m_url d @ concat us, m_activeMethod := hp_method vl\<rparr>) s)"
  using assms(1-3) concat_butlast_last [OF assms(4)]
  by (simp add: pieces_def rfold_snoc url_inner_pieces http_callback_def requestUrlCb_def
      upd_http_compose o_def)

lemma field_inner_pieces:
  "m_activeFlg s \<Longrightarrow> hp_state v \<noteq> 44 \<Longrightarrow>
     rfold (http_callback db) (map (\<lambda>u. (v, On_header_field u)) us) s =
       Inr (upd_http (\<lambda>d. d\<lparr>m_hostField := m_hostField d @ concat us\<rparr>) s)"
  by (induction us arbitrary: s)
     (simp_all add: http_callback_def headerFieldCb_def upd_http_compose o_def,
      simp_all add: upd_http_def)

lemma field_pieces:
  assumes "m_activeFlg s" and "hp_state v \<noteq> 44" and "hp_state vl = 44" and "us \<noteq> []"
    and "m_hostField (m_httpDecoder s) = []"
  shows "rfold (http_callback db) (pieces v vl On_header_field us) s =
     Inr (upd_http (\<lambda>d. d\<lparr>m_hostField :=
        (if map tolower (concat us) = ''host'' then ''host'' else [])\<rparr>) s)"
  using assms(1-3,5) concat_butlast_last [OF assms(4)]
  by (simp add: pieces_def rfold_snoc field_inner_pieces http_callback_def headerFieldCb_def
      upd_http_compose o_def Let_def flip: map_append)

lemma value_inner_pieces:
  "m_activeFlg s \<Longrightarrow> hp_state v \<noteq> 50 \<Longrightarrow> m_hostField (m_httpDecoder s) = ''host'' \<Longrightarrow>
     rfold (http_callback db) (map (\<lambda>u. (v, On_header_value u)) us) s =
       Inr (upd_http (\<lambda>d. d\<lparr>m_hostValue := m_hostValue d @ concat us\<rparr>) s)"
  by (induction us arbitrary: s)
     (simp_all add: http_callback_def headerValueCb_def upd_http_compose o_def Let_def,
      simp add: upd_http_def)

lemma value_pieces:
  assumes "m_activeFlg s" and "hp_state v \<noteq> 50" and "hp_state vl = 50" and "us \<noteq> []"
    and "m_hostField (m_httpDecoder s) = ''host''" and "m_hostValue (m_httpDecoder s) = []"
    and "url_path (m_url (m_httpDecoder s)) = Inr path"
  shows "rfold (http_callback db) (pieces v vl On_header_value us) s =
     Inr (setBlockFlg (isUrlHit db (url_prot (m_url (m_httpDecoder s))) (concat us) path)
           (upd_http (\<lambda>d. d\<lparr>m_hostValue := concat us\<rparr>) s))"
  using assms(1-3,5-7) concat_butlast_last [OF assms(4)]
  by (simp add: pieces_def rfold_snoc value_inner_pieces http_callback_def headerValueCb_def
      upd_http_compose o_def Let_def) (simp add: upd_http_def)



lemma str_find_scheme:
  "CHR '':'' \<notin> set prot \<Longrightarrow> str_find ''://'' (prot @ ''://'' @ r) = Some (length prot)"
  by (induction prot) auto

text \<open>
  The protocol and the path of a request line in absolute form. For
  \<^verbatim>\<open>scheme://host/rest\<close> the decoder passes the scheme and \<^verbatim>\<open>/rest\<close> to the database.
\<close>

theorem absolute_url_split:
  assumes "prot \<noteq> []" and "CHR '':'' \<notin> set prot" and "CHR ''/'' \<notin> set prot" and "CHR ''/'' \<notin> set host"
    and "length prot + 3 < 2 ^ 64"
  shows "url_prot (prot @ ''://'' @ host @ ''/'' @ rest) = prot \<and>
         url_path (prot @ ''://'' @ host @ ''/'' @ rest) = Inr (''/'' @ rest)"
proof -
  let ?u = "prot @ ''://'' @ host @ ''/'' @ rest"
  have find: "str_find ''://'' ?u = Some (length prot)"
    using assms(2) by (rule str_find_scheme)
  have front: "str_front ?u \<noteq> CHR ''/''"
    using assms(1,3) by (cases prot) (auto simp: str_front_def)
  have "npos_add (str_find ''://'' ?u) 3 = length prot + 3"
    unfolding find using assms(5) by (simp add: npos_add_def)
  then have "str_substr ?u (npos_add (str_find ''://'' ?u) 3) None = Inr (host @ ''/'' @ rest)"
    by (simp add: str_substr_def)
  moreover have "str_find ''/'' (host @ ''/'' @ rest) = Some (length host)"
    using assms(4) str_find_char_append [of "CHR ''/''" host rest] by simp
  ultimately have "url_path ?u = Inr (''/'' @ rest)"
    using front by (simp only: url_path_def rbind_Inr if_True option.case)
      (simp add: str_substr_def)
  then show ?thesis
    unfolding url_prot_def find by simp
qed

theorem absolute_url_split_witness:
  "url_prot ''http://evil.org/a?b=1'' = ''http'' \<and> url_path ''http://evil.org/a?b=1'' = Inr ''/a?b=1''"
  using absolute_url_split [of "''http''" "''evil.org''" "''a?b=1''"] by simp

text \<open>
  A request line whose target is \<^verbatim>\<open>*\<close> (as in \<^verbatim>\<open>OPTIONS *\<close>) ends the process when its
  Host header is complete: the unchecked search result wraps and \<^verbatim>\<open>substr\<close> throws.
\<close>

theorem asterisk_target_throws:
  assumes "m_activeFlg s" and "m_hostField (m_httpDecoder s) = ''host''" and "hp_state p = 50"
    and "m_url (m_httpDecoder s) = ''*''"
  shows "headerValueCb db p buf s = Inl OutOfRange"
proof -
  have "url_path ''*'' = Inl OutOfRange"
    by (simp add: url_path_def str_front_def npos_add_def str_substr_def)
  then show ?thesis
    using assms by (simp add: headerValueCb_def Let_def)
qed

theorem asterisk_target_throws_witness:
  "headerValueCb CDBManager_init \<lparr>hp_state = 50, hp_method = 6, hp_status_code = 0\<rparr> ''a.org''
     (upd_http (\<lambda>d. d\<lparr>m_hostField := ''host'', m_url := ''*''\<rparr>)
        (mk_CTcpSession setDefault (mk_CTcpSessionId (CIpAddress_v4 1) 5000 (CIpAddress_v4 2) 80)
           :: unit CTcpSession)) = Inl OutOfRange"
  by (rule asterisk_target_throws) (simp_all add: mk_CTcpSession_def)

text \<open>Every URL is reported inside a message: the library's order of callbacks.\<close>

primrec urls_inside :: "bool \<Rightarrow> http_event list \<Rightarrow> bool" where
  "urls_inside begun [] = True"
| "urls_inside begun (ev # evs) =
     (case snd ev of
        On_message_begin \<Rightarrow> urls_inside True evs
      | On_url _ \<Rightarrow> begun \<and> urls_inside begun evs
      | _ \<Rightarrow> urls_inside begun evs)"

definition begins :: "http_event list \<Rightarrow> nat" where
  "begins evs = length (filter (\<lambda>ev. snd ev = On_message_begin) evs)"

lemma length_upd_last [simp]: "length (upd_last f xs) = length xs"
  by (simp add: upd_last_def)

lemma upd_last_Nil_iff [simp]: "upd_last f xs = [] \<longleftrightarrow> xs = []"
  by (simp add: upd_last_def)

lemma butlast_upd_last [simp]: "butlast (upd_last f xs) = butlast xs"
  by (simp add: upd_last_def)

text \<open>One inactive callback: no fault, and a new element exactly at a message begin.\<close>

lemma inactive_callback:
  assumes "\<not> m_activeFlg s" and "m_parserType (m_httpDecoder s) = HTTP_REQUEST"
    and "\<And>u. snd ev = On_url u \<Longrightarrow> m_requestVector (m_httpDecoder s) \<noteq> []"
  shows "\<exists>s'. http_callback db ev s = Inr s' \<and> \<not> m_activeFlg s' \<and>
     m_parserType (m_httpDecoder s') = HTTP_REQUEST \<and>
     length (m_requestVector (m_httpDecoder s')) =
       length (m_requestVector (m_httpDecoder s)) + (if snd ev = On_message_begin then 1 else 0)"
  using assms by (cases "snd ev") (auto simp: http_callback_def callback_defs)

text \<open>
  After the connection has closed, the request buffer is parsed without a crash and the decoder
  holds one request object for each message the parser began.
\<close>

theorem inactive_one_object_per_message:
  assumes "\<not> m_activeFlg s" and "m_parserType (m_httpDecoder s) = HTTP_REQUEST"
    and "urls_inside (m_requestVector (m_httpDecoder s) \<noteq> []) evs"
  shows "\<exists>s'. rfold (http_callback db) evs s = Inr s' \<and>
     length (m_requestVector (m_httpDecoder s')) = length (m_requestVector (m_httpDecoder s)) + begins evs"
  using assms
proof (induction evs arbitrary: s)
  case Nil
  then show ?case by (simp add: begins_def)
next
  case (Cons ev evs)
  have "\<And>u. snd ev = On_url u \<Longrightarrow> m_requestVector (m_httpDecoder s) \<noteq> []"
    using Cons.prems(3) by auto
  then obtain s1 where s1: "http_callback db ev s = Inr s1" "\<not> m_activeFlg s1"
      "m_parserType (m_httpDecoder s1) = HTTP_REQUEST"
    and len: "length (m_requestVector (m_httpDecoder s1)) =
       length (m_requestVector (m_httpDecoder s)) + (if snd ev = On_message_begin then 1 else 0)"
    using inactive_callback [OF Cons.prems(1,2), of ev db] by auto
  have "m_requestVector (m_httpDecoder s1) \<noteq> [] \<longleftrightarrow>
      snd ev = On_message_begin \<or> m_requestVector (m_httpDecoder s) \<noteq> []"
    unfolding length_greater_0_conv [symmetric] len by auto
  then have "urls_inside (m_requestVector (m_httpDecoder s1) \<noteq> []) evs"
    using Cons.prems(3) by (cases "snd ev") auto
  from Cons.IH [OF s1(2,3) this] s1(1) len show ?case
    by (auto simp: begins_def)
qed

theorem inactive_one_object_per_message_witness:
  "\<exists>s'. rfold (http_callback CDBManager_init)
       (map (Pair \<lparr>hp_state = 0, hp_method = 1, hp_status_code = 0\<rparr>)
          [On_message_begin, On_url ''/a'', On_message_complete, On_message_begin, On_url ''/b''])
       (setActiveFlg False (mk_CTcpSession setDefault
          (mk_CTcpSessionId (CIpAddress_v4 1) 5000 (CIpAddress_v4 2) 80) :: unit CTcpSession)) = Inr s'
     \<and> length (m_requestVector (m_httpDecoder s')) = 2"
proof -
  define s :: "unit CTcpSession" where "s = setActiveFlg False (mk_CTcpSession setDefault
      (mk_CTcpSessionId (CIpAddress_v4 1) 5000 (CIpAddress_v4 2) 80))"
  define evs where "evs = map (Pair \<lparr>hp_state = 0, hp_method = 1, hp_status_code = 0\<rparr>)
      [On_message_begin, On_url ''/a'', On_message_complete, On_message_begin, On_url ''/b'']"
  have "\<not> m_activeFlg s" "m_parserType (m_httpDecoder s) = HTTP_REQUEST"
    and vec: "m_requestVector (m_httpDecoder s) = []"
    by (simp_all add: s_def setActiveFlg_def mk_CTcpSession_def mk_CHttpTxnDecoder_def)
  moreover have "urls_inside (m_requestVector (m_httpDecoder s) \<noteq> []) evs" "begins evs = 2"
    by (simp_all add: vec evs_def begins_def)
  ultimately have "\<exists>s'. rfold (http_callback CDBManager_init) evs s = Inr s' \<and>
      length (m_requestVector (m_httpDecoder s')) = 2"
    using inactive_one_object_per_message [of s evs CDBManager_init] by (simp add: numeral_2_eq_2)
  then show ?thesis
    unfolding s_def evs_def .
qed

lemma save_responses_Cons:
  assumes "save_responses cfg s i (rr # rrs) path = Inr files" and "saves_response cfg (snd rr)"
  obtains name rest where "save_responses cfg s (i + 1) rrs (path @ ''/'' @ name) = Inr rest"
    and "files = (path @ ''/'' @ name, m_body (snd rr)) # rest"
  using assms by (auto simp: rbind_eq_Inr Let_def)

lemma save_responses_below:
  "save_responses cfg s i rrs path = Inr files \<Longrightarrow> f \<in> set files \<Longrightarrow>
     \<exists>suf. fst f = path @ ''/'' @ suf"
proof (induction rrs arbitrary: i path files)
  case Nil
  then show ?case by simp
next
  case (Cons rr rrs)
  show ?case
  proof (cases "saves_response cfg (snd rr)")
    case False
    with Cons show ?thesis by simp
  next
    case True
    with Cons.prems(1) obtain name rest where
        rest: "save_responses cfg s (i + 1) rrs (path @ ''/'' @ name) = Inr rest"
      and files: "files = (path @ ''/'' @ name, m_body (snd rr)) # rest"
      by (rule save_responses_Cons)
    from Cons.prems(2) files consider "f = (path @ ''/'' @ name, m_body (snd rr))" | "f \<in> set rest"
      by auto
    then show ?thesis
      using Cons.IH [OF rest] by cases auto
  qed
qed

text \<open>
  The files of one session are nested: the path of every file but the first starts with the path
  of an earlier one followed by a slash. That earlier path is a regular file, so the later ones
  cannot be opened.
\<close>

theorem saved_paths_nest:
  assumes "save_responses cfg s i rrs path = Inr files" and "j < k" and "k < length files"
  shows "\<exists>suf. fst (files ! k) = fst (files ! j) @ ''/'' @ suf"
  using assms
proof (induction rrs arbitrary: i path files j k)
  case Nil
  then show ?case by simp
next
  case (Cons rr rrs)
  show ?case
  proof (cases "saves_response cfg (snd rr)")
    case False
    with Cons show ?thesis by simp
  next
    case True
    with Cons.prems(1) obtain name rest where
        rest: "save_responses cfg s (i + 1) rrs (path @ ''/'' @ name) = Inr rest"
      and files: "files = (path @ ''/'' @ name, m_body (snd rr)) # rest"
      by (rule save_responses_Cons)
    obtain k' where k: "k = Suc k'" "k' < length rest"
      using Cons.prems(2,3) files by (cases k) auto
    show ?thesis
    proof (cases j)
      case 0
      then show ?thesis
        using save_responses_below [OF rest, of "rest ! k'"] k files by simp
    next
      case (Suc j')
      then show ?thesis
        using Cons.IH [OF rest, of j' k'] Cons.prems(2) k files by simp
    qed
  qed
qed

theorem saved_paths_nest_witness:
  "\<exists>files suf. save_responses setDefault
       (mk_CTcpSession setDefault (mk_CTcpSessionId (CIpAddress_v4 1) 5000 (CIpAddress_v4 2) 80)
          :: unit CTcpSession) 0
       [(setUrl ''/a'' mk_CRequestHttpInfo, setStatus 200 (setBody ''x'' mk_CResponseHttpInfo)),
        (setUrl ''/b'' mk_CRequestHttpInfo, setStatus 200 (setBody ''y'' mk_CResponseHttpInfo))]
       ''/files/1'' = Inr files
     \<and> length files = 2 \<and> fst (files ! 1) = fst (files ! 0) @ ''/'' @ suf"
proof -
  let ?s = "mk_CTcpSession setDefault
      (mk_CTcpSessionId (CIpAddress_v4 1) 5000 (CIpAddress_v4 2) 80) :: unit CTcpSession"
  let ?rrs = "[(setUrl ''/a'' mk_CRequestHttpInfo, setStatus 200 (setBody ''x'' mk_CResponseHttpInfo)),
        (setUrl ''/b'' mk_CRequestHttpInfo, setStatus 200 (setBody ''y'' mk_CResponseHttpInfo))]"
  have saves: "saves_response setDefault (setStatus 200 (setBody ''x'' mk_CResponseHttpInfo))"
    "saves_response setDefault (setStatus 200 (setBody ''y'' mk_CResponseHttpInfo))"
    by (simp_all add: saves_response_def setStatus_def setBody_def mk_CResponseHttpInfo_def
        isContentTypeCared_def mk_CHttpInfo_def CHttpInfo.defs CResponseHttpInfo.defs)
  have "url_file_name ''/a'' = Inr ''_name=a''" "url_file_name ''/b'' = Inr ''_name=b''"
    by (code_simp, code_simp)
  then have "\<exists>n1 n2. response_file_name ?s 0 (fst (?rrs ! 0)) (snd (?rrs ! 0)) = Inr n1 \<and>
      response_file_name ?s 1 (fst (?rrs ! 1)) (snd (?rrs ! 1)) = Inr n2"
    by (simp add: response_file_name_def setUrl_def mk_CRequestHttpInfo_def mk_CHttpInfo_def
        CHttpInfo.defs CRequestHttpInfo.defs)
  then obtain files where "save_responses setDefault ?s 0 ?rrs ''/files/1'' = Inr files"
      "length files = 2"
    using saves by auto
  then show ?thesis
    using saved_paths_nest [of setDefault ?s 0 ?rrs "''/files/1''" files 0 1] by auto
qed

end
