(* ===== verification/KF_Session.thy ===== *)
theory KF_Session
  imports KF_HttpDecoder
begin

section \<open>CTcpSession: the connection state machine\<close>

text \<open>
  The session follows the connection: payload is stored and handed to the HTTP decoder, FIN and RST
  move the state towards \<open>TCP_SM_CLOSED\<close>, and a session whose address or URL is listed gets a reset.
  The hooks of \<^verbatim>\<open>CTcpSessionPlugin\<close> that have an empty body are identities.
\<close>

subsection \<open>CPacketCreater: the reset packet\<close>

text \<open>
  libnet is a parameter: whether each of its calls succeeds. The model records the calls made, with
  the arguments that decide what goes on the wire.
\<close>

record libnet_lib =
  libnet_init_ok :: bool
  libnet_build_tcp_ok :: bool
  libnet_build_ipv4_ok :: bool

record tcp_fields =
  tf_sport :: u16
  tf_dport :: u16
  tf_seq :: u32
  tf_ack :: u32
  tf_control :: u8
  tf_win :: u16
  tf_sum :: u16
  tf_urg :: u16
  tf_len :: nat
  tf_payload_s :: nat

record ip_fields =
  if_len :: nat
  if_tos :: nat
  if_id :: u16
  if_frag :: nat
  if_ttl :: nat
  if_prot :: u8
  if_sum :: u16
  if_src :: u32
  if_dst :: u32
  if_payload_s :: nat

datatype libnet_call =
    Libnet_init
  | Libnet_build_tcp tcp_fields
  | Libnet_build_ipv4 ip_fields
  | Libnet_write
  | Libnet_destroy

definition LIBNET_TCP_H :: nat where "LIBNET_TCP_H = 20"
definition LIBNET_IPV4_H :: nat where "LIBNET_IPV4_H = 20"

definition sendIpv4Rst ::
  "libnet_lib \<Rightarrow> u32 \<Rightarrow> u32 \<Rightarrow> u16 \<Rightarrow> u16 \<Rightarrow> u16 \<Rightarrow> u32 \<Rightarrow> u32 \<Rightarrow> libnet_call list" where
  "sendIpv4Rst net src_ip dst_ip ipid src_prt dst_prt seq ack =
     (let payload_s = 0;
          tcp = Libnet_build_tcp
            \<lparr>tf_sport = src_prt, tf_dport = dst_prt, tf_seq = seq, tf_ack = ack,
             tf_control = TH_RST, tf_win = 32767, tf_sum = 0, tf_urg = 0,
             tf_len = LIBNET_TCP_H + payload_s, tf_payload_s = payload_s\<rparr>;
          ip = Libnet_build_ipv4
            \<lparr>if_len = LIBNET_IPV4_H + LIBNET_TCP_H + payload_s, if_tos = 0, if_id = ipid,
             if_frag = 0, if_ttl = 64, if_prot = IPPROTO_TCP, if_sum = 0,
             if_src = src_ip, if_dst = dst_ip, if_payload_s = 0\<rparr>
      in if \<not> libnet_init_ok net then [Libnet_init]
         else if \<not> libnet_build_tcp_ok net then [Libnet_init, tcp, Libnet_destroy]
         else if \<not> libnet_build_ipv4_ok net then [Libnet_init, tcp, ip, Libnet_destroy]
         else [Libnet_init, tcp, ip, Libnet_write, Libnet_destroy])"

text \<open>The IPv6 variant has an empty body.\<close>

definition sendIpv6Rst ::
  "u8 list \<Rightarrow> u8 list \<Rightarrow> u16 \<Rightarrow> u16 \<Rightarrow> u32 \<Rightarrow> u32 \<Rightarrow> libnet_call list" where
  "sendIpv6Rst src dst src_prt dst_prt seq ack = []"

subsection \<open>CTcpSessionPlugin\<close>

definition sessionCreated :: "'p http_lib \<Rightarrow> 'p CTcpSession \<Rightarrow> 'p CTcpSession" where
  "sessionCreated lib s =
     (case m_protocol s of
        PROTOCOL_HTTP \<Rightarrow> parserInit lib HTTP_REQUEST (setActiveFlg True s)
      | PROTOCOL_SMTP \<Rightarrow> s
      | PROTOCOL_UNKNOWN \<Rightarrow> s)"

definition payloadReceived ::
  "'p http_lib \<Rightarrow> CDBManager \<Rightarrow> direction \<Rightarrow> 'p CTcpSession \<Rightarrow> 'p CTcpSession res" where
  "payloadReceived lib db triggerPacketDir s =
     (case m_protocol s of
        PROTOCOL_HTTP \<Rightarrow>
          (if m_activeFlg s \<and> triggerPacketDir = DIRECTION_TO_SERVER then
             rbind (decodeHttp_type lib db HTTP_REQUEST s) (\<lambda>(_, s1). Inr s1)
           else Inr s)
      | PROTOCOL_SMTP \<Rightarrow> Inr s
      | PROTOCOL_UNKNOWN \<Rightarrow> Inr s)"

definition revFirstPacket :: "direction \<Rightarrow> 'p CTcpSession \<Rightarrow> 'p CTcpSession" where
  "revFirstPacket dir s = s"

definition directionReverse :: "direction \<Rightarrow> 'p CTcpSession \<Rightarrow> 'p CTcpSession" where
  "directionReverse dir s = s"

definition finReceived :: "direction \<Rightarrow> 'p CTcpSession \<Rightarrow> 'p CTcpSession" where
  "finReceived dir s = s"

definition sessionClosed :: "direction \<Rightarrow> 'p CTcpSession \<Rightarrow> 'p CTcpSession" where
  "sessionClosed dir s = s"

definition rstReceived :: "direction \<Rightarrow> 'p CTcpSession \<Rightarrow> 'p CTcpSession" where
  "rstReceived dir s = s"

definition sessionPosted :: "'p CTcpSession \<Rightarrow> 'p CTcpSession" where
  "sessionPosted s = s"

lemmas plugin_id = revFirstPacket_def directionReverse_def finReceived_def rstReceived_def
  sessionClosed_def sessionPosted_def

subsection \<open>Updating a session\<close>

text \<open>The payload is read from the captured bytes, \<open>L5DataLen\<close> of them.\<close>

definition savePayload :: "CL4Info \<Rightarrow> direction \<Rightarrow> 'p CTcpSession \<Rightarrow> 'p CTcpSession res" where
  "savePayload l4 dir s =
     (if dir \<noteq> DIRECTION_TO_SERVER \<and> dir \<noteq> DIRECTION_TO_CLIENT then Inr s
      else
        rbind (rdn (m_pcapData (m_pL2Info (m_pL3Info l4))) (m_L5Data l4) (m_L5Datalen l4)) (\<lambda>bytes.
        rbind (insertData (m_seqNum l4) (chars_of bytes) (m_continuousSeg s dir)) (\<lambda>b.
        Inr (putContinuousBuf dir b s))))"

text \<open>The switch of \<^verbatim>\<open>updateMe\<close> on the arrival of payload.\<close>

definition payload_switch :: "direction \<Rightarrow> 'p CTcpSession \<Rightarrow> 'p CTcpSession" where
  "payload_switch dir s =
     (case m_tcpState s of
        TCP_SM_INIT \<Rightarrow>
          (let s1 = revFirstPacket dir s in
           if dir = DIRECTION_TO_SERVER then s1\<lparr>m_tcpState := TCP_SM_CLIENT_SENDING\<rparr>
           else s1\<lparr>m_tcpState := TCP_SM_SERVER_SENDING\<rparr>)
      | TCP_SM_HANDSHAKE \<Rightarrow>
          (let s1 = revFirstPacket dir s in
           if dir = DIRECTION_TO_SERVER then s1\<lparr>m_tcpState := TCP_SM_CLIENT_SENDING\<rparr>
           else s1\<lparr>m_tcpState := TCP_SM_SERVER_SENDING\<rparr>)
      | TCP_SM_CLIENT_SENDING \<Rightarrow>
          (if dir = DIRECTION_TO_SERVER then s
           else (directionReverse dir s)\<lparr>m_tcpState := TCP_SM_SERVER_SENDING\<rparr>)
      | TCP_SM_SERVER_SENDING \<Rightarrow>
          (if dir = DIRECTION_TO_SERVER
           then (directionReverse dir s)\<lparr>m_tcpState := TCP_SM_CLIENT_SENDING\<rparr>
           else s)
      | TCP_SM_SERVER_FINISHED \<Rightarrow>
          (if dir = DIRECTION_TO_SERVER then s else s\<lparr>m_tcpState := TCP_SM_CLOSED\<rparr>)
      | TCP_SM_CLIENT_FINISHED \<Rightarrow>
          (if dir = DIRECTION_TO_SERVER then s\<lparr>m_tcpState := TCP_SM_CLOSED\<rparr> else s)
      | TCP_SM_CLOSED \<Rightarrow> s)"

definition finishMe_dir :: "CL4Info \<Rightarrow> direction \<Rightarrow> 'p CTcpSession \<Rightarrow> 'p CTcpSession" where
  "finishMe_dir l4 dir s =
     (if m_rstSet l4 then (rstReceived dir s)\<lparr>m_tcpState := TCP_SM_CLOSED\<rparr>
      else if \<not> m_finSet l4 then s
      else
        (let s1 = finReceived dir s in
         case m_tcpState s1 of
           TCP_SM_SERVER_FINISHED \<Rightarrow>
             (if dir = DIRECTION_TO_CLIENT then s1 else s1\<lparr>m_tcpState := TCP_SM_CLOSED\<rparr>)
         | TCP_SM_CLIENT_FINISHED \<Rightarrow>
             (if dir = DIRECTION_TO_CLIENT then s1\<lparr>m_tcpState := TCP_SM_CLOSED\<rparr> else s1)
         | TCP_SM_CLOSED \<Rightarrow> s1
         | _ \<Rightarrow>
             (if dir = DIRECTION_TO_CLIENT then s1\<lparr>m_tcpState := TCP_SM_SERVER_FINISHED\<rparr>
              else s1\<lparr>m_tcpState := TCP_SM_CLIENT_FINISHED\<rparr>)))"

definition finishMe :: "CL4Info \<Rightarrow> 'p CTcpSession \<Rightarrow> 'p CTcpSession" where
  "finishMe l4 s = finishMe_dir l4 (getDirection l4 s) s"

definition updateMe ::
  "'p http_lib \<Rightarrow> CDBManager \<Rightarrow> CL4Info \<Rightarrow> 'p CTcpSession \<Rightarrow> 'p CTcpSession res" where
  "updateMe lib db l4 s =
     (if m_synSet l4 then
        (let s1 = s\<lparr>m_tcpState := TCP_SM_HANDSHAKE\<rparr> in
         if m_ackSet l4 then
           Inr (putContinuousBuf DIRECTION_TO_CLIENT
                  (setStartSeq (m_seqNum l4 + 1) (m_continuousSeg s1 DIRECTION_TO_CLIENT)) s1)
         else Inr s1)
      else
        (let dir = getDirection l4 s in
         rbind (if 0 < m_L5Datalen l4 then
                  rbind (savePayload l4 dir s) (\<lambda>s1.
                  payloadReceived lib db dir (payload_switch dir s1))
                else Inr s) (\<lambda>s2.
         Inr (finishMe_dir l4 dir s2))))"

text \<open>
  Resetting a listed connection. The address test names the source address twice. The model returns
  the libnet calls beside the session.
\<close>

definition blockMe ::
  "CDBManager \<Rightarrow> libnet_lib \<Rightarrow> CL4Info \<Rightarrow> 'p CTcpSession \<Rightarrow> ('p CTcpSession \<times> libnet_call list) res" where
  "blockMe db net l4 s =
     (let srcPort' = m_srcPort l4;
          dstPort' = m_dstPort l4;
          ipid = 0x1111;
          seq = m_seqNum l4 + of_nat (m_L5Datalen l4);
          ack = m_ackNum l4
      in rbind (getIpVersion (m_pL2Info (m_pL3Info l4))) (\<lambda>v.
         if v = 4 then
           (let srcIp' = getIpv4 (m_src (m_pL3Info l4));
                dstIp' = getIpv4 (m_dst (m_pL3Info l4));
                s1 = (if isIpv4Hit db srcIp' \<or> isIpv4Hit db srcIp' then s\<lparr>m_shouldBlock := True\<rparr> else s)
            in if m_shouldBlock s1 then
                 Inr (s1, sendIpv4Rst net dstIp' srcIp' ipid dstPort' srcPort' ack seq)
               else Inr (s1, []))
         else Inr (s, [])))"

subsection \<open>What an update keeps\<close>

lemma putContinuousBuf_fields [simp]:
  "m_sessId (putContinuousBuf d b s) = m_sessId s"
  "m_tcpState (putContinuousBuf d b s) = m_tcpState s"
  "m_activeFlg (putContinuousBuf d b s) = m_activeFlg s"
  "m_protocol (putContinuousBuf d b s) = m_protocol s"
  "m_httpDecoder (putContinuousBuf d b s) = m_httpDecoder s"
  "m_lastUpdateTime (putContinuousBuf d b s) = m_lastUpdateTime s"
  "m_shouldBlock (putContinuousBuf d b s) = m_shouldBlock s"
  by (simp_all add: putContinuousBuf_def)

text \<open>Everything of a session but its state, its buffers, its block flag and the decoder's data.\<close>

definition keeps :: "'p CTcpSession \<Rightarrow> 'p CTcpSession \<Rightarrow> bool" where
  "keeps s s' \<longleftrightarrow>
     m_sessId s' = m_sessId s \<and> m_activeFlg s' = m_activeFlg s \<and> m_protocol s' = m_protocol s \<and>
     m_lastUpdateTime s' = m_lastUpdateTime s \<and>
     (m_parser (m_httpDecoder s) \<noteq> None \<longrightarrow> m_parser (m_httpDecoder s') \<noteq> None)"

lemma keeps_refl [simp]: "keeps s s"
  by (simp add: keeps_def)

lemma keeps_trans: "keeps s t \<Longrightarrow> keeps t u \<Longrightarrow> keeps s u"
  by (simp add: keeps_def)

lemma keeps_state [simp]: "keeps s (t\<lparr>m_tcpState := x\<rparr>) = keeps s t"
  by (simp add: keeps_def)

lemma keeps_block [simp]: "keeps s (t\<lparr>m_shouldBlock := x\<rparr>) = keeps s t"
  by (simp add: keeps_def)

lemma keeps_putContinuousBuf [simp]: "keeps s (putContinuousBuf d b t) = keeps s t"
  by (simp add: keeps_def)

lemma keeps_payload_switch [simp]: "keeps s (payload_switch d t) = keeps s t"
  by (simp add: payload_switch_def plugin_id Let_def split: tcp_sm.split)

lemma keeps_finishMe_dir [simp]: "keeps s (finishMe_dir l4 d t) = keeps s t"
  by (simp add: finishMe_dir_def plugin_id Let_def split: tcp_sm.split)

lemma savePayload_frame:
  assumes "savePayload l4 dir s = Inr s'"
  shows "keeps s s' \<and> m_tcpState s' = m_tcpState s"
  using assms by (auto simp: savePayload_def rbind_eq_Inr split: if_splits)

lemma payloadReceived_frame:
  assumes "payloadReceived lib db dir s = Inr s'"
  shows "keeps s s' \<and> m_tcpState s' = m_tcpState s"
  using assms
  by (auto simp: payloadReceived_def rbind_eq_Inr keeps_def split: protocol.splits if_splits
      dest!: decodeHttp_type_frame) (auto simp: sess_frame_def)

lemma updateMe_keeps: "updateMe lib db l4 s = Inr s' \<Longrightarrow> keeps s s'"
  by (auto simp: updateMe_def Let_def rbind_eq_Inr split: if_splits
      dest!: savePayload_frame payloadReceived_frame)
     (metis keeps_payload_switch keeps_trans)

lemma blockMe_keeps: "blockMe db net l4 s = Inr (s', calls) \<Longrightarrow> keeps s s' \<and> m_tcpState s' = m_tcpState s"
  by (auto simp: blockMe_def Let_def rbind_eq_Inr split: if_splits)

text \<open>The only crash of an update whose payload lies inside the packet is an exception of a string.\<close>

definition payload_inside :: "CL4Info \<Rightarrow> bool" where
  "payload_inside l4 \<longleftrightarrow>
     m_L5Data l4 + m_L5Datalen l4 \<le> length (m_pcapData (m_pL2Info (m_pL3Info l4))) \<or> m_L5Datalen l4 = 0"

lemma insertData_fault: "insertData seq d b = Inl f \<Longrightarrow> f = OutOfRange"
  by (auto simp: insertData_def Let_def rbind_eq_Inl str_replace_def split: if_splits)

lemma updateMe_fault:
  assumes "updateMe lib db l4 s = Inl f" and "payload_inside l4" and "m_activeFlg s"
    and "m_protocol s = PROTOCOL_HTTP \<Longrightarrow> m_parser (m_httpDecoder s) \<noteq> None"
  shows "f = OutOfRange"
proof -
  have len: "0 < m_L5Datalen l4"
    using assms(1) by (auto simp: updateMe_def Let_def split: if_splits)
  from assms(1) len consider "savePayload l4 (getDirection l4 s) s = Inl f"
    | s1 where "savePayload l4 (getDirection l4 s) s = Inr s1"
        "payloadReceived lib db (getDirection l4 s) (payload_switch (getDirection l4 s) s1) = Inl f"
    by (auto simp: updateMe_def Let_def rbind_eq_Inl split: if_splits)
  then show ?thesis
  proof cases
    case 1
    then show ?thesis
      using assms(2) len
      by (auto simp: savePayload_def rbind_eq_Inl rdn_def payload_inside_def
          split: if_splits dest: insertData_fault)
  next
    case 2
    then have "keeps s (payload_switch (getDirection l4 s) s1)"
      by (auto dest: savePayload_frame)
    with 2(2) assms(3,4) show ?thesis
      by (auto simp: payloadReceived_def rbind_eq_Inl decodeHttp_type_def keeps_def
          split: protocol.splits if_splits dest!: decodeHttpActive_fault)
  qed
qed

subsection \<open>The connection as the two ends see it\<close>

text \<open>
  The specification: a connection is open, half closed (the sender of the direction \<open>d\<close> has
  finished) or closed. Data from a side that has finished closes it, as does a reset or the second
  FIN.
\<close>

datatype conn = Conn_open | Conn_half direction | Conn_closed

definition conn_data :: "direction \<Rightarrow> conn \<Rightarrow> conn" where
  "conn_data d c = (case c of Conn_half d' \<Rightarrow> (if d = d' then Conn_closed else c) | _ \<Rightarrow> c)"

definition conn_fin :: "direction \<Rightarrow> conn \<Rightarrow> conn" where
  "conn_fin d c =
     (case c of
        Conn_open \<Rightarrow> Conn_half d
      | Conn_half d' \<Rightarrow> (if d = d' then c else Conn_closed)
      | Conn_closed \<Rightarrow> Conn_closed)"

text \<open>What the state machine looks at in a packet that is not a SYN.\<close>

record conn_event =
  ev_dir :: direction
  ev_data :: bool
  ev_fin :: bool
  ev_rst :: bool

definition conn_step :: "conn_event \<Rightarrow> conn \<Rightarrow> conn" where
  "conn_step e c =
     (let c1 = (if ev_data e then conn_data (ev_dir e) c else c)
      in if ev_rst e then Conn_closed else if ev_fin e then conn_fin (ev_dir e) c1 else c1)"

definition conn_of :: "tcp_sm \<Rightarrow> conn" where
  "conn_of st =
     (case st of
        TCP_SM_CLIENT_FINISHED \<Rightarrow> Conn_half DIRECTION_TO_SERVER
      | TCP_SM_SERVER_FINISHED \<Rightarrow> Conn_half DIRECTION_TO_CLIENT
      | TCP_SM_CLOSED \<Rightarrow> Conn_closed
      | _ \<Rightarrow> Conn_open)"

definition event_of :: "'p CTcpSession \<Rightarrow> CL4Info \<Rightarrow> conn_event" where
  "event_of s l4 =
     \<lparr>ev_dir = getDirection l4 s, ev_data = (0 < m_L5Datalen l4), ev_fin = m_finSet l4, ev_rst = m_rstSet l4\<rparr>"

lemma conn_of_payload_switch:
  "d = DIRECTION_TO_SERVER \<or> d = DIRECTION_TO_CLIENT \<Longrightarrow>
     conn_of (m_tcpState (payload_switch d s)) = conn_data d (conn_of (m_tcpState s))"
  by (auto simp: payload_switch_def plugin_id conn_of_def conn_data_def Let_def split: tcp_sm.split)

lemma conn_of_finishMe_dir:
  "d = DIRECTION_TO_SERVER \<or> d = DIRECTION_TO_CLIENT \<Longrightarrow>
     conn_of (m_tcpState (finishMe_dir l4 d s)) =
       (if m_rstSet l4 then Conn_closed
        else if m_finSet l4 then conn_fin d (conn_of (m_tcpState s)) else conn_of (m_tcpState s))"
  by (auto simp: finishMe_dir_def plugin_id conn_of_def conn_fin_def Let_def split: tcp_sm.split)

lemma getDirection_cases: "getDirection l4 s = DIRECTION_TO_SERVER \<or> getDirection l4 s = DIRECTION_TO_CLIENT"
  by (simp add: getDirection_def)

lemma updateMe_conn:
  assumes "updateMe lib db l4 s = Inr s'" and "\<not> m_synSet l4"
  shows "conn_of (m_tcpState s') = conn_step (event_of s l4) (conn_of (m_tcpState s))"
  using assms
  by (auto simp: updateMe_def Let_def rbind_eq_Inr conn_step_def event_of_def
      conn_of_finishMe_dir [OF getDirection_cases] conn_of_payload_switch [OF getDirection_cases]
      split: if_splits dest!: savePayload_frame payloadReceived_frame)

subsection \<open>When a connection is closed\<close>

text \<open>The directions in which a FIN has been seen.\<close>

definition finished :: "conn_event list \<Rightarrow> direction set" where
  "finished es = ev_dir ` {e \<in> set es. ev_fin e}"

text \<open>Data in a direction after the FIN of that direction.\<close>

primrec late_data :: "conn_event list \<Rightarrow> bool" where
  "late_data [] = False"
| "late_data (e # es) =
     (ev_fin e \<and> (\<exists>e' \<in> set es. ev_data e' \<and> ev_dir e' = ev_dir e) \<or> late_data es)"

definition closes :: "conn_event list \<Rightarrow> bool" where
  "closes es \<longleftrightarrow>
     (\<exists>e \<in> set es. ev_rst e) \<or>
     (\<exists>d d'. d \<in> finished es \<and> d' \<in> finished es \<and> d \<noteq> d') \<or>
     late_data es"

lemma finished_snoc [simp]:
  "finished (es @ [x]) = (if ev_fin x then insert (ev_dir x) (finished es) else finished es)"
  by (auto simp: finished_def)

lemma late_data_snoc [simp]:
  "late_data (es @ [x]) \<longleftrightarrow> late_data es \<or> ev_data x \<and> ev_dir x \<in> finished es"
  by (induction es) (auto simp: finished_def)

lemma closes_snoc:
  "closes (es @ [x]) \<longleftrightarrow>
     closes es \<or> ev_rst x \<or> ev_fin x \<and> (\<exists>d \<in> finished es. d \<noteq> ev_dir x) \<or>
     ev_data x \<and> ev_dir x \<in> finished es"
proof -
  have "(\<exists>d d'. d \<in> insert a F \<and> d' \<in> insert a F \<and> d \<noteq> d') \<longleftrightarrow>
      (\<exists>d d'. d \<in> F \<and> d' \<in> F \<and> d \<noteq> d') \<or> (\<exists>d \<in> F. d \<noteq> a)" for a :: direction and F
    by (metis insert_iff)
  then show ?thesis
    unfolding closes_def finished_snoc late_data_snoc by (cases "ev_fin x") auto
qed

lemma conn_step_simps [simp]:
  "conn_step e Conn_open =
     (if ev_rst e then Conn_closed else if ev_fin e then Conn_half (ev_dir e) else Conn_open)"
  "conn_step e (Conn_half d) =
     (if ev_rst e \<or> ev_data e \<and> ev_dir e = d \<or> ev_fin e \<and> ev_dir e \<noteq> d then Conn_closed
      else Conn_half d)"
  "conn_step e Conn_closed = Conn_closed"
  by (simp_all add: conn_step_def conn_data_def conn_fin_def)

lemma conn_run:
  "fold conn_step es Conn_open =
     (if closes es then Conn_closed
      else if finished es = {} then Conn_open else Conn_half (the_elem (finished es)))"
proof (induction es rule: rev_induct)
  case Nil
  then show ?case by (simp add: closes_def finished_def)
next
  case (snoc x es)
  consider "closes es" | "\<not> closes es" "finished es = {}" | d where "\<not> closes es" "finished es = {d}"
    unfolding closes_def by (metis insertI1 is_singletonI' is_singleton_def)
  then show ?case
  proof cases
    case 3
    then have "closes (es @ [x]) \<longleftrightarrow>
        ev_rst x \<or> ev_data x \<and> ev_dir x = d \<or> ev_fin x \<and> ev_dir x \<noteq> d"
      by (auto simp: closes_snoc)
    with 3 snoc show ?thesis by (auto simp: insert_absorb)
  qed (use snoc in \<open>auto simp: closes_snoc\<close>)
qed

lemma event_of_keeps: "keeps s t \<Longrightarrow> event_of t l4 = event_of s l4"
  by (simp add: keeps_def event_of_def getDirection_def)

lemma updates_conn:
  assumes "rfold (updateMe lib db) pkts s = Inr s'" and "\<forall>l4 \<in> set pkts. \<not> m_synSet l4"
  shows "conn_of (m_tcpState s') = fold conn_step (map (event_of s) pkts) (conn_of (m_tcpState s))"
  using assms
proof (induction pkts arbitrary: s)
  case Nil
  then show ?case by simp
next
  case (Cons l4 pkts)
  then obtain t where t: "updateMe lib db l4 s = Inr t" "rfold (updateMe lib db) pkts t = Inr s'"
    by (auto simp: rbind_eq_Inr)
  have "event_of t = event_of s"
    using updateMe_keeps [OF t(1)] by (intro ext event_of_keeps)
  then show ?case
    using Cons.IH [OF t(2)] Cons.prems(2) updateMe_conn [OF t(1)] by simp
qed

subsection \<open>Properties\<close>

text \<open>
  C18. When a session closes. After any sequence of packets without a SYN, a session that started
  open is closed exactly when the sequence has a reset, or a FIN in both directions, or data from a
  side after that side's FIN.
\<close>

theorem session_closed_iff:
  assumes "rfold (updateMe lib db) pkts s = Inr s'" and "\<forall>l4 \<in> set pkts. \<not> m_synSet l4"
    and "m_tcpState s = TCP_SM_HANDSHAKE"
  shows "isClosed s' \<longleftrightarrow> closes (map (event_of s) pkts)"
proof -
  have "isClosed s' \<longleftrightarrow> conn_of (m_tcpState s') = Conn_closed"
    by (simp add: isClosed_def conn_of_def split: tcp_sm.split)
  then show ?thesis
    using updates_conn [OF assms(1,2)] conn_run [of "map (event_of s) pkts"] assms(3)
    by (simp add: conn_of_def)
qed

text \<open>A packet for the witnesses: endpoints, flags, no payload; the frame bytes play no role.\<close>

definition bare_packet :: "u8 list \<Rightarrow> CTcpSessionId \<Rightarrow> u32 \<Rightarrow> u32 \<Rightarrow> u8 \<Rightarrow> CL4Info" where
  "bare_packet frame k sq ak fl =
     \<lparr>m_pL3Info =
        \<lparr>m_pL2Info = mk_CL2Info \<lparr>ts_sec = 0, caplen = 40, pkt_len = 40\<rparr> frame 0 40 DLT_RAW,
         m_L4Data = 20, m_L4Datalen = 20, m_src = m_srcIp k, m_dst = m_dstIp k,
         m_payloadProtocol = IPPROTO_TCP, m_id = None\<rparr>,
      m_L5Data = 40, m_L5Datalen = 0, m_srcPort = m_srcPort_id k, m_dstPort = m_dstPort_id k,
      m_seqNum = sq, m_ackNum = ak,
      m_synSet = FLAG_SET fl TH_SYN, m_ackSet = FLAG_SET fl TH_ACK, m_finSet = FLAG_SET fl TH_FIN,
      m_rstSet = FLAG_SET fl TH_RST, m_pushSet = False, m_urgSet = False, m_ackPacket = False\<rparr>"

text \<open>An HTTP library that reports nothing.\<close>

definition idle_http :: "unit http_lib" where
  "idle_http = \<lparr>http_parser_init = (\<lambda>_. ()), http_parser_execute = (\<lambda>_ _. ([], (), 0))\<rparr>"

lemmas bare_simps = bare_packet_def mk_CL2Info_def mk_CTcpSessionId_def FLAG_SET_def TH_SYN_def
  TH_ACK_def TH_FIN_def TH_RST_def

theorem session_closed_iff_witness:
  "\<exists>s'. rfold (updateMe idle_http CDBManager_init)
        [bare_packet [] (mk_CTcpSessionId (CIpAddress_v4 1) 5000 (CIpAddress_v4 2) 80) 1 1 0x11,
         bare_packet [] (mk_CTcpSessionId (CIpAddress_v4 2) 80 (CIpAddress_v4 1) 5000) 1 2 0x11]
        (mk_CTcpSession setDefault (mk_CTcpSessionId (CIpAddress_v4 1) 5000 (CIpAddress_v4 2) 80)) = Inr s'
     \<and> isClosed s'"
proof -
  define k where "k = mk_CTcpSessionId (CIpAddress_v4 1) 5000 (CIpAddress_v4 2) 80"
  define s :: "unit CTcpSession" where "s = mk_CTcpSession setDefault k"
  define fin1 where "fin1 = bare_packet [] k 1 1 0x11"
  define fin2 where "fin2 = bare_packet [] (mk_CTcpSessionId (CIpAddress_v4 2) 80 (CIpAddress_v4 1) 5000) 1 2 0x11"
  have flags: "\<not> m_synSet fin1" "\<not> m_synSet fin2" "m_finSet fin1" "m_finSet fin2"
      "m_L5Datalen fin1 = 0" "m_L5Datalen fin2 = 0"
    by (simp_all add: fin1_def fin2_def k_def bare_simps)
  have dirs: "ev_dir (event_of s fin1) \<noteq> ev_dir (event_of s fin2)"
    by (simp add: event_of_def getDirection_def s_def mk_CTcpSession_def fin1_def fin2_def k_def bare_simps)
  have "\<exists>s'. rfold (updateMe idle_http CDBManager_init) [fin1, fin2] s = Inr s'"
    using flags by (simp add: updateMe_def Let_def)
  then obtain s' where run: "rfold (updateMe idle_http CDBManager_init) [fin1, fin2] s = Inr s'"
    by (rule exE)
  have "ev_fin (event_of s fin1)" "ev_fin (event_of s fin2)"
    using flags by (simp_all add: event_of_def)
  then have "ev_dir (event_of s fin1) \<in> finished (map (event_of s) [fin1, fin2])"
      "ev_dir (event_of s fin2) \<in> finished (map (event_of s) [fin1, fin2])"
    by (simp_all add: finished_def)
  with dirs have "closes (map (event_of s) [fin1, fin2])"
    unfolding closes_def by blast
  moreover have "m_tcpState s = TCP_SM_HANDSHAKE"
    by (simp add: s_def mk_CTcpSession_def)
  moreover have "\<forall>l4 \<in> set [fin1, fin2]. \<not> m_synSet l4"
    using flags by simp
  ultimately have "isClosed s'"
    using session_closed_iff [OF run] by blast
  with run have "\<exists>s'. rfold (updateMe idle_http CDBManager_init) [fin1, fin2] s = Inr s' \<and> isClosed s'"
    by blast
  then show ?thesis
    unfolding s_def fin1_def fin2_def k_def .
qed


definition libnet_up :: libnet_lib where
  "libnet_up = \<lparr>libnet_init_ok = True, libnet_build_tcp_ok = True, libnet_build_ipv4_ok = True\<rparr>"




text \<open>
  The libnet handle is never leaked or released twice: whichever call fails, the calls made have
  one destroy exactly when the initialisation succeeded, and it is the last of them.
\<close>

theorem libnet_handle_released:
  "let calls = sendIpv4Rst net a b i sp dp sq ak in
     length (filter (\<lambda>c. c = Libnet_destroy) calls) = (if libnet_init_ok net then 1 else 0) \<and>
     (libnet_init_ok net = (last calls = Libnet_destroy)) \<and>
     (Libnet_write \<in> set calls) = (libnet_init_ok net \<and> libnet_build_tcp_ok net \<and> libnet_build_ipv4_ok net)"
  by (simp add: sendIpv4Rst_def Let_def)

end
