(* ===== verification/KF_Pool.thy ===== *)
theory KF_Pool
  imports KF_Session "HOL-Library.Multiset"
begin

section \<open>CTcpSessionPool: the sessions of all connections\<close>

text \<open>
  The pool owns the sessions. A session is a heap object, so the pool is modelled with an explicit
  store: the active map and the closed list hold addresses, \<open>new\<close> takes a fresh address and
  \<open>delete\<close> removes it. An address that is no longer in the store is a dangling pointer.
\<close>

subsection \<open>The store\<close>

type_synonym addr = nat

record 'p pool =
  m_index :: u64
  m_activeSessMap :: "(CTcpSessionId \<times> addr) list"
  m_closedSessList :: "addr list"
  heap :: "addr \<rightharpoonup> 'p CTcpSession"
  next_addr :: addr

definition pool_init :: "'p pool" where
  "pool_init = \<lparr>m_index = 0, m_activeSessMap = [], m_closedSessList = [], heap = Map.empty, next_addr = 0\<rparr>"

definition deref :: "addr \<Rightarrow> 'p pool \<Rightarrow> 'p CTcpSession res" where
  "deref a p = (case heap p a of None \<Rightarrow> Inl UseAfterFree | Some s \<Rightarrow> Inr s)"

definition store :: "addr \<Rightarrow> 'p CTcpSession \<Rightarrow> 'p pool \<Rightarrow> 'p pool" where
  "store a s p = p\<lparr>heap := (heap p)(a \<mapsto> s)\<rparr>"

definition free :: "addr \<Rightarrow> 'p pool \<Rightarrow> 'p pool res" where
  "free a p = (case heap p a of None \<Rightarrow> Inl UseAfterFree | Some s \<Rightarrow> Inr (p\<lparr>heap := (heap p)(a := None)\<rparr>))"

subsection \<open>Operations\<close>

text \<open>\<^verbatim>\<open>push_back\<close> under the lock.\<close>

definition push_closed :: "addr \<Rightarrow> 'p pool \<Rightarrow> 'p pool" where
  "push_closed a p = p\<lparr>m_closedSessList := m_closedSessList p @ [a]\<rparr>"

definition createSession :: "CConfig \<Rightarrow> CTcpSessionId \<Rightarrow> 'p pool \<Rightarrow> addr \<times> 'p pool" where
  "createSession cfg sid p =
     (let a = next_addr p;
          p1 = p\<lparr>next_addr := a + 1, m_index := m_index p + 1\<rparr>;
          session = setNum (m_index p1) (mk_CTcpSession cfg sid);
          p2 = store a session p1
      in (a, p2\<lparr>m_activeSessMap := umap_insert getHash sessEqual sid a (m_activeSessMap p2)\<rparr>))"

definition findActiveSession :: "CTcpSessionId \<Rightarrow> 'p pool \<Rightarrow> addr option" where
  "findActiveSession sid p = umap_find getHash sessEqual sid (m_activeSessMap p)"

definition removeSession :: "CTcpSessionId \<Rightarrow> 'p pool \<Rightarrow> 'p pool res" where
  "removeSession sid p =
     (case umap_find getHash sessEqual sid (m_activeSessMap p) of
        None \<Rightarrow> Inr p
      | Some a \<Rightarrow>
          rbind (free a p) (\<lambda>p1.
          Inr (p1\<lparr>m_activeSessMap := umap_erase getHash sessEqual sid (m_activeSessMap p1)\<rparr>)))"

definition popClosedSession :: "'p pool \<Rightarrow> addr option \<times> 'p pool" where
  "popClosedSession p =
     (case m_closedSessList p of
        [] \<Rightarrow> (None, p)
      | a # as \<Rightarrow> (Some a, p\<lparr>m_closedSessList := as\<rparr>))"

definition postSession :: "CTcpSessionId \<Rightarrow> 'p pool \<Rightarrow> 'p pool" where
  "postSession sid p =
     (case umap_find getHash sessEqual sid (m_activeSessMap p) of
        None \<Rightarrow> p
      | Some a \<Rightarrow>
          (let p1 = push_closed a p in
           p1\<lparr>m_activeSessMap := umap_erase getHash sessEqual sid (m_activeSessMap p1)\<rparr>))"

text \<open>
  The loop over the active map: \<open>num\<close> counts the sessions moved, and the loop stops after the
  eleventh. The result is what stays in the map and what is appended to the closed list.
\<close>

primrec timeout_scan ::
  "'p pool \<Rightarrow> int \<Rightarrow> int \<Rightarrow> nat \<Rightarrow> (CTcpSessionId \<times> addr) list
   \<Rightarrow> ((CTcpSessionId \<times> addr) list \<times> addr list) res" where
  "timeout_scan p now timeout num [] = Inr ([], [])"
| "timeout_scan p now timeout num (e # es) =
     rbind (deref (snd e) p) (\<lambda>item.
       if m_lastUpdateTime item + timeout < now then
         (if num + 1 > 10 then Inr (es, [snd e])
          else rbind (timeout_scan p now timeout (num + 1) es) (\<lambda>(keep, out).
               Inr (keep, snd e # out)))
       else rbind (timeout_scan p now timeout num es) (\<lambda>(keep, out). Inr (e # keep, out)))"

definition postTimeoutSessions :: "int \<Rightarrow> int \<Rightarrow> 'p pool \<Rightarrow> 'p pool res" where
  "postTimeoutSessions now timeout p =
     rbind (timeout_scan p now timeout 0 (m_activeSessMap p)) (\<lambda>(keep, out).
     Inr ((fold push_closed out p)\<lparr>m_activeSessMap := keep\<rparr>))"

subsection \<open>Who owns a session\<close>

text \<open>
  The pool invariant. Keys of the active map are pairwise different connections; every address in
  the map or the list is live, and each address occurs once over both, so that no session is
  reachable twice; no live address is outside map and list except those in \<open>held\<close>, which are being
  worked on by the decode thread; fresh addresses are free. An active session carries the key under
  which it is stored, is open, and is in active mode; an HTTP session has an initialised parser.
\<close>

definition session_ok :: "'p CTcpSession \<Rightarrow> bool" where
  "session_ok s \<longleftrightarrow>
     m_tcpState s \<noteq> TCP_SM_CLOSED \<and> m_activeFlg s \<and>
     (m_protocol s = PROTOCOL_HTTP \<longrightarrow> m_parser (m_httpDecoder s) \<noteq> None)"

definition active_addrs :: "'p pool \<Rightarrow> addr list" where
  "active_addrs p = map snd (m_activeSessMap p)"

definition pool_inv :: "addr list \<Rightarrow> 'p pool \<Rightarrow> bool" where
  "pool_inv held p \<longleftrightarrow>
     umap_wf sessEqual (m_activeSessMap p) \<and>
     distinct (active_addrs p @ m_closedSessList p @ held) \<and>
     dom (heap p) = set (active_addrs p @ m_closedSessList p @ held) \<and>
     (\<forall>a \<in> dom (heap p). a < next_addr p) \<and>
     (\<forall>k a s. (k, a) \<in> set (m_activeSessMap p) \<longrightarrow> heap p a = Some s \<longrightarrow> m_sessId s = k \<and> session_ok s)"

lemma pool_invI:
  assumes "umap_wf sessEqual (m_activeSessMap p)"
    and "distinct (active_addrs p @ m_closedSessList p @ held)"
    and "dom (heap p) = set (active_addrs p @ m_closedSessList p @ held)"
    and "\<And>a. a \<in> dom (heap p) \<Longrightarrow> a < next_addr p"
    and "\<And>k a s. (k, a) \<in> set (m_activeSessMap p) \<Longrightarrow> heap p a = Some s \<Longrightarrow> m_sessId s = k \<and> session_ok s"
  shows "pool_inv held p"
  using assms unfolding pool_inv_def by blast

lemma pool_invD:
  assumes "pool_inv held p"
  shows "umap_wf sessEqual (m_activeSessMap p)"
    and "distinct (active_addrs p @ m_closedSessList p @ held)"
    and "dom (heap p) = set (active_addrs p @ m_closedSessList p @ held)"
    and "\<And>a. a \<in> dom (heap p) \<Longrightarrow> a < next_addr p"
    and "\<And>k a s. (k, a) \<in> set (m_activeSessMap p) \<Longrightarrow> heap p a = Some s \<Longrightarrow> m_sessId s = k \<and> session_ok s"
  using assms unfolding pool_inv_def by blast+

lemma session_okD:
  "session_ok s \<Longrightarrow> m_tcpState s \<noteq> TCP_SM_CLOSED"
  "session_ok s \<Longrightarrow> m_activeFlg s"
  "session_ok s \<Longrightarrow> m_protocol s = PROTOCOL_HTTP \<Longrightarrow> m_parser (m_httpDecoder s) \<noteq> None"
  by (simp_all add: session_ok_def)

lemma session_ok_keeps:
  "session_ok s \<Longrightarrow> keeps s t \<Longrightarrow> m_tcpState t \<noteq> TCP_SM_CLOSED \<Longrightarrow> session_ok t"
  by (simp add: session_ok_def keeps_def)

lemma pool_inv_init [kf_inv]: "pool_inv [] pool_init"
  by (simp add: pool_inv_def pool_init_def active_addrs_def)

lemma active_in_dom:
  assumes "pool_inv held p" and "(k, a) \<in> set (m_activeSessMap p)"
  shows "a \<in> dom (heap p)"
proof -
  have "a \<in> set (active_addrs p)"
    using assms(2) unfolding active_addrs_def by force
  then show ?thesis
    using pool_invD(3) [OF assms(1)] by simp
qed

lemma find_active:
  assumes "pool_inv held p" and "findActiveSession sid p = Some a"
  obtains k s where "(k, a) \<in> set (m_activeSessMap p)" and "sessEqual sid k"
    and "heap p a = Some s" and "m_sessId s = k" and "session_ok s"
proof -
  have "\<exists>k. (k, a) \<in> set (m_activeSessMap p) \<and> sessEqual sid k"
    using assms(2) unfolding findActiveSession_def by (rule sid.find_SomeD)
  then obtain k where k: "(k, a) \<in> set (m_activeSessMap p)" "sessEqual sid k"
    by blast
  with active_in_dom [OF assms(1)] obtain s where s: "heap p a = Some s"
    by blast
  with k pool_invD(5) [OF assms(1)] that show ?thesis
    by blast
qed

text \<open>An address stands for one key only.\<close>

lemma active_key_unique:
  assumes "pool_inv held p" and "(k, a) \<in> set (m_activeSessMap p)" and "(k', a) \<in> set (m_activeSessMap p)"
  shows "k' = k"
proof -
  have "distinct (map snd (m_activeSessMap p))"
    using pool_invD(2) [OF assms(1)] by (simp add: active_addrs_def)
  then show ?thesis
    using assms(2,3) by (metis distinct_map fst_conv inj_on_def snd_conv)
qed

text \<open>Writing back a session that is still fit to be active.\<close>

lemma pool_inv_store [kf_inv]:
  assumes "pool_inv held p" and "(k, a) \<in> set (m_activeSessMap p)"
    and "m_sessId s = k" and "session_ok s"
  shows "pool_inv held (store a s p)"
proof (rule pool_invI)
  show "dom (heap (store a s p)) =
      set (active_addrs (store a s p) @ m_closedSessList (store a s p) @ held)"
    using pool_invD(3) [OF assms(1)] active_in_dom [OF assms(1,2)]
    by (simp add: store_def active_addrs_def insert_absorb)
  show "m_sessId t = k' \<and> session_ok t"
    if "(k', b) \<in> set (m_activeSessMap (store a s p))" "heap (store a s p) b = Some t" for k' b t
  proof (cases "b = a")
    case True
    then show ?thesis
      using that assms(3,4) active_key_unique [OF assms(1,2), of k'] by (simp add: store_def)
  next
    case False
    then show ?thesis
      using that pool_invD(5) [OF assms(1), of k' b t] by (simp add: store_def)
  qed
  show "b < next_addr (store a s p)" if "b \<in> dom (heap (store a s p))" for b
    using that pool_invD(4) [OF assms(1), of b] active_in_dom [OF assms(1,2)]
    by (cases "b = a") (auto simp: store_def)
qed (use pool_invD(1,2) [OF assms(1)] in \<open>simp_all add: store_def active_addrs_def\<close>)

lemma pool_inv_create [kf_inv]:
  assumes "pool_inv held p" and "findActiveSession sid p = None" and "createSession cfg sid p = (a, p1)"
    and "m_sessId s = sid" and "session_ok s"
  shows "pool_inv held (store a s p1)"
proof -
  have none: "umap_find getHash sessEqual sid (m_activeSessMap p) = None"
    using assms(2) by (simp add: findActiveSession_def)
  define q where "q = store a s p1"
  have q: "m_activeSessMap q = m_activeSessMap p @ [(sid, a)]" "heap q = (heap p)(a \<mapsto> s)"
      "next_addr q = a + 1" "m_closedSessList q = m_closedSessList p" "a = next_addr p"
    using assms(3) sid.insert_fresh [OF none]
    by (auto simp: q_def createSession_def store_def Let_def)
  have fresh: "a \<notin> dom (heap p)"
    using pool_invD(4) [OF assms(1)] q(5) by blast
  have "pool_inv held q"
  proof (rule pool_invI)
    show "umap_wf sessEqual (m_activeSessMap q)"
      using sid.wf_insert_fresh [OF pool_invD(1) [OF assms(1)] none, of a]
      by (simp add: q sid.insert_fresh [OF none])
    show "distinct (active_addrs q @ m_closedSessList q @ held)"
      using pool_invD(2,3) [OF assms(1)] fresh by (simp add: q active_addrs_def)
    show "dom (heap q) = set (active_addrs q @ m_closedSessList q @ held)"
      using pool_invD(3) [OF assms(1)] by (simp add: q active_addrs_def)
    show "b < next_addr q" if "b \<in> dom (heap q)" for b
      using that pool_invD(4) [OF assms(1), of b] q(5) by (cases "b = a") (auto simp: q(2,3) domI)
    show "m_sessId t = k \<and> session_ok t" if "(k, b) \<in> set (m_activeSessMap q)" "heap q b = Some t" for k b t
      using that assms(4,5) pool_invD(5) [OF assms(1), of k b t] active_in_dom [OF assms(1), of k b] fresh
      by (auto simp: q(1,2) split: if_splits)
  qed
  then show ?thesis by (simp add: q_def)
qed

text \<open>A posted session moves from the map to the end of the list, whatever its state.\<close>

lemma pool_inv_post [kf_inv]:
  assumes "pool_inv held p" and "findActiveSession sid p = Some a"
  shows "pool_inv held (postSession sid (store a s p))"
proof -
  have find: "umap_find getHash sessEqual sid (m_activeSessMap p) = Some a"
    using assms(2) by (simp add: findActiveSession_def)
  then obtain xs k ys where m: "m_activeSessMap p = xs @ (k, a) # ys"
    and e: "umap_erase getHash sessEqual sid (m_activeSessMap p) = xs @ ys"
    by (rule sid.find_split)
  define q where "q = postSession sid (store a s p)"
  have q: "m_activeSessMap q = xs @ ys" "heap q = (heap p)(a \<mapsto> s)" "next_addr q = next_addr p"
      "m_closedSessList q = m_closedSessList p @ [a]"
    using find e by (simp_all add: q_def postSession_def store_def push_closed_def Let_def)
  have aa: "active_addrs p = map snd xs @ a # map snd ys" "active_addrs q = map snd xs @ map snd ys"
    by (simp_all add: active_addrs_def m q)
  note dist = pool_invD(2) [OF assms(1), unfolded aa]
  have adom: "a \<in> dom (heap p)"
    by (rule active_in_dom [OF assms(1), of k]) (simp add: m)
  have "pool_inv held q"
  proof (rule pool_invI)
    show "umap_wf sessEqual (m_activeSessMap q)"
      using sid.wf_erase [OF pool_invD(1) [OF assms(1)], of sid] by (simp add: q e)
    show "distinct (active_addrs q @ m_closedSessList q @ held)"
      using dist by (simp add: aa q)
    show "dom (heap q) = set (active_addrs q @ m_closedSessList q @ held)"
      using pool_invD(3) [OF assms(1)] by (simp add: aa q)
    show "b < next_addr q" if "b \<in> dom (heap q)" for b
      using that pool_invD(4) [OF assms(1), of b] adom by (cases "b = a") (auto simp: q(2,3) domI)
    show "m_sessId t = k' \<and> session_ok t" if "(k', b) \<in> set (m_activeSessMap q)" "heap q b = Some t" for k' b t
    proof -
      have "b \<in> snd ` set (xs @ ys)"
        using that(1) unfolding q(1) by (metis image_eqI snd_conv)
      moreover have "a \<notin> snd ` set (xs @ ys)"
        using dist by auto
      ultimately have "b \<noteq> a" by blast
      then show ?thesis
        using that pool_invD(5) [OF assms(1), of k' b t] by (simp add: q m)
    qed
  qed
  then show ?thesis by (simp add: q_def)
qed

lemma popClosedSession_inv [kf_inv]:
  assumes "pool_inv held p" and "popClosedSession p = (Some a, p')"
  shows "pool_inv (a # held) p'"
proof -
  from assms(2) obtain as where l: "m_closedSessList p = a # as" and p': "p' = p\<lparr>m_closedSessList := as\<rparr>"
    by (auto simp: popClosedSession_def split: list.splits)
  show ?thesis
  proof (rule pool_invI)
    show "dom (heap p') = set (active_addrs p' @ m_closedSessList p' @ a # held)"
      using pool_invD(3) [OF assms(1)] by (simp add: p' l active_addrs_def)
    show "distinct (active_addrs p' @ m_closedSessList p' @ a # held)"
      using pool_invD(2) [OF assms(1)] by (simp add: p' l active_addrs_def)
  qed (use pool_invD(1,4,5) [OF assms(1)] in \<open>simp_all add: p'\<close>)
qed

lemma free_inv [kf_inv]:
  assumes "pool_inv (a # held) p"
  shows "\<exists>p'. free a p = Inr p' \<and> pool_inv held p'"
proof -
  have "a \<in> dom (heap p)"
    using pool_invD(3) [OF assms] by simp
  then obtain s where s: "heap p a = Some s" by blast
  define q where "q = p\<lparr>heap := (heap p)(a := None)\<rparr>"
  have nin: "a \<notin> set (active_addrs p @ m_closedSessList p @ held)"
    and dist: "distinct (active_addrs p @ m_closedSessList p @ held)"
    using pool_invD(2) [OF assms] by auto
  have "pool_inv held q"
  proof (rule pool_invI)
    show "dom (heap q) = set (active_addrs q @ m_closedSessList q @ held)"
      using pool_invD(3) [OF assms] nin by (auto simp: q_def active_addrs_def)
    show "m_sessId t = k \<and> session_ok t" if "(k, b) \<in> set (m_activeSessMap q)" "heap q b = Some t" for k b t
      using that pool_invD(5) [OF assms, of k b t] by (simp add: q_def split: if_splits)
    show "b < next_addr q" if "b \<in> dom (heap q)" for b
      using that pool_invD(4) [OF assms, of b] by (simp add: q_def)
  qed (use dist pool_invD(1) [OF assms] in \<open>simp_all add: q_def active_addrs_def\<close>)
  then show ?thesis
    using s by (auto simp: free_def q_def)
qed

lemma removeSession_inv [kf_inv]:
  assumes "pool_inv held p"
  shows "\<exists>p'. removeSession sid p = Inr p' \<and> pool_inv held p'"
proof (cases "umap_find getHash sessEqual sid (m_activeSessMap p)")
  case None
  then show ?thesis
    using assms by (simp add: removeSession_def)
next
  case (Some a)
  then obtain xs k ys where m: "m_activeSessMap p = xs @ (k, a) # ys"
    and e: "umap_erase getHash sessEqual sid (m_activeSessMap p) = xs @ ys"
    by (rule sid.find_split)
  define p0 where "p0 = p\<lparr>m_activeSessMap := xs @ ys\<rparr>"
  have "pool_inv (a # held) p0"
  proof (rule pool_invI)
    show "umap_wf sessEqual (m_activeSessMap p0)"
      using sid.wf_erase [OF pool_invD(1) [OF assms], of sid] by (simp add: p0_def e)
    show "distinct (active_addrs p0 @ m_closedSessList p0 @ a # held)"
      using pool_invD(2) [OF assms] by (auto simp: p0_def active_addrs_def m)
    show "dom (heap p0) = set (active_addrs p0 @ m_closedSessList p0 @ a # held)"
      using pool_invD(3) [OF assms] by (simp add: p0_def active_addrs_def m)
    show "m_sessId t = k' \<and> session_ok t" if "(k', b) \<in> set (m_activeSessMap p0)" "heap p0 b = Some t" for k' b t
      using that pool_invD(5) [OF assms, of k' b t] by (auto simp: p0_def m)
  qed (use pool_invD(4) [OF assms] in \<open>simp add: p0_def\<close>)
  then obtain p' where "free a p0 = Inr p'" "pool_inv held p'"
    using free_inv by blast
  moreover from this have "removeSession sid p = Inr p'"
    using Some e by (auto simp: removeSession_def free_def p0_def split: option.splits)
  ultimately show ?thesis by blast
qed

subsection \<open>Timeouts\<close>

definition expired :: "'p pool \<Rightarrow> int \<Rightarrow> int \<Rightarrow> addr \<Rightarrow> bool" where
  "expired p now timeout a \<longleftrightarrow> (\<exists>s. heap p a = Some s \<and> m_lastUpdateTime s + timeout < now)"

lemma fold_push_closed:
  "fold push_closed out p = p\<lparr>m_closedSessList := m_closedSessList p @ out\<rparr>"
  by (induction out arbitrary: p) (simp_all add: push_closed_def)

text \<open>
  What the scan does with the entries of the map: it keeps the order of what stays, takes expired
  sessions only, and stops after the eleventh.
\<close>

definition scan_spec ::
  "'p pool \<Rightarrow> int \<Rightarrow> int \<Rightarrow> nat \<Rightarrow> (CTcpSessionId \<times> addr) list \<Rightarrow> (CTcpSessionId \<times> addr) list \<Rightarrow> addr list \<Rightarrow> bool" where
  "scan_spec p now timeout num es keep out \<longleftrightarrow>
     length out + num \<le> 11 \<and> (\<forall>a \<in> set out. expired p now timeout a) \<and>
     (length out + num < 11 \<longrightarrow> (\<forall>e \<in> set keep. \<not> expired p now timeout (snd e))) \<and>
     (umap_wf sessEqual es \<longrightarrow> umap_wf sessEqual keep) \<and> set keep \<subseteq> set es \<and>
     mset (map snd es) = mset (map snd keep @ out) \<and>
     (\<forall>e \<in> set es. \<not> expired p now timeout (snd e) \<longrightarrow> e \<in> set keep)"

lemma timeout_scan_spec:
  assumes "\<forall>e \<in> set es. snd e \<in> dom (heap p)" and "num \<le> 10"
  shows "\<exists>keep out. timeout_scan p now timeout num es = Inr (keep, out) \<and>
     scan_spec p now timeout num es keep out"
  using assms
proof (induction es arbitrary: num)
  case Nil
  then show ?case by (simp add: scan_spec_def)
next
  case (Cons e es)
  obtain item where item: "heap p (snd e) = Some item"
    using Cons.prems(1) by auto
  have live: "\<forall>e \<in> set es. snd e \<in> dom (heap p)"
    using Cons.prems(1) by simp
  have ex: "expired p now timeout (snd e) \<longleftrightarrow> m_lastUpdateTime item + timeout < now"
    by (simp add: expired_def item)
  have step: "timeout_scan p now timeout num (e # es) =
      (if expired p now timeout (snd e) then
         (if num = 10 then Inr (es, [snd e])
          else rbind (timeout_scan p now timeout (num + 1) es) (\<lambda>(keep, out). Inr (keep, snd e # out)))
       else rbind (timeout_scan p now timeout num es) (\<lambda>(keep, out). Inr (e # keep, out)))"
    using Cons.prems(2) by (simp add: deref_def item ex)
  consider "expired p now timeout (snd e)" "num = 10" | "expired p now timeout (snd e)" "num + 1 \<le> 10"
    | "\<not> expired p now timeout (snd e)"
    using Cons.prems(2) by linarith
  then show ?case
  proof cases
    case 1
    then show ?thesis unfolding step by (auto simp: scan_spec_def)
  next
    case 2
    from Cons.IH [OF live 2(2)] obtain keep out
      where IH: "timeout_scan p now timeout (num + 1) es = Inr (keep, out)"
        "scan_spec p now timeout (num + 1) es keep out"
      by blast
    then have "scan_spec p now timeout num (e # es) keep (snd e # out)"
      using 2(1) by (auto simp: scan_spec_def)
    with IH(1) 2 show ?thesis unfolding step by simp
  next
    case 3
    from Cons.IH [OF live Cons.prems(2)] obtain keep out
      where IH: "timeout_scan p now timeout num es = Inr (keep, out)"
        "scan_spec p now timeout num es keep out"
      by blast
    then have "scan_spec p now timeout num (e # es) (e # keep) out"
      using 3 by (auto simp: scan_spec_def)
    with IH(1) 3 show ?thesis unfolding step by simp
  qed
qed

lemma postTimeoutSessions_spec:
  assumes "pool_inv held p"
  shows "\<exists>keep out. postTimeoutSessions now timeout p =
       Inr (p\<lparr>m_closedSessList := m_closedSessList p @ out, m_activeSessMap := keep\<rparr>)
     \<and> scan_spec p now timeout 0 (m_activeSessMap p) keep out
     \<and> pool_inv held (p\<lparr>m_closedSessList := m_closedSessList p @ out, m_activeSessMap := keep\<rparr>)"
proof -
  have "\<forall>e \<in> set (m_activeSessMap p). snd e \<in> dom (heap p)"
    using active_in_dom [OF assms] by (metis prod.collapse)
  then obtain keep out
    where scan: "timeout_scan p now timeout 0 (m_activeSessMap p) = Inr (keep, out)"
      and sp: "scan_spec p now timeout 0 (m_activeSessMap p) keep out"
    using timeout_scan_spec [of "m_activeSessMap p" p 0 now timeout] by auto
  define q where "q = p\<lparr>m_closedSessList := m_closedSessList p @ out, m_activeSessMap := keep\<rparr>"
  have perm: "mset (active_addrs p @ m_closedSessList p @ held) =
      mset (active_addrs q @ m_closedSessList q @ held)"
    using sp by (simp add: scan_spec_def q_def active_addrs_def)
  have "pool_inv held q"
  proof (rule pool_invI)
    show "umap_wf sessEqual (m_activeSessMap q)"
      using sp pool_invD(1) [OF assms] by (simp add: scan_spec_def q_def)
    show "distinct (active_addrs q @ m_closedSessList q @ held)"
      using pool_invD(2) [OF assms] mset_eq_imp_distinct_iff [OF perm] by blast
    show "dom (heap q) = set (active_addrs q @ m_closedSessList q @ held)"
      using pool_invD(3) [OF assms] mset_eq_setD [OF perm] by (simp add: q_def)
    show "m_sessId t = k \<and> session_ok t" if "(k, b) \<in> set (m_activeSessMap q)" "heap q b = Some t" for k b t
      using that sp pool_invD(5) [OF assms, of k b t] by (auto simp: scan_spec_def q_def)
  qed (use pool_invD(4) [OF assms] in \<open>simp add: q_def\<close>)
  then show ?thesis
    using scan sp by (auto simp: postTimeoutSessions_def fold_push_closed q_def)
qed

subsection \<open>The closed list is a queue\<close>

text \<open>
  The decode thread relies on the pool for one thing: that sessions come out of the closed list in
  the order in which they were posted, each once.
\<close>

locale fifo =
  fixes items :: "'q \<Rightarrow> 'a list"
    and push :: "'a \<Rightarrow> 'q \<Rightarrow> 'q"
    and pop :: "'q \<Rightarrow> 'a option \<times> 'q"
  assumes items_push: "items (push a q) = items q @ [a]"
    and pop_empty: "items q = [] \<Longrightarrow> pop q = (None, q)"
    and pop_item: "items q = a # as \<Longrightarrow> \<exists>q'. pop q = (Some a, q') \<and> items q' = as"
begin

primrec drain :: "nat \<Rightarrow> 'q \<Rightarrow> 'a list \<times> 'q" where
  "drain 0 q = ([], q)"
| "drain (Suc n) q =
     (case pop q of (None, q') \<Rightarrow> ([], q') | (Some a, q') \<Rightarrow> (let (as, q'') = drain n q' in (a # as, q'')))"

lemma items_fold_push: "items (fold push as q) = items q @ as"
  by (induction as arbitrary: q) (simp_all add: items_push)

lemma drain_items: "length (items q) \<le> n \<Longrightarrow> fst (drain n q) = items q \<and> items (snd (drain n q)) = []"
proof (induction n arbitrary: q)
  case 0
  then show ?case by simp
next
  case (Suc n)
  show ?case
  proof (cases "items q")
    case Nil
    then show ?thesis by (simp add: pop_empty)
  next
    case (Cons a as)
    then obtain q' where q': "pop q = (Some a, q')" "items q' = as"
      using pop_item by blast
    with Suc.IH [of q'] Suc.prems Cons show ?thesis
      by (simp add: split_beta)
  qed
qed

text \<open>Whatever was in the queue comes out first, then what was pushed, in order.\<close>

lemma drain_fold_push:
  "length (items q) + length as \<le> n \<Longrightarrow> fst (drain n (fold push as q)) = items q @ as"
  using drain_items [of "fold push as q" n] by (simp add: items_fold_push)

end

interpretation cq: fifo m_closedSessList push_closed popClosedSession
  by unfold_locales (auto simp: push_closed_def popClosedSession_def)

subsection \<open>What the pool promises\<close>

text \<open>The pool without addresses: the session of each connection, and the sessions to decode.\<close>

definition abs_active :: "'p pool \<Rightarrow> CTcpSessionId \<Rightarrow> 'p CTcpSession option" where
  "abs_active p k = (case findActiveSession k p of None \<Rightarrow> None | Some a \<Rightarrow> heap p a)"

definition abs_closed :: "'p pool \<Rightarrow> 'p CTcpSession list" where
  "abs_closed p = map (\<lambda>a. the (heap p a)) (m_closedSessList p)"

lemma find_postSession:
  assumes "umap_wf sessEqual (m_activeSessMap p)"
  shows "findActiveSession k (postSession sid p) = (if sessEqual k sid then None else findActiveSession k p)"
proof (cases "umap_find getHash sessEqual sid (m_activeSessMap p)")
  case None
  then show ?thesis
    using sid.find_cong [of k sid "m_activeSessMap p"] by (simp add: postSession_def findActiveSession_def)
next
  case (Some a)
  then show ?thesis
    using sid.find_erase [OF assms, of k sid]
    by (simp add: postSession_def findActiveSession_def push_closed_def Let_def)
qed

lemma closed_postSession:
  "m_closedSessList (postSession sid p) =
     m_closedSessList p @ (case findActiveSession sid p of None \<Rightarrow> [] | Some a \<Rightarrow> [a])"
  by (simp add: postSession_def findActiveSession_def push_closed_def Let_def split: option.split)

lemma heap_postSession [simp]: "heap (postSession sid p) = heap p"
  by (simp add: postSession_def push_closed_def Let_def split: option.split)

lemma wf_postSession:
  "umap_wf sessEqual (m_activeSessMap p) \<Longrightarrow> umap_wf sessEqual (m_activeSessMap (postSession sid p))"
  by (auto simp: postSession_def push_closed_def Let_def intro: sid.wf_erase split: option.split)

subsection \<open>Properties\<close>

text \<open>
  C27. One session per connection. After a session has been created for a connection, a packet of
  either direction finds it, and the packets of all other connections find what they found before.
\<close>

theorem both_directions_find_session:
  "let (a, p1) = createSession cfg sid p in
     findActiveSession k p1 = (if k = sid \<or> k = reverse_id sid then Some a else findActiveSession k p)"
  by (simp add: createSession_def findActiveSession_def store_def Let_def sid.find_insert sessEqual_iff)

text \<open>
  C25. Posting a session refines its contract: the connection is gone from the active sessions in
  both directions, its session is appended to those that wait for decoding, and nothing else moves.
\<close>

theorem postSession_refines:
  assumes "pool_inv held p"
  shows "abs_active (postSession sid p) = (\<lambda>k. if sessEqual k sid then None else abs_active p k) \<and>
     abs_closed (postSession sid p) = abs_closed p @ (case abs_active p sid of None \<Rightarrow> [] | Some s \<Rightarrow> [s])"
proof
  note wf = pool_invD(1) [OF assms]
  show "abs_active (postSession sid p) = (\<lambda>k. if sessEqual k sid then None else abs_active p k)"
    by (rule ext) (simp add: abs_active_def find_postSession [OF wf] split: option.split)
  show "abs_closed (postSession sid p) =
      abs_closed p @ (case abs_active p sid of None \<Rightarrow> [] | Some s \<Rightarrow> [s])"
  proof (cases "findActiveSession sid p")
    case None
    then show ?thesis by (simp add: abs_closed_def closed_postSession abs_active_def)
  next
    case (Some a)
    then obtain s where "heap p a = Some s"
      using find_active [OF assms] by blast
    with Some show ?thesis by (simp add: abs_closed_def closed_postSession abs_active_def)
  qed
qed

text \<open>Keys that stand for pairwise different connections.\<close>

primrec different_conns :: "CTcpSessionId list \<Rightarrow> bool" where
  "different_conns [] = True"
| "different_conns (k # ks) = ((\<forall>k' \<in> set ks. \<not> sessEqual k' k) \<and> different_conns ks)"

lemma closed_after_posts:
  assumes "umap_wf sessEqual (m_activeSessMap p)" and "different_conns ks"
    and "\<forall>k \<in> set ks. findActiveSession k p = Some (f k)"
  shows "m_closedSessList (fold postSession ks p) = m_closedSessList p @ map f ks"
  using assms
proof (induction ks arbitrary: p)
  case Nil
  then show ?case by simp
next
  case (Cons k ks)
  have "\<forall>k' \<in> set ks. findActiveSession k' (postSession k p) = Some (f k')"
    using Cons.prems by (simp add: find_postSession [OF Cons.prems(1)])
  with Cons.IH [OF wf_postSession [OF Cons.prems(1)]] Cons.prems show ?case
    by (simp add: closed_postSession)
qed

text \<open>
  C24. Sessions are decoded in the order in which they were closed. After any number of connections
  have been posted, popping until the list is empty yields first what was waiting, then the posted
  sessions in the order of posting, each once.
\<close>

theorem decoded_in_order_of_posting:
  assumes "umap_wf sessEqual (m_activeSessMap p)" and "different_conns ks"
    and "\<forall>k \<in> set ks. findActiveSession k p = Some (f k)"
    and "length (m_closedSessList p) + length ks \<le> n"
  shows "fst (cq.drain n (fold postSession ks p)) = m_closedSessList p @ map f ks"
  using cq.drain_items [of "fold postSession ks p" n] closed_after_posts [OF assms(1-3)] assms(4)
  by simp

text \<open>
  C20. Timeouts. Posting the timed-out sessions keeps the pool consistent and never crashes; what is
  appended to the closed list are expired sessions, eleven at most; the rest stay active, and if
  fewer than eleven were moved then no expired session is left.
\<close>

theorem timeouts_post_expired_sessions:
  assumes "pool_inv held p"
  shows "\<exists>p' out. postTimeoutSessions now timeout p = Inr p' \<and> pool_inv held p' \<and> heap p' = heap p
     \<and> m_closedSessList p' = m_closedSessList p @ out \<and> length out \<le> 11
     \<and> (\<forall>a \<in> set out. expired p now timeout a)
     \<and> (\<forall>a \<in> set (active_addrs p). \<not> expired p now timeout a \<longrightarrow> a \<in> set (active_addrs p'))
     \<and> (length out < 11 \<longrightarrow> (\<forall>a \<in> set (active_addrs p'). \<not> expired p now timeout a))"
proof -
  obtain keep out where q: "postTimeoutSessions now timeout p =
       Inr (p\<lparr>m_closedSessList := m_closedSessList p @ out, m_activeSessMap := keep\<rparr>)"
     "scan_spec p now timeout 0 (m_activeSessMap p) keep out"
     "pool_inv held (p\<lparr>m_closedSessList := m_closedSessList p @ out, m_activeSessMap := keep\<rparr>)"
    using postTimeoutSessions_spec [OF assms] by blast
  have "\<forall>a \<in> snd ` set (m_activeSessMap p). \<not> expired p now timeout a \<longrightarrow> a \<in> snd ` set keep"
    using q(2) by (auto simp: scan_spec_def)
  with q show ?thesis
    by (intro exI [of _ "p\<lparr>m_closedSessList := m_closedSessList p @ out, m_activeSessMap := keep\<rparr>"]
        exI [of _ out]) (simp add: scan_spec_def active_addrs_def)
qed

subsection \<open>Witnesses\<close>

text \<open>A pool with one open SMTP session, last seen at time 100.\<close>

definition demo_id :: CTcpSessionId where
  "demo_id = mk_CTcpSessionId (CIpAddress_v4 1) 5000 (CIpAddress_v4 2) 25"

definition demo_session :: "unit CTcpSession" where
  "demo_session = setLastUpdateTime 100 (mk_CTcpSession setDefault demo_id)"

definition demo_pool :: "unit pool" where
  "demo_pool = store 0 demo_session (snd (createSession setDefault demo_id pool_init))"

lemma demo_session_ok: "session_ok demo_session" "m_sessId demo_session = demo_id"
  by (simp_all add: demo_session_def demo_id_def session_ok_def setLastUpdateTime_def mk_CTcpSession_def
      session_protocol_def mk_CTcpSessionId_def setDefault_def)

lemma demo_pool_inv: "pool_inv [] demo_pool"
proof -
  have "createSession setDefault demo_id pool_init = (0, snd (createSession setDefault demo_id pool_init))"
    by (simp add: createSession_def pool_init_def Let_def)
  from pool_inv_create [OF pool_inv_init _ this demo_session_ok(2,1)] show ?thesis
    by (simp add: demo_pool_def findActiveSession_def pool_init_def)
qed

lemma demo_pool_fields:
  "m_activeSessMap demo_pool = [(demo_id, 0)]" "heap demo_pool = [0 \<mapsto> demo_session]"
  "m_closedSessList demo_pool = []"
  by (simp_all add: demo_pool_def createSession_def pool_init_def store_def Let_def)

lemma demo_find: "findActiveSession demo_id demo_pool = Some 0"
  by (simp add: findActiveSession_def demo_pool_fields sid.find_Cons sid.eq_refl)

theorem postSession_refines_witness:
  "abs_active (postSession demo_id demo_pool) demo_id = None \<and>
   abs_closed (postSession demo_id demo_pool) = [demo_session]"
  using postSession_refines [OF demo_pool_inv, of demo_id]
  by (simp add: abs_closed_def demo_pool_fields abs_active_def demo_find sid.eq_refl)

theorem decoded_in_order_of_posting_witness:
  "fst (cq.drain 5 (fold postSession [demo_id] demo_pool)) = [0]"
  using decoded_in_order_of_posting [OF pool_invD(1) [OF demo_pool_inv], of "[demo_id]" "\<lambda>_. 0" 5]
  by (simp add: demo_find demo_pool_fields)

theorem timeouts_post_expired_sessions_witness:
  "\<exists>p' out. postTimeoutSessions 161 60 demo_pool = Inr p' \<and> m_closedSessList p' = out \<and> length out \<le> 11
     \<and> (length out < 11 \<longrightarrow> (\<forall>a \<in> set (active_addrs p'). \<not> expired demo_pool 161 60 a))
     \<and> expired demo_pool 161 60 0"
proof -
  have "expired demo_pool 161 60 0"
    by (simp add: expired_def demo_pool_fields demo_session_def setLastUpdateTime_def)
  with timeouts_post_expired_sessions [OF demo_pool_inv, of 161 60] show ?thesis
    by (auto simp: demo_pool_fields)
qed

end
