(* ===== verification/KF_Handler.thy ===== *)
theory KF_Handler
  imports KF_Pool
begin

section \<open>CPacketHandler: from the captured frame to the session\<close>

text \<open>
  The chain of handlers behind \<^verbatim>\<open>packetCallBack\<close>: the link layer (five link types), IPv4 and
  IPv6, TCP, and the session layer. The captured bytes are a list, the lengths are those of the
  pcap header, and every dereference of the packet is a checked read. The handlers return the
  \<^verbatim>\<open>int\<close> of the code beside the new state; -1 stands for a dropped packet.
\<close>

subsection \<open>Environment and state\<close>

text \<open>The singletons that do not change while packets are processed, and those that do.\<close>

record 'p kf_env =
  e_config :: CConfig
  e_db :: CDBManager
  e_http :: "'p http_lib"
  e_net :: libnet_lib
  e_DLT :: int

record 'p kf_state =
  kf_pool :: "'p pool"
  kf_sent :: "libnet_call list"

definition kf_init :: "'p kf_state" where
  "kf_init = \<lparr>kf_pool = pool_init, kf_sent = []\<rparr>"

type_synonym 'p handled = "(int \<times> 'p kf_state) res"

subsection \<open>Layer 5\<close>

text \<open>A packet for which there is no session: only a SYN opens one.\<close>

definition packet_id :: "CL4Info \<Rightarrow> CTcpSessionId" where
  "packet_id l4 =
     mk_CTcpSessionId (m_src (m_pL3Info l4)) (m_srcPort l4) (m_dst (m_pL3Info l4)) (m_dstPort l4)"

definition packet_time :: "CL4Info \<Rightarrow> int" where
  "packet_time l4 = ts_sec (m_pcapHdr (m_pL2Info (m_pL3Info l4)))"

definition processL5_new :: "'p kf_env \<Rightarrow> CL4Info \<Rightarrow> 'p kf_state \<Rightarrow> 'p handled" where
  "processL5_new e l4 k =
     (if m_synSet l4 \<and> \<not> m_ackSet l4 then
        (let (a, p1) = createSession (e_config e) (packet_id l4) (kf_pool k) in
         rbind (deref a p1) (\<lambda>s.
         let s1 = putContinuousBuf DIRECTION_TO_SERVER
                    (setStartSeq (m_seqNum l4 + 1) (getContinuousBuf DIRECTION_TO_SERVER s)) s;
             s2 = putContinuousBuf DIRECTION_TO_SERVER
                    (setUsedPos 0 (getContinuousBuf DIRECTION_TO_SERVER s1)) s1;
             s3 = setLastUpdateTime (packet_time l4) s2;
             s4 = sessionCreated (e_http e) s3
         in rbind (blockMe (e_db e) (e_net e) l4 s4) (\<lambda>(s5, calls).
            Inr (0, k\<lparr>kf_pool := store a s5 p1, kf_sent := kf_sent k @ calls\<rparr>))))
      else Inr (- 1, k))"

text \<open>A packet of a known session, the session at address \<open>a\<close>.\<close>

definition processL5_known :: "'p kf_env \<Rightarrow> CL4Info \<Rightarrow> addr \<Rightarrow> 'p kf_state \<Rightarrow> 'p handled" where
  "processL5_known e l4 a k =
     (let now = packet_time l4 in
      rbind (deref a (kf_pool k)) (\<lambda>s.
      let s1 = setLastUpdateTime now s;
          p1 = store a s1 (kf_pool k)
      in if m_ackPacket l4 then
           (if now mod 10 = 0 then
              rbind (postTimeoutSessions now 60 p1) (\<lambda>p2. Inr (0, k\<lparr>kf_pool := p2\<rparr>))
            else Inr (0, k\<lparr>kf_pool := p1\<rparr>))
         else if isClosed s1 then Inr (- 1, k\<lparr>kf_pool := p1\<rparr>)
         else
           rbind (updateMe (e_http e) (e_db e) l4 s1) (\<lambda>s2.
           rbind (blockMe (e_db e) (e_net e) l4 s2) (\<lambda>(s3, calls).
           let p2 = (if isClosed s3
                     then postSession (packet_id l4) (store a (sessionPosted s3) p1)
                     else store a s3 p1)
           in Inr (0, k\<lparr>kf_pool := p2, kf_sent := kf_sent k @ calls\<rparr>)))))"

definition processL5 :: "'p kf_env \<Rightarrow> CL4Info \<Rightarrow> 'p kf_state \<Rightarrow> 'p handled" where
  "processL5 e l4 k =
     (case findActiveSession (packet_id l4) (kf_pool k) of
        None \<Rightarrow> processL5_new e l4 k
      | Some a \<Rightarrow> processL5_known e l4 a k)"

subsection \<open>Layer 4\<close>

definition processL4Udp :: "CL3Info \<Rightarrow> 'p kf_state \<Rightarrow> 'p handled" where
  "processL4Udp l3 k = Inr (- 1, k)"

text \<open>The part of \<^verbatim>\<open>processL4Tcp\<close> that reads the packet; \<open>None\<close> is its early return.\<close>

definition decodeL4Tcp :: "CL3Info \<Rightarrow> CL4Info option res" where
  "decodeL4Tcp l3 =
     (if m_L4Datalen l3 < sizeof_tcphdr then Inr None
      else
        (let mem = m_pcapData (m_pL2Info l3); hdr = m_L4Data l3 in
         rbind (th_off mem hdr) (\<lambda>off.
         let tcpHeaderLen = unat (off * 4);
             tcpPayload = m_L4Data l3 + tcpHeaderLen;
             tcpDataLen = (if m_L4Datalen l3 > tcpHeaderLen then m_L4Datalen l3 - tcpHeaderLen else 0)
         in rbind (th_sport mem hdr) (\<lambda>sp.
            rbind (th_dport mem hdr) (\<lambda>dp.
            rbind (mk_CL4Info l3 tcpPayload tcpDataLen (ntohs sp) (ntohs dp)) (\<lambda>l4.
            Inr (Some l4)))))))"

definition processL4Tcp :: "'p kf_env \<Rightarrow> CL3Info \<Rightarrow> 'p kf_state \<Rightarrow> 'p handled" where
  "processL4Tcp e l3 k =
     rbind (decodeL4Tcp l3) (\<lambda>r. case r of None \<Rightarrow> Inr (- 1, k) | Some l4 \<Rightarrow> processL5 e l4 k)"

definition processL4 :: "'p kf_env \<Rightarrow> CL3Info \<Rightarrow> 'p kf_state \<Rightarrow> 'p handled" where
  "processL4 e l3 k =
     (if m_payloadProtocol l3 = IPPROTO_TCP then processL4Tcp e l3 k
      else if m_payloadProtocol l3 = IPPROTO_UDP then processL4Udp l3 k
      else Inr (- 1, k))"

subsection \<open>Layer 3\<close>

definition decodeL3Ip4 :: "CL2Info \<Rightarrow> CL3Info option res" where
  "decodeL3Ip4 l2 =
     (if m_L3Datalen l2 < sizeof_ip4_hdr then Inr None
      else
        (let mem = m_pcapData l2; hdr = m_L3Data l2 in
         rbind (ip_len mem hdr) (\<lambda>len.
         let ipLen = unat (ntohs len) in
         if m_L3Datalen l2 < ipLen then Inr None
         else
           rbind (ip_off mem hdr) (\<lambda>off.
           if ntohs off AND IP_OFFMASK \<noteq> 0 then Inr None
           else
             rbind (ip_hl mem hdr) (\<lambda>hl.
             let ipHeaderLen = unat hl * 4 in
             if ipHeaderLen > ipLen then Inr None
             else
               rbind (ip_src mem hdr) (\<lambda>src.
               rbind (ip_dst mem hdr) (\<lambda>dst.
               rbind (mk_CL3Info l2 (hdr + ipHeaderLen) (ipLen - ipHeaderLen)
                        (CIpAddress_v4 src) (CIpAddress_v4 dst)) (\<lambda>l3.
               Inr (Some l3)))))))))"

definition decodeL3Ip6 :: "CL2Info \<Rightarrow> CL3Info option res" where
  "decodeL3Ip6 l2 =
     (if m_L3Datalen l2 < sizeof_ip6_hdr then Inr None
      else
        (let mem = m_pcapData l2; hdr = m_L3Data l2 in
         rbind (ip6_un1_plen mem hdr) (\<lambda>plen.
         rbind (ip6_src mem hdr) (\<lambda>src.
         rbind (ip6_dst mem hdr) (\<lambda>dst.
         rbind (mk_CL3Info l2 (hdr + sizeof_ip6_hdr) (unat (ntohs plen))
                  (CIpAddress_v6 src) (CIpAddress_v6 dst)) (\<lambda>l3.
         Inr (Some l3)))))))"

definition processL3Ip4 :: "'p kf_env \<Rightarrow> CL2Info \<Rightarrow> 'p kf_state \<Rightarrow> 'p handled" where
  "processL3Ip4 e l2 k =
     rbind (decodeL3Ip4 l2) (\<lambda>r. case r of None \<Rightarrow> Inr (- 1, k) | Some l3 \<Rightarrow> processL4 e l3 k)"

definition processL3Ip6 :: "'p kf_env \<Rightarrow> CL2Info \<Rightarrow> 'p kf_state \<Rightarrow> 'p handled" where
  "processL3Ip6 e l2 k =
     rbind (decodeL3Ip6 l2) (\<lambda>r. case r of None \<Rightarrow> Inr (- 1, k) | Some l3 \<Rightarrow> processL4 e l3 k)"

text \<open>The result of the layers above is ignored from here on.\<close>

definition processL3 :: "'p kf_env \<Rightarrow> CL2Info \<Rightarrow> 'p kf_state \<Rightarrow> 'p kf_state res" where
  "processL3 e l2 k =
     rbind (getIpVersion l2) (\<lambda>version.
       if version = 4 then rbind (processL3Ip4 e l2 k) (\<lambda>(_, k1). Inr k1)
       else if version = 6 then rbind (processL3Ip6 e l2 k) (\<lambda>(_, k1). Inr k1)
       else Inr k)"

subsection \<open>Layer 2\<close>

text \<open>
  Each link type finds the IP datagram; \<open>None\<close> is an early return. On Ethernet the type field is
  read, and 4 is subtracted for a VLAN tag, before the length is compared with the header size.
\<close>

definition decodeL2En10Mb :: "pcap_pkthdr \<Rightarrow> u8 list \<Rightarrow> CL2Info option res" where
  "decodeL2En10Mb header packet =
     (if pkt_len header \<noteq> caplen header then Inr None
      else
        rbind (ether_type packet 0) (\<lambda>t.
        let vlan = (ntohs t = ETHERTYPE_VLAN);
            etherData = (if vlan then sizeof_ether_header + 4 else sizeof_ether_header);
            cap = (if vlan then caplen header - 4 else caplen header)
        in if unat cap < sizeof_ether_header then Inr None
           else Inr (Some (mk_CL2Info header packet etherData (unat cap - sizeof_ether_header) DLT_EN10MB))))"

text \<open>
  Unwinding the MPLS stack. Each round shrinks \<open>caplen\<close> and grows \<open>mpls_sz\<close>, and the bound
  compares the two, so no sum of the code's 32-bit variables can wrap; the model uses naturals.
\<close>

function mpls_loop :: "u8 list \<Rightarrow> nat \<Rightarrow> nat \<Rightarrow> (nat \<times> nat) option res" where
  "mpls_loop packet cap mpls_sz =
     (if cap < SLL_HDR_LEN + mpls_sz + 4 then Inr None
      else
        rbind (rd8 packet (SLL_HDR_LEN + (mpls_sz + 4) - 2)) (\<lambda>b.
          if b AND 1 = 0 then mpls_loop packet (cap - 4) (mpls_sz + 4)
          else Inr (Some (cap - 4, mpls_sz + 4))))"
  by pat_completeness auto
termination by (relation "measure (\<lambda>(_, cap, _). cap)") auto

declare mpls_loop.simps [simp del]

definition decodeL2LinuxSll :: "pcap_pkthdr \<Rightarrow> u8 list \<Rightarrow> CL2Info option res" where
  "decodeL2LinuxSll header packet =
     (if pkt_len header \<noteq> caplen header then Inr None
      else if unat (caplen header) < SLL_HDR_LEN then Inr None
      else
        rbind (sll_protocol packet 0) (\<lambda>t.
        rbind (if ntohs t = ETHERTYPE_MPLS then mpls_loop packet (unat (caplen header)) 0
               else Inr (Some (unat (caplen header), 0))) (\<lambda>r.
        case r of
          None \<Rightarrow> Inr None
        | Some (cap, mpls_sz) \<Rightarrow>
            Inr (Some (mk_CL2Info header packet (SLL_HDR_LEN + mpls_sz) (cap - SLL_HDR_LEN) DLT_LINUX_SLL)))))"

text \<open>A raw frame is processed even when it was captured in part only.\<close>

definition decodeL2Raw :: "pcap_pkthdr \<Rightarrow> u8 list \<Rightarrow> CL2Info option res" where
  "decodeL2Raw header packet =
     Inr (Some (mk_CL2Info header packet 0 (unat (caplen header)) DLT_RAW))"

text \<open>The family is loaded before any length is checked.\<close>

definition decodeL2Null :: "pcap_pkthdr \<Rightarrow> u8 list \<Rightarrow> CL2Info option res" where
  "decodeL2Null header packet =
     rbind (ld32 packet 0) (\<lambda>family.
       if pkt_len header \<noteq> caplen header then Inr None
       else if unat (caplen header) < NULL_HDRLEN then Inr None
       else if family \<noteq> AF_INET \<and> family \<noteq> AF_INET6 then Inr None
       else Inr (Some (mk_CL2Info header packet NULL_HDRLEN (unat (caplen header) - NULL_HDRLEN) DLT_NULL)))"

definition decodeL2Ppp :: "pcap_pkthdr \<Rightarrow> u8 list \<Rightarrow> CL2Info option res" where
  "decodeL2Ppp header packet =
     (if pkt_len header \<noteq> caplen header then Inr None
      else if unat (caplen header) < PPP_HDRLEN then Inr None
      else Inr (Some (mk_CL2Info header packet PPP_HDRLEN (unat (caplen header) - PPP_HDRLEN) DLT_PPP)))"

definition decodeL2 :: "int \<Rightarrow> pcap_pkthdr \<Rightarrow> u8 list \<Rightarrow> CL2Info option res" where
  "decodeL2 dlt header packet =
     (if dlt = DLT_EN10MB \<or> dlt = DLT_IEEE802 then decodeL2En10Mb header packet
      else if dlt = DLT_LINUX_SLL then decodeL2LinuxSll header packet
      else if dlt = 101 \<or> dlt = 12 \<or> dlt = 14 then decodeL2Raw header packet
      else if dlt = DLT_NULL then decodeL2Null header packet
      else if dlt = DLT_PPP then decodeL2Ppp header packet
      else Inr None)"

definition processL2 :: "'p kf_env \<Rightarrow> pcap_pkthdr \<Rightarrow> u8 list \<Rightarrow> 'p kf_state \<Rightarrow> 'p kf_state res" where
  "processL2 e header packet k =
     rbind (decodeL2 (e_DLT e) header packet) (\<lambda>r.
     case r of None \<Rightarrow> Inr k | Some l2 \<Rightarrow> processL3 e l2 k)"

text \<open>The packet counter of \<^verbatim>\<open>packetCallBack\<close> is only logged.\<close>

definition packetCallBack :: "'p kf_env \<Rightarrow> pcap_pkthdr \<times> u8 list \<Rightarrow> 'p kf_state \<Rightarrow> 'p kf_state res" where
  "packetCallBack e hp k = processL2 e (fst hp) (snd hp) k"

text \<open>\<^verbatim>\<open>pcap_loop\<close> hands the captured packets to the callback one after the other.\<close>

definition run_packets :: "'p kf_env \<Rightarrow> (pcap_pkthdr \<times> u8 list) list \<Rightarrow> 'p kf_state \<Rightarrow> 'p kf_state res" where
  "run_packets e = rfold (packetCallBack e)"

subsection \<open>Decoding stays inside the packet\<close>

definition l2_inside :: "CL2Info \<Rightarrow> bool" where
  "l2_inside l2 \<longleftrightarrow> m_L3Data l2 + m_L3Datalen l2 \<le> length (m_pcapData l2)"

definition l3_inside :: "CL3Info \<Rightarrow> bool" where
  "l3_inside l3 \<longleftrightarrow> m_L4Data l3 + m_L4Datalen l3 \<le> length (m_pcapData (m_pL2Info l3))"

text \<open>A decoding step that does not fault and whose result, if any, has the property.\<close>

definition yields :: "('a \<Rightarrow> bool) \<Rightarrow> 'a option res \<Rightarrow> bool" where
  "yields P m \<longleftrightarrow> (\<exists>r. m = Inr r \<and> (\<forall>x. r = Some x \<longrightarrow> P x))"

lemma yields_simps [simp]:
  "yields P (Inr None)" "yields P (Inr (Some x)) = P x" "\<not> yields P (Inl f)"
  by (simp_all add: yields_def)

lemma mpls_loop_ok:
  assumes "cap + mpls_sz \<le> length packet"
  shows "\<exists>r. mpls_loop packet cap mpls_sz = Inr r \<and>
     (\<forall>c m. r = Some (c, m) \<longrightarrow> c + m \<le> length packet \<and> SLL_HDR_LEN \<le> c)"
  using assms
proof (induction packet cap mpls_sz rule: mpls_loop.induct)
  case (1 packet cap mpls_sz)
  show ?case
  proof (cases "cap < SLL_HDR_LEN + mpls_sz + 4")
    case True
    then show ?thesis by (subst mpls_loop.simps) simp
  next
    case False
    have "SLL_HDR_LEN + (mpls_sz + 4) - 2 < length packet"
      using False "1.prems" by simp
    then have rd: "rd8 packet (SLL_HDR_LEN + (mpls_sz + 4) - 2) = Inr (packet ! (SLL_HDR_LEN + (mpls_sz + 4) - 2))"
      by (simp add: rd8_def)
    show ?thesis
      using "1.IH" [OF False rd] False "1.prems"
      by (subst mpls_loop.simps, unfold rd) auto
  qed
qed

lemma decodeL2_inside:
  assumes "length packet = unat (caplen header)" and "14 \<le> length packet"
  shows "yields (\<lambda>l2. l2_inside l2 \<and> m_pcapData l2 = packet) (decodeL2 dlt header packet)"
proof -
  have en: "yields (\<lambda>l2. l2_inside l2 \<and> m_pcapData l2 = packet) (decodeL2En10Mb header packet)"
  proof -
    have "4 \<le> caplen header"
      using assms by (simp add: word_le_nat_alt)
    then have "unat (caplen header - 4) = unat (caplen header) - 4"
      by (simp add: unat_sub)
    then show ?thesis
      using assms by (simp add: decodeL2En10Mb_def ether_type_def rd_simps Let_def l2_inside_def
          mk_CL2Info_def hdr_sizes)
  qed
  have sll: "yields (\<lambda>l2. l2_inside l2 \<and> m_pcapData l2 = packet) (decodeL2LinuxSll header packet)"
  proof (cases "16 \<le> length packet")
    case True
    then show ?thesis
      using mpls_loop_ok [of "unat (caplen header)" 0 packet] assms
      by (auto simp: decodeL2LinuxSll_def sll_protocol_def rd_simps l2_inside_def mk_CL2Info_def
          hdr_sizes split: option.splits)
  next
    case False
    then show ?thesis
      using assms by (simp add: decodeL2LinuxSll_def hdr_sizes)
  qed
  show ?thesis
    using assms en sll
    by (simp add: decodeL2_def decodeL2Raw_def decodeL2Null_def decodeL2Ppp_def rd_simps
        l2_inside_def mk_CL2Info_def hdr_sizes)
qed

lemma getIpVersion_ok: "l2_inside l2 \<Longrightarrow> \<exists>v. getIpVersion l2 = Inr v"
  by (simp add: getIpVersion_def l2_inside_def ip_v_def rd_simps hdr_sizes rd8_def)

lemma decodeL3Ip4_inside:
  assumes "l2_inside l2"
  shows "yields (\<lambda>l3. l3_inside l3 \<and> m_pL2Info l3 = l2) (decodeL3Ip4 l2)"
  using assms
  by (auto simp: decodeL3Ip4_def mk_CL3Info_def getIpVersion_def hdr_defs rd_simps rd8_def Let_def
      l2_inside_def l3_inside_def hdr_sizes)

lemma decodeL4Tcp_inside:
  assumes "l3_inside l3"
  shows "yields (\<lambda>l4. payload_inside l4 \<and> m_pL3Info l4 = l3) (decodeL4Tcp l3)"
  using assms
  by (auto simp: decodeL4Tcp_def mk_CL4Info_def hdr_defs rd_simps rd8_def Let_def l3_inside_def
      payload_inside_def hdr_sizes)

subsection \<open>The session layer keeps the pool consistent\<close>

lemma store_same [simp]: "store a s (store a t p) = store a s p"
  by (simp add: store_def)

lemma store_fields [simp]:
  "m_activeSessMap (store a s p) = m_activeSessMap p"
  "m_closedSessList (store a s p) = m_closedSessList p"
  "heap (store a s p) = (heap p)(a \<mapsto> s)"
  "m_index (store a s p) = m_index p"
  "active_addrs (store a s p) = active_addrs p"
  "findActiveSession k (store a s p) = findActiveSession k p"
  by (simp_all add: store_def active_addrs_def findActiveSession_def)

lemma keeps_setLastUpdateTime:
  "session_ok s \<Longrightarrow> session_ok (setLastUpdateTime t s)"
  "m_sessId (setLastUpdateTime t s) = m_sessId s"
  by (simp_all add: session_ok_def setLastUpdateTime_def)

text \<open>The session that a SYN creates, just before the block check.\<close>

definition fresh_session :: "'p kf_env \<Rightarrow> CL4Info \<Rightarrow> u64 \<Rightarrow> 'p CTcpSession" where
  "fresh_session e l4 n =
     sessionCreated (e_http e)
       (setLastUpdateTime (packet_time l4)
         (putContinuousBuf DIRECTION_TO_SERVER
           (setUsedPos 0 (setStartSeq (m_seqNum l4 + 1) CTcpSegBuf_init))
           (setNum n (mk_CTcpSession (e_config e) (packet_id l4)))))"

lemma fresh_session_ok:
  "session_ok (fresh_session e l4 n)" "m_sessId (fresh_session e l4 n) = packet_id l4"
  by (auto simp: fresh_session_def sessionCreated_def session_ok_def parserInit_def sess_defs
      mk_CTcpSession_def split: protocol.split)

lemma processL5_new_eq:
  assumes "m_synSet l4" and "\<not> m_ackSet l4"
  shows "processL5_new e l4 k =
     (let (a, p1) = createSession (e_config e) (packet_id l4) (kf_pool k) in
      rbind (blockMe (e_db e) (e_net e) l4 (fresh_session e l4 (m_index (kf_pool k) + 1))) (\<lambda>(s, calls).
      Inr (0, k\<lparr>kf_pool := store a s p1, kf_sent := kf_sent k @ calls\<rparr>)))"
  using assms
  by (simp add: processL5_new_def createSession_def deref_def Let_def fresh_session_def
      getContinuousBuf_def) (simp add: putContinuousBuf_def setNum_def mk_CTcpSession_def)

lemma processL5_new_inv:
  assumes "pool_inv held (kf_pool k)" and "findActiveSession (packet_id l4) (kf_pool k) = None"
    and "processL5_new e l4 k = Inr (r, k')"
  shows "pool_inv held (kf_pool k')"
proof (cases "m_synSet l4 \<and> \<not> m_ackSet l4")
  case False
  then show ?thesis
    using assms(1,3) by (auto simp: processL5_new_def)
next
  case True
  obtain a p1 where c: "createSession (e_config e) (packet_id l4) (kf_pool k) = (a, p1)"
    by force
  obtain s calls where b: "blockMe (e_db e) (e_net e) l4 (fresh_session e l4 (m_index (kf_pool k) + 1)) = Inr (s, calls)"
    and k': "kf_pool k' = store a s p1"
    using assms(3) processL5_new_eq [of l4 e k] True c by (auto simp: rbind_eq_Inr)
  have "keeps (fresh_session e l4 (m_index (kf_pool k) + 1)) s"
    "m_tcpState s = m_tcpState (fresh_session e l4 (m_index (kf_pool k) + 1))"
    using blockMe_keeps [OF b] by auto
  then have "session_ok s" "m_sessId s = packet_id l4"
    using session_okD(1) [OF fresh_session_ok(1)] session_ok_keeps [OF fresh_session_ok(1)]
    by (metis, simp add: keeps_def fresh_session_ok(2))
  then show ?thesis
    unfolding k' by (intro pool_inv_create [OF assms(1,2) c])
qed

definition after_update :: "CL4Info \<Rightarrow> addr \<Rightarrow> 'p CTcpSession \<Rightarrow> 'p pool \<Rightarrow> 'p pool" where
  "after_update l4 a s p =
     (if isClosed s then postSession (packet_id l4) (store a s p) else store a s p)"

lemma processL5_known_eq:
  assumes "heap (kf_pool k) a = Some s" and "session_ok s"
  shows "processL5_known e l4 a k =
     (let s1 = setLastUpdateTime (packet_time l4) s; p1 = store a s1 (kf_pool k) in
      if m_ackPacket l4 then
        (if packet_time l4 mod 10 = 0 then
           rbind (postTimeoutSessions (packet_time l4) 60 p1) (\<lambda>p2. Inr (0, k\<lparr>kf_pool := p2\<rparr>))
         else Inr (0, k\<lparr>kf_pool := p1\<rparr>))
      else
        rbind (updateMe (e_http e) (e_db e) l4 s1) (\<lambda>s2.
        rbind (blockMe (e_db e) (e_net e) l4 s2) (\<lambda>(s3, calls).
        Inr (0, k\<lparr>kf_pool := after_update l4 a s3 (kf_pool k), kf_sent := kf_sent k @ calls\<rparr>))))"
proof -
  have "\<not> isClosed (setLastUpdateTime (packet_time l4) s)"
    using session_okD(1) [OF assms(2)] by (simp add: isClosed_def setLastUpdateTime_def)
  then show ?thesis
    using assms(1) by (simp add: processL5_known_def deref_def Let_def plugin_id after_update_def cong: if_cong)
qed

lemma processL5_known_inv:
  assumes inv: "pool_inv held (kf_pool k)" and find: "findActiveSession (packet_id l4) (kf_pool k) = Some a"
    and res: "processL5_known e l4 a k = Inr (r, k')"
  shows "pool_inv held (kf_pool k')"
proof -
  obtain key s where key: "(key, a) \<in> set (m_activeSessMap (kf_pool k))" and s: "heap (kf_pool k) a = Some s"
    and sk: "m_sessId s = key" and sok: "session_ok s"
    using find_active [OF inv find] by blast
  define s1 where "s1 = setLastUpdateTime (packet_time l4) s"
  have s1: "session_ok s1" "m_sessId s1 = key"
    using sok sk by (simp_all add: s1_def keeps_setLastUpdateTime)
  note inv1 = pool_inv_store [OF inv key s1(2,1)]
  consider "kf_pool k' = store a s1 (kf_pool k)"
    | "postTimeoutSessions (packet_time l4) 60 (store a s1 (kf_pool k)) = Inr (kf_pool k')"
    | s2 s3 calls where "updateMe (e_http e) (e_db e) l4 s1 = Inr s2"
        "blockMe (e_db e) (e_net e) l4 s2 = Inr (s3, calls)"
        "kf_pool k' = after_update l4 a s3 (kf_pool k)"
    using res unfolding processL5_known_eq [OF s sok] s1_def [symmetric] Let_def
    by (auto simp: rbind_eq_Inr split: if_splits)
  then show ?thesis
  proof cases
    case 1
    with inv1 show ?thesis by simp
  next
    case 2
    with postTimeoutSessions_spec [OF inv1, of "packet_time l4" 60] show ?thesis by auto
  next
    case 3
    have keep: "keeps s1 s3"
      using updateMe_keeps [OF 3(1)] blockMe_keeps [OF 3(2)] keeps_trans by blast
    show ?thesis
    proof (cases "isClosed s3")
      case True
      then show ?thesis using 3(3) pool_inv_post [OF inv find] by (simp add: after_update_def)
    next
      case False
      then have "session_ok s3" "m_sessId s3 = key"
        using session_ok_keeps [OF s1(1) keep] keep s1(2) by (simp_all add: isClosed_def keeps_def)
      with False show ?thesis using 3(3) pool_inv_store [OF inv key] by (simp add: after_update_def)
    qed
  qed
qed

lemma processL5_inv [kf_inv]:
  "pool_inv held (kf_pool k) \<Longrightarrow> processL5 e l4 k = Inr (r, k') \<Longrightarrow> pool_inv held (kf_pool k')"
  by (auto simp: processL5_def split: option.splits intro: processL5_new_inv processL5_known_inv)

text \<open>Crashes of the session layer: with the payload inside the packet, only string exceptions.\<close>

lemma blockMe_form:
  assumes "getIpVersion (m_pL2Info (m_pL3Info l4)) = Inr v"
  shows "\<exists>b calls. blockMe db net l4 s = Inr (s\<lparr>m_shouldBlock := b\<rparr>, calls)"
proof -
  consider "v = 4" "isIpv4Hit db (getIpv4 (m_src (m_pL3Info l4)))"
    | "v = 4" "\<not> isIpv4Hit db (getIpv4 (m_src (m_pL3Info l4)))" | "v \<noteq> 4"
    by blast
  then show ?thesis
  proof cases
    case 1
    then show ?thesis using assms by (auto simp: blockMe_def Let_def)
  next
    case 2
    then show ?thesis
      using assms by (intro exI [of _ "m_shouldBlock s"]) (auto simp: blockMe_def Let_def)
  next
    case 3
    then show ?thesis
      using assms by (intro exI [of _ "m_shouldBlock s"]) (auto simp: blockMe_def Let_def)
  qed
qed

lemma blockMe_no_fault: "getIpVersion (m_pL2Info (m_pL3Info l4)) = Inr v \<Longrightarrow> blockMe db net l4 s \<noteq> Inl f"
  by (auto simp: blockMe_def Let_def)

lemma processL5_fault:
  assumes inv: "pool_inv held (kf_pool k)" and v: "getIpVersion (m_pL2Info (m_pL3Info l4)) = Inr v"
    and inside: "payload_inside l4" and res: "processL5 e l4 k = Inl f"
  shows "f = OutOfRange"
proof (cases "findActiveSession (packet_id l4) (kf_pool k)")
  case None
  have False if "m_synSet l4" "\<not> m_ackSet l4"
    using res None processL5_new_eq [OF that, of e k]
      blockMe_form [OF v, of "e_db e" "e_net e" "fresh_session e l4 (m_index (kf_pool k) + 1)"]
    by (auto simp: processL5_def split_beta)
  with None res show ?thesis
    by (auto simp: processL5_def processL5_new_def split: if_splits)
next
  case (Some a)
  then obtain key s where key: "(key, a) \<in> set (m_activeSessMap (kf_pool k))"
    and s: "heap (kf_pool k) a = Some s" and sk: "m_sessId s = key" and sok: "session_ok s"
    using find_active [OF inv Some] by blast
  define s1 where "s1 = setLastUpdateTime (packet_time l4) s"
  have s1: "session_ok s1" "m_sessId s1 = key"
    using sok sk by (simp_all add: s1_def keeps_setLastUpdateTime)
  have "\<exists>q. postTimeoutSessions (packet_time l4) 60 (store a s1 (kf_pool k)) = Inr q"
    using postTimeoutSessions_spec [OF pool_inv_store [OF inv key s1(2,1)]] by blast
  moreover have "processL5_known e l4 a k = Inl f"
    using res Some by (simp add: processL5_def)
  ultimately have "updateMe (e_http e) (e_db e) l4 s1 = Inl f"
    unfolding processL5_known_eq [OF s sok] s1_def [symmetric] Let_def
    by (auto simp: rbind_eq_Inl blockMe_no_fault [OF v] split: if_splits)
  then show ?thesis
    using updateMe_fault inside session_okD(2,3) [OF s1(1)] by blast
qed

subsection \<open>From the frame to the session\<close>

lemma processL4_fault:
  assumes "pool_inv held (kf_pool k)" and "getIpVersion (m_pL2Info l3) = Inr v" and "l3_inside l3"
    and "processL4 e l3 k = Inl f"
  shows "f = OutOfRange"
proof -
  obtain r where r: "decodeL4Tcp l3 = Inr r" "\<And>l4. r = Some l4 \<Longrightarrow> payload_inside l4 \<and> m_pL3Info l4 = l3"
    using decodeL4Tcp_inside [OF assms(3)] by (auto simp: yields_def)
  with assms obtain l4 where "r = Some l4" "processL5 e l4 k = Inl f"
    by (auto simp: processL4_def processL4Tcp_def processL4Udp_def split: if_splits option.splits)
  with r(2) show ?thesis
    using processL5_fault [OF assms(1)] assms(2) by blast
qed

lemma processL4_inv [kf_inv]:
  "pool_inv held (kf_pool k) \<Longrightarrow> processL4 e l3 k = Inr (r, k') \<Longrightarrow> pool_inv held (kf_pool k')"
  by (auto simp: processL4_def processL4Tcp_def processL4Udp_def rbind_eq_Inr intro: processL5_inv
      split: if_splits option.splits)

lemma processL3_inv [kf_inv]:
  "pool_inv held (kf_pool k) \<Longrightarrow> processL3 e l2 k = Inr k' \<Longrightarrow> pool_inv held (kf_pool k')"
  by (auto simp: processL3_def processL3Ip4_def processL3Ip6_def rbind_eq_Inr intro: processL4_inv
      split: if_splits option.splits)

lemma packetCallBack_inv [kf_inv]:
  "pool_inv held (kf_pool k) \<Longrightarrow> packetCallBack e hp k = Inr k' \<Longrightarrow> pool_inv held (kf_pool k')"
  by (auto simp: packetCallBack_def processL2_def rbind_eq_Inr intro: processL3_inv
      split: option.splits)

lemma run_packets_inv:
  assumes "pool_inv held (kf_pool k)" and "run_packets e pkts k = Inr k'"
  shows "pool_inv held (kf_pool k')"
  using assms(2,1) unfolding run_packets_def
  by (rule rfold_invariant) (auto intro: packetCallBack_inv)

lemma processL3_fault:
  assumes inv: "pool_inv held (kf_pool k)" and inside: "l2_inside l2" and v6: "getIpVersion l2 \<noteq> Inr 6"
    and res: "processL3 e l2 k = Inl f"
  shows "f = OutOfRange"
proof -
  obtain v where v: "getIpVersion l2 = Inr v"
    using getIpVersion_ok [OF inside] by blast
  obtain r where r: "decodeL3Ip4 l2 = Inr r" "\<And>l3. r = Some l3 \<Longrightarrow> l3_inside l3 \<and> m_pL2Info l3 = l2"
    using decodeL3Ip4_inside [OF inside] by (auto simp: yields_def)
  from res v v6 r(1) obtain l3 where l3: "r = Some l3" "processL4 e l3 k = Inl f"
    by (auto simp: processL3_def processL3Ip4_def rbind_eq_Inl split: if_splits option.splits)
  then show ?thesis
    using processL4_fault [OF inv _ _ l3(2)] r(2) v by blast
qed

subsection \<open>Properties\<close>

text \<open>
  C14. Every state the packets can lead to is consistent. Whatever frames arrive, as long as the
  process has not crashed: a connection that is found has a live session, stored under its own
  identifier (up to direction) and not closed; no session is reachable twice; and every live session
  is either active or waiting to be decoded.
\<close>

theorem reachable_pool_consistent:
  assumes "run_packets e pkts kf_init = Inr k"
  shows "distinct (active_addrs (kf_pool k) @ m_closedSessList (kf_pool k))
     \<and> dom (heap (kf_pool k)) = set (active_addrs (kf_pool k) @ m_closedSessList (kf_pool k))
     \<and> (\<forall>sid a. findActiveSession sid (kf_pool k) = Some a \<longrightarrow>
          (\<exists>s. heap (kf_pool k) a = Some s \<and> (m_sessId s = sid \<or> m_sessId s = reverse_id sid) \<and> \<not> isClosed s))"
proof -
  have inv: "pool_inv [] (kf_pool k)"
    by (rule run_packets_inv [OF _ assms]) (simp add: kf_init_def pool_inv_init)
  have "\<exists>s. heap (kf_pool k) a = Some s \<and> (m_sessId s = sid \<or> m_sessId s = reverse_id sid) \<and> \<not> isClosed s"
    if f: "findActiveSession sid (kf_pool k) = Some a" for sid a
  proof -
    obtain key s where "sessEqual sid key" "heap (kf_pool k) a = Some s" "m_sessId s = key" "session_ok s"
      using find_active [OF inv f] by blast
    then show ?thesis
      using session_okD(1) [of s] by (auto simp: sessEqual_iff isClosed_def)
  qed
  then show ?thesis
    using pool_invD(2,3) [OF inv] by simp
qed

text \<open>
  C15. Memory safety for IPv4. A frame of at least fourteen bytes that was captured whole and does not
  carry IPv6 is processed without a read outside the captured bytes, without use of a freed session
  and without use of an uninitialised parser, on every link type; the pool stays consistent. The one
  crash left is the exception of a \<^verbatim>\<open>std::string\<close> operation.
\<close>

theorem ipv4_frames_are_safe:
  assumes "pool_inv held (kf_pool k)" and "length packet = unat (caplen header)" and "14 \<le> length packet"
    and "\<forall>l2. decodeL2 (e_DLT e) header packet = Inr (Some l2) \<longrightarrow> getIpVersion l2 \<noteq> Inr 6"
  shows "case packetCallBack e (header, packet) k of
       Inl f \<Rightarrow> f = OutOfRange
     | Inr k' \<Rightarrow> pool_inv held (kf_pool k')"
proof -
  obtain r where r: "decodeL2 (e_DLT e) header packet = Inr r" "\<And>l2. r = Some l2 \<Longrightarrow> l2_inside l2"
    using decodeL2_inside [OF assms(2,3), of "e_DLT e"] by (auto simp: yields_def)
  have "f = OutOfRange" if "packetCallBack e (header, packet) k = Inl f" for f
  proof -
    from that r(1) obtain l2 where "r = Some l2" "processL3 e l2 k = Inl f"
      by (auto simp: packetCallBack_def processL2_def split: option.splits)
    then show ?thesis
      using processL3_fault [OF assms(1)] r assms(4) by blast
  qed
  then show ?thesis
    using packetCallBack_inv [OF assms(1)] by (auto split: sum.split)
qed

text \<open>
  Decoding does not look at the state: the session layer sees exactly the TCP packet that the frame
  decodes to, if any.
\<close>

definition frame_l3 :: "CL2Info \<Rightarrow> CL3Info option res" where
  "frame_l3 l2 =
     rbind (getIpVersion l2) (\<lambda>v.
       if v = 4 then decodeL3Ip4 l2 else if v = 6 then decodeL3Ip6 l2 else Inr None)"

definition frame_l4 :: "int \<Rightarrow> pcap_pkthdr \<Rightarrow> u8 list \<Rightarrow> CL4Info option res" where
  "frame_l4 dlt header packet =
     rbind (decodeL2 dlt header packet) (\<lambda>r2. case r2 of None \<Rightarrow> Inr None | Some l2 \<Rightarrow>
     rbind (frame_l3 l2) (\<lambda>r3. case r3 of None \<Rightarrow> Inr None | Some l3 \<Rightarrow>
     if m_payloadProtocol l3 = IPPROTO_TCP then decodeL4Tcp l3 else Inr None))"

lemma packetCallBack_frame:
  "packetCallBack e (header, packet) k =
     rbind (frame_l4 (e_DLT e) header packet) (\<lambda>r. case r of None \<Rightarrow> Inr k
     | Some l4 \<Rightarrow> rbind (processL5 e l4 k) (\<lambda>(_, k1). Inr k1))"
  by (auto simp: packetCallBack_def processL2_def processL3_def processL3Ip4_def processL3Ip6_def
      processL4_def processL4Tcp_def processL4Udp_def frame_l4_def frame_l3_def rbind_def
      split: sum.splits option.splits)

lemma syn_result:
  assumes "findActiveSession (packet_id l4) (kf_pool k) = None" and "m_synSet l4" and "\<not> m_ackSet l4"
    and "getIpVersion (m_pL2Info (m_pL3Info l4)) = Inr v"
  shows "\<exists>k' a s. processL5 e l4 k = Inr (0, k')
     \<and> findActiveSession (packet_id l4) (kf_pool k') = Some a
     \<and> findActiveSession (reverse_id (packet_id l4)) (kf_pool k') = Some a
     \<and> heap (kf_pool k') a = Some s \<and> m_tcpState s = TCP_SM_HANDSHAKE
     \<and> m_tcpTxnId s = m_index (kf_pool k) + 1 \<and> m_lastUpdateTime s = packet_time l4
     \<and> m_start (getContinuousBuf DIRECTION_TO_SERVER s) = m_seqNum l4 + 1
     \<and> m_used (getContinuousBuf DIRECTION_TO_SERVER s) = m_seqNum l4 + 1"
proof -
  obtain a p1 where c: "createSession (e_config e) (packet_id l4) (kf_pool k) = (a, p1)"
    by force
  define s0 where "s0 = fresh_session e l4 (m_index (kf_pool k) + 1)"
  obtain b calls where bl: "blockMe (e_db e) (e_net e) l4 s0 = Inr (s0\<lparr>m_shouldBlock := b\<rparr>, calls)"
    using blockMe_form [OF assms(4)] by blast
  have run: "processL5 e l4 k =
      Inr (0, k\<lparr>kf_pool := store a (s0\<lparr>m_shouldBlock := b\<rparr>) p1, kf_sent := kf_sent k @ calls\<rparr>)"
    using assms(1) processL5_new_eq [OF assms(2,3), of e k] c bl by (simp add: processL5_def s0_def)
  have found: "findActiveSession x p1 = Some a" if "x = packet_id l4 \<or> x = reverse_id (packet_id l4)" for x
    using that c sid.find_insert [of x "packet_id l4" a]
    by (auto simp: createSession_def findActiveSession_def store_def Let_def sessEqual_iff)
  have "m_tcpState s0 = TCP_SM_HANDSHAKE" "m_tcpTxnId s0 = m_index (kf_pool k) + 1"
    "m_lastUpdateTime s0 = packet_time l4" "m_start (getContinuousBuf DIRECTION_TO_SERVER s0) = m_seqNum l4 + 1"
    "m_used (getContinuousBuf DIRECTION_TO_SERVER s0) = m_seqNum l4 + 1"
    by (auto simp: s0_def fresh_session_def sessionCreated_def parserInit_def sess_defs mk_CTcpSession_def
        setUsedPos_def setStartSeq_def split: protocol.split)
  with run found show ?thesis
    by (intro exI [of _ "k\<lparr>kf_pool := store a (s0\<lparr>m_shouldBlock := b\<rparr>) p1, kf_sent := kf_sent k @ calls\<rparr>"]
        exI [of _ a] exI [of _ "s0\<lparr>m_shouldBlock := b\<rparr>"]) (simp add: getContinuousBuf_def)
qed

text \<open>
  A SYN opens a session. When no session is known, a SYN without ACK creates one that both
  directions find; it is in the handshake state, numbered by the pool's counter, stamped with the
  packet's time, and expects the client's data from the next sequence number on.
\<close>

theorem syn_opens_session:
  assumes "findActiveSession (packet_id l4) (kf_pool k) = None" and "m_synSet l4" and "\<not> m_ackSet l4"
    and "getIpVersion (m_pL2Info (m_pL3Info l4)) = Inr v"
  shows "\<exists>k' a s. processL5 e l4 k = Inr (0, k')
     \<and> findActiveSession (packet_id l4) (kf_pool k') = Some a
     \<and> findActiveSession (reverse_id (packet_id l4)) (kf_pool k') = Some a
     \<and> heap (kf_pool k') a = Some s \<and> m_tcpState s = TCP_SM_HANDSHAKE
     \<and> m_tcpTxnId s = m_index (kf_pool k) + 1 \<and> m_lastUpdateTime s = packet_time l4
     \<and> m_start (getContinuousBuf DIRECTION_TO_SERVER s) = m_seqNum l4 + 1
     \<and> m_used (getContinuousBuf DIRECTION_TO_SERVER s) = m_seqNum l4 + 1"
  using syn_result [OF assms] .

text \<open>
  Nothing but a SYN opens a session. A packet of an unknown connection that is not a bare SYN is
  dropped and changes nothing.
\<close>

theorem stray_packet_dropped:
  assumes "findActiveSession (packet_id l4) (kf_pool k) = None" and "\<not> m_synSet l4 \<or> m_ackSet l4"
  shows "processL5 e l4 k = Inr (- 1, k)"
  using assms by (auto simp: processL5_def processL5_new_def)

text \<open>
  A pure ACK only refreshes its own session and sweeps the others. It cannot crash, sends
  nothing, and the connection it belongs to is still found afterwards under the same session, with
  the new time stamp.
\<close>

theorem ack_keeps_its_session:
  assumes inv: "pool_inv held (kf_pool k)" and find: "findActiveSession (packet_id l4) (kf_pool k) = Some a"
    and ack: "m_ackPacket l4"
  shows "\<exists>k' s. processL5 e l4 k = Inr (0, k') \<and> kf_sent k' = kf_sent k
     \<and> findActiveSession (packet_id l4) (kf_pool k') = Some a
     \<and> heap (kf_pool k') a = Some s \<and> m_lastUpdateTime s = packet_time l4"
proof -
  obtain key s where key: "(key, a) \<in> set (m_activeSessMap (kf_pool k))" "sessEqual (packet_id l4) key"
    and s: "heap (kf_pool k) a = Some s" and sk: "m_sessId s = key" and sok: "session_ok s"
    using find_active [OF inv find] by blast
  define s1 where "s1 = setLastUpdateTime (packet_time l4) s"
  have t1: "m_lastUpdateTime s1 = packet_time l4"
    by (simp add: s1_def setLastUpdateTime_def)
  define p1 where "p1 = store a s1 (kf_pool k)"
  have inv1: "pool_inv held p1"
    unfolding p1_def by (rule pool_inv_store [OF inv key(1)]) (simp_all add: s1_def keeps_setLastUpdateTime sok sk)
  have h1: "heap p1 a = Some s1" and m1: "m_activeSessMap p1 = m_activeSessMap (kf_pool k)"
    by (simp_all add: p1_def)
  obtain keep out where post: "postTimeoutSessions (packet_time l4) 60 p1 =
      Inr (p1\<lparr>m_closedSessList := m_closedSessList p1 @ out, m_activeSessMap := keep\<rparr>)"
    and scan: "scan_spec p1 (packet_time l4) 60 0 (m_activeSessMap p1) keep out"
    and inv2: "pool_inv held (p1\<lparr>m_closedSessList := m_closedSessList p1 @ out, m_activeSessMap := keep\<rparr>)"
    using postTimeoutSessions_spec [OF inv1] by blast
  have "\<not> expired p1 (packet_time l4) 60 a"
    by (simp add: expired_def h1 t1)
  then have "(key, a) \<in> set keep"
    using scan key(1) m1 by (auto simp: scan_spec_def)
  then have kept: "umap_find getHash sessEqual (packet_id l4) keep = Some a"
    using sid.find_Some_iff [of keep] pool_invD(1) [OF inv2] key(2) by auto
  show ?thesis
    using find ack post kept h1 t1
    by (simp add: processL5_def processL5_known_eq [OF s sok] s1_def [symmetric] p1_def [symmetric] Let_def)
       (auto simp: findActiveSession_def p1_def)
qed

text \<open>
  C26. The packet that closes a connection hands its session over. When the update ends in the closed
  state, the connection is no longer found in either direction, and the session, as updated, is the
  last of those that wait for decoding.
\<close>

theorem closing_packet_posts_session:
  assumes inv: "pool_inv held (kf_pool k)" and find: "findActiveSession (packet_id l4) (kf_pool k) = Some a"
    and "heap (kf_pool k) a = Some s" and "\<not> m_ackPacket l4"
    and "updateMe (e_http e) (e_db e) l4 (setLastUpdateTime (packet_time l4) s) = Inr s2"
    and "blockMe (e_db e) (e_net e) l4 s2 = Inr (s3, calls)" and "isClosed s2"
  shows "\<exists>k'. processL5 e l4 k = Inr (0, k')
     \<and> findActiveSession (packet_id l4) (kf_pool k') = None
     \<and> findActiveSession (reverse_id (packet_id l4)) (kf_pool k') = None
     \<and> m_closedSessList (kf_pool k') = m_closedSessList (kf_pool k) @ [a]
     \<and> heap (kf_pool k') a = Some s3 \<and> kf_sent k' = kf_sent k @ calls"
proof -
  have sok: "session_ok s"
    using find_active [OF inv find] assms(3) by (metis option.inject)
  have closed: "isClosed s3"
    using blockMe_keeps [OF assms(6)] assms(7) by (simp add: isClosed_def)
  have wf: "umap_wf sessEqual (m_activeSessMap (store a s3 (kf_pool k)))"
    using pool_invD(1) [OF inv] by simp
  show ?thesis
    using assms find closed
    by (simp add: processL5_def processL5_known_eq [OF assms(3) sok] Let_def after_update_def
        find_postSession [OF wf] closed_postSession sessEqual_iff)
qed

text \<open>Copying a payload that does not lie inside the captured bytes.\<close>

lemma payload_outside_faults:
  assumes inv: "pool_inv held (kf_pool k)" and find: "findActiveSession (packet_id l4) (kf_pool k) = Some a"
    and "\<not> m_ackPacket l4" and "\<not> m_synSet l4" and "0 < m_L5Datalen l4"
    and "length (m_pcapData (m_pL2Info (m_pL3Info l4))) < m_L5Data l4 + m_L5Datalen l4"
  shows "processL5 e l4 k = Inl OutOfBounds"
proof -
  obtain s where s: "heap (kf_pool k) a = Some s" and sok: "session_ok s"
    using find_active [OF inv find] by blast
  have "getDirection l4 x = DIRECTION_TO_SERVER \<or> getDirection l4 x = DIRECTION_TO_CLIENT"
    for x :: "'a CTcpSession"
    by (rule getDirection_cases)
  then have "savePayload l4 (getDirection l4 x) x = Inl OutOfBounds" for x :: "'a CTcpSession"
    using assms(6) by (auto simp: savePayload_def rdn_def)
  then show ?thesis
    using find assms(3-5) by (simp add: processL5_def processL5_known_eq [OF s sok] Let_def updateMe_def)
qed

subsection \<open>Concrete frames\<close>

definition demo_hdr :: "int \<Rightarrow> nat \<Rightarrow> pcap_pkthdr" where
  "demo_hdr t n = \<lparr>ts_sec = t, caplen = of_nat n, pkt_len = of_nat n\<rparr>"

text \<open>A TCP header from port 5000 to port 80 with sequence number 1000.\<close>

definition demo_tcp :: "u8 \<Rightarrow> u8 list" where
  "demo_tcp fl = [0x13, 0x88, 0, 80, 0, 0, 3, 0xe8, 0, 0, 0, 0, 0x50, fl, 0xff, 0xff, 0, 0, 0, 0]"

definition demo_v4 :: "u8 \<Rightarrow> u8 list" where
  "demo_v4 fl = [0x45, 0, 0, 40, 0, 0, 0x40, 0, 64, 6, 0, 0, 10, 0, 0, 1, 10, 0, 0, 2] @ demo_tcp fl"

text \<open>An IPv6 datagram of sixty bytes, with the given length in its header.\<close>

definition demo_v6 :: "u8 \<Rightarrow> u8 \<Rightarrow> u8 list" where
  "demo_v6 plen fl =
     [0x60, 0, 0, 0, 0, plen, 6, 64] @ 0x20 # replicate 14 0 @ [1] @ 0x20 # replicate 14 0 @ [2] @ demo_tcp fl"

definition demo_env :: "unit kf_env" where
  "demo_env = \<lparr>e_config = setDefault, e_db = CDBManager_init, e_http = idle_http, e_net = libnet_up,
     e_DLT = DLT_RAW\<rparr>"

definition l4_of :: "u8 list \<Rightarrow> CL4Info" where
  "l4_of packet = the (projr (frame_l4 DLT_RAW (demo_hdr 1000 (length packet)) packet))"

lemma demo_v6_decodes:
  "frame_l4 DLT_RAW (demo_hdr 1000 60) (demo_v6 20 2) = Inr (Some (l4_of (demo_v6 20 2)))"
  "frame_l4 DLT_RAW (demo_hdr 1000 60) (demo_v6 100 0x18) = Inr (Some (l4_of (demo_v6 100 0x18)))"
  by (code_simp, code_simp)

lemma demo_v6_syn:
  "m_synSet (l4_of (demo_v6 20 2))" "\<not> m_ackSet (l4_of (demo_v6 20 2))"
  "getIpVersion (m_pL2Info (m_pL3Info (l4_of (demo_v6 20 2)))) = Inr 6"
  by (code_simp, code_simp, code_simp)

lemma demo_v6_data:
  "\<not> m_ackPacket (l4_of (demo_v6 100 0x18))" "\<not> m_synSet (l4_of (demo_v6 100 0x18))"
  "0 < m_L5Datalen (l4_of (demo_v6 100 0x18))"
  "length (m_pcapData (m_pL2Info (m_pL3Info (l4_of (demo_v6 100 0x18))))) <
     m_L5Data (l4_of (demo_v6 100 0x18)) + m_L5Datalen (l4_of (demo_v6 100 0x18))"
  "packet_id (l4_of (demo_v6 100 0x18)) = packet_id (l4_of (demo_v6 20 2))"
  by (code_simp, code_simp, code_simp, code_simp, code_simp)



subsection \<open>Witnesses\<close>

lemma demo_v4_run:
  "\<exists>k. run_packets demo_env [(demo_hdr 1000 40, demo_v4 2)] kf_init = Inr k \<and> active_addrs (kf_pool k) = [0]"
proof -
  have "case run_packets demo_env [(demo_hdr 1000 40, demo_v4 2)] kf_init of
      Inl _ \<Rightarrow> False | Inr k \<Rightarrow> active_addrs (kf_pool k) = [0]"
    by code_simp
  then show ?thesis by (simp split: sum.splits)
qed

theorem reachable_pool_consistent_witness:
  "\<exists>k. run_packets demo_env [(demo_hdr 1000 40, demo_v4 2)] kf_init = Inr k
     \<and> active_addrs (kf_pool k) = [0]
     \<and> dom (heap (kf_pool k)) = set (active_addrs (kf_pool k) @ m_closedSessList (kf_pool k))"
proof -
  obtain k where k: "run_packets demo_env [(demo_hdr 1000 40, demo_v4 2)] kf_init = Inr k"
    "active_addrs (kf_pool k) = [0]"
    using demo_v4_run by blast
  with reachable_pool_consistent [OF k(1)] show ?thesis by blast
qed

lemma pool_inv_kf_init: "pool_inv [] (kf_pool kf_init)"
  by (simp add: kf_init_def pool_inv_init)

theorem ipv4_frames_are_safe_witness:
  "case packetCallBack demo_env (demo_hdr 1000 40, demo_v4 2) kf_init of
     Inl f \<Rightarrow> f = OutOfRange | Inr k' \<Rightarrow> pool_inv [] (kf_pool k')"
proof (rule ipv4_frames_are_safe [OF pool_inv_kf_init])
  have "getIpVersion (mk_CL2Info (demo_hdr 1000 40) (demo_v4 2) 0 40 DLT_RAW) = Inr 4"
    by code_simp
  then show "\<forall>l2. decodeL2 (e_DLT demo_env) (demo_hdr 1000 40) (demo_v4 2) = Inr (Some l2) \<longrightarrow>
      getIpVersion l2 \<noteq> Inr 6"
    by (simp add: demo_env_def decodeL2_def decodeL2Raw_def demo_hdr_def DLT_RAW_def DLT_EN10MB_def
        DLT_IEEE802_def DLT_LINUX_SLL_def)
qed (simp_all add: demo_hdr_def demo_v4_def demo_tcp_def)

theorem syn_opens_session_witness:
  "\<exists>k' a s. processL5 demo_env (l4_of (demo_v4 2)) kf_init = Inr (0, k')
     \<and> findActiveSession (packet_id (l4_of (demo_v4 2))) (kf_pool k') = Some a
     \<and> heap (kf_pool k') a = Some s \<and> m_tcpState s = TCP_SM_HANDSHAKE
     \<and> m_start (getContinuousBuf DIRECTION_TO_SERVER s) = m_seqNum (l4_of (demo_v4 2)) + 1"
proof -
  have "findActiveSession (packet_id (l4_of (demo_v4 2))) (kf_pool kf_init) = None"
    by (simp add: kf_init_def pool_init_def findActiveSession_def)
  moreover have "m_synSet (l4_of (demo_v4 2))" "\<not> m_ackSet (l4_of (demo_v4 2))"
      "getIpVersion (m_pL2Info (m_pL3Info (l4_of (demo_v4 2)))) = Inr 4"
    by (code_simp, code_simp, code_simp)
  ultimately show ?thesis
    using syn_opens_session [of "l4_of (demo_v4 2)" kf_init 4 demo_env] by blast
qed

theorem stray_packet_dropped_witness:
  "processL5 demo_env (l4_of (demo_v4 0x12)) kf_init = Inr (- 1, kf_init)"
proof (rule stray_packet_dropped)
  show "findActiveSession (packet_id (l4_of (demo_v4 0x12))) (kf_pool kf_init) = None"
    by (simp add: kf_init_def pool_init_def findActiveSession_def)
  show "\<not> m_synSet (l4_of (demo_v4 0x12)) \<or> m_ackSet (l4_of (demo_v4 0x12))"
    by code_simp
qed

text \<open>A state with one open session, at address 0, of the pool of the previous theory.\<close>

definition demo_state :: "unit kf_state" where
  "demo_state = \<lparr>kf_pool = demo_pool, kf_sent = []\<rparr>"

definition demo_ack :: CL4Info where
  "demo_ack = (bare_packet [] demo_id 1 1 0x10)\<lparr>m_ackPacket := True\<rparr>"

definition demo_rst :: CL4Info where
  "demo_rst = bare_packet [0x45] demo_id 1 1 0x04"

lemma demo_packet_id: "packet_id demo_ack = demo_id" "packet_id demo_rst = demo_id"
  by (simp_all add: packet_id_def demo_ack_def demo_rst_def bare_packet_def demo_id_def mk_CTcpSessionId_def)

theorem ack_keeps_its_session_witness:
  "\<exists>k' s. processL5 demo_env demo_ack demo_state = Inr (0, k') \<and> kf_sent k' = []
     \<and> findActiveSession demo_id (kf_pool k') = Some 0
     \<and> heap (kf_pool k') 0 = Some s \<and> m_lastUpdateTime s = packet_time demo_ack"
  using ack_keeps_its_session [of "[]" demo_state demo_ack 0 demo_env] demo_pool_inv demo_find
  by (simp add: demo_packet_id demo_state_def) (simp add: demo_ack_def)

theorem closing_packet_posts_session_witness:
  "\<exists>k'. processL5 demo_env demo_rst demo_state = Inr (0, k')
     \<and> findActiveSession demo_id (kf_pool k') = None \<and> m_closedSessList (kf_pool k') = [0]"
proof -
  define s2 where "s2 = (setLastUpdateTime (packet_time demo_rst) demo_session)\<lparr>m_tcpState := TCP_SM_CLOSED\<rparr>"
  have up: "updateMe (e_http demo_env) (e_db demo_env) demo_rst
      (setLastUpdateTime (packet_time demo_rst) demo_session) = Inr s2"
    by (simp add: updateMe_def Let_def demo_rst_def bare_simps finishMe_dir_def plugin_id s2_def)
  have bl: "blockMe (e_db demo_env) (e_net demo_env) demo_rst s2 = Inr (s2, [])"
    by (simp add: blockMe_def Let_def demo_rst_def bare_simps getIpVersion_def ip_v_def rd8_def hdr_sizes
        demo_env_def isIpv4Hit_def CDBManager_init_def s2_def demo_session_def setLastUpdateTime_def
        mk_CTcpSession_def)
  have find: "findActiveSession (packet_id demo_rst) (kf_pool demo_state) = Some 0"
    by (simp add: demo_state_def demo_packet_id demo_find)
  have inv: "pool_inv [] (kf_pool demo_state)"
    and hp: "heap (kf_pool demo_state) 0 = Some demo_session" and na: "\<not> m_ackPacket demo_rst"
    and cl: "isClosed s2" and nil: "m_closedSessList (kf_pool demo_state) = []"
    using demo_pool_inv
    by (simp_all add: demo_state_def demo_pool_fields demo_rst_def bare_packet_def isClosed_def s2_def)
  show ?thesis
    using closing_packet_posts_session [OF inv find hp na up bl cl] unfolding nil demo_packet_id by auto
qed

end
