(* ===== verification/KF_Smtp.thy ===== *)
theory KF_Smtp
  imports KF_State KF_Log
begin

section \<open>CSmtpTxnDecoder\<close>

text \<open>
  After a mail connection has closed, the decoder cuts the mails out of both buffers, parses each
  with the VMime library (a parameter) and saves the cared attachments. All positions are
  \<^verbatim>\<open>size_t\<close>; the two loop bounds subtract a tag length from the length of the buffer and wrap
  when the buffer is shorter.
\<close>

subsection \<open>Cutting out the mails\<close>

definition startTag :: string where
  "startTag = [CHR 0x0D, CHR 0x0A, CHR ''D'', CHR ''A'', CHR ''T'', CHR ''A'', CHR 0x0D, CHR 0x0A]"

definition endTag :: string where
  "endTag = [CHR 0x0D, CHR 0x0A, CHR ''.'', CHR 0x0D, CHR 0x0A]"

text \<open>
  \<^verbatim>\<open>strncasecmp(begin + off, tag, strlen(tag)) == 0\<close>: the buffer ends in a NUL character, which
  no tag contains, so the comparison stops there; an offset past that NUL is outside the object.
\<close>

definition tag_at :: "string \<Rightarrow> nat \<Rightarrow> string \<Rightarrow> bool res" where
  "tag_at buf off tag =
     (if length buf < off then Inl OutOfBounds
      else Inr (map tolower (take (length tag) (drop off buf)) = map tolower tag))"

text \<open>The loop bound \<^verbatim>\<open>len - tagLen + 1\<close> in unsigned 64-bit arithmetic.\<close>

definition scan_bound :: "nat \<Rightarrow> nat \<Rightarrow> nat" where
  "scan_bound len tagLen = (if tagLen \<le> len + 1 then len + 1 - tagLen else 2 ^ 64 + len + 1 - tagLen)"

text \<open>The inner loop: whether the end tag was found, and the final offset.\<close>

function scan_end :: "string \<Rightarrow> nat \<Rightarrow> (bool \<times> nat) res" where
  "scan_end buf off2 =
     (if off2 < scan_bound (length buf) (length endTag) then
        rbind (tag_at buf off2 endTag) (\<lambda>found.
          if found then Inr (True, off2) else scan_end buf (off2 + 1))
      else Inr (False, off2))"
  by pat_completeness auto
termination
  by (relation "measure (\<lambda>(buf, off2). length buf + 1 - off2)")
     (auto simp: tag_at_def split: if_splits)

declare scan_end.simps [simp del]

lemma scan_end_ge: "scan_end buf off = Inr (f, off') \<Longrightarrow> off \<le> off'"
proof (induction buf off rule: scan_end.induct)
  case (1 buf off)
  show ?case
    using "1.prems" "1.IH"
    by (subst (asm) scan_end.simps) (fastforce split: if_splits simp: rbind_eq_Inr)
qed

lemma startTag_matchD:
  assumes "tag_at buf off startTag = Inr True"
  shows "off + 8 \<le> length buf" and "tolower (buf ! (off + 2)) = CHR ''d''"
proof -
  have len: "length startTag = 8"
    by (simp add: startTag_def)
  have eq: "map tolower (take 8 (drop off buf)) = map tolower startTag" and le: "off \<le> length buf"
    using assms by (auto simp only: tag_at_def len sum.inject split: if_splits)
  show off: "off + 8 \<le> length buf"
    using arg_cong [OF eq, of length] le len by simp
  have "map tolower (take 8 (drop off buf)) ! 2 = tolower (buf ! (off + 2))"
    using off by simp
  moreover have "map tolower startTag ! 2 = CHR ''d''"
    by code_simp
  ultimately show "tolower (buf ! (off + 2)) = CHR ''d''"
    using eq by simp
qed

lemma tags_exclude:
  assumes "tag_at buf off startTag = Inr True"
  shows "tag_at buf off endTag = Inr False"
proof -
  have len: "length endTag = 5"
    by (simp add: endTag_def)
  have "map tolower (take 5 (drop off buf)) ! 2 = CHR ''d''"
    using startTag_matchD [OF assms] by simp
  moreover have "map tolower endTag ! 2 = CHR ''.''"
    by code_simp
  ultimately have "map tolower (take 5 (drop off buf)) \<noteq> map tolower endTag"
    by auto
  then show ?thesis
    using startTag_matchD(1) [OF assms] by (simp add: tag_at_def len)
qed

lemma scan_end_progress:
  assumes "tag_at buf off startTag = Inr True" and "scan_end buf off = Inr (f, off')"
  shows "off < off'"
proof -
  have "off < scan_bound (length buf) (length endTag)"
    using startTag_matchD(1) [OF assms(1)] by (simp add: scan_bound_def endTag_def)
  then have "scan_end buf off = scan_end buf (off + 1)"
    using tags_exclude [OF assms(1)] by (subst scan_end.simps) simp
  with assms(2) show ?thesis
    using scan_end_ge [of buf "off + 1" f off'] by simp
qed

text \<open>
  The outer loop. \<open>off2 - off1 - startTagLen\<close> wraps when the end tag overlaps the start tag, and
  constructing a string of that length throws. The loop makes progress because no end tag stands
  where a start tag was found.
\<close>

function mail_loop :: "string \<Rightarrow> nat \<Rightarrow> string list \<Rightarrow> string list res" where
  "mail_loop buf off1 acc =
     (if off1 < scan_bound (length buf) (length startTag) then
        rbind (tag_at buf off1 startTag) (\<lambda>start.
          if start then
            rbind (scan_end buf off1) (\<lambda>r.
              if fst r then
                (if snd r < off1 + length startTag then Inl LengthError
                 else mail_loop buf (snd r)
                   (acc @ [take (snd r - off1 - length startTag) (drop (off1 + length startTag) buf)]))
              else mail_loop buf (snd r) acc)
          else mail_loop buf (off1 + 1) acc)
      else Inr acc)"
  by pat_completeness auto
termination
proof (relation "measure (\<lambda>(buf, off1, acc). length buf + 1 - off1)", goal_cases)
  case 1
  show ?case by simp
next
  case (2 buf off1 acc start r)
  then show ?case
    using scan_end_progress [of buf off1 "fst r" "snd r"] startTag_matchD(1) [of buf off1]
    by (cases r) auto
next
  case (3 buf off1 acc start r)
  then show ?case
    using scan_end_progress [of buf off1 "fst r" "snd r"] startTag_matchD(1) [of buf off1]
    by (cases r) auto
next
  case (4 buf off1 acc start)
  then show ?case by (simp add: tag_at_def split: if_splits)
qed

declare mail_loop.simps [simp del]

definition getMailDatas :: "string \<Rightarrow> CSmtpTxnDecoder \<Rightarrow> CSmtpTxnDecoder res" where
  "getMailDatas buf d =
     rbind (mail_loop buf 0 (m_mailDataVector d)) (\<lambda>v. Inr (d\<lparr>m_mailDataVector := v\<rparr>))"

subsection \<open>Parsing with VMime\<close>

text \<open>
  What the decoder asks of a parsed message. The parser returns the message or throws; a text part
  may or may not be an HTML part in the sense of the dynamic cast.
\<close>

record vmime_attachment =
  va_type :: string
  va_subtype :: string
  va_name :: string
  va_description :: string
  va_data :: string

record vmime_part =
  vp_type :: string
  vp_subtype :: string
  vp_is_html :: bool
  vp_text :: string
  vp_objects :: "string list"

record vmime_message =
  vm_expeditor :: string
  vm_recipients :: string
  vm_copy_recipients :: string
  vm_blind_copy_recipients :: string
  vm_subject :: string
  vm_date :: string
  vm_attachments :: "vmime_attachment list"
  vm_parts :: "vmime_part list"

record vmime_lib =
  messageParser :: "string \<Rightarrow> string + vmime_message"
  TEXT_HTML :: string
  TEXT_PLAIN :: string

definition mime_headers :: "vmime_message \<Rightarrow> string \<rightharpoonup> string" where
  "mime_headers msg =
     Map.empty(EXPEDITOR \<mapsto> vm_expeditor msg, RECIPIENTS \<mapsto> vm_recipients msg,
       COPY_RECIPIENTS \<mapsto> vm_copy_recipients msg,
       BLIND_COPY_RECIPIENTS \<mapsto> vm_blind_copy_recipients msg,
       SUBJECT \<mapsto> vm_subject msg, DATE \<mapsto> vm_date msg)"

definition mk_CAttachment :: "vmime_attachment \<Rightarrow> CAttachment" where
  "mk_CAttachment att =
     \<lparr>m_mainType = va_type att, m_subType = va_subtype att, m_name = va_name att,
      m_description = va_description att, m_content = va_data att\<rparr>"

definition add_text_part :: "vmime_lib \<Rightarrow> vmime_part \<Rightarrow> CMailText \<Rightarrow> CMailText res" where
  "add_text_part lib part t =
     (let t1 = t\<lparr>t_mainType := vp_type part, t_subType := vp_subtype part\<rparr> in
      if vp_subtype part = TEXT_HTML lib then
        (if vp_is_html part then
           Inr (t1\<lparr>t_content := vp_text part,
                   m_embeddedObjects := m_embeddedObjects t1 @ vp_objects part\<rparr>)
         else Inl (LibException ''std::bad_cast''))
      else if vp_subtype part = TEXT_PLAIN lib then Inr (t1\<lparr>t_content := vp_text part\<rparr>)
      else Inr t1)"

definition decode :: "vmime_lib \<Rightarrow> string \<Rightarrow> CSmtpTxnDecoder \<Rightarrow> CSmtpTxnDecoder res" where
  "decode lib data d =
     (case messageParser lib data of
        Inl e \<Rightarrow> Inl (LibException e)
      | Inr msg \<Rightarrow>
          (let mailInfo = mk_CMailInfo\<lparr>m_mimeMap := mime_headers msg,
                 m_attachments := map mk_CAttachment (vm_attachments msg)\<rparr> in
           rbind (rfold (add_text_part lib) (vm_parts msg) (m_text mailInfo)) (\<lambda>t.
           Inr (d\<lparr>m_mailInfoVector := m_mailInfoVector d @ [mailInfo\<lparr>m_text := t\<rparr>]\<rparr>))))"

definition decodeSmtp :: "vmime_lib \<Rightarrow> 'p CTcpSession \<Rightarrow> (bool \<times> 'p CTcpSession) res" where
  "decodeSmtp lib s =
     rbind (getMailDatas (getBuf (getContinuousBuf DIRECTION_TO_SERVER s)) (m_smtpDecoder s)) (\<lambda>d1.
     rbind (getMailDatas (getBuf (getContinuousBuf DIRECTION_TO_CLIENT s)) d1) (\<lambda>d2.
     rbind (rfold (decode lib) (m_mailDataVector d2) d2) (\<lambda>d3.
     Inr (True, upd_smtp (\<lambda>_. d3) s))))"

subsection \<open>Saving the attachments\<close>

definition attachment_file_name :: "'p CTcpSession \<Rightarrow> nat \<Rightarrow> nat \<Rightarrow> CAttachment \<Rightarrow> string" where
  "attachment_file_name s index j att =
     getIdStr (m_sessId s) @ ''_'' @ m_mainType att @ ''+'' @ m_subType att @ ''_'' @
     show_nat index @ show_nat j"

text \<open>As in the HTTP decoder, \<open>path\<close> grows from file to file.\<close>

primrec save_attachments ::
  "CConfig \<Rightarrow> 'p CTcpSession \<Rightarrow> (nat \<times> nat \<times> CAttachment) list \<Rightarrow> string \<Rightarrow> (string \<times> string) list" where
  "save_attachments cfg s [] path = []"
| "save_attachments cfg s (a # atts) path =
     (if \<not> attachment_cared cfg (snd (snd a)) then save_attachments cfg s atts path
      else
        (let path' = path @ ''/'' @ attachment_file_name s (fst a) (fst (snd a)) (snd (snd a)) in
         (path', m_content (snd (snd a))) # save_attachments cfg s atts path'))"

definition indexed_attachments :: "CMailInfo list \<Rightarrow> (nat \<times> nat \<times> CAttachment) list" where
  "indexed_attachments mails =
     concat (map (\<lambda>(index, mail). map (\<lambda>(j, att). (index, j, att))
         (zip [0..<length (m_attachments mail)] (m_attachments mail)))
       (zip [0..<length mails] mails))"

definition saveToFile_smtp ::
  "CConfig \<Rightarrow> fs_ops \<Rightarrow> nat \<Rightarrow> 'p CTcpSession \<Rightarrow> (string \<times> string) list" where
  "saveToFile_smtp cfg fs now s =
     (let path = m_rootPath cfg @ ''/'' @ ''files'' in
      if \<not> isFileSystemOk fs path then []
      else
        (let path' = path @ ''/'' @ show_nat (now div 60) in
         if \<not> makeDir fs path' then []
         else save_attachments cfg s (indexed_attachments (m_mailInfoVector (m_smtpDecoder s))) path'))"

subsection \<open>What the loops find\<close>

definition matches :: "string \<Rightarrow> nat \<Rightarrow> string \<Rightarrow> bool" where
  "matches buf i tag \<longleftrightarrow> map tolower (take (length tag) (drop i buf)) = map tolower tag"

lemma tag_at_matches: "i \<le> length buf \<Longrightarrow> tag_at buf i tag = Inr (matches buf i tag)"
  by (simp add: tag_at_def matches_def)

lemma tag_lengths [simp]: "length startTag = 8" "length endTag = 5"
  by (simp_all add: startTag_def endTag_def)

lemma matches_here: "matches (pre @ tag @ post) (length pre) tag"
  by (simp add: matches_def)

lemma matches_short: "length buf < i + length tag \<Longrightarrow> tag \<noteq> [] \<Longrightarrow> \<not> matches buf i tag"
  by (cases "length tag") (auto simp: matches_def dest!: arg_cong [where f = length])

text \<open>Both loops pass over positions without a tag.\<close>

lemma mail_loop_skip:
  assumes "i \<le> j" and "\<And>p. i \<le> p \<Longrightarrow> p < j \<Longrightarrow> \<not> matches buf p startTag"
    and "j \<le> scan_bound (length buf) 8" and "j \<le> length buf + 1"
  shows "mail_loop buf i acc = mail_loop buf j acc"
  using assms
proof (induction "j - i" arbitrary: i)
  case 0
  then show ?case by simp
next
  case (Suc n)
  have "i < j" using Suc.hyps(2) by simp
  then have "mail_loop buf i acc = mail_loop buf (i + 1) acc"
    using Suc.prems by (subst mail_loop.simps) (simp add: tag_at_matches)
  also have "\<dots> = mail_loop buf j acc"
    using Suc.prems Suc.hyps by (intro Suc.hyps(1)) auto
  finally show ?case .
qed

lemma scan_end_skip:
  assumes "i \<le> j" and "\<And>p. i \<le> p \<Longrightarrow> p < j \<Longrightarrow> \<not> matches buf p endTag"
    and "j \<le> scan_bound (length buf) 5" and "j \<le> length buf + 1"
  shows "scan_end buf i = scan_end buf j"
  using assms
proof (induction "j - i" arbitrary: i)
  case 0
  then show ?case by simp
next
  case (Suc n)
  have "i < j" using Suc.hyps(2) by simp
  then have "scan_end buf i = scan_end buf (i + 1)"
    using Suc.prems by (subst scan_end.simps) (simp add: tag_at_matches)
  also have "\<dots> = scan_end buf j"
    using Suc.prems Suc.hyps by (intro Suc.hyps(1)) auto
  finally show ?case .
qed

lemma scan_end_found:
  assumes "i \<le> j" and "\<And>p. i \<le> p \<Longrightarrow> p < j \<Longrightarrow> \<not> matches buf p endTag"
    and "matches buf j endTag" and "j + 5 \<le> length buf"
  shows "scan_end buf i = Inr (True, j)"
proof -
  have "scan_end buf i = scan_end buf j"
    using assms by (intro scan_end_skip) (auto simp: scan_bound_def)
  also have "\<dots> = Inr (True, j)"
    using assms(3,4) by (subst scan_end.simps) (simp add: tag_at_matches scan_bound_def)
  finally show ?thesis .
qed

lemma mail_loop_end:
  assumes "7 \<le> length buf" and "\<And>p. i \<le> p \<Longrightarrow> p < length buf \<Longrightarrow> \<not> matches buf p startTag"
  shows "mail_loop buf i acc = Inr acc"
proof (cases "i < length buf - 7")
  case True
  then have "mail_loop buf i acc = mail_loop buf (length buf - 7) acc"
    using assms by (intro mail_loop_skip) (auto simp: scan_bound_def)
  then show ?thesis
    using assms(1) by (simp add: mail_loop.simps [of buf "length buf - 7"] scan_bound_def)
next
  case False
  then show ?thesis
    using assms(1) by (subst mail_loop.simps) (simp add: scan_bound_def)
qed

text \<open>The loop at a start tag: reduced to the search for the end tag.\<close>

lemma mail_loop_at_start:
  assumes "matches buf i startTag" and "i + 8 \<le> length buf" and "scan_end buf i = Inr (True, j)"
  shows "mail_loop buf i acc =
     (if j < i + 8 then Inl LengthError else mail_loop buf j (acc @ [take (j - i - 8) (drop (i + 8) buf)]))"
proof -
  have "i < scan_bound (length buf) 8"
    using assms(2) by (simp add: scan_bound_def)
  then show ?thesis
    using assms by (subst mail_loop.simps) (simp add: tag_at_matches)
qed

lemma mail_loop_to_start:
  assumes "\<And>p. p < i \<Longrightarrow> \<not> matches buf p startTag" and "i + 8 \<le> length buf"
  shows "mail_loop buf 0 acc = mail_loop buf i acc"
  using assms by (intro mail_loop_skip) (auto simp: scan_bound_def)

subsection \<open>Properties\<close>

text \<open>
  C22. The mail of a dialogue is cut out exactly. When a buffer is commands, a DATA line, a body, the
  end-of-data line and more commands, with no other DATA line before or after the body and no
  earlier end-of-data line, then the decoder collects the body and nothing else, and terminates.
\<close>

theorem mail_is_cut_out:
  assumes "buf = pre @ startTag @ body @ endTag @ post"
    and "\<forall>p < length pre. \<not> matches buf p startTag"
    and "\<forall>p < 8 + length body. \<not> matches buf (length pre + p) endTag"
    and "\<forall>p < length buf. length pre + 8 + length body \<le> p \<longrightarrow> \<not> matches buf p startTag"
  shows "getMailDatas buf d = Inr (d\<lparr>m_mailDataVector := m_mailDataVector d @ [body]\<rparr>)"
proof -
  let ?i = "length pre" and ?j = "length pre + 8 + length body"
  have len: "length buf = ?j + 5 + length post"
    by (simp add: assms(1))
  have start: "matches buf ?i startTag"
    unfolding assms(1) by (rule matches_here)
  have stop: "matches buf ?j endTag"
    using matches_here [of "pre @ startTag @ body" endTag post] by (simp add: assms(1) add.assoc)
  have none: "\<not> matches buf p endTag" if "?i \<le> p" "p < ?j" for p
    using assms(3) [rule_format, of "p - ?i"] that by simp
  have "scan_end buf ?i = Inr (True, ?j)"
    using none stop len by (intro scan_end_found) auto
  then have "mail_loop buf ?i acc = mail_loop buf ?j (acc @ [take (?j - ?i - 8) (drop (?i + 8) buf)])" for acc
    using mail_loop_at_start [OF start] len by simp
  moreover have "take (?j - ?i - 8) (drop (?i + 8) buf) = body"
    by (simp add: assms(1))
  moreover have "mail_loop buf ?j acc = Inr acc" for acc
    using assms(4) len by (intro mail_loop_end) auto
  moreover have "mail_loop buf 0 acc = mail_loop buf ?i acc" for acc
    using assms(2) len by (intro mail_loop_to_start) auto
  ultimately show ?thesis
    by (simp add: getMailDatas_def)
qed

text \<open>
  A mail with an empty body ends the process: the end-of-data line then shares its first line
  break with the DATA line, the length of the body is computed as minus two, and the string
  constructor throws.
\<close>

theorem empty_mail_throws:
  assumes "buf = pre @ startTag @ [CHR ''.'', CHR 0x0D, CHR 0x0A] @ post"
    and "\<forall>p < length pre. \<not> matches buf p startTag"
    and "\<forall>p < 6. \<not> matches buf (length pre + p) endTag"
  shows "getMailDatas buf d = Inl LengthError"
proof -
  let ?i = "length pre"
  have len: "length buf = ?i + 11 + length post"
    by (simp add: assms(1))
  have start: "matches buf ?i startTag"
    unfolding assms(1) by (rule matches_here)
  have "buf = (pre @ take 6 startTag) @ endTag @ post"
    by (simp add: assms(1) startTag_def endTag_def)
  then have stop: "matches buf (?i + 6) endTag"
    using matches_here [of "pre @ take 6 startTag" endTag post] by simp
  have none: "\<not> matches buf p endTag" if "?i \<le> p" "p < ?i + 6" for p
    using assms(3) [rule_format, of "p - ?i"] that by simp
  have "scan_end buf ?i = Inr (True, ?i + 6)"
    using none stop len by (intro scan_end_found) auto
  then have "mail_loop buf ?i acc = Inl LengthError" for acc
    using mail_loop_at_start [OF start] len by simp
  moreover have "mail_loop buf 0 acc = mail_loop buf ?i acc" for acc
    using assms(2) len by (intro mail_loop_to_start) auto
  ultimately show ?thesis
    by (simp add: getMailDatas_def)
qed

text \<open>
  A buffer of fewer than seven bytes is read beyond its end: the loop bound is computed as a
  negative number in unsigned arithmetic. An SMTP connection on which one side sent nothing is
  enough.
\<close>

theorem short_buffer_reads_out_of_bounds:
  assumes "length buf < 7"
  shows "getMailDatas buf d = Inl OutOfBounds"
proof -
  have bound: "length buf + 1 < scan_bound (length buf) 8"
    using assms by (simp add: scan_bound_def)
  have none: "\<not> matches buf p startTag" for p
    using assms by (intro matches_short) (auto simp flip: length_greater_0_conv)
  have "mail_loop buf 0 acc = mail_loop buf (length buf + 1) acc" for acc
    using none bound by (intro mail_loop_skip) auto
  moreover have "mail_loop buf (length buf + 1) acc = Inl OutOfBounds" for acc
    using bound by (subst mail_loop.simps) (simp add: tag_at_def)
  ultimately show ?thesis
    by (simp add: getMailDatas_def)
qed

theorem mail_is_cut_out_witness:
  "getMailDatas (''MAIL'' @ startTag @ ''Hi Bob'' @ endTag @ ''QUIT'') mk_CSmtpTxnDecoder
     = Inr (mk_CSmtpTxnDecoder\<lparr>m_mailDataVector := [''Hi Bob'']\<rparr>)"
proof -
  let ?buf = "''MAIL'' @ startTag @ ''Hi Bob'' @ endTag @ ''QUIT''"
  have "\<forall>p \<in> set [0..<length ''MAIL'']. \<not> matches ?buf p startTag"
    "\<forall>p \<in> set [0..<8 + length ''Hi Bob'']. \<not> matches ?buf (length ''MAIL'' + p) endTag"
    "\<forall>p \<in> set [0..<length ?buf]. length ''MAIL'' + 8 + length ''Hi Bob'' \<le> p \<longrightarrow> \<not> matches ?buf p startTag"
    by (code_simp, code_simp, code_simp)
  then show ?thesis
    using mail_is_cut_out [OF refl, of "''MAIL''" "''Hi Bob''" "''QUIT''" mk_CSmtpTxnDecoder]
    by (simp only: set_upt atLeastLessThan_iff le0 simp_thms Ball_def)
       (simp add: mk_CSmtpTxnDecoder_def)
qed

theorem empty_mail_throws_witness:
  "getMailDatas (''MAIL'' @ startTag @ [CHR ''.'', CHR 0x0D, CHR 0x0A] @ ''QUIT'') mk_CSmtpTxnDecoder
     = Inl LengthError"
proof -
  let ?buf = "''MAIL'' @ startTag @ [CHR ''.'', CHR 0x0D, CHR 0x0A] @ ''QUIT''"
  have "\<forall>p \<in> set [0..<length ''MAIL'']. \<not> matches ?buf p startTag"
    "\<forall>p \<in> set [0..<6]. \<not> matches ?buf (length ''MAIL'' + p) endTag"
    by (code_simp, code_simp)
  then show ?thesis
    by (intro empty_mail_throws [OF refl]) (simp_all only: set_upt atLeastLessThan_iff le0 simp_thms Ball_def)
qed

theorem short_buffer_reads_out_of_bounds_witness:
  "getMailDatas ''QUIT'' mk_CSmtpTxnDecoder = Inl OutOfBounds"
  by (rule short_buffer_reads_out_of_bounds) simp

end
