(* ===== verification/KF_Safety.thy ===== *)
theory KF_Safety
  imports KF_Handler KF_Smtp
begin

section \<open>No use of freed or uninitialised memory\<close>

text \<open>
  For every operation that either thread runs: it uses no freed session and no parser that was not
  initialised. The rules are collected in \<open>safe_rules\<close>; where an operation needs a condition (a
  consistent pool, an initialised parser) its lemma has it as a premise.
\<close>

subsection \<open>The capture side\<close>

lemma safe_http_callback [safe_rules]: "safe (http_callback db ev s)"
  by (auto simp: http_callback_def requestUrlCb_def headerValueCb_def url_path_def Let_def
      intro!: safe_rules split: http_cb.split option.split)

lemma safe_callbacks [safe_rules]: "safe (rfold (http_callback db) evs s)"
  by (rule safe_rfold [where I = "\<lambda>_. True"]) (auto intro: safe_rules)

lemma safe_parserExecute:
  "m_parser (m_httpDecoder s) \<noteq> None \<Longrightarrow> safe (parserExecute lib db buf s)"
  by (auto simp: parserExecute_def split_beta intro!: safe_rules)

lemma safe_decodeHttp_type:
  assumes "m_parser (m_httpDecoder s) \<noteq> None"
  shows "safe (decodeHttp_type lib db type s)"
proof -
  have "safe (dumpUnusedData b)" for b
    by (auto simp: dumpUnusedData_def intro!: safe_rules)
  then show ?thesis
    using assms
    by (auto simp: decodeHttp_type_def decodeHttpActive_def decodeHttpInactive_def Let_def split_beta
        putContinuousBuf_def intro!: safe_rules safe_parserExecute)
qed

lemma safe_updateMe:
  assumes "m_protocol s = PROTOCOL_HTTP \<Longrightarrow> m_parser (m_httpDecoder s) \<noteq> None"
  shows "safe (updateMe lib db l4 s)"
proof -
  have ins: "safe (insertData q d b)" for q d b
    by (auto simp: insertData_def Let_def intro!: safe_rules)
  have save: "safe (savePayload l4 dir s)" for dir
    by (auto simp: savePayload_def intro!: safe_rules ins)
  have "safe (payloadReceived lib db dir (payload_switch dir s1))" if "savePayload l4 dir s = Inr s1" for dir s1
  proof -
    have "keeps s (payload_switch dir s1)"
      using savePayload_frame [OF that] by simp
    then show ?thesis
      using assms by (auto simp: payloadReceived_def keeps_def split_beta intro!: safe_rules safe_decodeHttp_type
          split: protocol.split)
  qed
  with save show ?thesis
    by (auto simp: updateMe_def Let_def intro!: safe_rules)
qed

lemma safe_getIpVersion [safe_rules]: "safe (getIpVersion l2)"
  by (auto simp: getIpVersion_def ip_v_def intro!: safe_rules)

lemma safe_blockMe: "safe (blockMe db net l4 s)"
  by (auto simp: blockMe_def Let_def intro!: safe_rules)

lemma safe_mpls_loop: "safe (mpls_loop packet cap n)"
proof (induction packet cap n rule: mpls_loop.induct)
  case (1 packet cap n)
  then show ?case by (subst mpls_loop.simps) (auto intro!: safe_rules)
qed

lemma safe_decodeL2: "safe (decodeL2 dlt header packet)"
  by (auto simp: decodeL2_def decodeL2En10Mb_def decodeL2LinuxSll_def decodeL2Raw_def decodeL2Null_def
      decodeL2Ppp_def hdr_defs Let_def intro!: safe_rules safe_mpls_loop split: option.split)

lemma safe_frame_l3: "safe (frame_l3 l2)"
  by (auto simp: frame_l3_def decodeL3Ip4_def decodeL3Ip6_def mk_CL3Info_def hdr_defs Let_def
      intro!: safe_rules)

lemma safe_decodeL4Tcp: "safe (decodeL4Tcp l3)"
  by (auto simp: decodeL4Tcp_def mk_CL4Info_def hdr_defs Let_def intro!: safe_rules)

lemma safe_frame_l4: "safe (frame_l4 dlt header packet)"
  by (auto simp: frame_l4_def intro!: safe_rules safe_decodeL2 safe_frame_l3 safe_decodeL4Tcp split: option.split)

lemma safe_processL5:
  assumes inv: "pool_inv held (kf_pool k)"
  shows "safe (processL5 e l4 k)"
proof (cases "findActiveSession (packet_id l4) (kf_pool k)")
  case None
  have "safe (processL5_new e l4 k)"
  proof (cases "m_synSet l4 \<and> \<not> m_ackSet l4")
    case True
    then show ?thesis
      by (auto simp: processL5_new_eq split_beta intro!: safe_rules safe_blockMe)
  qed (auto simp: processL5_new_def)
  with None show ?thesis by (simp add: processL5_def)
next
  case (Some a)
  obtain key s where key: "(key, a) \<in> set (m_activeSessMap (kf_pool k))" and s: "heap (kf_pool k) a = Some s"
    and sk: "m_sessId s = key" and sok: "session_ok s"
    using find_active [OF inv Some] by blast
  define s1 where "s1 = setLastUpdateTime (packet_time l4) s"
  have s1: "session_ok s1" "m_sessId s1 = key"
    using sok sk by (simp_all add: s1_def keeps_setLastUpdateTime)
  have "safe (postTimeoutSessions (packet_time l4) 60 (store a s1 (kf_pool k)))"
    using postTimeoutSessions_spec [OF pool_inv_store [OF inv key s1(2,1)], of "packet_time l4" 60] by force
  moreover have "safe (updateMe (e_http e) (e_db e) l4 s1)"
    by (rule safe_updateMe) (rule session_okD(3) [OF s1(1)])
  ultimately show ?thesis
    using Some unfolding processL5_def
    by (simp add: processL5_known_eq [OF s sok] s1_def [symmetric] Let_def)
       (auto simp: split_beta intro!: safe_rules safe_blockMe)
qed

lemma safe_packetCallBack:
  "pool_inv held (kf_pool k) \<Longrightarrow> safe (packetCallBack e hp k)"
  by (cases hp) (auto simp: packetCallBack_frame split_beta intro!: safe_rules safe_frame_l4 safe_processL5
      split: option.split)

subsection \<open>The decode side\<close>

lemma safe_scan_end: "safe (scan_end buf i)"
proof (induction buf i rule: scan_end.induct)
  case (1 buf i)
  have "safe (tag_at buf i endTag)" by (simp add: tag_at_def)
  with 1 show ?case by (subst scan_end.simps) (auto intro!: safe_rules)
qed

lemma safe_mail_loop: "safe (mail_loop buf i acc)"
proof (induction buf i acc rule: mail_loop.induct)
  case (1 buf i acc)
  have "safe (tag_at buf i startTag)" by (simp add: tag_at_def)
  with 1 show ?case by (subst mail_loop.simps) (auto intro!: safe_rules safe_scan_end)
qed

lemma safe_decode: "safe (decode lib data d)"
proof -
  have "safe (rfold (add_text_part lib) ps t)" for ps t
    by (rule safe_rfold [where I = "\<lambda>_. True"]) (auto simp: add_text_part_def Let_def)
  then show ?thesis
    by (auto simp: decode_def Let_def intro!: safe_rules split: sum.split)
qed

lemma safe_decodeSmtp: "safe (decodeSmtp lib s)"
proof -
  have "safe (rfold (decode lib) ds d)" for ds d
    by (rule safe_rfold [where I = "\<lambda>_. True"]) (auto intro: safe_decode)
  then show ?thesis
    by (auto simp: decodeSmtp_def getMailDatas_def intro!: safe_rules safe_mail_loop)
qed

lemma safe_saveToFile_http: "safe (saveToFile_http cfg fs now s)"
proof -
  have "safe (url_file_name u)" for u
    by (auto simp: url_file_name_def intro!: safe_rules split: option.split)
  then have "safe (save_responses cfg s i rrs path)" for i rrs path
    by (induction rrs arbitrary: i path) (auto simp: response_file_name_def Let_def intro!: safe_rules)
  then show ?thesis
    by (simp add: saveToFile_http_def Let_def)
qed

lemma safe_decodeHttp: "safe (decodeHttp lib db s)"
  by (auto simp: decodeHttp_def parserInit_def split_beta intro!: safe_rules safe_decodeHttp_type)

end
