(* ===== verification/KF_Threads.thy ===== *)
theory KF_Threads
  imports KF_Safety
begin

section \<open>The threads: CMain, CPacketCaptureThread, CTxnDecodeThread\<close>

text \<open>
  The main thread starts the decoder and the capture thread, waits for the capture to end and stops
  the decoder. The three run interleaved; the system is a step relation. The capture thread alone
  touches the active sessions, both threads touch the closed list under its lock, and the decode
  thread alone touches a session it has popped. So one packet callback, one pop, and the decoding of
  one session are taken as steps. Thread creation is assumed to succeed.
\<close>

subsection \<open>Decoding one session\<close>

text \<open>The body of the inner loop of the decode thread up to the \<^verbatim>\<open>delete\<close>: the files written.\<close>

definition decode_session ::
  "'p kf_env \<Rightarrow> vmime_lib \<Rightarrow> fs_ops \<Rightarrow> nat \<Rightarrow> 'p CTcpSession \<Rightarrow> (string \<times> string) list res" where
  "decode_session e vm fs now s =
     (let s1 = setActiveFlg False s in
      case m_protocol s1 of
        PROTOCOL_HTTP \<Rightarrow>
          (if m_activeMethod (m_httpDecoder s1) \<notin> m_caredHttpMethods (e_config e) then Inr []
           else
             rbind (decodeHttp (e_http e) (e_db e) s1) (\<lambda>(_, s2).
             saveToFile_http (e_config e) fs now s2))
      | PROTOCOL_SMTP \<Rightarrow>
          rbind (decodeSmtp vm s1) (\<lambda>(_, s2).
          Inr (saveToFile_smtp (e_config e) fs now s2))
      | PROTOCOL_UNKNOWN \<Rightarrow> Inr [])"

subsection \<open>Setting up the capture\<close>

text \<open>
  libpcap is a parameter: opening, the link type, compiling and installing a filter, and the packets
  that a loop of the given count delivers.
\<close>

type_synonym packets = "(pcap_pkthdr \<times> u8 list) list"

record ('h, 'f) pcap_lib =
  pcap_open_offline :: "string \<Rightarrow> 'h option"
  pcap_lookupnet :: "string \<Rightarrow> (u32 \<times> u32) option"
  pcap_open_live :: "string \<Rightarrow> int \<Rightarrow> int \<Rightarrow> int \<Rightarrow> 'h option"
  pcap_datalink :: "'h \<Rightarrow> int"
  pcap_compile :: "'h \<Rightarrow> string \<Rightarrow> u32 \<Rightarrow> 'f option"
  pcap_setfilter :: "'h \<Rightarrow> 'f \<Rightarrow> bool"
  pcap_loop :: "'h \<Rightarrow> 'f \<Rightarrow> int \<Rightarrow> packets"

definition SNAP_LEN :: int where "SNAP_LEN = 1518"

text \<open>\<open>None\<close> is \<^verbatim>\<open>exit(EXIT_FAILURE)\<close>; otherwise the link type and the packets to process.\<close>

definition capture_main :: "CConfig \<Rightarrow> ('h, 'f) pcap_lib \<Rightarrow> (int \<times> packets) option" where
  "capture_main config pcap =
     (let opened =
        (if m_mode config = ''offline'' then
           map_option (\<lambda>h. (h, 0)) (pcap_open_offline pcap (m_offlineFile config))
         else if m_mode config = ''online'' then
           (let net = (case pcap_lookupnet pcap (m_dev config) of None \<Rightarrow> 0 | Some (n, netmask) \<Rightarrow> n)
            in map_option (\<lambda>h. (h, net))
                 (pcap_open_live pcap (m_dev config) SNAP_LEN 1 (m_pcapTimeout config)))
         else None)
      in case opened of
           None \<Rightarrow> None
         | Some (handle, net) \<Rightarrow>
             (let DLT = pcap_datalink pcap handle;
                  filter_exp = (if 0 < length (m_filter config) then m_filter config else ''tcp'')
              in case pcap_compile pcap handle filter_exp net of
                   None \<Rightarrow> None
                 | Some fp \<Rightarrow>
                     (if \<not> pcap_setfilter pcap handle fp then None
                      else Some (DLT, pcap_loop pcap handle fp (m_packetNum config)))))"

subsection \<open>The system\<close>

datatype main_pc =
    Main_start_decoder
  | Main_decoder_created
  | Main_start_capture
  | Main_join_capture
  | Main_stop_decoder
  | Main_join_decoder
  | Main_return

datatype dec_pc = Dec_absent | Dec_test | Dec_pop | Dec_work addr | Dec_out

datatype cap_pc = Cap_absent | Cap_loop packets | Cap_out

record 'p sys =
  sys_kf :: "'p kf_state"
  sys_files :: "(string \<times> string) list"
  sys_running :: bool
  sys_main :: main_pc
  sys_dec :: dec_pc
  sys_cap :: cap_pc

definition sys_init :: "'p sys" where
  "sys_init = \<lparr>sys_kf = kf_init, sys_files = [], sys_running = False, sys_main = Main_start_decoder,
     sys_dec = Dec_absent, sys_cap = Cap_absent\<rparr>"

text \<open>
  The main thread. \<^verbatim>\<open>CTxnDecodeThread::start\<close> creates the thread first and sets
  \<^verbatim>\<open>m_isRunning\<close> afterwards: two steps. A join waits, that is, has no step until the thread is out.
\<close>

definition main_step :: "packets \<Rightarrow> 'p sys \<Rightarrow> 'p sys option" where
  "main_step pkts g =
     (case sys_main g of
        Main_start_decoder \<Rightarrow>
          Some (if sys_running g then g\<lparr>sys_main := Main_start_capture\<rparr>
                else g\<lparr>sys_main := Main_decoder_created, sys_dec := Dec_test\<rparr>)
      | Main_decoder_created \<Rightarrow> Some (g\<lparr>sys_running := True, sys_main := Main_start_capture\<rparr>)
      | Main_start_capture \<Rightarrow> Some (g\<lparr>sys_cap := Cap_loop pkts, sys_main := Main_join_capture\<rparr>)
      | Main_join_capture \<Rightarrow>
          (if sys_cap g = Cap_out then Some (g\<lparr>sys_main := Main_stop_decoder\<rparr>) else None)
      | Main_stop_decoder \<Rightarrow> Some (g\<lparr>sys_running := False, sys_main := Main_join_decoder\<rparr>)
      | Main_join_decoder \<Rightarrow>
          (if sys_dec g = Dec_out then Some (g\<lparr>sys_main := Main_return\<rparr>) else None)
      | Main_return \<Rightarrow> None)"

definition upd_pool :: "'p pool \<Rightarrow> 'p sys \<Rightarrow> 'p sys" where
  "upd_pool p g = g\<lparr>sys_kf := (sys_kf g)\<lparr>kf_pool := p\<rparr>\<rparr>"

definition dec_step :: "'p kf_env \<Rightarrow> vmime_lib \<Rightarrow> fs_ops \<Rightarrow> nat \<Rightarrow> 'p sys \<Rightarrow> 'p sys res option" where
  "dec_step e vm fs now g =
     (case sys_dec g of
        Dec_absent \<Rightarrow> None
      | Dec_test \<Rightarrow> Some (Inr (g\<lparr>sys_dec := (if sys_running g then Dec_pop else Dec_out)\<rparr>))
      | Dec_pop \<Rightarrow>
          (let (r, p) = popClosedSession (kf_pool (sys_kf g)) in
           Some (Inr ((upd_pool p g)\<lparr>sys_dec := (case r of None \<Rightarrow> Dec_test | Some a \<Rightarrow> Dec_work a)\<rparr>)))
      | Dec_work a \<Rightarrow>
          Some (rbind (deref a (kf_pool (sys_kf g))) (\<lambda>s.
                rbind (decode_session e vm fs now s) (\<lambda>files.
                rbind (free a (kf_pool (sys_kf g))) (\<lambda>p.
                Inr ((upd_pool p g)\<lparr>sys_files := sys_files g @ files, sys_dec := Dec_pop\<rparr>)))))
      | Dec_out \<Rightarrow> None)"

definition cap_step :: "'p kf_env \<Rightarrow> 'p sys \<Rightarrow> 'p sys res option" where
  "cap_step e g =
     (case sys_cap g of
        Cap_absent \<Rightarrow> None
      | Cap_loop [] \<Rightarrow> Some (Inr (g\<lparr>sys_cap := Cap_out\<rparr>))
      | Cap_loop (pk # pks) \<Rightarrow>
          Some (rbind (packetCallBack e pk (sys_kf g)) (\<lambda>k.
                Inr (g\<lparr>sys_kf := k, sys_cap := Cap_loop pks\<rparr>)))
      | Cap_out \<Rightarrow> None)"

text \<open>A step of the system is a step of one thread; the clock of the decode thread is arbitrary.\<close>

inductive sys_step ::
  "'p kf_env \<Rightarrow> vmime_lib \<Rightarrow> fs_ops \<Rightarrow> packets \<Rightarrow> 'p sys \<Rightarrow> 'p sys res \<Rightarrow> bool"
  for e vm fs pkts where
  main: "main_step pkts g = Some g' \<Longrightarrow> sys_step e vm fs pkts g (Inr g')"
| dec: "dec_step e vm fs now g = Some r \<Longrightarrow> sys_step e vm fs pkts g r"
| cap: "cap_step e g = Some r \<Longrightarrow> sys_step e vm fs pkts g r"

inductive_cases sys_stepE: "sys_step e vm fs pkts g r"

text \<open>The states that a system with crashes can be in before it crashes.\<close>

inductive reach_from :: "'s \<Rightarrow> ('s \<Rightarrow> 'f + 's \<Rightarrow> bool) \<Rightarrow> 's \<Rightarrow> bool"
  for start stp where
  init: "reach_from start stp start"
| step: "reach_from start stp g \<Longrightarrow> stp g (Inr g') \<Longrightarrow> reach_from start stp g'"

abbreviation reach :: "'p kf_env \<Rightarrow> vmime_lib \<Rightarrow> fs_ops \<Rightarrow> packets \<Rightarrow> 'p sys \<Rightarrow> bool" where
  "reach e vm fs pkts \<equiv> reach_from sys_init (sys_step e vm fs pkts)"

text \<open>Running a given schedule, for examples.\<close>

datatype turn = Turn_main | Turn_dec | Turn_cap

definition take_turn :: "'p kf_env \<Rightarrow> vmime_lib \<Rightarrow> fs_ops \<Rightarrow> packets \<Rightarrow> turn \<Rightarrow> 'p sys \<Rightarrow> 'p sys option" where
  "take_turn e vm fs pkts t g =
     (case t of
        Turn_main \<Rightarrow> main_step pkts g
      | Turn_dec \<Rightarrow> (case dec_step e vm fs 0 g of Some (Inr g') \<Rightarrow> Some g' | _ \<Rightarrow> None)
      | Turn_cap \<Rightarrow> (case cap_step e g of Some (Inr g') \<Rightarrow> Some g' | _ \<Rightarrow> None))"

primrec run_schedule :: "'p kf_env \<Rightarrow> vmime_lib \<Rightarrow> fs_ops \<Rightarrow> packets \<Rightarrow> turn list \<Rightarrow> 'p sys \<Rightarrow> 'p sys option" where
  "run_schedule e vm fs pkts [] g = Some g"
| "run_schedule e vm fs pkts (t # ts) g =
     (case take_turn e vm fs pkts t g of None \<Rightarrow> None | Some g' \<Rightarrow> run_schedule e vm fs pkts ts g')"

subsection \<open>Systems with crashes\<close>

text \<open>
  An interface for reasoning about a step relation whose steps may crash: an invariant that holds
  initially and is kept by every step, and faults that no step from a state with the invariant has.
\<close>

locale crash_system =
  fixes start :: 's
    and stp :: "'s \<Rightarrow> 'f + 's \<Rightarrow> bool"
    and inv :: "'s \<Rightarrow> bool"
    and excluded :: "'f \<Rightarrow> bool"
  assumes inv_start: "inv start"
    and inv_step: "inv g \<Longrightarrow> stp g (Inr g') \<Longrightarrow> inv g'"
    and no_excluded: "inv g \<Longrightarrow> stp g (Inl f) \<Longrightarrow> \<not> excluded f"
begin

lemma reach_inv: "reach_from start stp g \<Longrightarrow> inv g"
  by (induction rule: reach_from.induct) (auto intro: inv_start inv_step)

lemma never_crashes: "reach_from start stp g \<Longrightarrow> stp g r \<Longrightarrow> excluded f \<Longrightarrow> r \<noteq> Inl f"
  using reach_inv no_excluded by blast

end

subsection \<open>Ownership\<close>

text \<open>The session that the decode thread is working on.\<close>

definition held :: "'p sys \<Rightarrow> addr list" where
  "held g = (case sys_dec g of Dec_work a \<Rightarrow> [a] | _ \<Rightarrow> [])"

definition sys_inv :: "'p sys \<Rightarrow> bool" where
  "sys_inv g \<longleftrightarrow> pool_inv (held g) (kf_pool (sys_kf g))"

definition memory_fault :: "fault \<Rightarrow> bool" where
  "memory_fault f \<longleftrightarrow> f = UseAfterFree \<or> f = Uninitialised"

lemma safe_iff: "safe m \<longleftrightarrow> (\<forall>f. m = Inl f \<longrightarrow> \<not> memory_fault f)"
  by (auto simp: safe_def memory_fault_def)

lemma safe_decode_session: "safe (decode_session e vm fs now s)"
  by (auto simp: decode_session_def Let_def split_beta intro!: safe_rules safe_decodeHttp safe_decodeSmtp
      safe_saveToFile_http split: protocol.split)

lemma main_step_inv:
  assumes "sys_inv g" and "main_step pkts g = Some g'"
    and "sys_main g = Main_start_decoder \<Longrightarrow> sys_dec g = Dec_absent"
  shows "sys_inv g'"
  using assms by (auto simp: main_step_def sys_inv_def held_def split: main_pc.splits if_splits)

lemma dec_step_inv:
  assumes "sys_inv g" and "dec_step e vm fs now g = Some (Inr g')"
  shows "sys_inv g'"
proof (cases "sys_dec g")
  case (Dec_work a)
  then have inv: "pool_inv (a # []) (kf_pool (sys_kf g))"
    using assms(1) by (simp add: sys_inv_def held_def)
  obtain p where "free a (kf_pool (sys_kf g)) = Inr p" "pool_inv [] p"
    using free_inv [OF inv] by blast
  with assms(2) Dec_work show ?thesis
    by (auto simp: dec_step_def rbind_eq_Inr sys_inv_def held_def upd_pool_def)
next
  case Dec_pop
  then have inv: "pool_inv [] (kf_pool (sys_kf g))"
    using assms(1) by (simp add: sys_inv_def held_def)
  show ?thesis
  proof (cases "popClosedSession (kf_pool (sys_kf g))")
    case (Pair r p)
    then have "pool_inv (case r of None \<Rightarrow> [] | Some a \<Rightarrow> [a]) p"
      using popClosedSession_inv [OF inv] inv
      by (auto simp: popClosedSession_def split: option.splits list.splits)
    with assms(2) Dec_pop Pair show ?thesis
      by (auto simp: dec_step_def sys_inv_def held_def upd_pool_def split: option.splits)
  qed
qed (use assms in \<open>auto simp: dec_step_def sys_inv_def held_def\<close>)

lemma cap_step_inv:
  assumes "sys_inv g" and "cap_step e g = Some (Inr g')"
  shows "sys_inv g'"
  using assms
  by (auto simp: cap_step_def sys_inv_def held_def rbind_eq_Inr split: cap_pc.splits list.splits
      intro: packetCallBack_inv)

lemma dec_step_safe:
  assumes "sys_inv g" and "dec_step e vm fs now g = Some r"
  shows "safe r"
proof (cases "sys_dec g")
  case (Dec_work a)
  then have inv: "pool_inv (a # []) (kf_pool (sys_kf g))"
    using assms(1) by (simp add: sys_inv_def held_def)
  have "safe (free a (kf_pool (sys_kf g)))"
    using free_inv [OF inv] by auto
  moreover have "safe (deref a (kf_pool (sys_kf g)))"
    using pool_invD(3) [OF inv] by (auto simp: deref_def split: option.split)
  ultimately show ?thesis
    using assms(2) Dec_work by (auto simp: dec_step_def intro!: safe_rules safe_decode_session)
qed (use assms(2) in \<open>auto simp: dec_step_def split_beta\<close>)

lemma cap_step_safe:
  assumes "sys_inv g" and "cap_step e g = Some r"
  shows "safe r"
  using assms safe_packetCallBack [of "held g" "sys_kf g" e]
  by (auto simp: cap_step_def sys_inv_def split: cap_pc.splits list.splits intro!: safe_rules)

text \<open>The decode thread exists from the moment the main thread has created it.\<close>

definition started_inv :: "'p sys \<Rightarrow> bool" where
  "started_inv g \<longleftrightarrow> (sys_main g = Main_start_decoder \<longrightarrow> sys_dec g = Dec_absent) \<and> sys_inv g"

lemma started_inv_step:
  assumes "started_inv g" and "sys_step e vm fs pkts g (Inr g')"
  shows "started_inv g'"
proof -
  have "sys_inv g'"
    using assms main_step_inv dec_step_inv cap_step_inv
    by (auto simp: started_inv_def elim!: sys_stepE) blast+
  moreover have "sys_main g' = Main_start_decoder \<longrightarrow> sys_dec g' = Dec_absent"
    using assms
    by (auto simp: started_inv_def main_step_def dec_step_def cap_step_def rbind_eq_Inr upd_pool_def
        split_beta elim!: sys_stepE split: main_pc.splits dec_pc.splits cap_pc.splits list.splits if_splits)
  ultimately show ?thesis by (simp add: started_inv_def)
qed

interpretation kf: crash_system sys_init "sys_step e vm fs pkts" started_inv memory_fault
  for e :: "'p kf_env" and vm fs pkts
proof unfold_locales
  show "started_inv (sys_init :: 'p sys)"
    by (simp add: started_inv_def sys_inv_def sys_init_def held_def kf_init_def pool_inv_init)
  show "started_inv g'" if "started_inv g" "sys_step e vm fs pkts g (Inr g')" for g g'
    using that by (rule started_inv_step)
  show "\<not> memory_fault f" if "started_inv g" "sys_step e vm fs pkts g (Inl f)" for g f
    using that
    by (auto simp: started_inv_def safe_iff elim!: sys_stepE dest: dec_step_safe cap_step_safe)
qed

subsection \<open>Schedules\<close>

lemma take_turn_step: "take_turn e vm fs pkts t g = Some g' \<Longrightarrow> sys_step e vm fs pkts g (Inr g')"
  by (auto simp: take_turn_def split: turn.splits option.splits sum.splits intro: sys_step.intros)

lemma run_schedule_reach:
  "reach e vm fs pkts g \<Longrightarrow> run_schedule e vm fs pkts ts g = Some g' \<Longrightarrow> reach e vm fs pkts g'"
  by (induction ts arbitrary: g)
     (auto split: option.splits intro: reach_from.step dest: take_turn_step)

subsection \<open>Properties\<close>


text \<open>A mail library and a file system for the examples.\<close>

definition demo_vm :: vmime_lib where
  "demo_vm = \<lparr>messageParser = (\<lambda>_. Inl ''parse''), TEXT_HTML = ''html'', TEXT_PLAIN = ''plain''\<rparr>"

definition demo_fs :: fs_ops where
  "demo_fs = \<lparr>access_ok = (\<lambda>_. True), access_enoent = (\<lambda>_. False), mkdir_ok = (\<lambda>_. False),
     statfs = (\<lambda>_. Some (100000, 4096))\<rparr>"

text \<open>A connection that is opened and reset.\<close>

definition demo_syn :: "pcap_pkthdr \<times> u8 list" where
  "demo_syn = (demo_hdr 1000 40, demo_v4 0x02)"

definition demo_reset :: "pcap_pkthdr \<times> u8 list" where
  "demo_reset = (demo_hdr 1001 40, demo_v4 0x04)"

lemma demo_capture:
  obtains k1 k2 where "packetCallBack demo_env demo_syn kf_init = Inr k1"
    and "packetCallBack demo_env demo_reset k1 = Inr k2"
    and "active_addrs (kf_pool k2) = []" and "m_closedSessList (kf_pool k2) = [0]"
proof -
  have "case run_packets demo_env [demo_syn, demo_reset] kf_init of Inl _ \<Rightarrow> False
      | Inr k \<Rightarrow> active_addrs (kf_pool k) = [] \<and> m_closedSessList (kf_pool k) = [0]"
    by code_simp
  then obtain k where k: "run_packets demo_env [demo_syn, demo_reset] kf_init = Inr k"
      "active_addrs (kf_pool k) = []" "m_closedSessList (kf_pool k) = [0]"
    by (cases "run_packets demo_env [demo_syn, demo_reset] kf_init") simp_all
  then show thesis
    using that by (auto simp: run_packets_def rbind_eq_Inr)
qed

lemmas turn_simps = take_turn_def main_step_def dec_step_def cap_step_def sys_init_def
  popClosedSession_def upd_pool_def



text \<open>
  What the capture runs with. If the capture thread gets as far as its loop, the mode was one of
  the two known ones, the packets come from a handle opened for that mode, and they passed the
  configured filter, or the filter for all TCP when none is configured; in every other case the
  process exits.
\<close>

theorem capture_applies_filter:
  assumes "capture_main config pcap = Some (dlt, pkts)"
  shows "(m_mode config = ''offline'' \<or> m_mode config = ''online'') \<and>
     (\<exists>h fp net. dlt = pcap_datalink pcap h \<and>
        (m_mode config = ''offline'' \<longrightarrow> pcap_open_offline pcap (m_offlineFile config) = Some h) \<and>
        (m_mode config = ''online'' \<longrightarrow>
           pcap_open_live pcap (m_dev config) 1518 1 (m_pcapTimeout config) = Some h) \<and>
        pcap_compile pcap h (if m_filter config = [] then ''tcp'' else m_filter config) net = Some fp \<and>
        pcap_setfilter pcap h fp \<and> pkts = pcap_loop pcap h fp (m_packetNum config))"
  using assms
  by (auto simp: capture_main_def Let_def SNAP_LEN_def split: if_splits option.splits prod.splits)

theorem capture_applies_filter_witness:
  "\<exists>h :: nat. \<exists>fp :: string. \<exists>net. fp = ''tcp'' \<and>
     pcap_compile \<lparr>pcap_open_offline = (\<lambda>_. None), pcap_lookupnet = (\<lambda>_. None),
        pcap_open_live = (\<lambda>_ _ _ _. Some 3), pcap_datalink = (\<lambda>_. 1), pcap_compile = (\<lambda>_ f _. Some f),
        pcap_setfilter = (\<lambda>_ _. True), pcap_loop = (\<lambda>_ _ _. [demo_syn])\<rparr> h ''tcp'' net = Some fp"
proof -
  define pcap :: "(nat, string) pcap_lib" where
    "pcap = \<lparr>pcap_open_offline = (\<lambda>_. None), pcap_lookupnet = (\<lambda>_. None),
        pcap_open_live = (\<lambda>_ _ _ _. Some 3), pcap_datalink = (\<lambda>_. 1), pcap_compile = (\<lambda>_ f _. Some f),
        pcap_setfilter = (\<lambda>_ _. True), pcap_loop = (\<lambda>_ _ _. [demo_syn])\<rparr>"
  have "capture_main setDefault pcap = Some (1, [demo_syn])"
    by (simp add: capture_main_def setDefault_def pcap_def Let_def)
  from capture_applies_filter [OF this] show ?thesis
    unfolding pcap_def by (auto simp: setDefault_def)
qed

end
