(* ===== verification/HP_Exec.thy ===== *)
theory HP_Exec
  imports HP_Types
begin

section \<open>The HTTP parser: the byte loop\<close>

text \<open>
  \<^verbatim>\<open>http_parser_execute\<close> of \<^verbatim>\<open>http_parser.c\<close>. The local variables of the C function are a
  record; each case of its \<^verbatim>\<open>switch\<close> is a definition that says how the case is left: by
  \<^verbatim>\<open>break\<close>, by \<^verbatim>\<open>goto reexecute_byte\<close>, by \<^verbatim>\<open>goto error\<close> or by \<^verbatim>\<open>return\<close>. An
  \<^verbatim>\<open>assert\<close> that does not hold, and a read beyond the end of a string, are faults.
\<close>

unbundle bit_operations_syntax

datatype hp_fault = Assert_failed | String_overrun | Data_overrun

subsection \<open>Local variables and outcomes\<close>

text \<open>
  \<open>pos\<close> is \<^verbatim>\<open>p - data\<close>; a mark is an offset into the data, or \<^verbatim>\<open>NULL\<close>.
\<close>

datatype mark = M_header_field | M_header_value | M_url | M_body

record 'd hp_run =
  parser :: "'d http_parser"
  pos :: nat
  marks :: "mark \<Rightarrow> nat option"

datatype 'd hp_next =
    Break "'d hp_run"
  | Reexecute "'d hp_run"
  | Goto_error "'d hp_run"
  | Return nat "'d http_parser"

type_synonym 'd hp_result = "hp_fault + 'd hp_next"

definition upd :: "('d http_parser \<Rightarrow> 'd http_parser) \<Rightarrow> 'd hp_run \<Rightarrow> 'd hp_run" where
  "upd f r = r\<lparr>parser := f (parser r)\<rparr>"

definition goto_state :: "state \<Rightarrow> 'd hp_run \<Rightarrow> 'd hp_run" where
  "goto_state s = upd (hp_state_update (\<lambda>_. s))"

definition SET_ERRNO :: "http_errno \<Rightarrow> 'd http_parser \<Rightarrow> 'd http_parser" where
  "SET_ERRNO e q = q\<lparr>http_errno := e\<rparr>"

definition fail :: "http_errno \<Rightarrow> 'd hp_run \<Rightarrow> 'd hp_result" where
  "fail e r = Inr (Goto_error (upd (SET_ERRNO e) r))"

definition assert :: "bool \<Rightarrow> 'd hp_result \<Rightarrow> 'd hp_result" where
  "assert b k = (if b then k else Inl Assert_failed)"

definition STRICT_CHECK :: "bool \<Rightarrow> 'd hp_run \<Rightarrow> 'd hp_result \<Rightarrow> 'd hp_result" where
  "STRICT_CHECK cond r k = (if cond then fail HPE_STRICT r else k)"

subsection \<open>Callbacks\<close>

definition http_parser_pause :: "bool \<Rightarrow> 'd http_parser \<Rightarrow> hp_fault + 'd http_parser" where
  "http_parser_pause paused q =
     (if http_errno q = HPE_OK \<or> http_errno q = HPE_PAUSED
      then Inr (SET_ERRNO (if paused then HPE_PAUSED else HPE_OK) q)
      else Inl Assert_failed)"

text \<open>
  What a callback has done to the parser when it is back: it is only called when there is no error, so
  that its call of \<^verbatim>\<open>http_parser_pause\<close> succeeds.
\<close>

definition called :: "http_errno \<Rightarrow> int \<times> bool \<times> 'd \<Rightarrow> 'd http_parser \<Rightarrow> 'd http_parser" where
  "called e res q =
     (case res of (rv, paused, d) \<Rightarrow>
        let q1 = q\<lparr>hp_data := d\<rparr>;
            q2 = (if paused then SET_ERRNO HPE_PAUSED q1 else q1)
        in if rv \<noteq> 0 then SET_ERRNO e q2 else q2)"

definition CALLBACK_NOTIFY ::
  "'d http_cb option \<Rightarrow> http_errno \<Rightarrow> nat \<Rightarrow> 'd hp_run \<Rightarrow> ('d hp_run \<Rightarrow> 'd hp_result) \<Rightarrow> 'd hp_result" where
  "CALLBACK_NOTIFY cb e ret r k =
     assert (http_errno (parser r) = HPE_OK)
       (case cb of
          None \<Rightarrow> k r
        | Some f \<Rightarrow>
            let r' = upd (\<lambda>q. called e (f q) q) r
            in if http_errno (parser r') \<noteq> HPE_OK then Inr (Return ret (parser r')) else k r')"

primrec data_cb :: "'d http_parser_settings \<Rightarrow> mark \<Rightarrow> 'd http_data_cb option" where
  "data_cb st M_header_field = on_header_field st"
| "data_cb st M_header_value = on_header_value st"
| "data_cb st M_url = on_url st"
| "data_cb st M_body = on_body st"

primrec data_errno :: "mark \<Rightarrow> http_errno" where
  "data_errno M_header_field = HPE_CB_header_field"
| "data_errno M_header_value = HPE_CB_header_value"
| "data_errno M_url = HPE_CB_url"
| "data_errno M_body = HPE_CB_body"

text \<open>\<open>til\<close> is the end of the reported bytes, \<^verbatim>\<open>mark + LEN\<close>; \<open>ret\<close> is returned on failure.\<close>

definition CALLBACK_DATA_ends ::
  "'d http_parser_settings \<Rightarrow> string \<Rightarrow> mark \<Rightarrow> nat \<Rightarrow> nat \<Rightarrow> 'd hp_run \<Rightarrow> ('d hp_run \<Rightarrow> 'd hp_result) \<Rightarrow> 'd hp_result" where
  "CALLBACK_DATA_ends st data m til ret r k =
     assert (http_errno (parser r) = HPE_OK)
       (case marks r m of
          None \<Rightarrow> k r
        | Some i \<Rightarrow>
            (case data_cb st m of
               None \<Rightarrow> k (r\<lparr>marks := (marks r)(m := None)\<rparr>)
             | Some f \<Rightarrow>
                 let r' = upd (\<lambda>q. called (data_errno m) (f q i (take (til - i) (drop i data))) q) r
                 in if http_errno (parser r') \<noteq> HPE_OK then Inr (Return ret (parser r'))
                    else k (r'\<lparr>marks := (marks r')(m := None)\<rparr>)))"

definition CALLBACK_DATA ::
  "'d http_parser_settings \<Rightarrow> string \<Rightarrow> mark \<Rightarrow> 'd hp_run \<Rightarrow> ('d hp_run \<Rightarrow> 'd hp_result) \<Rightarrow> 'd hp_result" where
  "CALLBACK_DATA st data m r = CALLBACK_DATA_ends st data m (pos r) (pos r + 1) r"

definition CALLBACK_DATA_NOADVANCE ::
  "'d http_parser_settings \<Rightarrow> string \<Rightarrow> mark \<Rightarrow> 'd hp_run \<Rightarrow> ('d hp_run \<Rightarrow> 'd hp_result) \<Rightarrow> 'd hp_result" where
  "CALLBACK_DATA_NOADVANCE st data m r = CALLBACK_DATA_ends st data m (pos r) (pos r) r"

definition MARK :: "mark \<Rightarrow> 'd hp_run \<Rightarrow> 'd hp_run" where
  "MARK m r = (if marks r m = None then r\<lparr>marks := (marks r)(m := Some (pos r))\<rparr> else r)"

definition notify_begin :: "'d http_parser_settings \<Rightarrow> 'd hp_run \<Rightarrow> ('d hp_run \<Rightarrow> 'd hp_result) \<Rightarrow> 'd hp_result" where
  "notify_begin st r = CALLBACK_NOTIFY (on_message_begin st) HPE_CB_message_begin (pos r + 1) r"

definition notify_complete :: "'d http_parser_settings \<Rightarrow> 'd hp_run \<Rightarrow> ('d hp_run \<Rightarrow> 'd hp_result) \<Rightarrow> 'd hp_result" where
  "notify_complete st r = CALLBACK_NOTIFY (on_message_complete st) HPE_CB_message_complete (pos r + 1) r"

definition break :: "'d hp_run \<Rightarrow> 'd hp_result" where
  "break r = Inr (Break r)"

definition reexecute_byte :: "'d hp_run \<Rightarrow> 'd hp_result" where
  "reexecute_byte r = Inr (Reexecute r)"

subsection \<open>Messages and connections\<close>

definition http_message_needs_eof :: "'d http_parser \<Rightarrow> bool" where
  "http_message_needs_eof q =
     (if hp_type q = HTTP_REQUEST then False
      else if status_code q div 100 = 1 \<or> status_code q = 204 \<or> status_code q = 304 \<or> flag_set (hp_flags q) F_SKIPBODY
      then False
      else if flag_set (hp_flags q) F_CHUNKED \<or> content_length q \<noteq> ULLONG_MAX then False
      else True)"

definition http_should_keep_alive :: "'d http_parser \<Rightarrow> bool" where
  "http_should_keep_alive q =
     (if http_major q > 0 \<and> http_minor q > 0
      then if flag_set (hp_flags q) F_CONNECTION_CLOSE then False else \<not> http_message_needs_eof q
      else if \<not> flag_set (hp_flags q) F_CONNECTION_KEEP_ALIVE then False else \<not> http_message_needs_eof q)"

definition start_state :: "'d http_parser \<Rightarrow> state" where
  "start_state q = (if hp_type q = HTTP_REQUEST then s_start_req else s_start_res)"

definition NEW_MESSAGE :: "'d http_parser \<Rightarrow> state" where
  "NEW_MESSAGE q = (if http_should_keep_alive q then start_state q else s_dead)"

definition new_message :: "'d hp_run \<Rightarrow> 'd hp_run" where
  "new_message r = goto_state (NEW_MESSAGE (parser r)) r"

definition http_parser_init :: "hp_type \<Rightarrow> 'd \<Rightarrow> 'd http_parser" where
  "http_parser_init t d =
     \<lparr>hp_type = t, hp_flags = 0,
      hp_state = (if t = HTTP_REQUEST then s_start_req else if t = HTTP_RESPONSE then s_start_res else s_start_req_or_res),
      header_state = h_general, hp_index = 0, nread = 0, content_length = 0, http_major = 0, http_minor = 0,
      status_code = 0, hp_method = HTTP_DELETE, http_errno = HPE_OK, hp_upgrade = False, hp_data = d\<rparr>"

definition http_method_str :: "http_method \<Rightarrow> string" where
  "http_method_str m = method_strings m"

subsection \<open>The URL automaton\<close>

definition url_server :: "char \<Rightarrow> state" where
  "url_server ch =
     (if ch = CHR ''/'' then s_req_path
      else if ch = CHR ''?'' then s_req_query_string_start
      else if ch = CHR ''@'' then s_req_server_with_at
      else if IS_USERINFO_CHAR ch \<or> ch = CHR ''['' \<or> ch = CHR '']'' then s_req_server
      else s_dead)"

definition url_query :: "char \<Rightarrow> state" where
  "url_query ch =
     (if IS_URL_CHAR ch then s_req_query_string
      else if ch = CHR ''?'' then s_req_query_string
      else if ch = CHR ''#'' then s_req_fragment_start
      else s_dead)"

definition parse_url_char :: "state \<Rightarrow> char \<Rightarrow> state" where
  "parse_url_char s ch =
     (if ch = CHR '' '' \<or> ch = CR \<or> ch = LF then s_dead
      else if ch = TAB \<or> ch = CHR 0x0C then s_dead
      else case s of
        s_req_spaces_before_url \<Rightarrow>
          if ch = CHR ''/'' \<or> ch = CHR ''*'' then s_req_path
          else if IS_ALPHA ch then s_req_schema
          else s_dead
      | s_req_schema \<Rightarrow>
          if IS_ALPHA ch then s
          else if ch = CHR '':'' then s_req_schema_slash
          else s_dead
      | s_req_schema_slash \<Rightarrow> if ch = CHR ''/'' then s_req_schema_slash_slash else s_dead
      | s_req_schema_slash_slash \<Rightarrow> if ch = CHR ''/'' then s_req_server_start else s_dead
      | s_req_server_with_at \<Rightarrow> if ch = CHR ''@'' then s_dead else url_server ch
      | s_req_server_start \<Rightarrow> url_server ch
      | s_req_server \<Rightarrow> url_server ch
      | s_req_path \<Rightarrow>
          if IS_URL_CHAR ch then s
          else if ch = CHR ''?'' then s_req_query_string_start
          else if ch = CHR ''#'' then s_req_fragment_start
          else s_dead
      | s_req_query_string_start \<Rightarrow> url_query ch
      | s_req_query_string \<Rightarrow> url_query ch
      | s_req_fragment_start \<Rightarrow>
          if IS_URL_CHAR ch then s_req_fragment
          else if ch = CHR ''?'' then s_req_fragment
          else if ch = CHR ''#'' then s
          else s_dead
      | s_req_fragment \<Rightarrow>
          if IS_URL_CHAR ch then s
          else if ch = CHR ''?'' \<or> ch = CHR ''#'' then s
          else s_dead
      | _ \<Rightarrow> s_dead)"

subsection \<open>The cases of the switch: start of a message\<close>

definition case_dead :: "char \<Rightarrow> 'd hp_run \<Rightarrow> 'd hp_result" where
  "case_dead ch r = (if ch = CR \<or> ch = LF then break r else fail HPE_CLOSED_CONNECTION r)"

definition fresh_message :: "'d http_parser \<Rightarrow> 'd http_parser" where
  "fresh_message q = q\<lparr>hp_flags := 0, content_length := ULLONG_MAX\<rparr>"

definition case_start_req_or_res :: "'d http_parser_settings \<Rightarrow> char \<Rightarrow> 'd hp_run \<Rightarrow> 'd hp_result" where
  "case_start_req_or_res st ch r =
     (if ch = CR \<or> ch = LF then break r
      else let r1 = upd fresh_message r in
        if ch = CHR ''H'' then notify_begin st (goto_state s_res_or_resp_H r1) break
        else reexecute_byte (goto_state s_start_req (upd (hp_type_update (\<lambda>_. HTTP_REQUEST)) r1)))"

definition case_res_or_resp_H :: "char \<Rightarrow> 'd hp_run \<Rightarrow> 'd hp_result" where
  "case_res_or_resp_H ch r =
     (if ch = CHR ''T'' then break (goto_state s_res_HT (upd (hp_type_update (\<lambda>_. HTTP_RESPONSE)) r))
      else if ch \<noteq> CHR ''E'' then fail HPE_INVALID_CONSTANT r
      else break (goto_state s_req_method
             (upd (\<lambda>q. q\<lparr>hp_type := HTTP_REQUEST, hp_method := HTTP_HEAD, hp_index := 2\<rparr>) r)))"

definition case_start_res :: "'d http_parser_settings \<Rightarrow> char \<Rightarrow> 'd hp_run \<Rightarrow> 'd hp_result" where
  "case_start_res st ch r =
     (let r1 = upd fresh_message r in
      if ch = CHR ''H'' then notify_begin st (goto_state s_res_H r1) break
      else if ch = CR \<or> ch = LF then notify_begin st r1 break
      else fail HPE_INVALID_CONSTANT r1)"

text \<open>The letters of \<^verbatim>\<open>HTTP/\<close> in a status line and in a request line.\<close>

definition case_letter :: "char \<Rightarrow> state \<Rightarrow> char \<Rightarrow> 'd hp_run \<Rightarrow> 'd hp_result" where
  "case_letter c s ch r = STRICT_CHECK (ch \<noteq> c) r (break (goto_state s r))"

definition digit :: "char \<Rightarrow> u16" where
  "digit ch = of_nat (digit_val ch)"

subsection \<open>The cases of the switch: status line\<close>

definition case_res_first_http_major :: "char \<Rightarrow> 'd hp_run \<Rightarrow> 'd hp_result" where
  "case_res_first_http_major ch r =
     (if \<not> char_between (CHR ''0'') ch (CHR ''9'') then fail HPE_INVALID_VERSION r
      else break (goto_state s_res_http_major (upd (http_major_update (\<lambda>_. digit ch)) r)))"

definition case_http_major :: "state \<Rightarrow> char \<Rightarrow> 'd hp_run \<Rightarrow> 'd hp_result" where
  "case_http_major s ch r =
     (if ch = CHR ''.'' then break (goto_state s r)
      else if \<not> IS_NUM ch then fail HPE_INVALID_VERSION r
      else let r1 = upd (http_major_update (\<lambda>v. v * 10 + digit ch)) r in
        if http_major (parser r1) > 999 then fail HPE_INVALID_VERSION r1 else break r1)"

definition case_first_http_minor :: "state \<Rightarrow> char \<Rightarrow> 'd hp_run \<Rightarrow> 'd hp_result" where
  "case_first_http_minor s ch r =
     (if \<not> IS_NUM ch then fail HPE_INVALID_VERSION r
      else break (goto_state s (upd (http_minor_update (\<lambda>_. digit ch)) r)))"

definition minor_digit :: "char \<Rightarrow> 'd hp_run \<Rightarrow> 'd hp_result" where
  "minor_digit ch r =
     (if \<not> IS_NUM ch then fail HPE_INVALID_VERSION r
      else let r1 = upd (http_minor_update (\<lambda>v. v * 10 + digit ch)) r in
        if http_minor (parser r1) > 999 then fail HPE_INVALID_VERSION r1 else break r1)"

definition case_res_http_minor :: "char \<Rightarrow> 'd hp_run \<Rightarrow> 'd hp_result" where
  "case_res_http_minor ch r =
     (if ch = CHR '' '' then break (goto_state s_res_first_status_code r) else minor_digit ch r)"

definition case_res_first_status_code :: "char \<Rightarrow> 'd hp_run \<Rightarrow> 'd hp_result" where
  "case_res_first_status_code ch r =
     (if \<not> IS_NUM ch then if ch = CHR '' '' then break r else fail HPE_INVALID_STATUS r
      else break (goto_state s_res_status_code (upd (status_code_update (\<lambda>_. digit ch)) r)))"

definition case_res_status_code :: "char \<Rightarrow> 'd hp_run \<Rightarrow> 'd hp_result" where
  "case_res_status_code ch r =
     (if \<not> IS_NUM ch
      then if ch = CHR '' '' then break (goto_state s_res_status r)
           else if ch = CR then break (goto_state s_res_line_almost_done r)
           else if ch = LF then break (goto_state s_header_field_start r)
           else fail HPE_INVALID_STATUS r
      else let r1 = upd (status_code_update (\<lambda>v. v * 10 + digit ch)) r in
        if status_code (parser r1) > 999 then fail HPE_INVALID_STATUS r1 else break r1)"

definition case_res_status :: "char \<Rightarrow> 'd hp_run \<Rightarrow> 'd hp_result" where
  "case_res_status ch r =
     (if ch = CR then break (goto_state s_res_line_almost_done r)
      else if ch = LF then break (goto_state s_header_field_start r)
      else break r)"

definition case_res_line_almost_done :: "char \<Rightarrow> 'd hp_run \<Rightarrow> 'd hp_result" where
  "case_res_line_almost_done ch r = STRICT_CHECK (ch \<noteq> LF) r (break (goto_state s_header_field_start r))"

subsection \<open>The cases of the switch: request line\<close>

definition first_letter_method :: "char \<Rightarrow> http_method option" where
  "first_letter_method ch =
     (if ch = CHR ''C'' then Some HTTP_CONNECT
      else if ch = CHR ''D'' then Some HTTP_DELETE
      else if ch = CHR ''G'' then Some HTTP_GET
      else if ch = CHR ''H'' then Some HTTP_HEAD
      else if ch = CHR ''L'' then Some HTTP_LOCK
      else if ch = CHR ''M'' then Some HTTP_MKCOL
      else if ch = CHR ''N'' then Some HTTP_NOTIFY
      else if ch = CHR ''O'' then Some HTTP_OPTIONS
      else if ch = CHR ''P'' then Some HTTP_POST
      else if ch = CHR ''R'' then Some HTTP_REPORT
      else if ch = CHR ''S'' then Some HTTP_SUBSCRIBE
      else if ch = CHR ''T'' then Some HTTP_TRACE
      else if ch = CHR ''U'' then Some HTTP_UNLOCK
      else None)"

definition case_start_req :: "'d http_parser_settings \<Rightarrow> char \<Rightarrow> 'd hp_run \<Rightarrow> 'd hp_result" where
  "case_start_req st ch r =
     (if ch = CR \<or> ch = LF then break r
      else let r1 = upd fresh_message r in
        if \<not> IS_ALPHA ch then fail HPE_INVALID_METHOD r1
        else let r2 = upd (\<lambda>q. q\<lparr>hp_method := HTTP_DELETE, hp_index := 1\<rparr>) r1 in
          case first_letter_method ch of
            None \<Rightarrow> fail HPE_INVALID_METHOD r2
          | Some m \<Rightarrow> notify_begin st (goto_state s_req_method (upd (hp_method_update (\<lambda>_. m)) r2)) break)"

text \<open>
  The character of a C string at an index, its terminator included; beyond it is an overrun.
\<close>

definition c_str_at :: "string \<Rightarrow> nat \<Rightarrow> hp_fault + char" where
  "c_str_at s i = (if i < length s then Inr (s ! i) else if i = length s then Inr NUL else Inl String_overrun)"

text \<open>
  A letter that is not the next one of the current method: another method with the same beginning, or
  an error. At index 2 there is no error branch.
\<close>

definition other_method :: "http_method \<Rightarrow> nat \<Rightarrow> char \<Rightarrow> http_errno + http_method" where
  "other_method m i ch =
     (if m = HTTP_CONNECT
      then if i = 1 \<and> ch = CHR ''H'' then Inr HTTP_CHECKOUT
           else if i = 2 \<and> ch = CHR ''P'' then Inr HTTP_COPY
           else Inl HPE_OK
      else if m = HTTP_MKCOL
      then if i = 1 \<and> ch = CHR ''O'' then Inr HTTP_MOVE
           else if i = 1 \<and> ch = CHR ''E'' then Inr HTTP_MERGE
           else if i = 1 \<and> ch = CHR ''-'' then Inr HTTP_MSEARCH
           else if i = 2 \<and> ch = CHR ''A'' then Inr HTTP_MKACTIVITY
           else Inl HPE_OK
      else if m = HTTP_SUBSCRIBE
      then if i = 1 \<and> ch = CHR ''E'' then Inr HTTP_SEARCH else Inl HPE_OK
      else if i = 1 \<and> m = HTTP_POST
      then if ch = CHR ''R'' then Inr HTTP_PROPFIND
           else if ch = CHR ''U'' then Inr HTTP_PUT
           else if ch = CHR ''A'' then Inr HTTP_PATCH
           else Inl HPE_OK
      else if i = 2
      then if m = HTTP_PUT then Inr (if ch = CHR ''R'' then HTTP_PURGE else m)
           else if m = HTTP_UNLOCK then Inr (if ch = CHR ''S'' then HTTP_UNSUBSCRIBE else m)
           else Inr m
      else if i = 4 \<and> m = HTTP_PROPFIND \<and> ch = CHR ''P'' then Inr HTTP_PROPPATCH
      else Inl HPE_INVALID_METHOD)"

text \<open>\<^verbatim>\<open>goto error\<close> without a preceding \<^verbatim>\<open>SET_ERRNO\<close> leaves \<^verbatim>\<open>HPE_OK\<close> in place.\<close>

definition next_letter :: "'d hp_run \<Rightarrow> 'd hp_result" where
  "next_letter r = break (upd (hp_index_update (\<lambda>i. i + 1)) r)"

definition case_req_method :: "char \<Rightarrow> 'd hp_run \<Rightarrow> 'd hp_result" where
  "case_req_method ch r =
     (if ch = NUL then fail HPE_INVALID_METHOD r
      else let m = hp_method (parser r); i = unat (hp_index (parser r)) in
        rbind (c_str_at (method_strings m) i) (\<lambda>c.
          if ch = CHR '' '' \<and> c = NUL then next_letter (goto_state s_req_spaces_before_url r)
          else if ch = c then next_letter r
          else case other_method m i ch of
                 Inl e \<Rightarrow> (if e = HPE_OK then Inr (Goto_error r) else fail e r)
               | Inr m' \<Rightarrow> next_letter (upd (hp_method_update (\<lambda>_. m')) r)))"

definition url_step :: "char \<Rightarrow> 'd hp_run \<Rightarrow> 'd hp_result" where
  "url_step ch r =
     (let r1 = goto_state (parse_url_char (hp_state (parser r)) ch) r in
      if hp_state (parser r1) = s_dead then fail HPE_INVALID_URL r1 else break r1)"

definition case_req_spaces_before_url :: "char \<Rightarrow> 'd hp_run \<Rightarrow> 'd hp_result" where
  "case_req_spaces_before_url ch r =
     (if ch = CHR '' '' then break r
      else let r1 = MARK M_url r in
        url_step ch (if hp_method (parser r1) = HTTP_CONNECT then goto_state s_req_server_start r1 else r1))"

definition case_req_schema :: "char \<Rightarrow> 'd hp_run \<Rightarrow> 'd hp_result" where
  "case_req_schema ch r =
     (if ch = CHR '' '' \<or> ch = CR \<or> ch = LF then fail HPE_INVALID_URL r else url_step ch r)"

definition case_req_url :: "'d http_parser_settings \<Rightarrow> string \<Rightarrow> char \<Rightarrow> 'd hp_run \<Rightarrow> 'd hp_result" where
  "case_req_url st data ch r =
     (if ch = CHR '' '' then CALLBACK_DATA st data M_url (goto_state s_req_http_start r) break
      else if ch = CR \<or> ch = LF
      then CALLBACK_DATA st data M_url
             (goto_state (if ch = CR then s_req_line_almost_done else s_header_field_start)
               (upd (\<lambda>q. q\<lparr>http_major := 0, http_minor := 9\<rparr>) r)) break
      else url_step ch r)"

definition case_req_http_start :: "char \<Rightarrow> 'd hp_run \<Rightarrow> 'd hp_result" where
  "case_req_http_start ch r =
     (if ch = CHR ''H'' then break (goto_state s_req_http_H r)
      else if ch = CHR '' '' then break r
      else fail HPE_INVALID_CONSTANT r)"

definition case_req_first_http_major :: "char \<Rightarrow> 'd hp_run \<Rightarrow> 'd hp_result" where
  "case_req_first_http_major ch r =
     (if \<not> char_between (CHR ''1'') ch (CHR ''9'') then fail HPE_INVALID_VERSION r
      else break (goto_state s_req_http_major (upd (http_major_update (\<lambda>_. digit ch)) r)))"

definition case_req_http_minor :: "char \<Rightarrow> 'd hp_run \<Rightarrow> 'd hp_result" where
  "case_req_http_minor ch r =
     (if ch = CR then break (goto_state s_req_line_almost_done r)
      else if ch = LF then break (goto_state s_header_field_start r)
      else minor_digit ch r)"

definition case_req_line_almost_done :: "char \<Rightarrow> 'd hp_run \<Rightarrow> 'd hp_result" where
  "case_req_line_almost_done ch r =
     (if ch \<noteq> LF then fail HPE_LF_EXPECTED r else break (goto_state s_header_field_start r))"

end
