(* ===== verification/HP_Loop.thy ===== *)
theory HP_Loop
  imports HP_Exec
begin

section \<open>The HTTP parser: headers, bodies and the loop\<close>

text \<open>
  The second half of \<^verbatim>\<open>http_parser_execute\<close>: header fields and values, the end of the headers,
  bodies with a length, until the end of the connection and in chunks, then the loop over the bytes.
\<close>

unbundle bit_operations_syntax

subsection \<open>Header fields\<close>

definition case_header_field_start :: "char \<Rightarrow> 'd hp_run \<Rightarrow> 'd hp_result" where
  "case_header_field_start ch r =
     (if ch = CR then break (goto_state s_headers_almost_done r)
      else if ch = LF then reexecute_byte (goto_state s_headers_almost_done r)
      else let c = TOKEN ch in
        if c = NUL then fail HPE_INVALID_HEADER_TOKEN r
        else break (upd (\<lambda>q. q\<lparr>hp_index := 0, hp_state := s_header_field,
                header_state := (if c = CHR ''c'' then h_C
                                 else if c = CHR ''p'' then h_matching_proxy_connection
                                 else if c = CHR ''t'' then h_matching_transfer_encoding
                                 else if c = CHR ''u'' then h_matching_upgrade
                                 else h_general)\<rparr>) (MARK M_header_field r)))"

text \<open>
  One more character \<open>c\<close> against a keyword whose characters up to the index have matched:
  \<^verbatim>\<open>sizeof(KEYWORD)-1\<close> is its length. The index is the one after the increment.
\<close>

definition match_keyword :: "string \<Rightarrow> header_states \<Rightarrow> char \<Rightarrow> 'd http_parser \<Rightarrow> 'd http_parser" where
  "match_keyword kw done_state c q =
     (let q1 = q\<lparr>hp_index := hp_index q + 1\<rparr>; i = unat (hp_index q1) in
      if i > length kw \<or> c \<noteq> (kw @ [NUL]) ! i then q1\<lparr>header_state := h_general\<rparr>
      else if i = length kw - 1 then q1\<lparr>header_state := done_state\<rparr>
      else q1)"

definition field_letter :: "char \<Rightarrow> header_states \<Rightarrow> header_states \<Rightarrow> char \<Rightarrow> 'd http_parser \<Rightarrow> 'd http_parser" where
  "field_letter want yes no c q =
     q\<lparr>hp_index := hp_index q + 1, header_state := (if c = want then yes else no)\<rparr>"

definition header_field_char :: "char \<Rightarrow> char \<Rightarrow> 'd hp_run \<Rightarrow> 'd hp_result" where
  "header_field_char ch c r =
     (case header_state (parser r) of
        h_general \<Rightarrow> break r
      | h_C \<Rightarrow> break (upd (field_letter (CHR ''o'') h_CO h_general c) r)
      | h_CO \<Rightarrow> break (upd (field_letter (CHR ''n'') h_CON h_general c) r)
      | h_CON \<Rightarrow> break (upd (field_letter (CHR ''n'') h_matching_connection
                    (if c = CHR ''t'' then h_matching_content_length else h_general) c) r)
      | h_matching_connection \<Rightarrow> break (upd (match_keyword CONNECTION h_connection c) r)
      | h_matching_proxy_connection \<Rightarrow> break (upd (match_keyword PROXY_CONNECTION h_connection c) r)
      | h_matching_content_length \<Rightarrow> break (upd (match_keyword CONTENT_LENGTH h_content_length c) r)
      | h_matching_transfer_encoding \<Rightarrow> break (upd (match_keyword TRANSFER_ENCODING h_transfer_encoding c) r)
      | h_matching_upgrade \<Rightarrow> break (upd (match_keyword UPGRADE h_upgrade c) r)
      | _ \<Rightarrow>
          if header_state (parser r) \<in> {h_connection, h_content_length, h_transfer_encoding, h_upgrade}
          then break (if ch \<noteq> CHR '' '' then upd (header_state_update (\<lambda>_. h_general)) r else r)
          else Inl Assert_failed)"

definition case_header_field :: "'d http_parser_settings \<Rightarrow> string \<Rightarrow> char \<Rightarrow> 'd hp_run \<Rightarrow> 'd hp_result" where
  "case_header_field st data ch r =
     (let c = TOKEN ch in
      if c \<noteq> NUL then header_field_char ch c r
      else if ch = CHR '':'' then CALLBACK_DATA st data M_header_field (goto_state s_header_value_start r) break
      else if ch = CR then CALLBACK_DATA st data M_header_field (goto_state s_header_almost_done r) break
      else if ch = LF then CALLBACK_DATA st data M_header_field (goto_state s_header_field_start r) break
      else fail HPE_INVALID_HEADER_TOKEN r)"

subsection \<open>Header values\<close>

definition header_value_first :: "char \<Rightarrow> 'd hp_run \<Rightarrow> 'd hp_result" where
  "header_value_first ch r =
     (let c = LOWER ch; hs = header_state (parser r);
          goto_h = (\<lambda>h. break (upd (header_state_update (\<lambda>_. h)) r)) in
      case hs of
        h_upgrade \<Rightarrow> break (upd (\<lambda>q. q\<lparr>hp_flags := hp_flags q OR F_UPGRADE, header_state := h_general\<rparr>) r)
      | h_transfer_encoding \<Rightarrow>
          goto_h (if c = CHR ''c'' then h_matching_transfer_encoding_chunked else h_general)
      | h_content_length \<Rightarrow>
          if \<not> IS_NUM ch then fail HPE_INVALID_CONTENT_LENGTH r
          else break (upd (content_length_update (\<lambda>_. of_nat (digit_val ch))) r)
      | h_connection \<Rightarrow>
          goto_h (if c = CHR ''k'' then h_matching_connection_keep_alive
                  else if c = CHR ''c'' then h_matching_connection_close
                  else h_general)
      | _ \<Rightarrow> goto_h h_general)"

definition case_header_value_start :: "'d http_parser_settings \<Rightarrow> string \<Rightarrow> char \<Rightarrow> 'd hp_run \<Rightarrow> 'd hp_result" where
  "case_header_value_start st data ch r =
     (if ch = CHR '' '' \<or> ch = TAB then break r
      else let r1 = upd (\<lambda>q. q\<lparr>hp_state := s_header_value, hp_index := 0\<rparr>) (MARK M_header_value r) in
        if ch = CR
        then CALLBACK_DATA st data M_header_value
               (upd (\<lambda>q. q\<lparr>header_state := h_general, hp_state := s_header_almost_done\<rparr>) r1) break
        else if ch = LF
        then CALLBACK_DATA st data M_header_value (goto_state s_header_field_start r1) break
        else header_value_first ch r1)"

definition content_length_digit :: "char \<Rightarrow> 'd hp_run \<Rightarrow> 'd hp_result" where
  "content_length_digit ch r =
     (if ch = CHR '' '' then break r
      else if \<not> IS_NUM ch then fail HPE_INVALID_CONTENT_LENGTH r
      else let t = content_length (parser r) * 10 + of_nat (digit_val ch) in
        if t < content_length (parser r) \<or> t = ULLONG_MAX then fail HPE_INVALID_CONTENT_LENGTH r
        else break (upd (content_length_update (\<lambda>_. t)) r))"

definition header_value_char :: "char \<Rightarrow> 'd hp_run \<Rightarrow> 'd hp_result" where
  "header_value_char ch r =
     (let c = LOWER ch; hs = header_state (parser r) in
      case hs of
        h_general \<Rightarrow> break r
      | h_connection \<Rightarrow> Inl Assert_failed
      | h_transfer_encoding \<Rightarrow> Inl Assert_failed
      | h_content_length \<Rightarrow> content_length_digit ch r
      | h_matching_transfer_encoding_chunked \<Rightarrow> break (upd (match_keyword CHUNKED h_transfer_encoding_chunked c) r)
      | h_matching_connection_keep_alive \<Rightarrow> break (upd (match_keyword KEEP_ALIVE h_connection_keep_alive c) r)
      | h_matching_connection_close \<Rightarrow> break (upd (match_keyword CLOSE h_connection_close c) r)
      | _ \<Rightarrow>
          if hs \<in> {h_transfer_encoding_chunked, h_connection_keep_alive, h_connection_close}
          then break (if ch \<noteq> CHR '' '' then upd (header_state_update (\<lambda>_. h_general)) r else r)
          else break (upd (\<lambda>q. q\<lparr>hp_state := s_header_value, header_state := h_general\<rparr>) r))"

definition case_header_value :: "'d http_parser_settings \<Rightarrow> string \<Rightarrow> char \<Rightarrow> 'd hp_run \<Rightarrow> 'd hp_result" where
  "case_header_value st data ch r =
     (if ch = CR then CALLBACK_DATA st data M_header_value (goto_state s_header_almost_done r) break
      else if ch = LF
      then CALLBACK_DATA_NOADVANCE st data M_header_value (goto_state s_header_almost_done r) reexecute_byte
      else header_value_char ch r)"

definition case_header_almost_done :: "char \<Rightarrow> 'd hp_run \<Rightarrow> 'd hp_result" where
  "case_header_almost_done ch r =
     STRICT_CHECK (ch \<noteq> LF) r
       (break (upd (\<lambda>q. q\<lparr>hp_state := s_header_value_lws,
          hp_flags := (case header_state q of
             h_connection_keep_alive \<Rightarrow> hp_flags q OR F_CONNECTION_KEEP_ALIVE
           | h_connection_close \<Rightarrow> hp_flags q OR F_CONNECTION_CLOSE
           | h_transfer_encoding_chunked \<Rightarrow> hp_flags q OR F_CHUNKED
           | _ \<Rightarrow> hp_flags q)\<rparr>) r))"

definition case_header_value_lws :: "char \<Rightarrow> 'd hp_run \<Rightarrow> 'd hp_result" where
  "case_header_value_lws ch r =
     (if ch = CHR '' '' \<or> ch = TAB then break (goto_state s_header_value_start r)
      else reexecute_byte (goto_state s_header_field_start r))"

subsection \<open>The end of the headers\<close>

definition case_headers_almost_done :: "'d http_parser_settings \<Rightarrow> char \<Rightarrow> 'd hp_run \<Rightarrow> 'd hp_result" where
  "case_headers_almost_done st ch r =
     STRICT_CHECK (ch \<noteq> LF) r
       (if flag_set (hp_flags (parser r)) F_TRAILING
        then notify_complete st (new_message r) break
        else
          let r1 = upd (\<lambda>q. q\<lparr>hp_state := s_headers_done,
                     hp_upgrade := (flag_set (hp_flags q) F_UPGRADE \<or> hp_method q = HTTP_CONNECT)\<rparr>) r;
              after = (\<lambda>r. if http_errno (parser r) \<noteq> HPE_OK then Inr (Return (pos r) (parser r)) else reexecute_byte r)
          in case on_headers_complete st of
               None \<Rightarrow> after r1
             | Some f \<Rightarrow>
                 (case f (parser r1) of (rv, paused, d) \<Rightarrow>
                    let r2 = upd (called HPE_OK (0, paused, d)) r1
                    in if rv = 0 then after r2
                       else if rv = 1 then after (upd (\<lambda>q. q\<lparr>hp_flags := hp_flags q OR F_SKIPBODY\<rparr>) r2)
                       else Inr (Return (pos r) (SET_ERRNO HPE_CB_headers_complete (parser r2)))))"

definition case_headers_done :: "'d http_parser_settings \<Rightarrow> char \<Rightarrow> 'd hp_run \<Rightarrow> 'd hp_result" where
  "case_headers_done st ch r =
     STRICT_CHECK (ch \<noteq> LF) r
       (let r1 = upd (nread_update (\<lambda>_. 0)) r; q = parser r1 in
        if hp_upgrade q
        then notify_complete st (new_message r1) (\<lambda>r2. Inr (Return (pos r2 + 1) (parser r2)))
        else if flag_set (hp_flags q) F_SKIPBODY then notify_complete st (new_message r1) break
        else if flag_set (hp_flags q) F_CHUNKED then break (goto_state s_chunk_size_start r1)
        else if content_length q = 0 then notify_complete st (new_message r1) break
        else if content_length q \<noteq> ULLONG_MAX then break (goto_state s_body_identity r1)
        else if hp_type q = HTTP_REQUEST \<or> \<not> http_message_needs_eof q
        then notify_complete st (new_message r1) break
        else break (goto_state s_body_identity_eof r1))"

subsection \<open>Bodies\<close>

text \<open>\<^verbatim>\<open>MIN(parser->content_length, (uint64_t) ((data + len) - p))\<close>\<close>

definition to_read :: "string \<Rightarrow> 'd hp_run \<Rightarrow> nat" where
  "to_read data r = min (unat (content_length (parser r))) (length data - pos r)"

definition take_body :: "string \<Rightarrow> 'd hp_run \<Rightarrow> 'd hp_run" where
  "take_body data r =
     (let n = to_read data r; r1 = MARK M_body r in
      (upd (content_length_update (\<lambda>v. v - of_nat n)) r1)\<lparr>pos := pos r + n - 1\<rparr>)"

definition case_body_identity :: "'d http_parser_settings \<Rightarrow> string \<Rightarrow> 'd hp_run \<Rightarrow> 'd hp_result" where
  "case_body_identity st data r =
     assert (content_length (parser r) \<noteq> 0 \<and> content_length (parser r) \<noteq> ULLONG_MAX)
       (let r1 = take_body data r in
        if content_length (parser r1) = 0
        then CALLBACK_DATA_ends st data M_body (pos r1 + 1) (pos r1) (goto_state s_message_done r1) reexecute_byte
        else break r1)"

definition case_body_identity_eof :: "string \<Rightarrow> 'd hp_run \<Rightarrow> 'd hp_result" where
  "case_body_identity_eof data r = break ((MARK M_body r)\<lparr>pos := length data - 1\<rparr>)"

definition case_message_done :: "'d http_parser_settings \<Rightarrow> 'd hp_run \<Rightarrow> 'd hp_result" where
  "case_message_done st r = notify_complete st (new_message r) break"

subsection \<open>Chunks\<close>

abbreviation chunked :: "'d hp_run \<Rightarrow> bool" where
  "chunked r \<equiv> flag_set (hp_flags (parser r)) F_CHUNKED"

definition case_chunk_size_start :: "char \<Rightarrow> 'd hp_run \<Rightarrow> 'd hp_result" where
  "case_chunk_size_start ch r =
     assert (nread (parser r) = 1) (assert (chunked r)
       (if unhex_at ch = -1 then fail HPE_INVALID_CHUNK_SIZE r
        else break (goto_state s_chunk_size (upd (content_length_update (\<lambda>_. of_int (unhex_at ch))) r))))"

definition case_chunk_size :: "char \<Rightarrow> 'd hp_run \<Rightarrow> 'd hp_result" where
  "case_chunk_size ch r =
     assert (chunked r)
       (if ch = CR then break (goto_state s_chunk_size_almost_done r)
        else if unhex_at ch = -1
        then if ch = CHR '';'' \<or> ch = CHR '' '' then break (goto_state s_chunk_parameters r)
             else fail HPE_INVALID_CHUNK_SIZE r
        else let t = content_length (parser r) * 16 + of_int (unhex_at ch) in
          if t < content_length (parser r) \<or> t = ULLONG_MAX then fail HPE_INVALID_CONTENT_LENGTH r
          else break (upd (content_length_update (\<lambda>_. t)) r))"

definition case_chunk_parameters :: "char \<Rightarrow> 'd hp_run \<Rightarrow> 'd hp_result" where
  "case_chunk_parameters ch r =
     assert (chunked r) (if ch = CR then break (goto_state s_chunk_size_almost_done r) else break r)"

definition case_chunk_size_almost_done :: "char \<Rightarrow> 'd hp_run \<Rightarrow> 'd hp_result" where
  "case_chunk_size_almost_done ch r =
     assert (chunked r)
       (STRICT_CHECK (ch \<noteq> LF) r
         (let r1 = upd (nread_update (\<lambda>_. 0)) r in
          if content_length (parser r1) = 0
          then break (upd (\<lambda>q. q\<lparr>hp_flags := hp_flags q OR F_TRAILING, hp_state := s_header_field_start\<rparr>) r1)
          else break (goto_state s_chunk_data r1)))"

definition case_chunk_data :: "string \<Rightarrow> 'd hp_run \<Rightarrow> 'd hp_result" where
  "case_chunk_data data r =
     assert (chunked r)
       (assert (content_length (parser r) \<noteq> 0 \<and> content_length (parser r) \<noteq> ULLONG_MAX)
         (let r1 = take_body data r in
          break (if content_length (parser r1) = 0 then goto_state s_chunk_data_almost_done r1 else r1)))"

definition case_chunk_data_almost_done :: "'d http_parser_settings \<Rightarrow> string \<Rightarrow> char \<Rightarrow> 'd hp_run \<Rightarrow> 'd hp_result" where
  "case_chunk_data_almost_done st data ch r =
     assert (chunked r)
       (assert (content_length (parser r) = 0)
         (STRICT_CHECK (ch \<noteq> CR) r
           (CALLBACK_DATA st data M_body (goto_state s_chunk_data_done r) break)))"

definition case_chunk_data_done :: "char \<Rightarrow> 'd hp_run \<Rightarrow> 'd hp_result" where
  "case_chunk_data_done ch r =
     assert (chunked r)
       (STRICT_CHECK (ch \<noteq> LF) r
         (break (upd (\<lambda>q. q\<lparr>nread := 0, hp_state := s_chunk_size_start\<rparr>) r)))"

subsection \<open>The switch\<close>

definition exec_case :: "'d http_parser_settings \<Rightarrow> string \<Rightarrow> char \<Rightarrow> 'd hp_run \<Rightarrow> 'd hp_result" where
  "exec_case st data ch r =
     (case hp_state (parser r) of
        s_dead \<Rightarrow> case_dead ch r
      | s_start_req_or_res \<Rightarrow> case_start_req_or_res st ch r
      | s_res_or_resp_H \<Rightarrow> case_res_or_resp_H ch r
      | s_start_res \<Rightarrow> case_start_res st ch r
      | s_res_H \<Rightarrow> case_letter (CHR ''T'') s_res_HT ch r
      | s_res_HT \<Rightarrow> case_letter (CHR ''T'') s_res_HTT ch r
      | s_res_HTT \<Rightarrow> case_letter (CHR ''P'') s_res_HTTP ch r
      | s_res_HTTP \<Rightarrow> case_letter (CHR ''/'') s_res_first_http_major ch r
      | s_res_first_http_major \<Rightarrow> case_res_first_http_major ch r
      | s_res_http_major \<Rightarrow> case_http_major s_res_first_http_minor ch r
      | s_res_first_http_minor \<Rightarrow> case_first_http_minor s_res_http_minor ch r
      | s_res_http_minor \<Rightarrow> case_res_http_minor ch r
      | s_res_first_status_code \<Rightarrow> case_res_first_status_code ch r
      | s_res_status_code \<Rightarrow> case_res_status_code ch r
      | s_res_status \<Rightarrow> case_res_status ch r
      | s_res_line_almost_done \<Rightarrow> case_res_line_almost_done ch r
      | s_start_req \<Rightarrow> case_start_req st ch r
      | s_req_method \<Rightarrow> case_req_method ch r
      | s_req_spaces_before_url \<Rightarrow> case_req_spaces_before_url ch r
      | s_req_schema \<Rightarrow> case_req_schema ch r
      | s_req_schema_slash \<Rightarrow> case_req_schema ch r
      | s_req_schema_slash_slash \<Rightarrow> case_req_schema ch r
      | s_req_server_start \<Rightarrow> case_req_schema ch r
      | s_req_server \<Rightarrow> case_req_url st data ch r
      | s_req_server_with_at \<Rightarrow> case_req_url st data ch r
      | s_req_path \<Rightarrow> case_req_url st data ch r
      | s_req_query_string_start \<Rightarrow> case_req_url st data ch r
      | s_req_query_string \<Rightarrow> case_req_url st data ch r
      | s_req_fragment_start \<Rightarrow> case_req_url st data ch r
      | s_req_fragment \<Rightarrow> case_req_url st data ch r
      | s_req_http_start \<Rightarrow> case_req_http_start ch r
      | s_req_http_H \<Rightarrow> case_letter (CHR ''T'') s_req_http_HT ch r
      | s_req_http_HT \<Rightarrow> case_letter (CHR ''T'') s_req_http_HTT ch r
      | s_req_http_HTT \<Rightarrow> case_letter (CHR ''P'') s_req_http_HTTP ch r
      | s_req_http_HTTP \<Rightarrow> case_letter (CHR ''/'') s_req_first_http_major ch r
      | s_req_first_http_major \<Rightarrow> case_req_first_http_major ch r
      | s_req_http_major \<Rightarrow> case_http_major s_req_first_http_minor ch r
      | s_req_first_http_minor \<Rightarrow> case_first_http_minor s_req_http_minor ch r
      | s_req_http_minor \<Rightarrow> case_req_http_minor ch r
      | s_req_line_almost_done \<Rightarrow> case_req_line_almost_done ch r
      | s_header_field_start \<Rightarrow> case_header_field_start ch r
      | s_header_field \<Rightarrow> case_header_field st data ch r
      | s_header_value_start \<Rightarrow> case_header_value_start st data ch r
      | s_header_value \<Rightarrow> case_header_value st data ch r
      | s_header_value_lws \<Rightarrow> case_header_value_lws ch r
      | s_header_almost_done \<Rightarrow> case_header_almost_done ch r
      | s_chunk_size_start \<Rightarrow> case_chunk_size_start ch r
      | s_chunk_size \<Rightarrow> case_chunk_size ch r
      | s_chunk_parameters \<Rightarrow> case_chunk_parameters ch r
      | s_chunk_size_almost_done \<Rightarrow> case_chunk_size_almost_done ch r
      | s_headers_almost_done \<Rightarrow> case_headers_almost_done st ch r
      | s_headers_done \<Rightarrow> case_headers_done st ch r
      | s_chunk_data \<Rightarrow> case_chunk_data data r
      | s_chunk_data_almost_done \<Rightarrow> case_chunk_data_almost_done st data ch r
      | s_chunk_data_done \<Rightarrow> case_chunk_data_done ch r
      | s_body_identity \<Rightarrow> case_body_identity st data r
      | s_body_identity_eof \<Rightarrow> case_body_identity_eof data r
      | s_message_done \<Rightarrow> case_message_done st r)"

text \<open>
  What a result satisfies: \<open>P\<close> when there is no fault, \<open>F\<close> when there is one. The rules take a
  case apart along its macros.
\<close>

definition post :: "bool \<Rightarrow> ('d hp_next \<Rightarrow> bool) \<Rightarrow> 'd hp_result \<Rightarrow> bool" where
  "post F P m = (case m of Inl _ \<Rightarrow> F | Inr n \<Rightarrow> P n)"

named_theorems post_simps \<open>what the outcomes of a case satisfy\<close>

lemma post_Inr [simp, post_simps]: "post F P (Inr n) = P n"
  and post_Inl [simp, post_simps]: "post F P (Inl f) = F"
  and post_break [simp, post_simps]: "post F P (break r) = P (Break r)"
  and post_reexecute [simp, post_simps]: "post F P (reexecute_byte r) = P (Reexecute r)"
  and post_fail [simp, post_simps]: "post F P (fail e r) = P (Goto_error (upd (SET_ERRNO e) r))"
  by (simp_all add: post_def break_def reexecute_byte_def fail_def)

lemma post_assert [simp, post_simps]: "post F P (assert b k) \<longleftrightarrow> (if b then post F P k else F)"
  by (simp add: assert_def)

lemma post_STRICT [simp, post_simps]:
  "post F P (STRICT_CHECK b r k) \<longleftrightarrow> (if b then P (Goto_error (upd (SET_ERRNO HPE_STRICT) r)) else post F P k)"
  by (simp add: STRICT_CHECK_def)

lemma called_form:
  assumes "http_errno q = HPE_OK"
  obtains "called e res q = q\<lparr>hp_data := snd (snd res)\<rparr>"
  | e' where "e' \<noteq> HPE_OK" "called e res q = q\<lparr>hp_data := snd (snd res), http_errno := e'\<rparr>"
proof -
  obtain rv ps d where res: "res = (rv, ps, d)" by (cases res)
  have "\<exists>e'. called e res q = q\<lparr>hp_data := d, http_errno := e'\<rparr>"
    by (cases q) (auto simp: called_def res Let_def SET_ERRNO_def)
  moreover have "q\<lparr>hp_data := d, http_errno := HPE_OK\<rparr> = q\<lparr>hp_data := d\<rparr>"
    using assms by (cases q) simp
  ultimately show ?thesis using that by (metis res snd_conv)
qed

lemma post_CALLBACK_NOTIFY:
  assumes "http_errno (parser r) \<noteq> HPE_OK \<Longrightarrow> F"
    and "\<And>d. http_errno (parser r) = HPE_OK \<Longrightarrow> post F P (k (upd (hp_data_update (\<lambda>_. d)) r))"
    and "\<And>d e. http_errno (parser r) = HPE_OK \<Longrightarrow> e \<noteq> HPE_OK \<Longrightarrow>
           P (Return ret ((parser r)\<lparr>hp_data := d, http_errno := e\<rparr>))"
  shows "post F P (CALLBACK_NOTIFY cb e ret r k)"
proof (cases "http_errno (parser r) = HPE_OK")
  case ok: True
  show ?thesis
  proof (cases cb)
    case None
    have "upd (hp_data_update (\<lambda>_. hp_data (parser r))) r = r" by (simp add: upd_def)
    with assms(2) [OF ok, of "hp_data (parser r)"] None ok show ?thesis
      by (simp add: CALLBACK_NOTIFY_def)
  next
    case (Some f)
    from ok show ?thesis
    proof (cases rule: called_form [where e = e and res = "f (parser r)"])
      case 1
      then have "upd (\<lambda>q. called e (f q) q) r = upd (hp_data_update (\<lambda>_. snd (snd (f (parser r))))) r"
        by (simp add: upd_def)
      with Some ok assms(2) [OF ok, of "snd (snd (f (parser r)))"] show ?thesis
        by (simp add: CALLBACK_NOTIFY_def Let_def) (simp add: upd_def)
    next
      case (2 e')
      with Some ok assms(3) [OF ok, of e' "snd (snd (f (parser r)))"] show ?thesis
        by (simp add: CALLBACK_NOTIFY_def Let_def upd_def)
    qed
  qed
qed (simp add: CALLBACK_NOTIFY_def assms(1))

lemma post_CALLBACK_DATA_ends:
  assumes "http_errno (parser r) \<noteq> HPE_OK \<Longrightarrow> F"
    and "\<And>d. http_errno (parser r) = HPE_OK \<Longrightarrow>
           post F P (k ((upd (hp_data_update (\<lambda>_. d)) r)\<lparr>marks := (marks r)(m := None)\<rparr>))"
    and "\<And>d e. http_errno (parser r) = HPE_OK \<Longrightarrow> e \<noteq> HPE_OK \<Longrightarrow>
           P (Return ret ((parser r)\<lparr>hp_data := d, http_errno := e\<rparr>))"
  shows "post F P (CALLBACK_DATA_ends st data m til ret r k)"
proof (cases "http_errno (parser r) = HPE_OK")
  case ok: True
  note same = assms(2) [OF ok, of "hp_data (parser r)"]
  show ?thesis
  proof (cases "marks r m")
    case None
    then have "r\<lparr>marks := (marks r)(m := None)\<rparr> = r" by (simp add: fun_upd_idem)
    with same None ok show ?thesis by (simp add: CALLBACK_DATA_ends_def upd_def)
  next
    case mi: (Some i)
    show ?thesis
    proof (cases "data_cb st m")
      case None
      with same mi ok show ?thesis by (simp add: CALLBACK_DATA_ends_def upd_def)
    next
      case (Some f)
      define res where "res = f (parser r) i (take (til - i) (drop i data))"
      from ok show ?thesis
      proof (cases rule: called_form [where e = "data_errno m" and res = res])
        case 1
        with Some mi ok assms(2) [OF ok, of "snd (snd res)"] show ?thesis
          by (simp add: CALLBACK_DATA_ends_def Let_def upd_def res_def [symmetric])
      next
        case (2 e')
        with Some mi ok assms(3) [OF ok, of e' "snd (snd res)"] show ?thesis
          by (simp add: CALLBACK_DATA_ends_def Let_def upd_def res_def [symmetric])
      qed
    qed
  qed
qed (simp add: CALLBACK_DATA_ends_def assms(1))

lemmas hp_case_defs [hp_defs] =
  case_dead_def case_start_req_or_res_def case_res_or_resp_H_def case_start_res_def case_letter_def
  case_res_first_http_major_def case_http_major_def case_first_http_minor_def case_res_http_minor_def case_res_first_status_code_def
  case_res_status_code_def case_res_status_def case_res_line_almost_done_def case_start_req_def case_req_method_def
  case_req_spaces_before_url_def case_req_schema_def case_req_url_def case_req_http_start_def case_req_first_http_major_def
  case_req_http_minor_def case_req_line_almost_done_def case_header_field_start_def case_header_field_def case_header_value_start_def
  case_header_value_def case_header_almost_done_def case_header_value_lws_def case_headers_almost_done_def case_headers_done_def
  case_body_identity_def case_body_identity_eof_def case_message_done_def case_chunk_size_start_def case_chunk_size_def
  case_chunk_parameters_def case_chunk_size_almost_done_def case_chunk_data_def case_chunk_data_almost_done_def case_chunk_data_done_def

lemmas hp_step_defs [hp_defs] =
  url_step_def next_letter_def minor_digit_def header_field_char_def header_value_first_def header_value_char_def
  content_length_digit_def take_body_def to_read_def

lemmas hp_macro_defs =
  notify_begin_def notify_complete_def CALLBACK_DATA_def CALLBACK_DATA_NOADVANCE_def

text \<open>
  A byte is executed again at most four times: the states between which \<^verbatim>\<open>goto reexecute_byte\<close>
  leads have decreasing ranks. No case moves the position back or beyond the data.
\<close>

definition rank :: "state \<Rightarrow> nat" where
  "rank s =
     (case s of
        s_header_value_lws \<Rightarrow> 4
      | s_header_field_start \<Rightarrow> 3
      | s_headers_almost_done \<Rightarrow> 2
      | s_header_value \<Rightarrow> 2
      | s_headers_done \<Rightarrow> 1
      | s_header_almost_done \<Rightarrow> 1
      | s_start_req_or_res \<Rightarrow> 1
      | s_body_identity \<Rightarrow> 1
      | _ \<Rightarrow> 0)"

definition progress :: "string \<Rightarrow> 'd hp_run \<Rightarrow> 'd hp_next \<Rightarrow> bool" where
  "progress data r n =
     (case n of
        Break r' \<Rightarrow> pos r < length data \<longrightarrow> pos r \<le> pos r' \<and> pos r' < length data
      | Reexecute r' \<Rightarrow> rank (hp_state (parser r')) < rank (hp_state (parser r)) \<and>
          (pos r < length data \<longrightarrow> pos r \<le> pos r' \<and> pos r' < length data)
      | Goto_error r' \<Rightarrow> pos r < length data \<longrightarrow> pos r' < length data
      | Return n q \<Rightarrow> pos r < length data \<longrightarrow> n \<le> length data)"

lemma progress_simps [simp]:
  "progress data r (Break r') \<longleftrightarrow> (pos r < length data \<longrightarrow> pos r \<le> pos r' \<and> pos r' < length data)"
  "progress data r (Reexecute r') \<longleftrightarrow> rank (hp_state (parser r')) < rank (hp_state (parser r)) \<and>
     (pos r < length data \<longrightarrow> pos r \<le> pos r' \<and> pos r' < length data)"
  "progress data r (Goto_error r') \<longleftrightarrow> (pos r < length data \<longrightarrow> pos r' < length data)"
  "progress data r (Return n q) \<longleftrightarrow> (pos r < length data \<longrightarrow> n \<le> length data)"
  by (simp_all add: progress_def)

lemma unat_pos: "w \<noteq> 0 \<Longrightarrow> 0 < unat w"
  for w :: "'a::len word"
  by (simp add: unat_gt_0)

lemma upd_simps [simp]:
  "parser (upd f r) = f (parser r)" "pos (upd f r) = pos r" "marks (upd f r) = marks r"
  by (simp_all add: upd_def)

lemma goto_state_simps [simp]:
  "parser (goto_state s r) = (parser r)\<lparr>hp_state := s\<rparr>" "pos (goto_state s r) = pos r"
  "marks (goto_state s r) = marks r"
  by (simp_all add: goto_state_def)

lemma MARK_simps [simp]:
  "parser (MARK m r) = parser r" "pos (MARK m r) = pos r"
  "marks (MARK m r) = (if marks r m = None then (marks r)(m := Some (pos r)) else marks r)"
  by (simp_all add: MARK_def)

lemma new_message_simps [simp]:
  "parser (new_message r) = (parser r)\<lparr>hp_state := NEW_MESSAGE (parser r)\<rparr>" "pos (new_message r) = pos r"
  "marks (new_message r) = marks r"
  by (simp_all add: new_message_def)

lemma header_chars_progress:
  "post True (progress data r) (header_field_char ch c r)"
  "post True (progress data r) (header_value_char ch r)"
  by (cases "header_state (parser r)";
      simp add: header_field_char_def header_value_char_def content_length_digit_def Let_def)+

lemma header_value_first_progress:
  "pos r' = pos r \<Longrightarrow> post True (progress data r) (header_value_first ch r')"
  by (cases "header_state (parser r')"; simp add: header_value_first_def Let_def)

lemma take_body_pos:
  assumes "content_length (parser r) \<noteq> 0" "pos r < length data"
  shows "pos r \<le> pos (take_body data r)" "pos (take_body data r) < length data"
  using assms unat_pos [OF assms(1)] by (auto simp: take_body_def to_read_def Let_def)

lemma called_zero [simp]:
  "called e (0, paused, d) q = (if paused then q\<lparr>hp_data := d, http_errno := HPE_PAUSED\<rparr> else q\<lparr>hp_data := d\<rparr>)"
  by (simp add: called_def Let_def SET_ERRNO_def)

lemma exec_case_progress: "post True (progress data r) (exec_case st data ch r)"
proof (cases "hp_state (parser r)")
  case s_body_identity
  then show ?thesis
    using take_body_pos [of r data]
    by (cases "pos r < length data")
      (auto simp: exec_case_def case_body_identity_def Let_def rank_def intro!: post_CALLBACK_DATA_ends)
next
  case s_chunk_data
  then show ?thesis
    using take_body_pos [of r data]
    by (cases "pos r < length data")
      (auto simp: exec_case_def case_chunk_data_def Let_def)
next
  case s_body_identity_eof
  then show ?thesis by (auto simp: exec_case_def case_body_identity_eof_def)
qed (simp_all add: exec_case_def hp_case_defs hp_macro_defs rank_def Let_def header_chars_progress
   header_value_first_progress post_CALLBACK_NOTIFY post_CALLBACK_DATA_ends
   url_step_def next_letter_def minor_digit_def rbind_def  split: option.splits prod.splits sum.splits)

subsection \<open>The loop\<close>

text \<open>How a byte is left once it is not executed again.\<close>

datatype 'd hp_left = Next "'d hp_run" | Error "'d hp_run" | Returned nat "'d http_parser"

function exec_byte :: "'d http_parser_settings \<Rightarrow> string \<Rightarrow> char \<Rightarrow> 'd hp_run \<Rightarrow> hp_fault + 'd hp_left" where
  "exec_byte st data ch r =
     rbind (exec_case st data ch r) (\<lambda>n.
       case n of
         Break r' \<Rightarrow> Inr (Next r')
       | Reexecute r' \<Rightarrow> exec_byte st data ch r'
       | Goto_error r' \<Rightarrow> Inr (Error r')
       | Return k q \<Rightarrow> Inr (Returned k q))"
  by pat_completeness auto
termination
proof (relation "measure (\<lambda>(st, data, ch, r). rank (hp_state (parser r)))")
  show "((st, data, ch, r'), (st, data, ch, r)) \<in> measure (\<lambda>(st, data, ch, r). rank (hp_state (parser r)))"
    if "exec_case st data ch r = Inr n" "n = Reexecute r'"
    for st :: "'d http_parser_settings" and data ch r n r'
    using exec_case_progress [of data r st ch] that by simp
qed simp

declare exec_byte.simps [simp del]

lemma exec_byte_progress:
  assumes "exec_byte st data ch r = Inr l" and "pos r < length data"
  shows "case l of
      Next r' \<Rightarrow> pos r \<le> pos r' \<and> pos r' < length data
    | Error r' \<Rightarrow> pos r' < length data
    | Returned n q \<Rightarrow> n \<le> length data"
  using assms
proof (induction st data ch r arbitrary: l rule: exec_byte.induct)
  case (1 st data ch r)
  from "1.prems"(1) obtain n where n: "exec_case st data ch r = Inr n"
    by (subst (asm) exec_byte.simps) (auto simp: rbind_eq_Inr)
  note prog = exec_case_progress [of data r st ch, unfolded n, simplified]
  show ?case
  proof (cases n)
    case (Reexecute r')
    with "1.prems" n have "exec_byte st data ch r' = Inr l" by (simp add: exec_byte.simps [of st data ch r])
    with "1.IH" [OF n Reexecute this] prog "1.prems"(2) Reexecute show ?thesis
      by (auto split: hp_left.splits)
  qed (use "1.prems" n prog in \<open>auto simp: exec_byte.simps [of st data ch r]\<close>)
qed

text \<open>The label \<^verbatim>\<open>error\<close>, and the callbacks for the marks that are left when the bytes are used up.\<close>

definition at_error :: "'d hp_run \<Rightarrow> nat \<times> 'd http_parser" where
  "at_error r =
     (pos r, if http_errno (parser r) = HPE_OK then SET_ERRNO HPE_UNKNOWN (parser r) else parser r)"

definition marks_set :: "'d hp_run \<Rightarrow> nat" where
  "marks_set r = length (filter (\<lambda>m. marks r m \<noteq> None) [M_header_field, M_header_value, M_url, M_body])"

definition leftover :: "'d http_parser_settings \<Rightarrow> string \<Rightarrow> 'd hp_run \<Rightarrow> 'd hp_result" where
  "leftover st data r =
     assert (marks_set r \<le> 1)
       (CALLBACK_DATA_NOADVANCE st data M_header_field r (\<lambda>r.
          CALLBACK_DATA_NOADVANCE st data M_header_value r (\<lambda>r.
            CALLBACK_DATA_NOADVANCE st data M_url r (\<lambda>r.
              CALLBACK_DATA_NOADVANCE st data M_body r (\<lambda>r.
                Inr (Return (length data) (parser r)))))))"

text \<open>The result of the C function: the number of bytes it reports and the parser as it leaves it.\<close>

primrec left_with :: "'d hp_next \<Rightarrow> nat \<times> 'd http_parser" where
  "left_with (Return k q) = (k, q)"
| "left_with (Goto_error r) = at_error r"
| "left_with (Break r) = (pos r, parser r)"
| "left_with (Reexecute r) = (pos r, parser r)"

definition returned :: "'d hp_result \<Rightarrow> hp_fault + nat \<times> 'd http_parser" where
  "returned m = map_sum id left_with m"

text \<open>The count of the header bytes, which comes before the switch.\<close>

definition count_byte :: "'d hp_run \<Rightarrow> 'd hp_run" where
  "count_byte r = (if PARSING_HEADER (hp_state (parser r)) then upd (nread_update (\<lambda>n. n + 1)) r else r)"

definition header_overflow :: "'d hp_run \<Rightarrow> bool" where
  "header_overflow r \<longleftrightarrow> PARSING_HEADER (hp_state (parser r)) \<and> nread (parser r) > HTTP_MAX_HEADER_SIZE"

function exec_loop :: "'d http_parser_settings \<Rightarrow> string \<Rightarrow> 'd hp_run \<Rightarrow> hp_fault + nat \<times> 'd http_parser" where
  "exec_loop st data r =
     (if pos r = length data then returned (leftover st data r)
      else if length data < pos r then Inl Data_overrun
      else let ch = data ! pos r; r1 = count_byte r in
        if header_overflow r1 then Inr (at_error (upd (SET_ERRNO HPE_HEADER_OVERFLOW) r1))
        else rbind (exec_byte st data ch r1) (\<lambda>l.
          case l of
            Next r2 \<Rightarrow> exec_loop st data (r2\<lparr>pos := pos r2 + 1\<rparr>)
          | Error r2 \<Rightarrow> Inr (at_error r2)
          | Returned n q \<Rightarrow> Inr (n, q)))"
  by pat_completeness auto
termination
proof (relation "measure (\<lambda>(st, data, r). length data - pos r)")
  show "((st, data, r2\<lparr>pos := pos r2 + 1\<rparr>), (st, data, r)) \<in> measure (\<lambda>(st, data, r). length data - pos r)"
    if "pos r \<noteq> length data" "\<not> length data < pos r" "exec_byte st data ch r1 = Inr l" "l = Next r2" "r1 = count_byte r"
    for st :: "'d http_parser_settings" and data ch r r1 l r2
    using exec_byte_progress [of st data ch r1 l] that by (auto simp: count_byte_def split: if_splits)
qed simp

declare exec_loop.simps [simp del]

definition url_states :: "state set" where
  "url_states = {s_req_path, s_req_schema, s_req_schema_slash, s_req_schema_slash_slash, s_req_server_start, s_req_server,
     s_req_server_with_at, s_req_query_string_start, s_req_query_string, s_req_fragment_start, s_req_fragment}"

definition initial_marks :: "state \<Rightarrow> mark \<Rightarrow> nat option" where
  "initial_marks s =
     (\<lambda>_. None)(M_header_field := if s = s_header_field then Some 0 else None,
               M_header_value := if s = s_header_value then Some 0 else None,
               M_url := if s \<in> url_states then Some 0 else None)"

definition start_run :: "'d http_parser \<Rightarrow> 'd hp_run" where
  "start_run q = \<lparr>parser = q, pos = 0, marks = initial_marks (hp_state q)\<rparr>"

definition at_eof :: "'d http_parser_settings \<Rightarrow> 'd http_parser \<Rightarrow> 'd hp_result" where
  "at_eof st q =
     (if hp_state q = s_body_identity_eof
      then CALLBACK_NOTIFY (on_message_complete st) HPE_CB_message_complete 0 (start_run q)
             (\<lambda>r. Inr (Return 0 (parser r)))
      else if hp_state q \<in> {s_dead, s_start_req_or_res, s_start_res, s_start_req} then Inr (Return 0 q)
      else Inr (Return 1 (SET_ERRNO HPE_INVALID_EOF_STATE q)))"

definition http_parser_execute ::
  "'d http_parser_settings \<Rightarrow> 'd http_parser \<Rightarrow> string \<Rightarrow> hp_fault + nat \<times> 'd http_parser" where
  "http_parser_execute st q data =
     (if http_errno q \<noteq> HPE_OK then Inr (0, q)
      else if data = [] then returned (at_eof st q)
      else exec_loop st data (start_run q))"

end
