(* ===== verification/HP_Safe.thy ===== *)
theory HP_Safe
  imports HP_Loop
begin

section \<open>The HTTP parser: no assertion fails\<close>

text \<open>
  The invariant of the parser between two bytes, its preservation by every case of the switch whatever
  the callbacks do, and what follows for any history of calls: no \<^verbatim>\<open>assert\<close> fails, no keyword is
  read beyond its end, and no call reports more bytes than it was given.
\<close>

subsection \<open>Invariants\<close>

definition field_states :: "header_states set" where
  "field_states = {h_general, h_C, h_CO, h_CON, h_matching_connection, h_matching_proxy_connection,
     h_matching_content_length, h_matching_transfer_encoding, h_matching_upgrade, h_connection, h_content_length,
     h_transfer_encoding, h_upgrade}"

text \<open>
  \<open>k\<close> is the value of \<^verbatim>\<open>nread\<close> at the start of a chunk size: 0 between bytes, 1 in the switch.
\<close>

definition pinv :: "u32 \<Rightarrow> 'd http_parser \<Rightarrow> bool" where
  "pinv k q \<longleftrightarrow> nread q \<le> HTTP_MAX_HEADER_SIZE \<and>
     (let s = hp_state q; n = content_length q in
      (s = s_req_method \<longrightarrow> 1 \<le> unat (hp_index q) \<and> unat (hp_index q) \<le> length (method_strings (hp_method q))) \<and>
      (s = s_header_field \<longrightarrow> header_state q \<in> field_states) \<and>
      (s = s_header_value \<longrightarrow> header_state q \<notin> {h_connection, h_transfer_encoding}) \<and>
      (s = s_chunk_size_start \<longrightarrow> nread q = k) \<and>
      (s \<in> {s_chunk_size_start, s_chunk_size, s_chunk_parameters, s_chunk_size_almost_done, s_chunk_data,
            s_chunk_data_almost_done, s_chunk_data_done} \<longrightarrow> flag_set (hp_flags q) F_CHUNKED) \<and>
      (s \<in> {s_body_identity, s_chunk_data} \<longrightarrow> n \<noteq> 0 \<and> n \<noteq> ULLONG_MAX) \<and>
      (s \<in> {s_chunk_size, s_chunk_parameters, s_chunk_size_almost_done} \<longrightarrow> n \<noteq> ULLONG_MAX) \<and>
      (s = s_chunk_data_almost_done \<longrightarrow> n = 0))"

text \<open>A mark that is set says in which states the parser can be: at most one is set.\<close>

definition minv :: "'d hp_run \<Rightarrow> bool" where
  "minv r \<longleftrightarrow>
     (let s = hp_state (parser r) in
      (marks r M_header_field \<noteq> None \<longrightarrow> s = s_header_field) \<and>
      (marks r M_header_value \<noteq> None \<longrightarrow> s = s_header_value) \<and>
      (marks r M_url \<noteq> None \<longrightarrow> s \<in> url_states) \<and>
      (marks r M_body \<noteq> None \<longrightarrow> s \<in> {s_body_identity, s_body_identity_eof, s_chunk_data, s_chunk_data_almost_done}))"

definition good :: "u32 \<Rightarrow> 'd hp_run \<Rightarrow> bool" where
  "good k r \<longleftrightarrow> http_errno (parser r) = HPE_OK \<and> pinv k (parser r) \<and> minv r"

definition resumable :: "'d http_parser \<Rightarrow> bool" where
  "resumable q \<longleftrightarrow> (http_errno q = HPE_OK \<or> http_errno q = HPE_PAUSED \<longrightarrow> pinv 0 q)"

definition safe_next :: "'d hp_next \<Rightarrow> bool" where
  "safe_next n =
     (case n of
        Break r \<Rightarrow> good 0 r
      | Reexecute r \<Rightarrow> good 1 r
      | Goto_error r \<Rightarrow> http_errno (parser r) \<noteq> HPE_PAUSED
      | Return k q \<Rightarrow> resumable q)"

lemma safe_next_simps [simp]:
  "safe_next (Break r) \<longleftrightarrow> good 0 r"
  "safe_next (Reexecute r) \<longleftrightarrow> good 1 r"
  "safe_next (Goto_error r) \<longleftrightarrow> http_errno (parser r) \<noteq> HPE_PAUSED"
  "safe_next (Return k q) \<longleftrightarrow> resumable q"
  by (simp_all add: safe_next_def)

text \<open>The invariants do not look at the callbacks' data.\<close>

lemma pinv_data [simp]: "pinv k (q\<lparr>hp_data := d\<rparr>) = pinv k q"
  "pinv k (q\<lparr>http_errno := e\<rparr>) = pinv k q" "pinv k (SET_ERRNO e q) = pinv k q"
  by (simp_all add: pinv_def SET_ERRNO_def)

subsection \<open>The flags\<close>

lemma flag_set_or: "flag_set (f OR g) h \<longleftrightarrow> flag_set f h \<or> flag_set g h"
proof -
  have "(f OR g) AND h = (f AND h) OR (g AND h)" by (simp add: bit.conj_disj_distrib2)
  then show ?thesis by (auto simp: flag_set_def or_eq_0_iff)
qed

lemmas flag_defs = F_CHUNKED_def F_CONNECTION_KEEP_ALIVE_def F_CONNECTION_CLOSE_def F_TRAILING_def F_UPGRADE_def
  F_SKIPBODY_def

lemma flag_set_0 [simp]: "\<not> flag_set 0 h"
  by (simp add: flag_set_def)

subsection \<open>The cases keep the invariants\<close>

lemma parse_url_char_range: "parse_url_char s ch = s_dead \<or> parse_url_char s ch \<in> url_states"
  by (cases s) (auto simp: parse_url_char_def url_server_def url_query_def url_states_def)

lemma parse_url_char_url: "parse_url_char s ch \<noteq> s_dead \<Longrightarrow> parse_url_char s ch \<in> url_states"
  using parse_url_char_range by blast

lemma pinv_url: "nread q \<le> HTTP_MAX_HEADER_SIZE \<Longrightarrow> hp_state q \<in> url_states \<Longrightarrow> pinv k q"
  by (auto simp: pinv_def url_states_def Let_def)

lemma NEW_MESSAGE_range: "NEW_MESSAGE q \<in> {s_dead, s_start_req, s_start_res}"
  by (simp add: NEW_MESSAGE_def start_state_def)

lemma pinv_NEW_MESSAGE:
  "nread q \<le> HTTP_MAX_HEADER_SIZE \<Longrightarrow> hp_state q \<in> {s_dead, s_start_req, s_start_res} \<Longrightarrow> pinv k q"
  by (auto simp: pinv_def Let_def)

lemma match_keyword_fields [simp]:
  "http_errno (match_keyword kw h c q) = http_errno q" "hp_state (match_keyword kw h c q) = hp_state q"
  "nread (match_keyword kw h c q) = nread q" "hp_flags (match_keyword kw h c q) = hp_flags q"
  "content_length (match_keyword kw h c q) = content_length q"
  by (simp_all add: match_keyword_def Let_def)

lemma match_keyword_state: "header_state (match_keyword kw h c q) \<in> {h_general, h, header_state q}"
  by (simp add: match_keyword_def Let_def)

lemma url_step_safe:
  assumes "http_errno (parser r) = HPE_OK" "nread (parser r) \<le> HTTP_MAX_HEADER_SIZE"
    and "marks r M_header_field = None" "marks r M_header_value = None" "marks r M_body = None"
  shows "post False safe_next (url_step ch r)"
  using assms parse_url_char_url [of "hp_state (parser r)" ch]
  by (simp add: url_step_def Let_def good_def minv_def pinv_url SET_ERRNO_def)

lemma header_field_char_safe:
  assumes "good 1 r" "hp_state (parser r) = s_header_field"
  shows "post False safe_next (header_field_char ch c r)"
proof -
  have "header_state (parser r) \<in> field_states" using assms by (simp add: good_def pinv_def)
  with assms show ?thesis
    by (cases "header_state (parser r)")
      (simp_all add: header_field_char_def good_def pinv_def minv_def Let_def field_states_def field_letter_def
        match_keyword_def)
qed

lemma header_value_char_safe:
  assumes "good 1 r" "hp_state (parser r) = s_header_value"
  shows "post False safe_next (header_value_char ch r)"
  using assms
  by (cases "header_state (parser r)")
    (simp_all add: header_value_char_def content_length_digit_def good_def pinv_def minv_def Let_def match_keyword_def
      SET_ERRNO_def)

lemma header_value_first_safe:
  assumes "http_errno (parser r) = HPE_OK" "nread (parser r) \<le> HTTP_MAX_HEADER_SIZE" "minv r"
    and "hp_state (parser r) = s_header_value"
  shows "post False safe_next (header_value_first ch r)"
  using assms
  by (cases "header_state (parser r)")
    (simp_all add: header_value_first_def good_def pinv_def minv_def Let_def SET_ERRNO_def)

lemma other_method_longer:
  assumes "other_method m i ch = Inr m'" "1 \<le> i" "i < length (method_strings m)"
  shows "i < length (method_strings m')"
  using assms by (auto simp: other_method_def split: if_splits)

lemma method_strings_length: "3 \<le> length (method_strings m)" "length (method_strings m) \<le> 11"
  by (cases m; simp)+

lemma other_method_end: "other_method m (length (method_strings m)) ch \<noteq> Inr m'"
  by (cases m) (simp_all add: other_method_def)

lemma other_method_error: "other_method m i ch = Inl e \<Longrightarrow> e \<noteq> HPE_PAUSED"
  by (auto simp: other_method_def split: if_splits)

lemma next_letter_safe:
  assumes "http_errno (parser r) = HPE_OK" "nread (parser r) \<le> HTTP_MAX_HEADER_SIZE" "minv r"
    and "hp_state (parser r) \<in> {s_req_method, s_req_spaces_before_url}"
    and "hp_state (parser r) = s_req_method \<Longrightarrow> unat (hp_index (parser r)) < length (method_strings (hp_method (parser r)))"
  shows "post False safe_next (next_letter r)"
proof (cases "hp_state (parser r) = s_req_method")
  case True
  have "unat (hp_index (parser r) + 1) = unat (hp_index (parser r)) + 1"
    using assms(5) [OF True] method_strings_length(2) [of "hp_method (parser r)"]
    by (subst unat_add_lem [THEN iffD1]) simp_all
  with assms(1-3) assms(5) [OF True] True show ?thesis
    by (simp add: next_letter_def good_def pinv_def minv_def Let_def)
next
  case False
  with assms(4) have "hp_state (parser r) = s_req_spaces_before_url" by simp
  with assms(1-3) show ?thesis
    by (simp add: next_letter_def good_def pinv_def minv_def Let_def)
qed

lemma SET_ERRNO_fields [simp]: "http_errno (SET_ERRNO e q) = e" "hp_state (SET_ERRNO e q) = hp_state q"
  by (simp_all add: SET_ERRNO_def)

lemma case_req_method_safe:
  assumes g: "good 1 r" and s: "hp_state (parser r) = s_req_method"
  shows "post False safe_next (case_req_method ch r)"
proof -
  define i where "i = unat (hp_index (parser r))"
  define m where "m = hp_method (parser r)"
  have i: "1 \<le> i" "i \<le> length (method_strings m)" using g s by (auto simp: good_def pinv_def i_def m_def)
  have base: "http_errno (parser r) = HPE_OK" "nread (parser r) \<le> HTTP_MAX_HEADER_SIZE" "minv r"
    using g by (simp_all add: good_def pinv_def)
  have unmarked: "minv (goto_state s_req_spaces_before_url r)"
    using base(3) s by (simp add: minv_def Let_def url_states_def)
  have space: "post False safe_next (next_letter (goto_state s_req_spaces_before_url r))"
    using base unmarked by (intro next_letter_safe) simp_all
  obtain c where c: "c_str_at (method_strings m) i = Inr c" and
    end_c: "i = length (method_strings m) \<Longrightarrow> c = NUL"
    using i(2) by (cases "i = length (method_strings m)") (simp_all add: c_str_at_def)
  have lt: "i < length (method_strings m)" if "i \<noteq> length (method_strings m)" using that i by simp
  have same: "post False safe_next (next_letter r)" if "i \<noteq> length (method_strings m)"
    using base s lt [OF that] by (intro next_letter_safe) (simp_all add: i_def m_def)
  have other: "post False safe_next (next_letter (upd (hp_method_update (\<lambda>_. m')) r))"
    if "other_method m i ch = Inr m'" for m'
  proof -
    have "i \<noteq> length (method_strings m)" using that other_method_end by metis
    then show ?thesis using base s other_method_longer [OF that i(1) lt]
      by (intro next_letter_safe) (simp_all add: i_def minv_def)
  qed
  show ?thesis
  proof (cases "other_method m i ch")
    case (Inl e)
    have "e \<noteq> HPE_PAUSED" using Inl by (rule other_method_error)
    with Inl base(1) space same end_c c show ?thesis
      by (auto simp: case_req_method_def Let_def i_def [symmetric] m_def [symmetric])
  next
    case (Inr m')
    with space same end_c c other [OF Inr] show ?thesis
      by (auto simp: case_req_method_def Let_def i_def [symmetric] m_def [symmetric])
  qed
qed

text \<open>A callback that fails or pauses leaves a parser that satisfies the invariant.\<close>

lemma notify_safe:
  assumes "http_errno (parser r) = HPE_OK" "pinv 0 (parser r)"
    and "\<And>d. post False safe_next (k (upd (hp_data_update (\<lambda>_. d)) r))"
  shows "post False safe_next (CALLBACK_NOTIFY cb e ret r k)"
  using assms by (intro post_CALLBACK_NOTIFY) (simp_all add: resumable_def)

lemma data_safe:
  assumes "http_errno (parser r) = HPE_OK" "pinv 0 (parser r)"
    and "\<And>d. post False safe_next (k ((upd (hp_data_update (\<lambda>_. d)) r)\<lparr>marks := (marks r)(m := None)\<rparr>))"
  shows "post False safe_next (CALLBACK_DATA_ends st data m til ret r k)"
  using assms by (intro post_CALLBACK_DATA_ends) (simp_all add: resumable_def)

lemmas inv_defs = good_def pinv_def minv_def Let_def

lemma goodD:
  assumes "good k r"
  shows "http_errno (parser r) = HPE_OK" "nread (parser r) \<le> HTTP_MAX_HEADER_SIZE"
    and "hp_state (parser r) \<noteq> s_header_field \<Longrightarrow> marks r M_header_field = None"
    and "hp_state (parser r) \<noteq> s_header_value \<Longrightarrow> marks r M_header_value = None"
    and "hp_state (parser r) \<notin> url_states \<Longrightarrow> marks r M_url = None"
    and "hp_state (parser r) \<notin> {s_body_identity, s_body_identity_eof, s_chunk_data, s_chunk_data_almost_done} \<Longrightarrow>
      marks r M_body = None"
  using assms by (auto simp: good_def pinv_def minv_def Let_def)


definition unmarked :: "'d hp_run \<Rightarrow> bool" where
  "unmarked r \<longleftrightarrow> (\<forall>m. marks r m = None)"

lemma unmarked_iff:
  "unmarked r \<longleftrightarrow> marks r M_header_field = None \<and> marks r M_header_value = None \<and> marks r M_url = None \<and> marks r M_body = None"
  by (metis mark.exhaust unmarked_def)

lemma complete_safe:
  assumes "http_errno (parser r) = HPE_OK" "nread (parser r) \<le> HTTP_MAX_HEADER_SIZE" "unmarked r"
    and "\<And>r'. good 0 r' \<Longrightarrow> post False safe_next (k r')"
  shows "post False safe_next (notify_complete st (new_message r) k)"
proof -
  have "pinv 0 (parser (new_message r))"
    using assms(2) NEW_MESSAGE_range [of "parser r"] by (intro pinv_NEW_MESSAGE) simp_all
  with assms show ?thesis unfolding notify_complete_def
    by (intro notify_safe assms(4)) (simp_all add: good_def minv_def unmarked_iff)
qed



lemma complete_break_safe:
  assumes "http_errno (parser r) = HPE_OK" "nread (parser r) \<le> HTTP_MAX_HEADER_SIZE" "unmarked r"
  shows "post False safe_next (notify_complete st (new_message r) break)"
  using assms by (rule complete_safe) simp

lemma headers_almost_done_safe:
  assumes "good 1 r" "hp_state (parser r) = s_headers_almost_done"
  shows "post False safe_next (case_headers_almost_done st ch r)"
proof -
  have u: "unmarked r" using assms goodD [OF assms(1)] by (simp add: unmarked_iff url_states_def)
  have b: "good 1 r'" if "http_errno (parser r') = HPE_OK" "nread (parser r') = nread (parser r)" "marks r' = marks r"
    "hp_state (parser r') = s_headers_done" for r'
    using that u goodD(2) [OF assms(1)] by (simp add: inv_defs unmarked_iff)
  have c: "pinv 0 q" if "nread q = nread (parser r)" "hp_state q = s_headers_done" for q
    using that goodD(2) [OF assms(1)] by (simp add: inv_defs unmarked_iff)
  show ?thesis
    using goodD(1,2) [OF assms(1)] u 
    by (simp add: case_headers_almost_done_def b c complete_break_safe resumable_def Let_def split: option.split prod.split)
qed

lemma headers_done_safe:
  assumes "good 1 r" "hp_state (parser r) = s_headers_done"
  shows "post False safe_next (case_headers_done st ch r)"
proof -
  have u: "unmarked r" using assms goodD [OF assms(1)] by (simp add: unmarked_iff url_states_def)
  let ?r = "upd (nread_update (\<lambda>_. 0)) r"
  have u': "unmarked ?r" using u by (simp add: unmarked_iff)
  have "post False safe_next (notify_complete st (new_message ?r) (\<lambda>r2. Inr (Return (pos r2 + 1) (parser r2))))"
   using u' goodD(1) [OF assms(1)] by (intro complete_safe) (simp_all add: resumable_def good_def)
  then show ?thesis
    using goodD(1,2) [OF assms(1)] u u'
    by (simp add: case_headers_done_def complete_break_safe Let_def inv_defs unmarked_iff)
qed


lemma to_read_le: "to_read data r \<le> unat (content_length (parser r))"
  by (simp add: to_read_def)

lemma take_body_simps [simp]:
  "http_errno (parser (take_body data r)) = http_errno (parser r)"
  "hp_state (parser (take_body data r)) = hp_state (parser r)"
  "nread (parser (take_body data r)) = nread (parser r)"
  "hp_flags (parser (take_body data r)) = hp_flags (parser r)"
  "marks (take_body data r) = marks (MARK M_body r)"
  by (simp_all add: take_body_def Let_def)

lemma take_body_length:
  "unat (content_length (parser (take_body data r))) = unat (content_length (parser r)) - to_read data r"
proof -
  have "of_nat (to_read data r) \<le> content_length (parser r)"
    using to_read_le [of data r] by (simp add: word_le_nat_alt unat_of_nat order.strict_trans1 [OF _ unsigned_less])
  moreover have "unat (of_nat (to_read data r) :: u64) = to_read data r"
    using order.strict_trans1 [OF to_read_le [of data r] unsigned_less [of "content_length (parser r)"]]
    by (simp add: unat_of_nat)
  ultimately show ?thesis by (simp add: take_body_def Let_def unat_sub)
qed

lemma take_body_not_max:
  assumes "content_length (parser r) \<noteq> ULLONG_MAX"
  shows "content_length (parser (take_body data r)) \<noteq> ULLONG_MAX"
proof
  assume m: "content_length (parser (take_body data r)) = ULLONG_MAX"
  have "unat ULLONG_MAX \<le> unat (content_length (parser r))"
    using take_body_length [of data r] unfolding m by simp
  then have "ULLONG_MAX \<le> content_length (parser r)" by (simp add: word_le_nat_alt)
  with assms show False unfolding ULLONG_MAX_def by (metis word_order.extremum_uniqueI)
qed


lemma header_states_safe:
  assumes "good 1 r"
  shows "hp_state (parser r) = s_header_field \<Longrightarrow> post False safe_next (case_header_field st data ch r)"
    and "hp_state (parser r) = s_header_value \<Longrightarrow> post False safe_next (case_header_value st data ch r)"
    and "hp_state (parser r) = s_header_value_start \<Longrightarrow> post False safe_next (case_header_value_start st data ch r)"
  using goodD [OF assms] header_field_char_safe [OF assms] header_value_char_safe [OF assms]
  by (simp_all add: case_header_field_def case_header_value_def case_header_value_start_def hp_macro_defs inv_defs
      url_states_def data_safe header_value_first_safe)

lemma url_cases_safe:
  assumes "good 1 r"
  shows "hp_state (parser r) \<in> url_states \<Longrightarrow> post False safe_next (case_req_url st data ch r)"
    and "hp_state (parser r) \<in> url_states \<Longrightarrow> post False safe_next (case_req_schema ch r)"
    and "hp_state (parser r) = s_req_spaces_before_url \<Longrightarrow> post False safe_next (case_req_spaces_before_url ch r)"
proof -
  have u: "hp_state (parser r) \<in> url_states \<Longrightarrow> marks r M_header_field = None \<and> marks r M_header_value = None \<and> marks r M_body = None"
    using goodD(3,4,6) [OF assms] by (auto simp: url_states_def)
  show "hp_state (parser r) \<in> url_states \<Longrightarrow> post False safe_next (case_req_url st data ch r)"
   using u goodD(1,2) [OF assms] by (simp add: case_req_url_def hp_macro_defs inv_defs data_safe url_step_safe)
  show "hp_state (parser r) \<in> url_states \<Longrightarrow> post False safe_next (case_req_schema ch r)"
   using u goodD(1,2) [OF assms] by (simp add: case_req_schema_def url_step_safe)
  show "hp_state (parser r) = s_req_spaces_before_url \<Longrightarrow> post False safe_next (case_req_spaces_before_url ch r)"
   using assms goodD [OF assms] by (simp add: case_req_spaces_before_url_def url_step_safe Let_def inv_defs)
qed

lemma body_states_safe:
  assumes "good 1 r"
  shows "hp_state (parser r) = s_body_identity \<Longrightarrow> post False safe_next (case_body_identity st data r)"
    and "hp_state (parser r) = s_body_identity_eof \<Longrightarrow> post False safe_next (case_body_identity_eof data r)"
    and "hp_state (parser r) = s_message_done \<Longrightarrow> post False safe_next (case_message_done st r)"
  using assms goodD [OF assms] take_body_not_max [of r data]
  by (simp_all add: case_body_identity_def case_body_identity_eof_def case_message_done_def complete_break_safe unmarked_iff inv_defs
      url_states_def data_safe)

lemma unhex_at_range: "unhex_at c = -1 \<or> (0 \<le> unhex_at c \<and> unhex_at c \<le> 15)"
proof -
  have "list_all (\<lambda>x. x = -1 \<or> (0 \<le> x \<and> x \<le> 15)) unhex" by (simp add: unhex_def)
  moreover have "length unhex = 128" by (simp add: unhex_def)
  ultimately show ?thesis by (simp add: unhex_at_def list_all_length)
qed

lemma unhex_at_not_max: "unhex_at c \<noteq> -1 \<Longrightarrow> (of_int (unhex_at c) :: u64) \<noteq> ULLONG_MAX"
proof
  assume "unhex_at c \<noteq> -1" and m: "(of_int (unhex_at c) :: u64) = ULLONG_MAX"
  then have r: "0 \<le> unhex_at c" "unhex_at c \<le> 15" using unhex_at_range [of c] by auto
  then have "uint (of_int (unhex_at c) :: u64) = unhex_at c" by (simp add: unsigned_of_int take_bit_int_eq_self)
  with r show False unfolding m by (simp add: ULLONG_MAX_def unsigned_minus_1_eq_mask mask_eq_exp_minus_1)
qed

lemma chunk_states_safe:
  assumes "good 1 r"
  shows "hp_state (parser r) = s_chunk_size_start \<Longrightarrow> post False safe_next (case_chunk_size_start ch r)"
    and "hp_state (parser r) = s_chunk_size \<Longrightarrow> post False safe_next (case_chunk_size ch r)"
    and "hp_state (parser r) = s_chunk_parameters \<Longrightarrow> post False safe_next (case_chunk_parameters ch r)"
    and "hp_state (parser r) = s_chunk_size_almost_done \<Longrightarrow> post False safe_next (case_chunk_size_almost_done ch r)"
    and "hp_state (parser r) = s_chunk_data \<Longrightarrow> post False safe_next (case_chunk_data data r)"
    and "hp_state (parser r) = s_chunk_data_almost_done \<Longrightarrow> post False safe_next (case_chunk_data_almost_done st data ch r)"
    and "hp_state (parser r) = s_chunk_data_done \<Longrightarrow> post False safe_next (case_chunk_data_done ch r)"
  using assms goodD [OF assms] take_body_not_max [of r data]
  by (simp_all add: case_chunk_size_start_def case_chunk_size_def case_chunk_parameters_def case_chunk_size_almost_done_def
    case_chunk_data_def case_chunk_data_almost_done_def case_chunk_data_done_def hp_macro_defs inv_defs url_states_def data_safe
    unhex_at_not_max)

lemma start_states_safe:
  assumes "good 1 r"
  shows "hp_state (parser r) = s_start_req_or_res \<Longrightarrow> post False safe_next (case_start_req_or_res st ch r)"
    and "hp_state (parser r) = s_res_or_resp_H \<Longrightarrow> post False safe_next (case_res_or_resp_H ch r)"
    and "hp_state (parser r) = s_start_res \<Longrightarrow> post False safe_next (case_start_res st ch r)"
    and "hp_state (parser r) = s_start_req \<Longrightarrow> post False safe_next (case_start_req st ch r)"
  using goodD [OF assms] method_strings_length(1)
  by (simp_all add: case_start_req_or_res_def case_res_or_resp_H_def case_start_res_def case_start_req_def hp_macro_defs inv_defs
      fresh_message_def url_states_def notify_safe order.trans [OF _ method_strings_length(1)] split: option.split)

lemma exec_case_safe:
  assumes "good 1 r"
  shows "post False safe_next (exec_case st data ch r)"
proof -
  note url = url_cases_safe [OF assms, unfolded url_states_def, simplified]
  note special = header_states_safe [OF assms] body_states_safe [OF assms] chunk_states_safe [OF assms]
    start_states_safe [OF assms] case_req_method_safe [OF assms] headers_almost_done_safe [OF assms] headers_done_safe [OF assms]
  show ?thesis
   using goodD [OF assms]
   by (cases "hp_state (parser r)") (simp_all add: exec_case_def special url, simp_all add: hp_case_defs minor_digit_def inv_defs url_states_def field_states_def)
qed

subsection \<open>The loop keeps the invariants\<close>

lemma exec_byte_safe:
  assumes "good 1 r"
  obtains l where "exec_byte st data ch r = Inr l"
    and "case l of Next r' \<Rightarrow> good 0 r' | Error r' \<Rightarrow> http_errno (parser r') \<noteq> HPE_PAUSED | Returned n q \<Rightarrow> resumable q"
  using assms
proof (induction st data ch r arbitrary: thesis rule: exec_byte.induct)
  case (1 st data ch r)
  from exec_case_safe [OF "1.prems"(2), of st data ch] obtain n where
    n: "exec_case st data ch r = Inr n" "safe_next n"
    by (auto simp: post_def split: sum.splits)
  show ?case
  proof (cases n)
    case (Reexecute r')
    then have g: "good 1 r'" using n(2) by simp
    show ?thesis
      by (rule "1.IH" [OF n(1) Reexecute _ g]) (use "1.prems"(1) n Reexecute in \<open>simp add: exec_byte.simps [of st data ch r]\<close>)
  qed (use "1.prems"(1) n in \<open>simp_all add: exec_byte.simps [of st data ch r]\<close>)
qed

lemma good_marks_set:
  assumes "good k r"
  shows "marks_set r \<le> 1"
proof -
  define s where "s = hp_state (parser r)"
  have "minv r" using assms by (simp add: good_def)
  moreover have "s \<in> url_states \<Longrightarrow>
      s \<notin> {s_header_field, s_header_value, s_body_identity, s_body_identity_eof, s_chunk_data, s_chunk_data_almost_done}"
    by (auto simp: url_states_def)
  ultimately show ?thesis
    by (auto simp: minv_def marks_set_def Let_def s_def [symmetric])
qed

definition fine_return :: "nat \<Rightarrow> 'd hp_next \<Rightarrow> bool" where
  "fine_return len n = (case n of Return k q \<Rightarrow> k \<le> len \<and> resumable q | _ \<Rightarrow> False)"

lemma fine_return_Return [simp]: "fine_return len (Return k q) \<longleftrightarrow> k \<le> len \<and> resumable q"
  by (simp add: fine_return_def)

lemma data_fine:
  assumes "http_errno (parser r) = HPE_OK" "pinv 0 (parser r)" "ret \<le> len"
    and "\<And>d. post False (fine_return len) (k ((upd (hp_data_update (\<lambda>_. d)) r)\<lparr>marks := (marks r)(m := None)\<rparr>))"
  shows "post False (fine_return len) (CALLBACK_DATA_ends st data m til ret r k)"
  using assms by (intro post_CALLBACK_DATA_ends) (simp_all add: resumable_def)

lemma leftover_safe:
  assumes "good 0 r" "pos r = length data"
  shows "post False (fine_return (length data)) (leftover st data r)"
  using assms good_marks_set [OF assms(1)]
  by (simp add: leftover_def CALLBACK_DATA_NOADVANCE_def good_def data_fine resumable_def)

lemma good_count_byte:
  assumes "good 0 r" "\<not> header_overflow (count_byte r)"
  shows "good 1 (count_byte r)"
proof (cases "PARSING_HEADER (hp_state (parser r))")
  case True
  with assms show ?thesis
    by (simp add: good_def pinv_def minv_def Let_def count_byte_def header_overflow_def not_less)
next
  case False
  then have "hp_state (parser r) \<noteq> s_chunk_size_start" by (auto simp: PARSING_HEADER_def)
  with False assms show ?thesis
    by (simp add: good_def pinv_def minv_def Let_def count_byte_def)
qed

lemma resumable_error: "http_errno (parser r) \<noteq> HPE_PAUSED \<Longrightarrow> resumable (snd (at_error r))"
  by (auto simp: at_error_def resumable_def)

lemma exec_loop_safe:
  assumes "good 0 r" "pos r \<le> length data"
  obtains n q where "exec_loop st data r = Inr (n, q)" "resumable q" "n \<le> length data"
  using assms
proof (induction st data r arbitrary: thesis rule: exec_loop.induct)
  case (1 st data r)
  note prems = "1.prems"
  define ch where "ch = data ! pos r"
  define r1 where "r1 = count_byte r"
  have p1: "pos r1 = pos r" by (simp add: r1_def count_byte_def)
  show ?case
  proof (cases "pos r = length data")
    case True
    from leftover_safe [OF prems(2) True, of st] obtain k q where
      "leftover st data r = Inr (Return k q)" "k \<le> length data" "resumable q"
      by (auto simp: post_def fine_return_def split: sum.splits hp_next.splits)
    then show ?thesis using prems(1) True by (simp add: exec_loop.simps [of st data r] returned_def)
  next
    case False
    with prems(3) have lt: "pos r < length data" by simp
    show ?thesis
    proof (cases "header_overflow r1")
      case True
      with lt prems(1) show ?thesis
        by (simp add: exec_loop.simps [of st data r] r1_def [symmetric] ch_def [symmetric] at_error_def p1 resumable_def)
    next
      case no: False
      have "good 1 r1" using good_count_byte prems(2) no by (simp add: r1_def)
      then obtain l where l: "exec_byte st data ch r1 = Inr l" and
        g: "case l of Next r' \<Rightarrow> good 0 r' | Error r' \<Rightarrow> http_errno (parser r') \<noteq> HPE_PAUSED | Returned n q \<Rightarrow> resumable q"
        by (rule exec_byte_safe)
      note prog = exec_byte_progress [OF l, unfolded p1, OF lt]
      have eq: "exec_loop st data r = (case l of
            Next r2 \<Rightarrow> exec_loop st data (r2\<lparr>pos := pos r2 + 1\<rparr>)
          | Error r2 \<Rightarrow> Inr (at_error r2)
          | Returned n q \<Rightarrow> Inr (n, q))"
        using lt no l
        by (simp add: exec_loop.simps [of st data r] r1_def [symmetric] ch_def [symmetric] split: hp_left.split)
      show ?thesis
      proof (cases l)
        case (Next r2)
        have g2: "good 0 (r2\<lparr>pos := pos r2 + 1\<rparr>)" using g Next by (simp add: good_def minv_def)
        show ?thesis
          by (rule "1.IH" [OF False _ ch_def r1_def no l Next _ g2]) (use prog Next lt prems(1) eq in auto)
      next
        case (Error r2)
        with g prog eq prems(1) resumable_error [of r2] show ?thesis by (simp add: at_error_def)
      next
        case (Returned n q)
        with g prog eq prems(1) show ?thesis by simp
      qed
    qed
  qed
qed

lemma good_start_run: "http_errno q = HPE_OK \<Longrightarrow> pinv 0 q \<Longrightarrow> good 0 (start_run q)"
  by (simp add: good_def minv_def start_run_def initial_marks_def Let_def)

lemma execute_safe:
  assumes "resumable q"
  obtains n q' where "http_parser_execute st q data = Inr (n, q')" "resumable q'"
    and "data \<noteq> [] \<Longrightarrow> n \<le> length data"
proof (cases "http_errno q = HPE_OK")
  case False
  with that [of 0 q] assms show ?thesis by (simp add: http_parser_execute_def)
next
  case ok: True
  with assms have inv: "pinv 0 q" by (simp add: resumable_def)
  show ?thesis
  proof (cases "data = []")
    case True
    have "post False (fine_return 1) (at_eof st q)"
      using ok inv by (auto simp: at_eof_def resumable_def start_run_def intro!: post_CALLBACK_NOTIFY)
    then obtain k q' where "at_eof st q = Inr (Return k q')" "k \<le> 1" "resumable q'"
      by (auto simp: post_def fine_return_def split: sum.splits hp_next.splits)
    with that [of k q'] ok True show ?thesis by (simp add: http_parser_execute_def returned_def)
  next
    case False
    from exec_loop_safe [OF good_start_run [OF ok inv], of data st] obtain n q' where
      "exec_loop st data (start_run q) = Inr (n, q')" "resumable q'" "n \<le> length data"
      by (auto simp: start_run_def)
    with that [of n q'] ok False show ?thesis by (simp add: http_parser_execute_def)
  qed
qed

subsection \<open>Histories of calls\<close>

text \<open>The parsers a program can have: initialised, then executed and paused in any order.\<close>

inductive hp_reachable :: "'d http_parser \<Rightarrow> bool" where
  initialised: "hp_reachable (http_parser_init t d)"
| executed: "hp_reachable q \<Longrightarrow> http_parser_execute st q data = Inr (n, q') \<Longrightarrow> hp_reachable q'"
| paused: "hp_reachable q \<Longrightarrow> http_parser_pause b q = Inr q' \<Longrightarrow> hp_reachable q'"

lemma reachable_resumable: "hp_reachable q \<Longrightarrow> resumable q"
proof (induction rule: hp_reachable.induct)
  case (initialised t d)
  show ?case by (cases t) (simp_all add: resumable_def http_parser_init_def pinv_def HTTP_MAX_HEADER_SIZE_def)
next
  case (executed q st data n q')
  from executed.IH obtain n' q'' where "http_parser_execute st q data = Inr (n', q'')" "resumable q''"
    by (rule execute_safe)
  with executed.hyps(2) show ?case by simp
next
  case (paused q b q')
  then show ?case by (auto simp: http_parser_pause_def resumable_def split: if_splits)
qed


definition no_callbacks :: "'d http_parser_settings" where
  "no_callbacks =
     \<lparr>on_message_begin = None, on_url = None, on_header_field = None, on_header_value = None,
      on_headers_complete = None, on_body = None, on_message_complete = None\<rparr>"


end
