(* ===== verification/HP_Stream.thy ===== *)
theory HP_Stream
  imports HP_Safe
begin

section \<open>The HTTP parser: the cuts between buffers do not matter\<close>

text \<open>
  A connection delivers a message in pieces that the sender does not control. This theory shows that
  what the callbacks see does not depend on the pieces: the same events, up to where the data of a URL,
  a header field, a header value or a body is cut (which the header file announces: a data callback
  may be called arbitrarily many times for each string).
\<close>

subsection \<open>Recorded events\<close>

datatype hp_event = E_begin | E_data mark string | E_headers_complete | E_complete

definition jot :: "hp_event \<Rightarrow> hp_event list http_parser \<Rightarrow> int \<times> bool \<times> hp_event list" where
  "jot ev q = (0, False, hp_data q @ [ev])"

text \<open>
  Callbacks that write down what they are called with; \<open>rv\<close> is what \<^verbatim>\<open>on_headers_complete\<close>
  returns (1 for a response to HEAD).
\<close>

definition recorder :: "int \<Rightarrow> hp_event list http_parser_settings" where
  "recorder rv =
     \<lparr>on_message_begin = Some (jot E_begin),
      on_url = Some (\<lambda>q at s. jot (E_data M_url s) q),
      on_header_field = Some (\<lambda>q at s. jot (E_data M_header_field s) q),
      on_header_value = Some (\<lambda>q at s. jot (E_data M_header_value s) q),
      on_headers_complete = Some (\<lambda>q. (rv, False, hp_data q @ [E_headers_complete])),
      on_body = Some (\<lambda>q at s. jot (E_data M_body s) q),
      on_message_complete = Some (jot E_complete)\<rparr>"

text \<open>Adjacent pieces of the same kind put together.\<close>

definition add_event :: "hp_event list \<Rightarrow> hp_event \<Rightarrow> hp_event list" where
  "add_event evs e =
     (case e of
        E_data m y \<Rightarrow>
          (if evs \<noteq> []
           then case last evs of
                  E_data m' x \<Rightarrow> if m' = m then butlast evs @ [E_data m (x @ y)] else evs @ [e]
                | _ \<Rightarrow> evs @ [e]
           else evs @ [e])
      | _ \<Rightarrow> evs @ [e])"

definition merge :: "hp_event list \<Rightarrow> hp_event list" where
  "merge evs = foldl add_event [] evs"

lemma merge_append: "merge (xs @ ys) = foldl add_event (merge xs) ys"
  by (simp add: merge_def)

lemma merge_cong: "merge xs = merge ys \<Longrightarrow> merge (xs @ zs) = merge (ys @ zs)"
  by (simp add: merge_append)

lemma add_event_data: "add_event (add_event evs (E_data m x)) (E_data m y) = add_event evs (E_data m (x @ y))"
  by (cases evs rule: rev_cases) (simp_all add: add_event_def butlast_append split: hp_event.split)

lemma merge_data: "merge (xs @ [E_data m x, E_data m y]) = merge (xs @ [E_data m (x @ y)])"
  by (simp add: merge_append add_event_data)

subsection \<open>Recorded callbacks\<close>

definition log_event :: "hp_event \<Rightarrow> hp_event list http_parser \<Rightarrow> hp_event list http_parser" where
  "log_event ev q = q\<lparr>hp_data := hp_data q @ [ev]\<rparr>"

lemma called_jot [simp]: "called e (jot ev q) q = log_event ev q"
  by (simp add: jot_def log_event_def)

lemma log_event_fields [simp]:
  "http_errno (log_event ev q) = http_errno q" "hp_data (log_event ev q) = hp_data q @ [ev]"
  by (simp_all add: log_event_def)

lemma notify_recorder [simp]:
  assumes "http_errno (parser r) = HPE_OK"
  shows "notify_begin (recorder rv) r k = k (upd (log_event E_begin) r)"
    and "notify_complete (recorder rv) r k = k (upd (log_event E_complete) r)"
  using assms by (simp_all add: notify_begin_def notify_complete_def CALLBACK_NOTIFY_def recorder_def assert_def upd_def)

definition frag :: "string \<Rightarrow> nat \<Rightarrow> nat \<Rightarrow> string" where
  "frag data i j = take (j - i) (drop i data)"

lemma data_recorder:
  assumes "http_errno (parser r) = HPE_OK"
  shows "CALLBACK_DATA_ends (recorder rv) data m til ret r k =
     (case marks r m of
        None \<Rightarrow> k r
      | Some i \<Rightarrow> k ((upd (log_event (E_data m (frag data i til))) r)\<lparr>marks := (marks r)(m := None)\<rparr>))"
  using assms
  by (cases m) (simp_all add: CALLBACK_DATA_ends_def recorder_def assert_def upd_def frag_def split: option.split)

lemma frag_empty [simp]: "frag data i i = []"
  by (simp add: frag_def)

lemma frag_Suc: "i \<le> p \<Longrightarrow> p < length data \<Longrightarrow> frag data i (Suc p) = frag data i p @ [data ! p]"
  by (simp add: frag_def Suc_diff_le take_Suc_conv_app_nth)

lemma frag_shift [simp]: "frag (pre @ cs) (length pre + i) (length pre + j) = frag cs i j"
  by (simp add: frag_def)

lemma frag_join: "i \<le> j \<Longrightarrow> j \<le> k \<Longrightarrow> frag data i j @ frag data j k = frag data i k"
proof -
  assume "i \<le> j" "j \<le> k"
  then have "drop j data = drop (j - i) (drop i data)" "k - i = (j - i) + (k - j)" by simp_all
  then show ?thesis by (simp only: frag_def take_add)
qed

subsection \<open>The simulation\<close>

text \<open>
  Two runs over the same bytes, the first with the bytes \<open>pre\<close> in front of them in its buffer. They
  agree on the parser but for the recorded events, and the events agree once the piece that the pending
  mark stands for is added.
\<close>

definition same_fields :: "hp_event list http_parser \<Rightarrow> hp_event list http_parser \<Rightarrow> bool" where
  "same_fields q1 q2 \<longleftrightarrow> q1\<lparr>hp_data := []\<rparr> = q2\<lparr>hp_data := []\<rparr>"

definition no_marks :: "mark \<Rightarrow> nat option" where
  "no_marks = (\<lambda>_. None)"

definition same_events ::
  "string \<Rightarrow> string \<Rightarrow> nat \<Rightarrow> (mark \<Rightarrow> nat option) \<Rightarrow> (mark \<Rightarrow> nat option) \<Rightarrow> hp_event list \<Rightarrow> hp_event list \<Rightarrow> bool" where
  "same_events pre cs p M1 M2 d1 d2 \<longleftrightarrow>
     M1 = no_marks \<and> M2 = no_marks \<and> merge d1 = merge d2 \<or>
     (\<exists>m i1 i2. M1 = no_marks(m := Some i1) \<and> M2 = no_marks(m := Some i2) \<and> i1 \<le> length pre + p \<and> i2 \<le> p \<and>
        merge (d1 @ [E_data m (frag (pre @ cs) i1 (length pre + p))]) = merge (d2 @ [E_data m (frag cs i2 p)]))"

definition sim :: "string \<Rightarrow> string \<Rightarrow> hp_event list hp_run \<Rightarrow> hp_event list hp_run \<Rightarrow> bool" where
  "sim pre cs r1 r2 \<longleftrightarrow>
     same_fields (parser r1) (parser r2) \<and> pos r1 = length pre + pos r2 \<and>
     same_events pre cs (pos r2) (marks r1) (marks r2) (hp_data (parser r1)) (hp_data (parser r2))"

lemma same_fieldsD:
  assumes "same_fields q1 q2"
  shows "hp_type q1 = hp_type q2" "hp_flags q1 = hp_flags q2" "hp_state q1 = hp_state q2"
    "header_state q1 = header_state q2" "hp_index q1 = hp_index q2" "nread q1 = nread q2"
    "content_length q1 = content_length q2" "http_major q1 = http_major q2" "http_minor q1 = http_minor q2"
    "status_code q1 = status_code q2" "hp_method q1 = hp_method q2" "http_errno q1 = http_errno q2"
    "hp_upgrade q1 = hp_upgrade q2"
  using assms by (cases q1, cases q2, simp add: same_fields_def)+

lemma same_fieldsI:
  assumes "hp_type q1 = hp_type q2" "hp_flags q1 = hp_flags q2" "hp_state q1 = hp_state q2"
    "header_state q1 = header_state q2" "hp_index q1 = hp_index q2" "nread q1 = nread q2"
    "content_length q1 = content_length q2" "http_major q1 = http_major q2" "http_minor q1 = http_minor q2"
    "status_code q1 = status_code q2" "hp_method q1 = hp_method q2" "http_errno q1 = http_errno q2"
    "hp_upgrade q1 = hp_upgrade q2"
  shows "same_fields q1 q2"
  using assms by (cases q1, cases q2) (simp add: same_fields_def)

lemma same_fields_refl [simp]: "same_fields q q"
  by (simp add: same_fields_def)

lemma same_fields_log [simp]: "same_fields (log_event e q) q' = same_fields q q'"
  "same_fields q (log_event e q') = same_fields q q'"
  by (simp_all add: same_fields_def log_event_def)

lemma sim_fields: "sim pre cs r1 r2 \<Longrightarrow> same_fields (parser r1) (parser r2)"
  by (simp add: sim_def)

lemmas sim_eqs = sim_fields [THEN same_fieldsD(1)] sim_fields [THEN same_fieldsD(2)]
  sim_fields [THEN same_fieldsD(3)] sim_fields [THEN same_fieldsD(4)] sim_fields [THEN same_fieldsD(5)]
  sim_fields [THEN same_fieldsD(6)] sim_fields [THEN same_fieldsD(7)] sim_fields [THEN same_fieldsD(8)]
  sim_fields [THEN same_fieldsD(9)] sim_fields [THEN same_fieldsD(10)] sim_fields [THEN same_fieldsD(11)]
  sim_fields [THEN same_fieldsD(12)] sim_fields [THEN same_fieldsD(13)]

text \<open>A change of the fields that does not look at the events keeps the simulation.\<close>

definition data_blind :: "(hp_event list http_parser \<Rightarrow> hp_event list http_parser) \<Rightarrow> bool" where
  "data_blind f \<longleftrightarrow> (\<forall>q d. f (q\<lparr>hp_data := d\<rparr>) = (f q)\<lparr>hp_data := d\<rparr>)"

lemma data_blind_same:
  assumes "data_blind f" "same_fields q1 q2"
  shows "same_fields (f q1) (f q2)"
  using assms unfolding same_fields_def data_blind_def by metis

lemma data_blind_data: "data_blind f \<Longrightarrow> hp_data (f q) = hp_data q"
  unfolding data_blind_def
  by (metis http_parser.select_convs(14) http_parser.surjective http_parser.update_convs(14))

lemma sim_upd:
  assumes "sim pre cs r1 r2" "data_blind f"
  shows "sim pre cs (upd f r1) (upd f r2)"
  using assms(1) data_blind_same [OF assms(2)] by (simp add: sim_def data_blind_data [OF assms(2)])

lemma sim_goto_state: "sim pre cs r1 r2 \<Longrightarrow> sim pre cs (goto_state s r1) (goto_state s r2)"
  unfolding goto_state_def by (erule sim_upd) (simp add: data_blind_def)

lemma no_marks_simps [simp]: "no_marks m = None" "no_marks(m := None) = no_marks"
  by (auto simp: no_marks_def)

lemma no_marks_neq [simp]: "no_marks(m := Some i) \<noteq> no_marks" "no_marks \<noteq> no_marks(m := Some i)"
  by (metis fun_upd_same no_marks_simps(1) option.distinct(1))+

lemma same_events_markI:
  assumes "i1 \<le> length pre + p" "i2 \<le> p"
    and "merge (d1 @ [E_data m (frag (pre @ cs) i1 (length pre + p))]) = merge (d2 @ [E_data m (frag cs i2 p)])"
  shows "same_events pre cs p (no_marks(m := Some i1)) (no_marks(m := Some i2)) d1 d2"
  using assms unfolding same_events_def by blast

lemma same_events_SomeE:
  assumes "same_events pre cs p M1 M2 d1 d2" "M2 m = Some i2"
  obtains i1 where "M1 = no_marks(m := Some i1)" "M2 = no_marks(m := Some i2)" "i1 \<le> length pre + p" "i2 \<le> p"
    and "merge (d1 @ [E_data m (frag (pre @ cs) i1 (length pre + p))]) = merge (d2 @ [E_data m (frag cs i2 p)])"
proof -
  from assms obtain m' i1 i2' where m': "M1 = no_marks(m' := Some i1)" "M2 = no_marks(m' := Some i2')"
    "i1 \<le> length pre + p" "i2' \<le> p"
    "merge (d1 @ [E_data m' (frag (pre @ cs) i1 (length pre + p))]) = merge (d2 @ [E_data m' (frag cs i2' p)])"
    unfolding same_events_def by (metis no_marks_simps(1) option.distinct(1))
  with assms(2) have "m' = m" "i2' = i2" by (simp_all split: if_splits)
  with m' that show ?thesis by simp
qed

lemma same_events_None: "same_events pre cs p M1 M2 d1 d2 \<Longrightarrow> M1 m = None \<longleftrightarrow> M2 m = None"
  by (auto simp: same_events_def)

lemma sim_MARK:
  assumes "sim pre cs r1 r2" "\<And>m'. m' \<noteq> m \<Longrightarrow> marks r2 m' = None"
  shows "sim pre cs (MARK m r1) (MARK m r2)"
proof (cases "marks r2 m = None")
  case True
  then have "marks r2 m' = None" for m' using assms(2) by (cases "m' = m") simp_all
  then have "marks r2 = no_marks" by (auto simp: no_marks_def)
  then have "marks r1 = no_marks" "marks r2 = no_marks" and
    "merge (hp_data (parser r1)) = merge (hp_data (parser r2))"
    using assms(1) unfolding sim_def same_events_def by auto
  then show ?thesis using assms(1) unfolding sim_def
    by (auto intro!: same_events_markI merge_cong)
next
  case False
  then have "marks r1 m \<noteq> None" using assms(1) same_events_None unfolding sim_def by metis
  with False assms(1) show ?thesis by (auto simp: sim_def)
qed

definition adv :: "'d hp_run \<Rightarrow> 'd hp_run" where
  "adv r = r\<lparr>pos := pos r + 1\<rparr>"

lemma adv_simps [simp]: "parser (adv r) = parser r" "pos (adv r) = Suc (pos r)" "marks (adv r) = marks r"
  by (simp_all add: adv_def)

lemma same_events_move:
  assumes "same_events pre cs p M1 M2 d1 d2" "p \<le> p'"
  shows "same_events pre cs p' M1 M2 d1 d2"
  using assms(1) [unfolded same_events_def]
proof (elim disjE exE conjE)
  fix m i1 i2
  assume m: "M1 = no_marks(m := Some i1)" "M2 = no_marks(m := Some i2)" "i1 \<le> length pre + p" "i2 \<le> p"
    and e: "merge (d1 @ [E_data m (frag (pre @ cs) i1 (length pre + p))]) = merge (d2 @ [E_data m (frag cs i2 p)])"
  have f: "frag (pre @ cs) i1 (length pre + p') = frag (pre @ cs) i1 (length pre + p) @ frag cs p p'"
    "frag cs i2 p' = frag cs i2 p @ frag cs p p'"
    using m assms(2) frag_join [of i1 "length pre + p" "length pre + p'" "pre @ cs"] frag_join [of i2 p p' cs] by simp_all
  have "merge (d1 @ [E_data m (frag (pre @ cs) i1 (length pre + p'))]) = merge (d2 @ [E_data m (frag cs i2 p')])"
    using merge_cong [OF e, of "[E_data m (frag cs p p')]"] unfolding f by (simp add: merge_data)
  with m assms(2) show ?thesis by (simp add: same_events_markI)
qed (simp add: same_events_def)

lemma sim_adv: "sim pre cs r1 r2 \<Longrightarrow> sim pre cs (adv r1) (adv r2)"
  by (auto simp: sim_def intro: same_events_move)

lemma sim_notify: "sim pre cs r1 r2 \<Longrightarrow> marks r2 = no_marks \<Longrightarrow> sim pre cs (upd (log_event e) r1) (upd (log_event e) r2)"
  by (auto simp: sim_def same_events_def intro!: merge_cong)

text \<open>What two outcomes have in common.\<close>

definition nrel :: "string \<Rightarrow> string \<Rightarrow> hp_event list hp_next \<Rightarrow> hp_event list hp_next \<Rightarrow> bool" where
  "nrel pre cs n1 n2 =
     (case n1 of
        Break r1 \<Rightarrow> (case n2 of Break r2 \<Rightarrow> sim pre cs (adv r1) (adv r2) | _ \<Rightarrow> False)
      | Reexecute r1 \<Rightarrow> (case n2 of Reexecute r2 \<Rightarrow> sim pre cs r1 r2 | _ \<Rightarrow> False)
      | Goto_error r1 \<Rightarrow> (case n2 of Goto_error r2 \<Rightarrow>
          same_fields (parser r1) (parser r2) \<and> pos r1 = length pre + pos r2 | _ \<Rightarrow> False)
      | Return k1 q1 \<Rightarrow> (case n2 of Return k2 q2 \<Rightarrow>
          k1 = length pre + k2 \<and> same_fields q1 q2 \<and> merge (hp_data q1) = merge (hp_data q2) | _ \<Rightarrow> False))"

definition orel :: "string \<Rightarrow> string \<Rightarrow> hp_event list hp_result \<Rightarrow> hp_event list hp_result \<Rightarrow> bool" where
  "orel pre cs m1 m2 =
     (case m1 of
        Inl f1 \<Rightarrow> (case m2 of Inl f2 \<Rightarrow> f1 = f2 | _ \<Rightarrow> False)
      | Inr n1 \<Rightarrow> (case m2 of Inr n2 \<Rightarrow> nrel pre cs n1 n2 | _ \<Rightarrow> False))"

lemma orel_break_adv: "sim pre cs (adv r1) (adv r2) \<Longrightarrow> orel pre cs (break r1) (break r2)"
  by (simp add: orel_def nrel_def break_def)

lemma orel_break: "sim pre cs r1 r2 \<Longrightarrow> orel pre cs (break r1) (break r2)"
  by (simp add: orel_break_adv sim_adv)

lemma orel_reexecute: "sim pre cs r1 r2 \<Longrightarrow> orel pre cs (reexecute_byte r1) (reexecute_byte r2)"
  by (simp add: orel_def nrel_def reexecute_byte_def)

lemma data_blind_SET_ERRNO: "data_blind (SET_ERRNO e)"
  by (simp add: data_blind_def SET_ERRNO_def)

lemma orel_error: "sim pre cs r1 r2 \<Longrightarrow> orel pre cs (Inr (Goto_error r1)) (Inr (Goto_error r2))"
  by (simp add: orel_def nrel_def sim_def)

lemma orel_fail: "sim pre cs r1 r2 \<Longrightarrow> orel pre cs (fail e r1) (fail e r2)"
  unfolding fail_def by (intro orel_error sim_upd data_blind_SET_ERRNO)

lemma orel_fault: "orel pre cs (Inl f) (Inl f)"
  by (simp add: orel_def)

lemma orel_assert: "b1 = b2 \<Longrightarrow> (b2 \<Longrightarrow> orel pre cs k1 k2) \<Longrightarrow> orel pre cs (assert b1 k1) (assert b2 k2)"
  by (simp add: assert_def orel_fault)

lemma orel_STRICT:
  "sim pre cs r1 r2 \<Longrightarrow> (\<not> b \<Longrightarrow> orel pre cs k1 k2) \<Longrightarrow> orel pre cs (STRICT_CHECK b r1 k1) (STRICT_CHECK b r2 k2)"
  by (simp add: STRICT_CHECK_def orel_fail)

lemma orel_if:
  "b1 = b2 \<Longrightarrow> (b2 \<Longrightarrow> orel pre cs x1 x2) \<Longrightarrow> (\<not> b2 \<Longrightarrow> orel pre cs y1 y2) \<Longrightarrow>
   orel pre cs (if b1 then x1 else y1) (if b2 then x2 else y2)"
  by simp

lemma orel_data:
  assumes "same_fields (parser r1) (parser r2)" "pos r1 = length pre + pos r2"
    and ev: "same_events pre cs til (marks r1) (marks r2) (hp_data (parser r1)) (hp_data (parser r2))"
    and "http_errno (parser r2) = HPE_OK" "marks r2 m \<noteq> None"
    and k: "\<And>r1' r2'. sim pre cs r1' r2' \<Longrightarrow> marks r2' = no_marks \<Longrightarrow> pos r2' = pos r2 \<Longrightarrow>
      same_fields (parser r2') (parser r2) \<Longrightarrow> orel pre cs (k1 r1') (k2 r2')"
  shows "orel pre cs (CALLBACK_DATA_ends (recorder rv) (pre @ cs) m (length pre + til) ret1 r1 k1)
     (CALLBACK_DATA_ends (recorder rv) cs m til ret2 r2 k2)"
proof -
  have e: "http_errno (parser r1) = HPE_OK" using assms(1,4) same_fieldsD(12) by metis
  from assms(5) obtain i2 where i2: "marks r2 m = Some i2" by blast
  from same_events_SomeE [OF ev i2] obtain i1 where
    m: "marks r1 = no_marks(m := Some i1)" "marks r2 = no_marks(m := Some i2)"
    and e2: "merge (hp_data (parser r1) @ [E_data m (frag (pre @ cs) i1 (length pre + til))]) =
      merge (hp_data (parser r2) @ [E_data m (frag cs i2 til)])" by metis
  let ?r1 = "(upd (log_event (E_data m (frag (pre @ cs) i1 (length pre + til)))) r1)\<lparr>marks := (marks r1)(m := None)\<rparr>"
  let ?r2 = "(upd (log_event (E_data m (frag cs i2 til))) r2)\<lparr>marks := (marks r2)(m := None)\<rparr>"
  have "sim pre cs ?r1 ?r2" using e2 assms(1,2) by (simp add: sim_def m same_events_def)
  moreover have "marks ?r2 = no_marks" "pos ?r2 = pos r2" "same_fields (parser ?r2) (parser r2)" by (simp_all add: m)
  ultimately have "orel pre cs (k1 ?r1) (k2 ?r2)" by (rule k)
  then show ?thesis
    by (simp add: data_recorder [OF e] data_recorder [OF assms(4)] m)
qed

lemma orel_data_none:
  assumes "sim pre cs r1 r2" "http_errno (parser r2) = HPE_OK" "marks r2 m = None" "orel pre cs (k1 r1) (k2 r2)"
  shows "orel pre cs (CALLBACK_DATA_ends (recorder rv) (pre @ cs) m til1 ret1 r1 k1)
     (CALLBACK_DATA_ends (recorder rv) cs m til2 ret2 r2 k2)"
proof -
  have e: "http_errno (parser r1) = HPE_OK" using assms(1,2) by (simp add: sim_eqs)
  have "marks r1 m = None" using assms(1,3) same_events_None unfolding sim_def by metis
  with assms(3,4) show ?thesis by (simp add: data_recorder [OF e] data_recorder [OF assms(2)])
qed

text \<open>The data callbacks at the current byte.\<close>

lemma orel_data_break:
  assumes "sim pre cs r1 r2" "http_errno (parser r2) = HPE_OK"
  shows "orel pre cs (CALLBACK_DATA (recorder rv) (pre @ cs) m r1 break) (CALLBACK_DATA (recorder rv) cs m r2 break)"
proof (cases "marks r2 m = None")
  case True
  with assms show ?thesis unfolding CALLBACK_DATA_def by (intro orel_data_none orel_break)
next
  case False
  have p: "pos r1 = length pre + pos r2" using assms(1) by (simp add: sim_def)
  show ?thesis unfolding CALLBACK_DATA_def p
    by (rule orel_data) (use assms False in \<open>simp_all add: sim_def [of _ _ r1 r2] orel_break\<close>)
qed

lemma orel_data_reexecute:
  assumes "sim pre cs r1 r2" "http_errno (parser r2) = HPE_OK"
  shows "orel pre cs (CALLBACK_DATA_NOADVANCE (recorder rv) (pre @ cs) m r1 reexecute_byte)
     (CALLBACK_DATA_NOADVANCE (recorder rv) cs m r2 reexecute_byte)"
proof (cases "marks r2 m = None")
  case True
  with assms show ?thesis unfolding CALLBACK_DATA_NOADVANCE_def by (intro orel_data_none orel_reexecute)
next
  case False
  have p: "pos r1 = length pre + pos r2" using assms(1) by (simp add: sim_def)
  show ?thesis unfolding CALLBACK_DATA_NOADVANCE_def p
    by (rule orel_data) (use assms False in \<open>simp_all add: sim_def [of _ _ r1 r2] orel_reexecute\<close>)
qed

text \<open>The rules as rewrites: an outcome on each side of the same shape.\<close>

lemma orel_if_eq: "orel pre cs (if b then x1 else y1) (if b then x2 else y2) = (if b then orel pre cs x1 x2 else orel pre cs y1 y2)"
  by simp

lemma orel_notify_begin:
  assumes "sim pre cs r1 r2" "http_errno (parser r2) = HPE_OK" "marks r2 = no_marks"
  shows "orel pre cs (notify_begin (recorder rv) r1 break) (notify_begin (recorder rv) r2 break)"
    and "orel pre cs (notify_complete (recorder rv) r1 break) (notify_complete (recorder rv) r2 break)"
  using assms sim_eqs(12) [OF assms(1)] by (simp_all add: sim_notify orel_break)

lemma sim_new_message: "sim pre cs r1 r2 \<Longrightarrow> sim pre cs (new_message r1) (new_message r2)"
proof -
  assume s: "sim pre cs r1 r2"
  have "NEW_MESSAGE (parser r1) = NEW_MESSAGE (parser r2)"
    by (simp add: NEW_MESSAGE_def start_state_def http_should_keep_alive_def http_message_needs_eof_def sim_eqs [OF s])
  with s show ?thesis by (simp add: new_message_def sim_goto_state)
qed

lemmas orel_rules = orel_if_eq orel_break orel_reexecute orel_error orel_fail orel_fault orel_assert orel_STRICT
  orel_notify_begin orel_data_break orel_data_reexecute sim_notify sim_new_message sim_goto_state sim_upd sim_MARK

lemmas blind_defs = data_blind_def field_letter_def match_keyword_def fresh_message_def Let_def

lemma orel_url_step: 
  assumes "sim pre cs r1 r2"
  shows "orel pre cs (url_step ch r1) (url_step ch r2)"
  using assms by (simp add: url_step_def Let_def sim_eqs [OF assms(1)] orel_rules)

lemma orel_header_field_char:
  assumes "sim pre cs r1 r2"
  shows "orel pre cs (header_field_char ch c r1) (header_field_char ch c r2)"
  using assms by (cases "header_state (parser r2)")
   (simp_all add: header_field_char_def sim_eqs [OF assms(1)] orel_rules blind_defs)

lemma orel_content_length_digit:
  assumes "sim pre cs r1 r2"
  shows "orel pre cs (content_length_digit ch r1) (content_length_digit ch r2)"
  using assms by (simp add: content_length_digit_def sim_eqs [OF assms(1)] orel_rules blind_defs)

lemma orel_header_value_char:
  assumes "sim pre cs r1 r2"
  shows "orel pre cs (header_value_char ch r1) (header_value_char ch r2)"
  using assms by (cases "header_state (parser r2)") (simp_all add: header_value_char_def orel_content_length_digit sim_eqs [OF assms(1)] orel_rules blind_defs)

lemma orel_header_value_first:
  assumes "sim pre cs r1 r2"
  shows "orel pre cs (header_value_first ch r1) (header_value_first ch r2)"
  using assms by (cases "header_state (parser r2)") (simp_all add: header_value_first_def sim_eqs [OF assms(1)] orel_rules blind_defs)


lemma no_marks_good:
  assumes "good k r" "hp_state (parser r) \<notin> url_states \<union> {s_header_field, s_header_value, s_body_identity, s_body_identity_eof,
     s_chunk_data, s_chunk_data_almost_done}"
  shows "marks r = no_marks"
proof
  fix m
  from assms goodD [OF assms(1)] show "marks r m = no_marks m" by (cases m) auto
qed

lemma sim_MARK_none: "sim pre cs r1 r2 \<Longrightarrow> marks r2 = no_marks \<Longrightarrow> sim pre cs (MARK m r1) (MARK m r2)"
  by (rule sim_MARK) simp_all

lemma orel_req_method:
  assumes "sim pre cs r1 r2"
  shows "orel pre cs (case_req_method ch r1) (case_req_method ch r2)"
  using assms by (simp add: case_req_method_def next_letter_def rbind_def Let_def sim_eqs [OF assms(1)] orel_rules data_blind_def split: sum.split)

definition headers_end :: "'d http_parser \<Rightarrow> 'd http_parser" where
  "headers_end q = q\<lparr>hp_state := s_headers_done, hp_upgrade := (flag_set (hp_flags q) F_UPGRADE \<or> hp_method q = HTTP_CONNECT)\<rparr>"

lemma headers_almost_done_recorder:
  assumes "http_errno (parser r) = HPE_OK"
  shows "case_headers_almost_done (recorder rv) ch r =
    STRICT_CHECK (ch \<noteq> LF) r
      (if flag_set (hp_flags (parser r)) F_TRAILING then notify_complete (recorder rv) (new_message r) break
       else let r1 = upd (log_event E_headers_complete) (upd headers_end r) in
         if rv = 0 then reexecute_byte r1
         else if rv = 1 then reexecute_byte (upd (\<lambda>q. q\<lparr>hp_flags := hp_flags q OR F_SKIPBODY\<rparr>) r1)
         else Inr (Return (pos r) (SET_ERRNO HPE_CB_headers_complete (parser r1))))"
  using assms by (simp add: case_headers_almost_done_def recorder_def headers_end_def Let_def log_event_def upd_def)

lemma orel_Return: "same_fields q1 q2 \<Longrightarrow> merge (hp_data q1) = merge (hp_data q2) \<Longrightarrow> k1 = length pre + k2 \<Longrightarrow>
  orel pre cs (Inr (Return k1 q1)) (Inr (Return k2 q2))"
  by (simp add: orel_def nrel_def)

lemma sim_Return:
  assumes "sim pre cs r1 r2" "marks r2 = no_marks" "data_blind f"
  shows "orel pre cs (Inr (Return (pos r1) (f (parser r1)))) (Inr (Return (pos r2) (f (parser r2))))"
    "orel pre cs (Inr (Return (Suc (pos r1)) (f (parser r1)))) (Inr (Return (Suc (pos r2)) (f (parser r2))))"
  using assms data_blind_same [OF assms(3)] data_blind_data [OF assms(3)]
  by (auto intro!: orel_Return simp: sim_def same_events_def)

lemma orel_headers_almost_done:
  assumes "sim pre cs r1 r2" "http_errno (parser r2) = HPE_OK" "marks r2 = no_marks"
  shows "orel pre cs (case_headers_almost_done (recorder rv) ch r1) (case_headers_almost_done (recorder rv) ch r2)"
proof -
  have e: "http_errno (parser r1) = HPE_OK" using assms(1,2) by (simp add: sim_eqs)
  have h: "data_blind headers_end" by (simp add: data_blind_def headers_end_def)
  let ?f = "upd (log_event E_headers_complete) \<circ> upd headers_end"
  have s: "sim pre cs (?f r1) (?f r2)"
    using assms(1,3) h by (simp add: sim_notify sim_upd)
  have ret: "orel pre cs (Inr (Return (pos (?f r1)) (SET_ERRNO HPE_CB_headers_complete (parser (?f r1)))))
     (Inr (Return (pos (?f r2)) (SET_ERRNO HPE_CB_headers_complete (parser (?f r2)))))"
    using s assms(3) by (intro sim_Return data_blind_SET_ERRNO) simp_all
  show ?thesis
    using assms s ret unfolding headers_almost_done_recorder [OF e] headers_almost_done_recorder [OF assms(2)]
    by (simp add: Let_def sim_eqs [OF assms(1)] orel_rules data_blind_def)
qed

lemma orel_headers_done:
  assumes "sim pre cs r1 r2" "http_errno (parser r2) = HPE_OK" "marks r2 = no_marks"
  shows "orel pre cs (case_headers_done (recorder rv) ch r1) (case_headers_done (recorder rv) ch r2)"
proof -
  let ?f = "\<lambda>r. upd (log_event E_complete) (new_message (upd (nread_update (\<lambda>_. 0)) r))"
  have "sim pre cs (?f r1) (?f r2)"
    using assms by (intro sim_notify sim_new_message sim_upd) (simp_all add: data_blind_def)
  then have "orel pre cs (Inr (Return (Suc (pos (?f r1))) (id (parser (?f r1))))) (Inr (Return (Suc (pos (?f r2))) (id (parser (?f r2)))))"
    by (rule sim_Return) (simp_all add: assms data_blind_def)
  with assms show ?thesis
    by (simp add: case_headers_done_def Let_def sim_eqs [OF assms(1)] orel_rules data_blind_def http_message_needs_eof_def)
qed


lemma orel_header_almost_done:
  assumes "sim pre cs r1 r2"
  shows "orel pre cs (case_header_almost_done ch r1) (case_header_almost_done ch r2)"
proof -
  let ?f = "\<lambda>q :: hp_event list http_parser. q\<lparr>hp_state := s_header_value_lws,
          hp_flags := (case header_state q of
             h_connection_keep_alive \<Rightarrow> hp_flags q OR F_CONNECTION_KEEP_ALIVE
           | h_connection_close \<Rightarrow> hp_flags q OR F_CONNECTION_CLOSE
           | h_transfer_encoding_chunked \<Rightarrow> hp_flags q OR F_CHUNKED
           | _ \<Rightarrow> hp_flags q)\<rparr>"
  have "?f (q\<lparr>hp_data := d\<rparr>) = (?f q)\<lparr>hp_data := d\<rparr>" for q d by (cases "header_state q") simp_all
  then have "data_blind ?f" unfolding data_blind_def by blast
  with assms show ?thesis by (simp add: case_header_almost_done_def orel_rules)
qed

lemma exec_case_sim:
  assumes "sim pre cs r1 r2" "good 1 r2"
    and "hp_state (parser r2) \<notin> {s_body_identity, s_body_identity_eof, s_chunk_data}"
  shows "orel pre cs (exec_case (recorder rv) (pre @ cs) ch r1) (exec_case (recorder rv) cs ch r2)"
proof -
  have ok: "http_errno (parser r2) = HPE_OK" using assms(2) by (rule goodD)
  note nm = no_marks_good [OF assms(2), unfolded url_states_def]
  show ?thesis
   using assms(1,3) ok nm
   by (cases "hp_state (parser r2)")
     (simp_all add: exec_case_def sim_eqs [OF assms(1)] orel_req_method orel_headers_almost_done orel_headers_done
        orel_header_almost_done,
      simp_all add: hp_case_defs minor_digit_def orel_url_step orel_header_field_char orel_header_value_char
        orel_header_value_first sim_eqs [OF assms(1)] orel_rules blind_defs sim_MARK_none split: option.split)
qed

text \<open>
  A body: its mark may be missing in the second run, whose first call has reported the bytes before.
\<close>

definition late :: "string \<Rightarrow> string \<Rightarrow> hp_event list hp_run \<Rightarrow> hp_event list hp_run \<Rightarrow> bool" where
  "late pre cs r1 r2 \<longleftrightarrow>
     same_fields (parser r1) (parser r2) \<and> pos r1 = length pre + pos r2 \<and> marks r2 = no_marks \<and>
     hp_state (parser r2) \<in> {s_body_identity, s_body_identity_eof, s_chunk_data, s_chunk_data_almost_done} \<and>
     (\<exists>i. marks r1 = no_marks(M_body := Some i) \<and> i \<le> pos r1 \<and>
       merge (hp_data (parser r1) @ [E_data M_body (frag (pre @ cs) i (pos r1))]) = merge (hp_data (parser r2)))"

lemma merge_ends_data:
  assumes "merge (xs @ [E_data m x]) = merge ys"
  shows "merge (ys @ [E_data m []]) = merge ys"
  using add_event_data [of "merge xs" m x "[]"] unfolding merge_append assms [symmetric] by simp

lemma late_MARK:
  assumes "late pre cs r1 r2"
  shows "sim pre cs (MARK M_body r1) (MARK M_body r2)"
proof -
  from assms obtain i where i: "marks r1 = no_marks(M_body := Some i)" "i \<le> pos r1" "marks r2 = no_marks"
    and m: "merge (hp_data (parser r1) @ [E_data M_body (frag (pre @ cs) i (pos r1))]) = merge (hp_data (parser r2))"
    unfolding late_def by blast
  from i m merge_ends_data [OF m] assms show ?thesis by (simp add: sim_def late_def same_events_markI)
qed

lemma late_fields: "late pre cs r1 r2 \<Longrightarrow> same_fields (parser r1) (parser r2)"
  by (simp add: late_def)

lemma late_almost_done:
  assumes "late pre cs r1 r2" "http_errno (parser r2) = HPE_OK"
  shows "orel pre cs (case_chunk_data_almost_done (recorder rv) (pre @ cs) ch r1) (case_chunk_data_almost_done (recorder rv) cs ch r2)"
proof -
  from assms(1) obtain i where i: "marks r1 = no_marks(M_body := Some i)" "marks r2 = no_marks"
    and m: "merge (hp_data (parser r1) @ [E_data M_body (frag (pre @ cs) i (pos r1))]) = merge (hp_data (parser r2))"
    unfolding late_def by blast
  note f = same_fieldsD [OF late_fields [OF assms(1)]]
  let ?r1 = "(upd (log_event (E_data M_body (frag (pre @ cs) i (pos r1)))) (goto_state s_chunk_data_done r1))\<lparr>marks := no_marks\<rparr>"
  have "sim pre cs ?r1 (goto_state s_chunk_data_done r2)"
    using i m assms(1) f by (simp add: late_def sim_def same_events_def same_fieldsI)
  then have b: "orel pre cs (break ?r1) (break (goto_state s_chunk_data_done r2))" by (rule orel_break)
  have e: "orel pre cs (fail HPE_STRICT r1) (fail HPE_STRICT r2)"
    using assms(1) f by (simp add: fail_def orel_def nrel_def late_def same_fieldsI SET_ERRNO_def)
  show ?thesis using b e assms(2) f i
    by (simp add: case_chunk_data_almost_done_def CALLBACK_DATA_def data_recorder assert_def STRICT_CHECK_def orel_fault)
qed

text \<open>Both runs take the same number of bytes of a body.\<close>

definition near :: "string \<Rightarrow> string \<Rightarrow> hp_event list hp_run \<Rightarrow> hp_event list hp_run \<Rightarrow> bool" where
  "near pre cs r1 r2 \<longleftrightarrow> sim pre cs r1 r2 \<or> late pre cs r1 r2"

lemma near_fields: "near pre cs r1 r2 \<Longrightarrow> same_fields (parser r1) (parser r2)"
  and near_pos: "near pre cs r1 r2 \<Longrightarrow> pos r1 = length pre + pos r2"
  by (auto simp: near_def sim_def late_def)

lemma near_MARK:
  assumes "near pre cs r1 r2" "good k r2" "hp_state (parser r2) \<in> {s_body_identity, s_body_identity_eof, s_chunk_data}"
  shows "sim pre cs (MARK M_body r1) (MARK M_body r2)"
proof (cases "late pre cs r1 r2")
  case True
  then show ?thesis by (rule late_MARK)
next
  case False
  have "marks r2 m = None" if "m \<noteq> M_body" for m
    using goodD(3-5) [OF assms(2)] assms(3) that by (cases m) (auto simp: url_states_def)
  with False assms(1) show ?thesis by (auto simp: near_def intro: sim_MARK)
qed

lemma sim_take_body:
  assumes "sim pre cs (MARK M_body r1) (MARK M_body r2)" "content_length (parser r2) \<noteq> 0" "pos r2 < length cs"
  shows "sim pre cs (adv (take_body (pre @ cs) r1)) (adv (take_body cs r2))"
proof -
  have f: "same_fields (parser r1) (parser r2)" and p: "pos r1 = length pre + pos r2"
    and ev: "same_events pre cs (pos r2) (marks (MARK M_body r1)) (marks (MARK M_body r2)) (hp_data (parser r1)) (hp_data (parser r2))"
    using assms(1) unfolding sim_def by (simp_all only: MARK_simps(1,2))
  have n: "to_read (pre @ cs) r1 = to_read cs r2" by (simp add: to_read_def same_fieldsD [OF f] p)
  have "0 < to_read cs r2" using assms(2,3) unat_pos by (simp add: to_read_def)
  then have "pos (adv (take_body (pre @ cs) r1)) = length pre + (pos r2 + to_read cs r2)" "pos (adv (take_body cs r2)) = pos r2 + to_read cs r2"
    by (simp_all add: take_body_def Let_def n p)
  moreover have "same_fields (parser (take_body (pre @ cs) r1)) (parser (take_body cs r2))"
    using same_fieldsD [OF f] n by (intro same_fieldsI) (simp_all add: take_body_def Let_def)
  moreover have "hp_data (parser (take_body data r)) = hp_data (parser r)" for data and r :: "hp_event list hp_run" by (simp add: take_body_def Let_def)
  ultimately show ?thesis using same_events_move [OF ev, of "pos r2 + to_read cs r2"]
    by (simp add: sim_def del: MARK_simps(3))
qed

lemma sim_move: "sim pre cs r1 r2 \<Longrightarrow> pos r2 \<le> p \<Longrightarrow> sim pre cs (r1\<lparr>pos := length pre + p\<rparr>) (r2\<lparr>pos := p\<rparr>)"
  by (auto simp: sim_def intro: same_events_move)

lemma sim_goto_adv: "sim pre cs (adv r1) (adv r2) \<Longrightarrow> sim pre cs (adv (goto_state s r1)) (adv (goto_state s r2))"
  using sim_goto_state [of pre cs "adv r1" "adv r2" s] by (simp add: sim_def)

lemma orel_body_end:
  assumes "sim pre cs (adv r1) (adv r2)" "http_errno (parser r2) = HPE_OK" "marks r2 M_body \<noteq> None"
  shows "orel pre cs (CALLBACK_DATA_ends (recorder rv) (pre @ cs) M_body (Suc (pos r1)) ret1 r1 reexecute_byte)
     (CALLBACK_DATA_ends (recorder rv) cs M_body (Suc (pos r2)) ret2 r2 reexecute_byte)"
proof -
  have p: "Suc (pos r1) = length pre + Suc (pos r2)" using assms(1) by (simp add: sim_def)
  show ?thesis unfolding p
    by (rule orel_data) (use assms in \<open>simp_all add: sim_def [of _ _ "adv r1"] orel_reexecute\<close>)
qed

lemma exec_case_near:
  assumes "near pre cs r1 r2" "pos r2 < length cs" "good 1 r2"
  shows "orel pre cs (exec_case (recorder rv) (pre @ cs) ch r1) (exec_case (recorder rv) cs ch r2)"
proof (cases "hp_state (parser r2) \<in> {s_body_identity, s_body_identity_eof, s_chunk_data}")
  case False
  with assms show ?thesis
  proof (cases "late pre cs r1 r2")
    case True
    then have "hp_state (parser r2) = s_chunk_data_almost_done" using False by (auto simp: late_def)
    with True late_almost_done [OF True] goodD(1) [OF assms(3)] same_fieldsD(3) [OF near_fields [OF assms(1)]]
    show ?thesis by (simp add: exec_case_def)
  qed (simp add: near_def exec_case_sim)
next
  case True
  note m = near_MARK [OF assms(1,3) True] and f = same_fieldsD [OF near_fields [OF assms(1)]]
  note tb = sim_take_body [OF m _ assms(2)]
  have inv: "content_length (parser r2) \<noteq> 0 \<and> content_length (parser r2) \<noteq> ULLONG_MAX" if "hp_state (parser r2) \<noteq> s_body_identity_eof"
    using that True assms(3) by (auto simp: inv_defs)
  have e: "http_errno (parser r2) = HPE_OK" using assms(3) by (rule goodD)
  consider "hp_state (parser r2) = s_body_identity" | "hp_state (parser r2) = s_chunk_data" | "hp_state (parser r2) = s_body_identity_eof"
    using True by blast
  then show ?thesis
  proof cases
    case 1
    with inv have c: "content_length (parser r2) \<noteq> 0 \<and> content_length (parser r2) \<noteq> ULLONG_MAX" by simp
    let ?s = "\<lambda>r. goto_state s_message_done r"
    have t: "sim pre cs (adv (take_body (pre @ cs) r1)) (adv (take_body cs r2))" using tb c by simp
    have l: "content_length (parser (take_body (pre @ cs) r1)) = content_length (parser (take_body cs r2))"
      using sim_eqs(7) [OF t] by simp
    from orel_body_end [OF sim_goto_adv [OF t, of s_message_done], of rv] e 1 f c l t show ?thesis
      by (simp add: exec_case_def case_body_identity_def Let_def assert_def orel_break_adv)
  next
    case 2
    with inv have c: "content_length (parser r2) \<noteq> 0 \<and> content_length (parser r2) \<noteq> ULLONG_MAX" by simp
    have t: "sim pre cs (adv (take_body (pre @ cs) r1)) (adv (take_body cs r2))" using tb c by simp
    have l: "content_length (parser (take_body (pre @ cs) r1)) = content_length (parser (take_body cs r2))"
      using sim_eqs(7) [OF t] by simp
    from 2 f c l t sim_goto_adv [OF t, of s_chunk_data_almost_done] show ?thesis
      by (simp add: exec_case_def case_chunk_data_def Let_def assert_def orel_break_adv orel_fault)
  next
    case 3
    have len: "Suc (length pre + length cs - Suc 0) = length pre + length cs" "Suc (length cs - Suc 0) = length cs"
      using assms(2) by simp_all
    have "sim pre cs (adv ((MARK M_body r1)\<lparr>pos := length (pre @ cs) - 1\<rparr>)) (adv ((MARK M_body r2)\<lparr>pos := length cs - 1\<rparr>))"
      using sim_move [OF m, of "length cs"] assms(2)
      by (simp add: adv_def len)
    then show ?thesis using 3 f by (simp add: exec_case_def case_body_identity_eof_def orel_break_adv)
  qed
qed


subsection \<open>The simulation of the loop\<close>

definition lrel :: "string \<Rightarrow> string \<Rightarrow> hp_event list hp_left \<Rightarrow> hp_event list hp_left \<Rightarrow> bool" where
  "lrel pre cs l1 l2 =
     (case l1 of
        Next r1 \<Rightarrow> (case l2 of Next r2 \<Rightarrow> sim pre cs (adv r1) (adv r2) | _ \<Rightarrow> False)
      | Error r1 \<Rightarrow> (case l2 of Error r2 \<Rightarrow>
          same_fields (parser r1) (parser r2) \<and> pos r1 = length pre + pos r2 | _ \<Rightarrow> False)
      | Returned k1 q1 \<Rightarrow> (case l2 of Returned k2 q2 \<Rightarrow>
          k1 = length pre + k2 \<and> same_fields q1 q2 \<and> merge (hp_data q1) = merge (hp_data q2) | _ \<Rightarrow> False))"

lemma exec_byte_near:
  assumes "near pre cs r1 r2" "pos r2 < length cs" "good 1 r2"
  shows "\<exists>l1 l2. exec_byte (recorder rv) (pre @ cs) ch r1 = Inr l1 \<and> exec_byte (recorder rv) cs ch r2 = Inr l2 \<and> lrel pre cs l1 l2"
  using assms
proof (induction "recorder rv" cs ch r2 arbitrary: r1 rule: exec_byte.induct)
  case (1 cs ch r2)
  note st = "1.prems"
  from exec_case_safe [OF st(3), of "recorder rv" cs ch] obtain n2 where
    n2: "exec_case (recorder rv) cs ch r2 = Inr n2" "safe_next n2"
    by (auto simp: post_def split: sum.splits)
  from exec_case_near [OF st, of rv ch] n2 obtain n1 where
    n1: "exec_case (recorder rv) (pre @ cs) ch r1 = Inr n1" "nrel pre cs n1 n2"
    by (auto simp: orel_def split: sum.splits)
  note eqs = exec_byte.simps [of "recorder rv" cs ch r2] exec_byte.simps [of "recorder rv" "pre @ cs" ch r1]
  show ?case
  proof (cases n2)
    case (Reexecute r2')
    then obtain r1' where r1': "n1 = Reexecute r1'" "sim pre cs r1' r2'" using n1(2)
      by (auto simp: nrel_def split: hp_next.splits)
    have "pos r2' < length cs" using exec_case_progress [of cs r2 "recorder rv" ch] n2 Reexecute st(2) by simp
    moreover have "good 1 r2'" using n2 Reexecute by simp
    ultimately show ?thesis using "1.hyps" [OF n2(1) Reexecute, of r1'] r1' n1 n2 Reexecute
      by (simp add: eqs near_def)
  qed (use n1 n2 in \<open>auto simp: eqs nrel_def lrel_def split: hp_next.splits\<close>)
qed

definition rrel :: "nat \<Rightarrow> hp_fault + nat \<times> hp_event list http_parser \<Rightarrow> hp_fault + nat \<times> hp_event list http_parser \<Rightarrow> bool" where
  "rrel k m1 m2 \<longleftrightarrow>
     (\<exists>n1 q1 n2 q2. m1 = Inr (n1, q1) \<and> m2 = Inr (n2, q2) \<and> n1 = k + n2 \<and> same_fields q1 q2 \<and>
        (http_errno q2 = HPE_OK \<longrightarrow> merge (hp_data q1) = merge (hp_data q2)))"

lemma leftover_recorder:
  assumes "http_errno (parser r) = HPE_OK"
  shows "marks r = no_marks \<Longrightarrow> leftover (recorder rv) data r = Inr (Return (length data) (parser r))"
    and "marks r = no_marks(m := Some i) \<Longrightarrow>
      leftover (recorder rv) data r = Inr (Return (length data) (log_event (E_data m (frag data i (pos r))) (parser r)))"
  using assms
  by (simp_all add: leftover_def CALLBACK_DATA_NOADVANCE_def data_recorder marks_set_def assert_def)
     (cases m; simp add: data_recorder)

lemma leftover_sim:
  assumes "sim pre cs r1 r2" "http_errno (parser r2) = HPE_OK" "pos r2 = length cs"
  shows "rrel (length pre) (returned (leftover (recorder rv) (pre @ cs) r1)) (returned (leftover (recorder rv) cs r2))"
proof -
  have e: "http_errno (parser r1) = HPE_OK" using assms(1,2) by (simp add: sim_eqs)
  have p: "pos r1 = length (pre @ cs)" using assms(1,3) by (simp add: sim_def)
  from assms(1) have ev: "same_events pre cs (length cs) (marks r1) (marks r2) (hp_data (parser r1)) (hp_data (parser r2))"
    and f: "same_fields (parser r1) (parser r2)" by (simp_all add: sim_def assms(3))
  from ev [unfolded same_events_def] show ?thesis
  proof (elim disjE exE conjE)
    fix m i1 i2
    assume "marks r1 = no_marks(m := Some i1)" "marks r2 = no_marks(m := Some i2)"
     and "merge (hp_data (parser r1) @ [E_data m (frag (pre @ cs) i1 (length pre + length cs))]) = merge (hp_data (parser r2) @ [E_data m (frag cs i2 (length cs))])"
    then show ?thesis using f p assms(3)
      by (simp add: leftover_recorder(2) [OF e] leftover_recorder(2) [OF assms(2)] returned_def rrel_def)
  qed (use f in \<open>simp add: leftover_recorder(1) [OF e] leftover_recorder(1) [OF assms(2)] returned_def rrel_def\<close>)
qed


lemma near_count_byte:
  assumes "near pre cs r1 r2"
  shows "near pre cs (count_byte r1) (count_byte r2)" "header_overflow (count_byte r1) = header_overflow (count_byte r2)"
proof -
  note f = same_fieldsD [OF near_fields [OF assms]]
  show "header_overflow (count_byte r1) = header_overflow (count_byte r2)"
    by (simp add: header_overflow_def count_byte_def f)
  show "near pre cs (count_byte r1) (count_byte r2)"
  proof (cases "sim pre cs r1 r2")
    case True
    then have "sim pre cs (count_byte r1) (count_byte r2)"
      by (auto simp: count_byte_def f intro!: sim_upd) (simp_all add: data_blind_def)
    then show ?thesis by (simp add: near_def)
  next
    case False
    then have l: "late pre cs r1 r2" using assms by (simp add: near_def)
    then have "\<not> PARSING_HEADER (hp_state (parser r2))" by (auto simp: late_def PARSING_HEADER_def)
    with l f show ?thesis by (simp add: count_byte_def near_def)
  qed
qed

lemma at_error_rrel:
  assumes "same_fields (parser r1) (parser r2)" "pos r1 = length pre + pos r2"
  shows "rrel (length pre) (Inr (at_error r1)) (Inr (at_error r2))"
  using assms same_fieldsD [OF assms(1)] by (auto simp: rrel_def at_error_def SET_ERRNO_def intro!: same_fieldsI)

lemma good_adv: "good 0 r \<Longrightarrow> good 0 (adv r)"
  by (simp add: good_def minv_def)

text \<open>The loop, one byte at a time.\<close>

lemma exec_loop_end: "pos r = length data \<Longrightarrow> exec_loop st data r = returned (leftover st data r)"
  by (simp add: exec_loop.simps [of st data r])

lemma exec_loop_overflow:
  "pos r < length data \<Longrightarrow> header_overflow (count_byte r) \<Longrightarrow>
   exec_loop st data r = Inr (at_error (upd (SET_ERRNO HPE_HEADER_OVERFLOW) (count_byte r)))"
  by (simp add: exec_loop.simps [of st data r])

lemma exec_loop_byte:
  "pos r < length data \<Longrightarrow> \<not> header_overflow (count_byte r) \<Longrightarrow>
   exec_byte st data (data ! pos r) (count_byte r) = Inr l \<Longrightarrow>
   exec_loop st data r =
     (case l of Next r' \<Rightarrow> exec_loop st data (adv r') | Error r' \<Rightarrow> Inr (at_error r') | Returned n q \<Rightarrow> Inr (n, q))"
  by (simp add: exec_loop.simps [of st data r] adv_def split: hp_left.split)

lemma exec_byte_good: "exec_byte st data ch r = Inr (Next r') \<Longrightarrow> good 1 r \<Longrightarrow> good 0 (adv r')"
  by (erule exec_byte_safe [of r st data ch]) (simp add: good_def minv_def)

lemma count_byte_pos [simp]: "pos (count_byte r) = pos r"
  by (simp add: count_byte_def)

lemma exec_loop_near:
  assumes "near pre cs r1 r2" "pos r2 < length cs \<or> sim pre cs r1 r2" "pos r2 \<le> length cs" "good 0 r2"
  shows "rrel (length pre) (exec_loop (recorder rv) (pre @ cs) r1) (exec_loop (recorder rv) cs r2)"
  using assms
proof (induction "length cs - pos r2" arbitrary: r1 r2 rule: less_induct)
  case less
  note st = less.prems
  have p: "pos r1 = length pre + pos r2" using near_pos [OF st(1)] .
  note n = near_count_byte [OF st(1)]
  consider "pos r2 = length cs" | "pos r2 < length cs" "header_overflow (count_byte r2)" |
    "pos r2 < length cs" "\<not> header_overflow (count_byte r2)"
    using st(3) by linarith
  then show ?case
  proof cases
    case 1
    with st p leftover_sim [of pre cs r1 r2 rv] goodD(1) [OF st(4)] show ?thesis by (simp add: exec_loop_end)
  next
    case 2
    let ?e = "upd (SET_ERRNO HPE_HEADER_OVERFLOW)"
    have "rrel (length pre) (Inr (at_error (?e (count_byte r1)))) (Inr (at_error (?e (count_byte r2))))"
      by (rule at_error_rrel) (use near_fields [OF n(1)] near_pos [OF n(1)] data_blind_same [OF data_blind_SET_ERRNO] in simp_all)
    with 2 p n(2) show ?thesis by (simp add: exec_loop_overflow)
  next
    case 3
    define ch where "ch = cs ! pos r2"
    have c: "(pre @ cs) ! pos r1 = ch" using p by (simp add: ch_def)
    have g: "good 1 (count_byte r2)" using good_count_byte [OF st(4) 3(2)] .
    from exec_byte_near [OF n(1) _ g, of rv ch] 3(1) obtain l1 l2 where
      l: "exec_byte (recorder rv) (pre @ cs) ch (count_byte r1) = Inr l1"
        "exec_byte (recorder rv) cs ch (count_byte r2) = Inr l2" "lrel pre cs l1 l2" by auto
    note e = exec_loop_byte [of r2 cs "recorder rv", folded ch_def, OF 3 l(2)]
      exec_loop_byte [of r1 "pre @ cs" "recorder rv", unfolded c, OF _ _ l(1)]
    have e': "exec_loop (recorder rv) (pre @ cs) r1 = (case l1 of Next r' \<Rightarrow> exec_loop (recorder rv) (pre @ cs) (adv r')
        | Error r' \<Rightarrow> Inr (at_error r') | Returned n q \<Rightarrow> Inr (n, q))"
      using e(2) 3 p n(2) by simp
    have step: "rrel (length pre) (exec_loop (recorder rv) (pre @ cs) (adv r1')) (exec_loop (recorder rv) cs (adv r2'))"
      if "sim pre cs (adv r1') (adv r2')" "l2 = Next r2'" for r1' r2'
    proof (rule less.hyps)
      show "good 0 (adv r2')" using exec_byte_good [OF l(2) [unfolded that(2)] g] .
      show "length cs - pos (adv r2') < length cs - pos r2" "pos (adv r2') \<le> length cs"
        using exec_byte_progress [OF l(2)] 3(1) that(2) by auto
    qed (use that(1) in \<open>auto simp: near_def\<close>)
    show ?thesis using l(3) at_error_rrel step unfolding e(1) e'
      by (auto simp: lrel_def rrel_def split: hp_left.splits)
  qed
qed

end
