(* ===== verification/HP_Cut.thy ===== *)
theory HP_Cut
  imports HP_Stream
begin

section \<open>The HTTP parser: any cut of the input\<close>

text \<open>
  From the simulation of \<open>HP_Stream\<close> to the statement about calls: up to the cut the call on the whole
  input and the call on the first piece do the same steps, but for the body states, which take all the
  bytes there are; from the cut on they are simulated.
\<close>

subsection \<open>Before the cut\<close>

lemma data_prefix:
  assumes "til \<le> length a"
  shows "CALLBACK_DATA_ends st (a @ b) m til ret r k = CALLBACK_DATA_ends st a m til ret r k"
proof -
  have "take (til - i) (drop i (a @ b)) = take (til - i) (drop i a)" for i
    using assms by (cases "i \<le> length a") simp_all
  then show ?thesis by (simp only: CALLBACK_DATA_ends_def)
qed

text \<open>A body state that would read beyond the first piece.\<close>

definition overshoots :: "string \<Rightarrow> 'd hp_run \<Rightarrow> bool" where
  "overshoots a r \<longleftrightarrow>
     hp_state (parser r) = s_body_identity_eof \<or>
     hp_state (parser r) \<in> {s_body_identity, s_chunk_data} \<and> length a - pos r < unat (content_length (parser r))"

lemma to_read_prefix:
  "pos r < length a \<Longrightarrow> unat (content_length (parser r)) \<le> length a - pos r \<Longrightarrow> take_body (a @ b) r = take_body a r"
  by (simp add: take_body_def to_read_def)

lemma exec_case_prefix:
  assumes "pos r < length a" "\<not> overshoots a r"
  shows "exec_case st (a @ b) ch r = exec_case st a ch r"
proof -
  have t: "take_body (a @ b) r = take_body a r" if "hp_state (parser r) \<in> {s_body_identity, s_chunk_data}"
    using assms that by (auto simp: overshoots_def intro!: to_read_prefix)
  have p: "Suc (pos (take_body a r)) \<le> length a" if "content_length (parser r) \<noteq> 0"
    using take_body_pos(2) [OF that assms(1)] by simp
  have d: "CALLBACK_DATA st (a @ b) m r' k = CALLBACK_DATA st a m r' k"
    "CALLBACK_DATA_NOADVANCE st (a @ b) m r' k = CALLBACK_DATA_NOADVANCE st a m r' k" if "pos r' = pos r" for m r' k
    using assms(1) that by (simp_all add: CALLBACK_DATA_def CALLBACK_DATA_NOADVANCE_def data_prefix)
  show ?thesis
    using assms t p
    by (cases "hp_state (parser r)")
      (simp_all add: exec_case_def case_req_url_def case_header_field_def case_header_value_def case_header_value_start_def
        case_body_identity_def case_chunk_data_def case_chunk_data_almost_done_def d data_prefix overshoots_def Let_def assert_def)
qed

text \<open>A byte is never executed again in a body state.\<close>

definition no_body :: "'d hp_next \<Rightarrow> bool" where
  "no_body n =
     (case n of
        Reexecute r \<Rightarrow> hp_state (parser r) \<notin> {s_body_identity, s_body_identity_eof, s_chunk_data}
      | _ \<Rightarrow> True)"

lemma no_body_simps [simp]:
  "no_body (Break r)" "no_body (Goto_error r)" "no_body (Return k q)"
  "no_body (Reexecute r) \<longleftrightarrow> hp_state (parser r) \<notin> {s_body_identity, s_body_identity_eof, s_chunk_data}"
  by (simp_all add: no_body_def)

lemma header_chars_no_body:
  "post True no_body (header_field_char ch c r)" "post True no_body (header_value_char ch r)"
  "post True no_body (header_value_first ch r)"
  by (cases "header_state (parser r)";
      simp add: header_field_char_def header_value_char_def header_value_first_def content_length_digit_def Let_def)+

lemma exec_case_no_body: "post True no_body (exec_case st data ch r)"
  by (cases "hp_state (parser r)")
    (simp_all add: exec_case_def hp_case_defs hp_macro_defs Let_def post_CALLBACK_NOTIFY post_CALLBACK_DATA_ends
      header_chars_no_body url_step_def next_letter_def minor_digit_def rbind_def
      split: option.splits prod.splits sum.splits)

lemma exec_byte_prefix:
  assumes "pos r < length a" "\<not> overshoots a r"
  shows "exec_byte st (a @ b) ch r = exec_byte st a ch r"
  using assms
proof (induction st a ch r rule: exec_byte.induct)
  case (1 st a ch r)
  note e = exec_case_prefix [OF "1.prems", of st b ch]
  show ?case
  proof (cases "exec_case st a ch r")
    case (Inl f)
    with e show ?thesis by (simp add: exec_byte.simps [of st _ ch r])
  next
    case (Inr n)
    show ?thesis
    proof (cases n)
      case (Reexecute r')
      have "pos r' < length a" using exec_case_progress [of a r st ch] Inr Reexecute "1.prems"(1) by simp
      moreover have "\<not> overshoots a r'" using exec_case_no_body [of st a ch r] Inr Reexecute by (simp add: overshoots_def)
      ultimately show ?thesis using "1.IH" [OF Inr Reexecute] e Inr Reexecute by (simp add: exec_byte.simps [of st _ ch r])
    qed (use e Inr in \<open>simp_all add: exec_byte.simps [of st _ ch r]\<close>)
  qed
qed

text \<open>Where such a step leaves the run when only the first piece is there.\<close>

definition at_cut :: "string \<Rightarrow> 'd hp_run \<Rightarrow> 'd hp_run" where
  "at_cut a r =
     adv (if hp_state (parser r) = s_body_identity_eof then (MARK M_body r)\<lparr>pos := length a - 1\<rparr> else take_body a r)"

lemma overshoot_read:
  assumes "overshoots a r" "hp_state (parser r) \<noteq> s_body_identity_eof" "pos r < length a"
  shows "to_read a r = length a - pos r" "pos (adv (take_body a r)) = length a"
    and "content_length (parser (take_body a r)) \<noteq> 0"
proof -
  show n: "to_read a r = length a - pos r" using assms by (simp add: overshoots_def to_read_def)
  then show "pos (adv (take_body a r)) = length a" using assms(3) by (simp add: take_body_def Let_def)
  have "0 < unat (content_length (parser (take_body a r)))"
    using assms(1,2) by (simp add: take_body_length n overshoots_def)
  then show "content_length (parser (take_body a r)) \<noteq> 0" by auto
qed

lemma take_body_split:
  assumes "overshoots a r" "hp_state (parser r) \<noteq> s_body_identity_eof" "pos r < length a"
  shows "take_body (a @ b) (adv (take_body a r)) = take_body (a @ b) r"
proof -
  note o = overshoot_read [OF assms]
  define n where "n = length a - pos r"
  have N: "to_read (a @ b) r = n + to_read (a @ b) (adv (take_body a r))"
    using assms o take_body_length [of a r]
    by (auto simp: to_read_def overshoots_def n_def min_def)
  show ?thesis
    using o(1,2) N assms(3) by (simp add: take_body_def [of "a @ b"] Let_def) (simp add: take_body_def Let_def MARK_def upd_def adv_def n_def)
qed


lemma overshoot_first:
  assumes "overshoots a r" "pos r < length a" "good 1 r"
  shows "\<exists>r'. exec_byte st a ch r = Inr (Next r') \<and> adv r' = at_cut a r" "pos (at_cut a r) = length a"
proof -
  consider (eof) "hp_state (parser r) = s_body_identity_eof" | (len) "hp_state (parser r) = s_body_identity" | (chunk) "hp_state (parser r) = s_chunk_data"
    using assms(1) by (auto simp: overshoots_def)
  note kinds = this
  note o = overshoot_read [OF assms(1) _ assms(2)]
  show "\<exists>r'. exec_byte st a ch r = Inr (Next r') \<and> adv r' = at_cut a r"
    using kinds
  proof cases
    case eof
    then show ?thesis by (simp add: exec_byte.simps [of st a] exec_case_def case_body_identity_eof_def break_def at_cut_def)
  next
    case len
    with assms(3) o show ?thesis
      by (simp add: exec_byte.simps [of st a] exec_case_def case_body_identity_def break_def at_cut_def inv_defs assert_def)
  next
    case chunk
    with assms(3) o show ?thesis
      by (simp add: exec_byte.simps [of st a] exec_case_def case_chunk_data_def break_def at_cut_def inv_defs assert_def)
  qed
  show "pos (at_cut a r) = length a" using kinds o assms(2) by cases (simp_all add: at_cut_def)
qed

lemma exec_byte_done:
  assumes "hp_state (parser r) = s_message_done"
  shows "exec_byte st data ch' r = exec_byte st data ch r"
proof -
  have "exec_case st data ch' r = exec_case st data ch r" using assms by (simp add: exec_case_def)
  moreover have "n \<noteq> Reexecute r'" if "exec_case st data ch r = Inr n" for n r'
    using exec_case_progress [of data r st ch] that assms by (auto simp: rank_def)
  ultimately show ?thesis
    by (cases "exec_case st data ch r") (auto simp: exec_byte.simps [of st data _ r] split: hp_next.split)
qed

definition then_done :: "'d hp_next \<Rightarrow> bool" where
  "then_done n = (case n of Reexecute r \<Rightarrow> hp_state (parser r) = s_message_done | _ \<Rightarrow> True)"

lemma then_done_simps [simp]:
  "then_done (Break r)" "then_done (Goto_error r)" "then_done (Return k q)"
  "then_done (Reexecute r) \<longleftrightarrow> hp_state (parser r) = s_message_done"
  by (simp_all add: then_done_def)

lemma overshoot_then_done: "overshoots a r \<Longrightarrow> post True then_done (exec_case st data ch r)"
  by (auto simp: overshoots_def exec_case_def case_body_identity_def case_body_identity_eof_def case_chunk_data_def Let_def
      intro!: post_CALLBACK_DATA_ends)

lemma overshoot_whole:
  assumes "overshoots a r" "pos r < length a" "good 1 r" "b \<noteq> []"
  shows "exec_byte st (a @ b) ch' (at_cut a r) = exec_byte st (a @ b) ch r"
proof -
  consider (eof) "hp_state (parser r) = s_body_identity_eof" | (len) "hp_state (parser r) = s_body_identity" | (chunk) "hp_state (parser r) = s_chunk_data"
    using assms(1) by (auto simp: overshoots_def)
  note kinds = this
  note o = overshoot_read [OF assms(1) _ assms(2)] and t = take_body_split [OF assms(1) _ assms(2)]
  have "exec_case st (a @ b) ch' (at_cut a r) = exec_case st (a @ b) ch r"
    using kinds
  proof cases
    case eof
    then show ?thesis by (simp add: exec_case_def case_body_identity_eof_def at_cut_def MARK_def adv_def)
  next
    case len
    with assms(3) o t take_body_not_max [of r a] show ?thesis
      by (simp add: exec_case_def case_body_identity_def at_cut_def inv_defs)
  next
    case chunk
    with assms(3) o t take_body_not_max [of r a] show ?thesis
      by (simp add: exec_case_def case_chunk_data_def at_cut_def inv_defs)
  qed
  then show ?thesis
    using overshoot_then_done [OF assms(1), of st "a @ b" ch] exec_byte_done [of _ st "a @ b" ch' ch]
    by (cases "exec_case st (a @ b) ch r") (auto simp: exec_byte.simps [of st "a @ b" _ "at_cut a r"] exec_byte.simps [of st "a @ b" _ r] split: hp_next.split)
qed

lemma overshoot_loop:
  assumes "overshoots a r" "pos r < length a" "good 1 r" "b \<noteq> []"
  shows "exec_loop st a r = exec_loop st a (at_cut a r)" "good 0 (at_cut a r)"
    and "exec_loop st (a @ b) r = exec_loop st (a @ b) (at_cut a r)"
proof -
  have cb: "count_byte r = r" "\<not> header_overflow r" "count_byte (at_cut a r) = at_cut a r" "\<not> header_overflow (at_cut a r)"
    using assms(1) by (auto simp: overshoots_def count_byte_def header_overflow_def at_cut_def PARSING_HEADER_def)
  note p = overshoot_first(2) [OF assms(1-3)]
  obtain r' where r': "exec_byte st a (a ! pos r) r = Inr (Next r')" "adv r' = at_cut a r"
    using overshoot_first(1) [OF assms(1-3)] by metis
  show "exec_loop st a r = exec_loop st a (at_cut a r)"
    using exec_loop_byte [of r a st "Next r'"] assms(2) cb r' by simp
  show "good 0 (at_cut a r)" using exec_byte_good [OF r'(1) assms(3)] r'(2) by simp
  obtain l where l: "exec_byte st (a @ b) ((a @ b) ! pos r) r = Inr l" using exec_byte_safe [OF assms(3)] by metis
  have "exec_byte st (a @ b) ((a @ b) ! pos (at_cut a r)) (at_cut a r) = Inr l"
    using overshoot_whole [OF assms] l by metis
  then show "exec_loop st (a @ b) r = exec_loop st (a @ b) (at_cut a r)"
    using exec_loop_byte [of r "a @ b" st l] exec_loop_byte [of "at_cut a r" "a @ b" st l] l assms(2,4) p cb by simp
qed

subsection \<open>Marks at the cut\<close>

definition before :: "(mark \<Rightarrow> nat option) \<Rightarrow> nat \<Rightarrow> bool" where
  "before M p \<longleftrightarrow> (\<forall>m i. M m = Some i \<longrightarrow> i \<le> p)"

lemma before_upd [simp]: "before M p \<Longrightarrow> before (M(m := None)) p" "before M p \<Longrightarrow> before (M(m := Some p)) p"
  by (simp_all add: before_def)

lemma before_mono: "before M p \<Longrightarrow> p \<le> p' \<Longrightarrow> before M p'"
  by (force simp: before_def)

text \<open>
  The converse of what \<open>minv\<close> says: in a header field, a header value or a URL its mark is set; and
  a message that asks for an upgrade stops the parser at the end of its headers.
\<close>

definition marked :: "'d hp_run \<Rightarrow> bool" where
  "marked r \<longleftrightarrow> before (marks r) (pos r) \<and>
     (hp_state (parser r) = s_header_field \<longrightarrow> marks r M_header_field \<noteq> None) \<and>
     (hp_state (parser r) = s_header_value \<longrightarrow> marks r M_header_value \<noteq> None) \<and>
     (hp_state (parser r) \<in> url_states \<longrightarrow> marks r M_url \<noteq> None)"

definition kept :: "'d hp_next \<Rightarrow> bool" where
  "kept n =
     (case n of
        Break r \<Rightarrow> marked r \<and> \<not> hp_upgrade (parser r)
      | Reexecute r \<Rightarrow> marked r \<and> (hp_upgrade (parser r) \<longrightarrow> hp_state (parser r) = s_headers_done)
      | Goto_error r \<Rightarrow> True
      | Return k q \<Rightarrow> http_errno q \<noteq> HPE_OK \<or> hp_upgrade q)"

lemma kept_simps [simp]:
  "kept (Break r) \<longleftrightarrow> marked r \<and> \<not> hp_upgrade (parser r)"
  "kept (Reexecute r) \<longleftrightarrow> marked r \<and> (hp_upgrade (parser r) \<longrightarrow> hp_state (parser r) = s_headers_done)"
  "kept (Goto_error r)" "kept (Return k q) \<longleftrightarrow> http_errno q \<noteq> HPE_OK \<or> hp_upgrade q"
  by (simp_all add: kept_def)

lemma header_chars_kept:
  assumes "marked r" "\<not> hp_upgrade (parser r)"
  shows "hp_state (parser r) = s_header_field \<Longrightarrow> post True kept (header_field_char ch c r)"
    and "hp_state (parser r) = s_header_value \<Longrightarrow> post True kept (header_value_char ch r)"
    and "hp_state (parser r) = s_header_value \<Longrightarrow> post True kept (header_value_first ch r)"
  using assms
  by (cases "header_state (parser r)"; simp add: header_field_char_def header_value_char_def header_value_first_def
      content_length_digit_def field_letter_def match_keyword_def marked_def url_states_def Let_def)+

lemma url_step_kept:
  assumes "before (marks r) (pos r)" "marks r M_url \<noteq> None" "\<not> hp_upgrade (parser r)"
  shows "post True kept (url_step ch r)"
  using assms parse_url_char_url [of "hp_state (parser r)" ch]
  by (auto simp: url_step_def Let_def marked_def url_states_def)

lemma start_url: "NEW_MESSAGE q \<notin> url_states" "NEW_MESSAGE q \<noteq> s_header_field" "NEW_MESSAGE q \<noteq> s_header_value"
  using NEW_MESSAGE_range [of q] by (auto simp: url_states_def)

lemma body_kept:
  assumes "marked r" "\<not> hp_upgrade (parser r)" "pos r < length data" "good 1 r"
  shows "hp_state (parser r) = s_body_identity \<Longrightarrow> post True kept (case_body_identity st data r)"
    and "hp_state (parser r) = s_body_identity_eof \<Longrightarrow> post True kept (case_body_identity_eof data r)"
    and "hp_state (parser r) = s_chunk_data \<Longrightarrow> post True kept (case_chunk_data data r)"
proof -
  have up: "hp_upgrade (parser (take_body data r)) = hp_upgrade (parser r)" by (simp add: take_body_def Let_def)
  have b: "before (marks (MARK M_body r)) (pos r)" using assms(1) by (simp add: marked_def)
  have t: "before (marks (MARK M_body r)) (pos (take_body data r))" if "content_length (parser r) \<noteq> 0"
    using before_mono [OF b take_body_pos(1) [OF that assms(3)]] .
  show "post True kept (case_body_identity_eof data r)" if "hp_state (parser r) = s_body_identity_eof"
    using assms(2,3) that before_mono [OF b, of "length data - 1"]
    by (simp add: case_body_identity_eof_def marked_def url_states_def del: MARK_simps(3))
  show "post True kept (case_body_identity st data r)" if "hp_state (parser r) = s_body_identity"
    using assms(2) that t up
    by (simp add: case_body_identity_def Let_def marked_def url_states_def post_CALLBACK_DATA_ends del: MARK_simps(3))
  show "post True kept (case_chunk_data data r)" if "hp_state (parser r) = s_chunk_data"
    using assms(2) that t up
    by (simp add: case_chunk_data_def Let_def marked_def url_states_def del: MARK_simps(3))
qed

lemma complete_kept:
  assumes "before (marks r) (pos r)" "\<not> hp_upgrade (parser r)"
  shows "post True kept (notify_complete st (new_message r) break)"
  unfolding notify_complete_def
  by (rule post_CALLBACK_NOTIFY) (use assms start_url [of "parser r"] in \<open>simp_all add: marked_def\<close>)

lemma upgrade_kept:
  assumes "hp_upgrade (parser r)"
  shows "post True kept (notify_complete st (new_message r) (\<lambda>r2. Inr (Return (pos r2 + 1) (parser r2))))"
  unfolding notify_complete_def by (rule post_CALLBACK_NOTIFY) (use assms in simp_all)

lemma value_start_kept:
  assumes "before (marks r) (pos r)" "\<not> hp_upgrade (parser r)"
  shows "post True kept (header_value_first ch (upd (\<lambda>q. q\<lparr>hp_state := s_header_value, hp_index := 0\<rparr>) (MARK M_header_value r)))"
  by (rule header_chars_kept(3)) (use assms in \<open>simp_all add: marked_def url_states_def\<close>)

lemma exec_case_kept:
  assumes "marked r" "hp_upgrade (parser r) \<Longrightarrow> hp_state (parser r) = s_headers_done" "pos r < length data" "good 1 r"
  shows "post True kept (exec_case st data ch r)"
proof -
  have nu: "\<not> hp_upgrade (parser r)" if "hp_state (parser r) \<noteq> s_headers_done" using assms(2) that by blast
  have b: "before (marks r) (pos r)" using assms(1) by (simp add: marked_def)
  note special = header_chars_kept [OF assms(1)] body_kept [OF assms(1) _ assms(3,4)]
  show ?thesis
    using assms(1) nu b
    by (cases "hp_state (parser r)")
      (simp_all add: exec_case_def special,
       simp_all add: hp_case_defs notify_begin_def CALLBACK_DATA_def CALLBACK_DATA_NOADVANCE_def Let_def post_CALLBACK_NOTIFY
         post_CALLBACK_DATA_ends special url_step_kept complete_kept upgrade_kept [unfolded Suc_eq_plus1 [symmetric]] value_start_kept
         next_letter_def minor_digit_def rbind_def marked_def url_states_def fresh_message_def
         split: option.splits prod.splits sum.splits)
qed

lemma marked_adv: "marked r \<Longrightarrow> marked (adv r)"
  using before_mono [of "marks r" "pos r" "Suc (pos r)"] by (simp add: marked_def)

lemma at_error_stops:
  obtains n q where "at_error r = (n, q)" "http_errno q \<noteq> HPE_OK"
  by (cases "http_errno (parser r) = HPE_OK") (simp_all add: at_error_def)

lemma exec_byte_kept:
  assumes "exec_byte st data ch r = Inr l" "marked r" "hp_upgrade (parser r) \<Longrightarrow> hp_state (parser r) = s_headers_done"
    and "pos r < length data" "good 1 r"
  shows "case l of
      Next r' \<Rightarrow> marked (adv r') \<and> \<not> hp_upgrade (parser r')
    | Error r' \<Rightarrow> True
    | Returned k q \<Rightarrow> http_errno q \<noteq> HPE_OK \<or> hp_upgrade q"
  using assms
proof (induction st data ch r rule: exec_byte.induct)
  case (1 st data ch r)
  from exec_case_safe [OF "1.prems"(5), of st data ch] obtain n where n: "exec_case st data ch r = Inr n" "safe_next n"
    by (auto simp: post_def split: sum.splits)
  have k: "kept n" using exec_case_kept [OF "1.prems"(2-5), of st ch] n by simp
  show ?case
  proof (cases n)
    case (Reexecute r')
    then have "exec_byte st data ch r' = Inr l" "good 1 r'" "marked r'" "hp_upgrade (parser r') \<longrightarrow> hp_state (parser r') = s_headers_done"
      using "1.prems"(1) n k by (simp_all add: exec_byte.simps [of st data ch r])
    moreover have "pos r' < length data" using exec_case_progress [of data r st ch] n Reexecute "1.prems"(4) by simp
    ultimately show ?thesis using "1.IH" [OF n(1) Reexecute] by blast
  qed (use "1.prems"(1) n k in \<open>auto simp: exec_byte.simps [of st data ch r] marked_adv\<close>)
qed

text \<open>
  Up to the cut: either both calls end before it and in the same way, or the call on the first piece
  comes to its end in a state from which the call on the whole goes on.
\<close>

lemma exec_loop_prefix:
  assumes "good 0 r" "pos r \<le> length a" "marked r" "\<not> hp_upgrade (parser r)" "b \<noteq> []"
  obtains n q where "exec_loop st a r = Inr (n, q)" "exec_loop st (a @ b) r = Inr (n, q)" "http_errno q \<noteq> HPE_OK \<or> hp_upgrade q"
  | r' where "pos r' = length a" "good 0 r'" "marked r'" "\<not> hp_upgrade (parser r')"
      "exec_loop st a r = exec_loop st a r'" "exec_loop st (a @ b) r = exec_loop st (a @ b) r'"
  using assms(1-4)
proof (induction "length a - pos r" arbitrary: r thesis rule: less_induct)
  case less
  note st = less.prems(3-6)
  consider "pos r = length a" | "pos r < length a" "header_overflow (count_byte r)" |
    "pos r < length a" "\<not> header_overflow (count_byte r)"
    using st(2) by linarith
  then show ?case
  proof cases
    case 1
    with less.prems(2) st show ?thesis by blast
  next
    case 2
    then show ?thesis
      by (metis at_error_stops exec_loop_overflow length_append less.prems(1) trans_less_add1)
  next
    case 3
    define ch where "ch = a ! pos r"
    have c: "(a @ b) ! pos r = ch" using 3 by (simp add: ch_def nth_append)
    have g: "good 1 (count_byte r)" using good_count_byte [OF st(1) 3(2)] .
    have m: "marked (count_byte r)" "\<not> hp_upgrade (parser (count_byte r))"
      using st(3,4) by (simp_all add: count_byte_def marked_def)
    from exec_byte_safe [OF g, of st a ch] obtain l where l: "exec_byte st a ch (count_byte r) = Inr l" by metis
    note k = exec_byte_kept [OF l m(1) _ _ g] and e = exec_loop_byte [of r a st, folded ch_def, OF 3 l]
    show ?thesis
    proof (cases "overshoots a (count_byte r)")
      case True
      then have cb: "count_byte r = r" by (auto simp: overshoots_def count_byte_def PARSING_HEADER_def split: if_splits)
      note o = overshoot_loop [OF True [unfolded cb] 3(1) g [unfolded cb] assms(5)] overshoot_first [OF True [unfolded cb] 3(1) g [unfolded cb]]
      obtain r' where r': "exec_byte st a ch r = Inr (Next r')" "adv r' = at_cut a r" using o(4) by metis
      then have "l = Next r'" using l cb by simp
      then have mk: "marked (adv r')" "\<not> hp_upgrade (parser (adv r'))" using k m(2) 3(1) by simp_all
      with mk [unfolded r'(2)] o less.prems(2) show ?thesis by blast
    next
      case False
      have e2: "exec_loop st (a @ b) r = (case l of Next r' \<Rightarrow> exec_loop st (a @ b) (adv r') | Error r' \<Rightarrow> Inr (at_error r')
         | Returned n q \<Rightarrow> Inr (n, q))"
        using exec_loop_byte [of r "a @ b" st, unfolded c, of l] exec_byte_prefix [OF _ False, of st b ch] 3 l by simp
      show ?thesis
      proof (cases l)
        case (Next r')
        have "length a - pos (adv r') < length a - pos r" "pos (adv r') \<le> length a"
          using exec_byte_progress [OF l] 3(1) Next by auto
        note ih = less.hyps [OF this(1) _ _ exec_byte_good [OF l [unfolded Next] g] this(2)]
        have eqs: "exec_loop st a r = exec_loop st a (adv r')" "exec_loop st (a @ b) r = exec_loop st (a @ b) (adv r')"
          using e e2 Next by simp_all
        show ?thesis
        proof (rule ih)
          show "marked (adv r')" "\<not> hp_upgrade (parser (adv r'))" using k m(2) 3(1) Next by simp_all
        qed (use less.prems(1,2) in \<open>unfold eqs, blast+\<close>)
      next
        case (Error r')
        with e e2 less.prems(1) show ?thesis by (cases rule: at_error_stops [of r']) simp
      qed (use e e2 k m(2) 3(1) less.prems(1) in simp)
    qed
  qed
qed

subsection \<open>At the cut\<close>

lemma mark_states:
  assumes "good 0 r" "marked r" "marks r m \<noteq> None"
  shows "m \<noteq> M_body \<Longrightarrow> initial_marks (hp_state (parser r)) = no_marks(m := Some 0)"
    and "marks r = no_marks(m := marks r m)"
    and "m = M_body \<Longrightarrow> initial_marks (hp_state (parser r)) = no_marks"
    and "m = M_body \<Longrightarrow> hp_state (parser r) \<in> {s_body_identity, s_body_identity_eof, s_chunk_data, s_chunk_data_almost_done}"
proof -
  note d = goodD(3-6) [OF assms(1)]
  have dis: "s \<in> url_states \<Longrightarrow> s \<noteq> s_header_field \<and> s \<noteq> s_header_value \<and> s \<notin> {s_body_identity, s_body_identity_eof, s_chunk_data, s_chunk_data_almost_done}" for s
    by (auto simp: url_states_def)
  show "m \<noteq> M_body \<Longrightarrow> initial_marks (hp_state (parser r)) = no_marks(m := Some 0)"
    using d assms(3) dis [of "hp_state (parser r)"] by (cases m) (auto simp: initial_marks_def no_marks_def)
  show b: "m = M_body \<Longrightarrow> hp_state (parser r) \<in> {s_body_identity, s_body_identity_eof, s_chunk_data, s_chunk_data_almost_done}"
    using d(4) assms(3) by metis
  show "m = M_body \<Longrightarrow> initial_marks (hp_state (parser r)) = no_marks"
    using b dis [of "hp_state (parser r)"] by (auto simp: initial_marks_def no_marks_def)
  have "marks r m' = None" if "m' \<noteq> m" for m'
    using good_marks_set [OF assms(1)] assms(3) that by (cases m; cases m') (auto simp: marks_set_def split: if_splits)
  then show "marks r = no_marks(m := marks r m)" by (auto simp: no_marks_def)
qed

lemma cut_near:
  assumes "pos r = length a" "good 0 r" "marked r"
  obtains q where "exec_loop (recorder rv) a r = Inr (length a, q)" "same_fields q (parser r)" "near a b r (start_run q)"
proof (cases "marks r = no_marks")
  case True
  then have "initial_marks (hp_state (parser r)) = no_marks"
    using assms(3) by (auto simp: initial_marks_def marked_def no_marks_def)
  then have "near a b r (start_run (parser r))"
    using True assms(1) by (simp add: near_def sim_def start_run_def same_events_def)
  moreover have "exec_loop (recorder rv) a r = Inr (length a, parser r)"
    using goodD(1) [OF assms(2)] True assms(1) by (simp add: exec_loop_end leftover_recorder returned_def)
  ultimately show ?thesis using that [of "parser r"] by simp
next
  case False
  then obtain m i where mi: "marks r m = Some i" by (metis no_marks_def not_None_eq ext)
  note ms = mark_states [OF assms(2,3), of m]
  define q where "q = log_event (E_data m (frag a i (length a))) (parser r)"
  have i: "i \<le> length a" using assms(1,3) mi by (auto simp: marked_def before_def)
  have M: "marks r = no_marks(m := Some i)" using ms(2) mi by simp
  have fr: "frag (a @ b) i (length a) = frag a i (length a)" using i by (simp add: frag_def)
  have q: "exec_loop (recorder rv) a r = Inr (length a, q)"
    using goodD(1) [OF assms(2)] M assms(1) by (simp add: exec_loop_end leftover_recorder returned_def q_def)
  have st: "hp_state q = hp_state (parser r)" by (simp add: q_def log_event_def)
  have "near a b r (start_run q)"
  proof (cases "m = M_body")
    case True
    then have "late a b r (start_run q)" using ms M i fr mi assms(1)
      by (simp add: late_def start_run_def st) (auto simp: q_def intro!: exI [of _ i])
    then show ?thesis by (simp add: near_def)
  next
    case False
    have "same_events a b 0 (marks r) (no_marks(m := Some 0)) (hp_data (parser r)) (hp_data q)"
      unfolding M by (rule same_events_markI) (use i fr in \<open>simp_all add: q_def merge_data\<close>)
    then have "sim a b r (start_run q)" using False ms mi assms(1)
      by (simp add: sim_def start_run_def st) (simp add: q_def)
    then show ?thesis by (simp add: near_def)
  qed
  with q that [of q] show ?thesis by (simp add: q_def)
qed


lemma marked_start_run: "marked (start_run q)"
  by (auto simp: marked_def start_run_def initial_marks_def before_def url_states_def)

text \<open>Two calls on the pieces against one call on the whole.\<close>

lemma execute_cut:
  assumes "resumable q" "http_errno q = HPE_OK" "\<not> hp_upgrade q" "a \<noteq> []" "b \<noteq> []"
  obtains n q1 where "http_parser_execute (recorder rv) q a = Inr (n, q1)" "http_errno q1 \<noteq> HPE_OK \<or> hp_upgrade q1"
      "http_parser_execute (recorder rv) q (a @ b) = Inr (n, q1)"
  | q1 where "http_parser_execute (recorder rv) q a = Inr (length a, q1)" "http_errno q1 = HPE_OK" "\<not> hp_upgrade q1" "resumable q1"
      "rrel (length a) (http_parser_execute (recorder rv) q (a @ b)) (http_parser_execute (recorder rv) q1 b)"
proof -
  let ?st = "recorder rv"
  have g: "good 0 (start_run q)" using assms(1,2) by (simp add: good_start_run resumable_def)
  have ex: "http_parser_execute ?st q d = exec_loop ?st d (start_run q)" if "d \<noteq> []" for d
    using that assms(2) by (simp add: http_parser_execute_def)
  show thesis
  proof (rule exec_loop_prefix [OF g _ marked_start_run _ assms(5), of a ?st])
    fix n q1
    assume "exec_loop ?st a (start_run q) = Inr (n, q1)" "exec_loop ?st (a @ b) (start_run q) = Inr (n, q1)"
      "http_errno q1 \<noteq> HPE_OK \<or> hp_upgrade q1"
    then show thesis using that(1) assms(4) by (simp add: ex)
  next
    fix r
    assume r: "pos r = length a" "good 0 r" "marked r" "\<not> hp_upgrade (parser r)"
      and e: "exec_loop ?st a (start_run q) = exec_loop ?st a r" "exec_loop ?st (a @ b) (start_run q) = exec_loop ?st (a @ b) r"
    obtain q1 where q1: "exec_loop ?st a r = Inr (length a, q1)" "same_fields q1 (parser r)" "near a b r (start_run q1)"
      by (rule cut_near [OF r(1-3)])
    note f = same_fieldsD [OF q1(2)]
    have p: "http_errno q1 = HPE_OK" "pinv 0 q1" using r(2) by (simp_all add: good_def pinv_def f)
    have "rrel (length a) (exec_loop ?st (a @ b) r) (exec_loop ?st b (start_run q1))"
      by (rule exec_loop_near [OF q1(3)]) (use assms(5) p good_start_run [of q1] in \<open>simp_all add: start_run_def\<close>)
    then show thesis using that(2) [of q1] assms(4,5) e q1(1) p r(4) f
      by (simp add: ex resumable_def) (simp add: http_parser_execute_def)
  qed (simp_all add: assms(3) start_run_def)
qed

subsection \<open>Any number of cuts\<close>

text \<open>
  The calls of a program that hands the pieces over as they arrive: it goes on while there is no error
  and no upgrade. The result is the number of bytes taken and the last parser.
\<close>

fun feed :: "'d http_parser_settings \<Rightarrow> 'd http_parser \<Rightarrow> string list \<Rightarrow> hp_fault + nat \<times> 'd http_parser" where
  "feed st q [] = Inr (0, q)"
| "feed st q (p # ps) =
     rbind (http_parser_execute st q p) (\<lambda>(n, q1).
       if http_errno q1 \<noteq> HPE_OK \<or> hp_upgrade q1 then Inr (n, q1)
       else rbind (feed st q1 ps) (\<lambda>(k, q2). Inr (n + k, q2)))"

lemma same_fields_trans: "same_fields q1 q2 \<Longrightarrow> same_fields q2 q3 \<Longrightarrow> same_fields q1 q3"
  by (simp add: same_fields_def)

lemma rrel_trans:
  assumes "rrel k m1 m2" "rrel l m2 m3"
  shows "rrel (k + l) m1 m3"
proof -
  from assms(1) obtain n2 q1 q2 where m: "m1 = Inr (k + n2, q1)" "m2 = Inr (n2, q2)" "same_fields q1 q2"
    "http_errno q2 = HPE_OK \<longrightarrow> merge (hp_data q1) = merge (hp_data q2)" unfolding rrel_def by blast
  with assms(2) obtain n3 q3 where n: "n2 = l + n3" "m3 = Inr (n3, q3)" "same_fields q2 q3"
    "http_errno q3 = HPE_OK \<longrightarrow> merge (hp_data q2) = merge (hp_data q3)" unfolding rrel_def by auto
  from m n same_fieldsD(12) [OF n(3)] same_fields_trans [OF m(3) n(3)] show ?thesis by (simp add: rrel_def)
qed

lemma rrel_shift: "rrel k m1 m2 \<Longrightarrow> rrel 0 m1 (rbind m2 (\<lambda>(n, q). Inr (k + n, q)))"
  by (auto simp: rrel_def)

lemma feed_rrel:
  assumes "resumable q" "http_errno q = HPE_OK" "\<not> hp_upgrade q" "[] \<notin> set ps" "ps \<noteq> []"
  shows "rrel 0 (http_parser_execute (recorder rv) q (concat ps)) (feed (recorder rv) q ps)"
  using assms
proof (induction "recorder rv" q ps rule: feed.induct)
  case (2 q p ps)
  show ?case
  proof (cases "ps = []")
    case True
    from execute_safe [OF "2.prems"(1)] obtain n q1 where "http_parser_execute (recorder rv) q p = Inr (n, q1)" by metis
    with True show ?thesis by (simp add: rrel_def)
  next
    case False
    with "2.prems"(4) have b: "concat ps \<noteq> []" and p: "p \<noteq> []"
      by (cases ps; auto)+
    show ?thesis
    proof (cases rule: execute_cut [OF "2.prems"(1-3) p b, of rv])
      case (1 n q1)
      then show ?thesis by (simp add: rrel_def)
    next
      case (2 q1)
      have "rrel 0 (http_parser_execute (recorder rv) q1 (concat ps)) (feed (recorder rv) q1 ps)"
        by (rule "2.hyps" [OF 2(1)]) (use 2 "2.prems"(4) False in simp_all)
      from rrel_shift [OF rrel_trans [OF 2(5) this]] 2 show ?thesis by simp
    qed
  qed
qed simp

text \<open>
  C2. The cuts between buffers do not matter. Whatever the pieces in which the bytes of a connection are
  handed to the parser, and whatever \<^verbatim>\<open>on_headers_complete\<close> returns, as many bytes are taken as
  by one call on all of them; every field of the parser ends up the same, the error code included; and
  as long as there is no error the callbacks have seen the same events in the same order, once adjacent
  pieces of the same URL, header field, header value or body are put together.
\<close>

theorem cuts_do_not_matter:
  assumes "hp_reachable q" "http_errno q = HPE_OK" "\<not> hp_upgrade q" "[] \<notin> set ps" "ps \<noteq> []"
  shows "\<exists>n q1 q2. http_parser_execute (recorder rv) q (concat ps) = Inr (n, q1) \<and>
    feed (recorder rv) q ps = Inr (n, q2) \<and> same_fields q1 q2 \<and>
    (http_errno q2 = HPE_OK \<longrightarrow> merge (hp_data q1) = merge (hp_data q2))"
  using feed_rrel [OF reachable_resumable [OF assms(1)] assms(2-5), of rv] by (auto simp: rrel_def)

definition three_pieces :: "string list" where
  "three_pieces =
     [''POST /up'', ''load HTTP/1.1'' @ [CR, LF] @ ''Content-Le'',
      ''ngth: 5'' @ [CR, LF, CR, LF] @ ''ab'', ''cdeGET'']"

theorem cuts_do_not_matter_witness:
  "hp_reachable (http_parser_init HTTP_REQUEST ([] :: hp_event list)) \<and> [] \<notin> set three_pieces \<and>
   (\<exists>n q1 q2. http_parser_execute (recorder 0) (http_parser_init HTTP_REQUEST []) (concat three_pieces) = Inr (n, q1) \<and>
     feed (recorder 0) (http_parser_init HTTP_REQUEST []) three_pieces = Inr (n, q2) \<and> http_errno q2 = HPE_OK \<and>
     merge (hp_data q1) = merge (hp_data q2) \<and>
     merge (hp_data q2) = [E_begin, E_data M_url ''/upload'', E_data M_header_field ''Content-Length'',
       E_data M_header_value ''5'', E_headers_complete, E_data M_body ''abcde'', E_complete, E_begin])"
proof -
  let ?q = "http_parser_init HTTP_REQUEST ([] :: hp_event list)"
  have r: "hp_reachable ?q" by (rule initialised)
  have i: "http_errno ?q = HPE_OK" "\<not> hp_upgrade ?q" "[] \<notin> set three_pieces" "three_pieces \<noteq> []" by code_simp+
  have "case feed (recorder 0) ?q three_pieces of Inl _ \<Rightarrow> False | Inr (n, q2) \<Rightarrow> http_errno q2 = HPE_OK \<and>
     merge (hp_data q2) = [E_begin, E_data M_url ''/upload'', E_data M_header_field ''Content-Length'',
       E_data M_header_value ''5'', E_headers_complete, E_data M_body ''abcde'', E_complete, E_begin]"
    by code_simp
  with r i(3) cuts_do_not_matter [OF r i, of 0] show ?thesis by (auto split: sum.splits)
qed

end
