(* ===== verification/HP_Url.thy ===== *)
theory HP_Url
  imports HP_Exec
begin

section \<open>The HTTP parser: URLs\<close>

text \<open>
  \<^verbatim>\<open>http_parser_parse_url\<close> of \<^verbatim>\<open>http_parser.c\<close>, which splits a URL into its fields: the loop
  over the characters, \<^verbatim>\<open>http_parse_host\<close> for user information, host and port, and the port as a
  number. The offsets and lengths are 16 bits wide. The caller's structure is an argument, because the
  function sets \<^verbatim>\<open>field_set\<close> and \<^verbatim>\<open>port\<close> only and leaves \<^verbatim>\<open>field_data\<close> as it is. At the end of the source file are also the names of the errors.
\<close>

unbundle bit_operations_syntax

subsection \<open>The result structure\<close>

datatype http_parser_url_fields =
  UF_SCHEMA | UF_HOST | UF_PORT | UF_PATH | UF_QUERY | UF_FRAGMENT | UF_USERINFO | UF_MAX

primrec uf_number :: "http_parser_url_fields \<Rightarrow> nat" where
  "uf_number UF_SCHEMA = 0"
| "uf_number UF_HOST = 1"
| "uf_number UF_PORT = 2"
| "uf_number UF_PATH = 3"
| "uf_number UF_QUERY = 4"
| "uf_number UF_FRAGMENT = 5"
| "uf_number UF_USERINFO = 6"
| "uf_number UF_MAX = 7"

record url_field =
  f_off :: u16
  f_len :: u16

record http_parser_url =
  field_set :: u16
  port :: u16
  field_data :: "http_parser_url_fields \<Rightarrow> url_field"

definition uf_bit :: "http_parser_url_fields \<Rightarrow> u16" where
  "uf_bit f = push_bit (uf_number f) 1"

definition has_field :: "http_parser_url \<Rightarrow> http_parser_url_fields \<Rightarrow> bool" where
  "has_field u f \<longleftrightarrow> field_set u AND uf_bit f \<noteq> 0"

definition put_field :: "http_parser_url_fields \<Rightarrow> nat \<Rightarrow> nat \<Rightarrow> http_parser_url \<Rightarrow> http_parser_url" where
  "put_field f p n u =
     u\<lparr>field_data := (field_data u)(f := \<lparr>f_off = of_nat p, f_len = of_nat n\<rparr>), field_set := field_set u OR uf_bit f\<rparr>"

definition grow_field :: "http_parser_url_fields \<Rightarrow> http_parser_url \<Rightarrow> http_parser_url" where
  "grow_field f u = u\<lparr>field_data := (field_data u)(f := (field_data u f)\<lparr>f_len := f_len (field_data u f) + 1\<rparr>)\<rparr>"

subsection \<open>Host and port\<close>

definition http_parse_host_char :: "http_host_state \<Rightarrow> char \<Rightarrow> http_host_state" where
  "http_parse_host_char s ch =
     (let port_sign = (if ch = CHR '':'' then s_http_host_port_start else s_http_host_dead);
          v6 = (if IS_HEX ch \<or> ch = CHR '':'' then s_http_host_v6 else s_http_host_dead)
      in if s \<in> {s_http_userinfo, s_http_userinfo_start}
         then if ch = CHR ''@'' then s_http_host_start
              else if IS_USERINFO_CHAR ch then s_http_userinfo
              else s_http_host_dead
         else if s = s_http_host_start
         then if ch = CHR ''['' then s_http_host_v6_start
              else if IS_HOST_CHAR ch then s_http_host
              else s_http_host_dead
         else if s = s_http_host then if IS_HOST_CHAR ch then s_http_host else port_sign
         else if s = s_http_host_v6_end then port_sign
         else if s = s_http_host_v6 then if ch = CHR '']'' then s_http_host_v6_end else v6
         else if s = s_http_host_v6_start then v6
         else if s \<in> {s_http_host_port, s_http_host_port_start}
         then if IS_NUM ch then s_http_host_port else s_http_host_dead
         else s_http_host_dead)"

text \<open>What the switch on the new state does at offset \<open>p\<close>.\<close>

definition host_field :: "http_host_state \<Rightarrow> http_host_state \<Rightarrow> nat \<Rightarrow> http_parser_url \<Rightarrow> http_parser_url" where
  "host_field s new_s p u =
     (let host_off = u\<lparr>field_data := (field_data u)(UF_HOST := (field_data u UF_HOST)\<lparr>f_off := of_nat p\<rparr>)\<rparr>
      in case new_s of
           s_http_host \<Rightarrow> grow_field UF_HOST (if s \<noteq> new_s then host_off else u)
         | s_http_host_v6 \<Rightarrow> grow_field UF_HOST (if s \<noteq> new_s then host_off else u)
         | s_http_host_port \<Rightarrow> grow_field UF_PORT (if s \<noteq> new_s then put_field UF_PORT p 0 u else u)
         | s_http_userinfo \<Rightarrow> grow_field UF_USERINFO (if s \<noteq> new_s then put_field UF_USERINFO p 0 u else u)
         | _ \<Rightarrow> u)"

text \<open>
  The loop over the offsets. \<open>mem\<close> is the memory that can be read from the start of the buffer on. The
  first component of the result says that the function has returned 1.
\<close>

fun host_loop ::
  "string \<Rightarrow> http_host_state \<Rightarrow> nat list \<Rightarrow> http_parser_url \<Rightarrow> hp_fault + bool \<times> http_host_state \<times> http_parser_url" where
  "host_loop mem s [] u = Inr (False, s, u)"
| "host_loop mem s (p # ps) u =
     (if length mem \<le> p then Inl Data_overrun
      else let new_s = http_parse_host_char s (mem ! p) in
        if new_s = s_http_host_dead then Inr (True, s, u)
        else host_loop mem new_s ps (host_field s new_s p u))"

definition http_parse_host :: "string \<Rightarrow> http_parser_url \<Rightarrow> bool \<Rightarrow> hp_fault + bool \<times> http_parser_url" where
  "http_parse_host mem u found_at =
     (let h = field_data u UF_HOST;
          buflen = unat (f_off h) + unat (f_len h);
          u0 = u\<lparr>field_data := (field_data u)(UF_HOST := h\<lparr>f_len := 0\<rparr>)\<rparr>
      in rbind (host_loop mem (if found_at then s_http_userinfo_start else s_http_host_start) [unat (f_off h)..<buflen] u0)
           (\<lambda>(failed, s, u1).
              Inr (failed \<or> s \<in> {s_http_host_start, s_http_host_v6_start, s_http_host_v6, s_http_host_port_start,
                     s_http_userinfo, s_http_userinfo_start}, u1)))"

subsection \<open>The loop over the URL\<close>

definition url_delimiter :: "state \<Rightarrow> bool" where
  "url_delimiter s \<longleftrightarrow>
     s \<in> {s_req_schema_slash, s_req_schema_slash_slash, s_req_server_start, s_req_query_string_start, s_req_fragment_start}"

definition url_uf :: "state \<Rightarrow> http_parser_url_fields option" where
  "url_uf s =
     (case s of
        s_req_schema \<Rightarrow> Some UF_SCHEMA
      | s_req_server_with_at \<Rightarrow> Some UF_HOST
      | s_req_server \<Rightarrow> Some UF_HOST
      | s_req_path \<Rightarrow> Some UF_PATH
      | s_req_query_string \<Rightarrow> Some UF_QUERY
      | s_req_fragment \<Rightarrow> Some UF_FRAGMENT
      | _ \<Rightarrow> None)"

fun url_loop ::
  "state \<Rightarrow> http_parser_url_fields \<Rightarrow> bool \<Rightarrow> nat \<Rightarrow> string \<Rightarrow> http_parser_url \<Rightarrow> hp_fault + bool \<times> bool \<times> http_parser_url" where
  "url_loop s old_uf found_at p [] u = Inr (False, found_at, u)"
| "url_loop s old_uf found_at p (ch # cs) u =
     (let s' = parse_url_char s ch in
      if s' = s_dead then Inr (True, found_at, u)
      else if url_delimiter s' then url_loop s' old_uf found_at (p + 1) cs u
      else case url_uf s' of
             None \<Rightarrow> Inl Assert_failed
           | Some uf \<Rightarrow>
               url_loop s' uf (found_at \<or> s' = s_req_server_with_at) (p + 1) cs
                 (if uf = old_uf then grow_field uf u else put_field uf p 1 u))"

text \<open>
  \<^verbatim>\<open>strtoul\<close> from a digit on, saturating at 32 bits. It stops at the first character that is no
  digit, which may lie behind the URL: \<open>rest\<close> is the memory after it.
\<close>

definition strtoul :: "string \<Rightarrow> nat" where
  "strtoul s = min (2 ^ 32 - 1) (read_nat (takeWhile IS_NUM s))"

definition http_parser_parse_url ::
  "string \<Rightarrow> string \<Rightarrow> bool \<Rightarrow> http_parser_url \<Rightarrow> hp_fault + int \<times> http_parser_url" where
  "http_parser_parse_url buf rest is_connect u =
     rbind (url_loop (if is_connect then s_req_server_start else s_req_spaces_before_url) UF_MAX False 0 buf
              (u\<lparr>port := 0, field_set := 0\<rparr>))
       (\<lambda>(failed, found_at, u1).
          if failed then Inr (1, u1)
          else rbind (if field_set u1 AND (uf_bit UF_SCHEMA OR uf_bit UF_HOST) \<noteq> 0
                      then http_parse_host (buf @ rest) u1 found_at else Inr (False, u1))
            (\<lambda>(failed, u2).
               if failed then Inr (1, u2)
               else if is_connect \<and> field_set u2 \<noteq> uf_bit UF_HOST OR uf_bit UF_PORT then Inr (1, u2)
               else if has_field u2 UF_PORT
               then let v = strtoul (drop (unat (f_off (field_data u2 UF_PORT))) (buf @ rest)) in
                 if v > 0xffff then Inr (1, u2) else Inr (0, u2\<lparr>port := of_nat v\<rparr>)
               else Inr (0, u2)))"

definition url_slice :: "string \<Rightarrow> http_parser_url \<Rightarrow> http_parser_url_fields \<Rightarrow> string" where
  "url_slice buf u f = take (unat (f_len (field_data u f))) (drop (unat (f_off (field_data u f))) buf)"

subsection \<open>Names of errors\<close>

text \<open>The name and the description of an error; the table has one row for each.\<close>

primrec http_strerror_tab :: "http_errno \<Rightarrow> string \<times> string" where
  "http_strerror_tab HPE_OK = (''HPE_OK'', ''success'')"
| "http_strerror_tab HPE_CB_message_begin = (''HPE_CB_message_begin'', ''the on_message_begin callback failed'')"
| "http_strerror_tab HPE_CB_url = (''HPE_CB_url'', ''the on_url callback failed'')"
| "http_strerror_tab HPE_CB_header_field = (''HPE_CB_header_field'', ''the on_header_field callback failed'')"
| "http_strerror_tab HPE_CB_header_value = (''HPE_CB_header_value'', ''the on_header_value callback failed'')"
| "http_strerror_tab HPE_CB_headers_complete = (''HPE_CB_headers_complete'', ''the on_headers_complete callback failed'')"
| "http_strerror_tab HPE_CB_body = (''HPE_CB_body'', ''the on_body callback failed'')"
| "http_strerror_tab HPE_CB_message_complete = (''HPE_CB_message_complete'', ''the on_message_complete callback failed'')"
| "http_strerror_tab HPE_INVALID_EOF_STATE = (''HPE_INVALID_EOF_STATE'', ''stream ended at an unexpected time'')"
| "http_strerror_tab HPE_HEADER_OVERFLOW = (''HPE_HEADER_OVERFLOW'', ''too many header bytes seen; overflow detected'')"
| "http_strerror_tab HPE_CLOSED_CONNECTION = (''HPE_CLOSED_CONNECTION'', ''data received after completed connection: close message'')"
| "http_strerror_tab HPE_INVALID_VERSION = (''HPE_INVALID_VERSION'', ''invalid HTTP version'')"
| "http_strerror_tab HPE_INVALID_STATUS = (''HPE_INVALID_STATUS'', ''invalid HTTP status code'')"
| "http_strerror_tab HPE_INVALID_METHOD = (''HPE_INVALID_METHOD'', ''invalid HTTP method'')"
| "http_strerror_tab HPE_INVALID_URL = (''HPE_INVALID_URL'', ''invalid URL'')"
| "http_strerror_tab HPE_INVALID_HOST = (''HPE_INVALID_HOST'', ''invalid host'')"
| "http_strerror_tab HPE_INVALID_PORT = (''HPE_INVALID_PORT'', ''invalid port'')"
| "http_strerror_tab HPE_INVALID_PATH = (''HPE_INVALID_PATH'', ''invalid path'')"
| "http_strerror_tab HPE_INVALID_QUERY_STRING = (''HPE_INVALID_QUERY_STRING'', ''invalid query string'')"
| "http_strerror_tab HPE_INVALID_FRAGMENT = (''HPE_INVALID_FRAGMENT'', ''invalid fragment'')"
| "http_strerror_tab HPE_LF_EXPECTED = (''HPE_LF_EXPECTED'', ''LF character expected'')"
| "http_strerror_tab HPE_INVALID_HEADER_TOKEN = (''HPE_INVALID_HEADER_TOKEN'', ''invalid character in header'')"
| "http_strerror_tab HPE_INVALID_CONTENT_LENGTH = (''HPE_INVALID_CONTENT_LENGTH'', ''invalid character in content-length header'')"
| "http_strerror_tab HPE_INVALID_CHUNK_SIZE = (''HPE_INVALID_CHUNK_SIZE'', ''invalid character in chunk size header'')"
| "http_strerror_tab HPE_INVALID_CONSTANT = (''HPE_INVALID_CONSTANT'', ''invalid constant string'')"
| "http_strerror_tab HPE_INVALID_INTERNAL_STATE = (''HPE_INVALID_INTERNAL_STATE'', ''encountered unexpected internal state'')"
| "http_strerror_tab HPE_STRICT = (''HPE_STRICT'', ''strict mode assertion failed'')"
| "http_strerror_tab HPE_PAUSED = (''HPE_PAUSED'', ''parser is paused'')"
| "http_strerror_tab HPE_UNKNOWN = (''HPE_UNKNOWN'', ''an unknown error occurred'')"

definition http_errno_name :: "http_errno \<Rightarrow> string" where
  "http_errno_name err = fst (http_strerror_tab err)"

definition http_errno_description :: "http_errno \<Rightarrow> string" where
  "http_errno_description err = snd (http_strerror_tab err)"

subsection \<open>Runs of one field\<close>

lemma grow_put [simp]: "grow_field f (put_field f p n u) = put_field f p (n + 1) u"
  by (simp add: grow_field_def put_field_def add.commute)

lemma url_loop_delimiter:
  "parse_url_char s c = s' \<Longrightarrow> url_delimiter s' \<Longrightarrow>
   url_loop s old_uf fa p (c # ds) u = url_loop s' old_uf fa (p + 1) ds u"
  by (auto simp: Let_def url_delimiter_def)

lemma url_loop_run:
  assumes "\<And>c. c \<in> set cs \<Longrightarrow> parse_url_char s c = s" "url_uf s = Some f" "s \<noteq> s_req_server_with_at"
  shows "url_loop s f fa p (cs @ ds) (put_field f q n u) = url_loop s f fa (p + length cs) ds (put_field f q (n + length cs) u)"
  using assms(1)
proof (induction cs arbitrary: p n)
  case (Cons c cs)
  have "s \<noteq> s_dead" "\<not> url_delimiter s" using assms(2) by (auto simp: url_uf_def url_delimiter_def split: state.splits)
  with Cons.IH [of "p + 1" "n + 1"] Cons.prems assms(2,3) show ?case by simp
qed simp

lemma url_loop_field:
  assumes "parse_url_char s0 c = s" "\<And>c. c \<in> set cs \<Longrightarrow> parse_url_char s c = s" "url_uf s = Some f"
    and "s \<noteq> s_req_server_with_at" "f \<noteq> old_uf"
  shows "url_loop s0 old_uf fa p (c # cs @ ds) u = url_loop s f fa (p + 1 + length cs) ds (put_field f p (1 + length cs) u)"
proof -
  have "s \<noteq> s_dead" "\<not> url_delimiter s" using assms(3) by (auto simp: url_uf_def url_delimiter_def split: state.splits)
  then have "url_loop s0 old_uf fa p (c # cs @ ds) u = url_loop s f fa (p + 1) (cs @ ds) (put_field f p 1 u)"
    using assms by simp
  with url_loop_run [OF assms(2-4), of cs fa "p + 1" ds p 1 u] show ?thesis by simp
qed

lemma host_loop_append:
  "host_loop mem s (ps @ qs) u =
     rbind (host_loop mem s ps u) (\<lambda>(failed, s', u'). if failed then Inr (True, s', u') else host_loop mem s' qs u')"
  by (induction ps arbitrary: s u) (simp_all add: Let_def)

text \<open>The host and the digits of the port.\<close>

definition host_at :: "nat \<Rightarrow> nat \<Rightarrow> http_parser_url \<Rightarrow> http_parser_url" where
  "host_at p n u = u\<lparr>field_data := (field_data u)(UF_HOST := \<lparr>f_off = of_nat p, f_len = of_nat n\<rparr>)\<rparr>"

lemma host_run:
  assumes "\<And>i. i < n \<Longrightarrow> p + i < length mem \<and> IS_HOST_CHAR (mem ! (p + i))" "0 < n" "f_len (field_data u UF_HOST) = 0"
  shows "host_loop mem s_http_host_start [p..<p + n] u = Inr (False, s_http_host, host_at p n u)"
  using assms(1,2)
proof (induction n)
  case (Suc n)
  have c: "p + n < length mem" "IS_HOST_CHAR (mem ! (p + n))" using Suc.prems(1) [of n] by simp_all
  have "mem ! (p + n) \<noteq> CHR ''[''" using c(2)
    by (auto simp: IS_HOST_CHAR_def IS_ALPHANUM_def IS_ALPHA_def IS_NUM_def char_between_def)
  then show ?case
  proof (cases "n = 0")
    case True
    then show ?thesis using c \<open>mem ! (p + n) \<noteq> CHR ''[''\<close> assms(3)
      by (cases "field_data u UF_HOST")
        (simp add: http_parse_host_char_def Let_def host_field_def grow_field_def host_at_def)
  next
    case False
    then have "host_loop mem s_http_host_start [p..<p + n] u = Inr (False, s_http_host, host_at p n u)"
      using Suc by simp
    with c show ?thesis
      by (simp add: host_loop_append http_parse_host_char_def Let_def host_field_def grow_field_def host_at_def add.commute)
  qed
qed simp

lemma port_run:
  assumes "\<And>i. i < n \<Longrightarrow> p + i < length mem \<and> IS_NUM (mem ! (p + i))" "0 < n"
  shows "host_loop mem s_http_host_port_start [p..<p + n] u = Inr (False, s_http_host_port, put_field UF_PORT p n u)"
  using assms
proof (induction n)
  case (Suc n)
  have c: "p + n < length mem" "IS_NUM (mem ! (p + n))" using Suc.prems(1) [of n] by simp_all
  show ?case
  proof (cases "n = 0")
    case True
    then show ?thesis using c by (simp add: http_parse_host_char_def Let_def host_field_def)
  next
    case False
    then have "host_loop mem s_http_host_port_start [p..<p + n] u = Inr (False, s_http_host_port, put_field UF_PORT p n u)"
      using Suc by simp
    with c show ?thesis by (simp add: host_loop_append http_parse_host_char_def Let_def host_field_def)
  qed
qed simp

subsection \<open>Well-formed URLs\<close>

lemma not_url_char [simp]:
  "\<not> IS_URL_CHAR (CHR '' '')" "\<not> IS_URL_CHAR CR" "\<not> IS_URL_CHAR LF" "\<not> IS_URL_CHAR TAB" "\<not> IS_URL_CHAR (CHR 0x0C)"
  by code_simp+

lemma schema_chars:
  assumes "IS_ALPHA c"
  shows "parse_url_char s_req_spaces_before_url c = s_req_schema" "parse_url_char s_req_schema c = s_req_schema"
  using assms by (auto simp: parse_url_char_def IS_ALPHA_def char_between_def)

definition server_char :: "char \<Rightarrow> bool" where
  "server_char c \<longleftrightarrow> IS_HOST_CHAR c \<or> c = CHR '':''"

lemma server_chars:
  assumes "server_char c"
  shows "parse_url_char s_req_server_start c = s_req_server" "parse_url_char s_req_server c = s_req_server"
proof -
  have "c \<notin> {CHR '' '', CR, LF, TAB, CHR 0x0C, CHR ''/'', CHR ''?'', CHR ''@''}"
    using assms by (auto simp: server_char_def IS_HOST_CHAR_def IS_ALPHANUM_def IS_ALPHA_def IS_NUM_def char_between_def)
  moreover have "IS_USERINFO_CHAR c" using assms by (auto simp: server_char_def IS_HOST_CHAR_def IS_USERINFO_CHAR_def IS_MARK_def)
  ultimately show "parse_url_char s_req_server_start c = s_req_server" "parse_url_char s_req_server c = s_req_server"
    by (simp_all add: parse_url_char_def url_server_def)
qed

lemma path_chars:
  "IS_URL_CHAR c \<Longrightarrow> parse_url_char s_req_path c = s_req_path"
  "IS_URL_CHAR c \<Longrightarrow> parse_url_char s_req_query_string_start c = s_req_query_string"
  "IS_URL_CHAR c \<Longrightarrow> parse_url_char s_req_query_string c = s_req_query_string"
  "IS_URL_CHAR c \<Longrightarrow> parse_url_char s_req_fragment_start c = s_req_fragment"
  "IS_URL_CHAR c \<Longrightarrow> parse_url_char s_req_fragment c = s_req_fragment"
  by (auto simp: parse_url_char_def url_query_def)

text \<open>A URL from its parts.\<close>

definition url_part :: "char \<Rightarrow> string option \<Rightarrow> string" where
  "url_part c x = (case x of None \<Rightarrow> [] | Some s \<Rightarrow> c # s)"

definition url_text :: "string \<Rightarrow> string \<Rightarrow> string option \<Rightarrow> string \<Rightarrow> string option \<Rightarrow> string option \<Rightarrow> string" where
  "url_text schema host portno path query fragment =
     schema @ ''://'' @ host @ url_part (CHR '':'') portno @ CHR ''/'' # path @ url_part (CHR ''?'') query @
     url_part (CHR ''#'') fragment"

definition wf_part :: "(char \<Rightarrow> bool) \<Rightarrow> string option \<Rightarrow> bool" where
  "wf_part P x = (case x of None \<Rightarrow> True | Some s \<Rightarrow> s \<noteq> [] \<and> list_all P s)"

definition put_part :: "http_parser_url_fields \<Rightarrow> nat \<Rightarrow> string option \<Rightarrow> http_parser_url \<Rightarrow> http_parser_url" where
  "put_part f p x u = (case x of None \<Rightarrow> u | Some s \<Rightarrow> put_field f (p + 1) (length s) u)"

lemma url_loop_query:
  assumes "wf_part IS_URL_CHAR query" "wf_part IS_URL_CHAR fragment"
  shows "url_loop s_req_path UF_PATH fa p (url_part (CHR ''?'') query @ url_part (CHR ''#'') fragment) u =
    Inr (False, fa, put_part UF_FRAGMENT (p + length (url_part (CHR ''?'') query)) fragment (put_part UF_QUERY p query u))"
proof -
  have fr: "url_loop s old_uf fa p (url_part (CHR ''#'') fragment) u = Inr (False, fa, put_part UF_FRAGMENT p fragment u)"
    if "s \<in> {s_req_path, s_req_query_string}" "old_uf \<noteq> UF_FRAGMENT" for s old_uf p u
  proof (cases fragment)
    case (Some cs)
    with assms(2) obtain c ds where cs: "cs = c # ds" "IS_URL_CHAR c" "list_all IS_URL_CHAR ds"
      by (cases cs) (auto simp: wf_part_def)
    have h: "parse_url_char s (CHR ''#'') = s_req_fragment_start"
      using that(1) by (auto simp: parse_url_char_def url_query_def IS_URL_CHAR_def normal_url_char_def)
    have "url_loop s_req_fragment_start old_uf fa (p + 1) (c # ds @ []) u =
       url_loop s_req_fragment UF_FRAGMENT fa (p + 1 + 1 + length ds) [] (put_field UF_FRAGMENT (p + 1) (1 + length ds) u)"
      by (rule url_loop_field) (use cs that(2) in \<open>auto simp: path_chars url_uf_def list_all_iff\<close>)
    then show ?thesis using url_loop_delimiter [OF h, of old_uf fa p "c # ds" u] Some cs
      by (simp add: url_part_def put_part_def url_delimiter_def)
  qed (simp add: url_part_def put_part_def)
  show ?thesis
  proof (cases query)
    case None
    then show ?thesis using fr [of s_req_path UF_PATH p u] by (simp add: url_part_def put_part_def)
  next
    case (Some cs)
    with assms(1) obtain c ds where cs: "cs = c # ds" "IS_URL_CHAR c" "list_all IS_URL_CHAR ds"
      by (cases cs) (auto simp: wf_part_def)
    have h: "parse_url_char s_req_path (CHR ''?'') = s_req_query_string_start"
      by (simp add: parse_url_char_def IS_URL_CHAR_def normal_url_char_def)
    let ?f = "url_part (CHR ''#'') fragment"
    have "url_loop s_req_query_string_start UF_PATH fa (p + 1) (c # ds @ ?f) u =
       url_loop s_req_query_string UF_QUERY fa (p + 1 + 1 + length ds) ?f (put_field UF_QUERY (p + 1) (1 + length ds) u)"
      by (rule url_loop_field) (use cs in \<open>auto simp: path_chars url_uf_def list_all_iff\<close>)
    then show ?thesis using url_loop_delimiter [OF h, of UF_PATH fa p "c # ds @ ?f" u] Some cs
      by (simp add: url_part_def [of "CHR ''?''"] put_part_def [of UF_QUERY] url_delimiter_def fr)
  qed
qed

lemma url_loop_text:
  assumes "schema \<noteq> []" "list_all IS_ALPHA schema" "host \<noteq> []" "list_all IS_HOST_CHAR host"
    and "wf_part IS_NUM portno" "list_all IS_URL_CHAR path" "wf_part IS_URL_CHAR query" "wf_part IS_URL_CHAR fragment"
  defines "h \<equiv> length schema + 3" and "hl \<equiv> length host + length (url_part (CHR '':'') portno)"
  defines "q \<equiv> h + hl + 1 + length path"
  shows "url_loop s_req_spaces_before_url UF_MAX False 0 (url_text schema host portno path query fragment) u =
    Inr (False, False, put_part UF_FRAGMENT (q + length (url_part (CHR ''?'') query)) fragment
      (put_part UF_QUERY q query (put_field UF_PATH (h + hl) (1 + length path)
        (put_field UF_HOST h hl (put_field UF_SCHEMA 0 (length schema) u)))))"
proof -
  obtain a as where a: "schema = a # as" "IS_ALPHA a" "list_all IS_ALPHA as"
    using assms(1,2) by (cases schema) auto
  obtain b bs where b: "host = b # bs" "IS_HOST_CHAR b" "list_all IS_HOST_CHAR bs"
    using assms(3,4) by (cases host) auto
  define ps where "ps = bs @ url_part (CHR '':'') portno"
  have "list_all server_char (url_part (CHR '':'') portno)"
    using assms(5) by (auto simp: url_part_def wf_part_def server_char_def IS_HOST_CHAR_def IS_ALPHANUM_def list_all_iff split: option.splits)
  then have ps: "list_all server_char ps" using b(3) by (auto simp: ps_def list_all_iff server_char_def)
  let ?t = "url_part (CHR ''?'') query @ url_part (CHR ''#'') fragment"
  let ?u1 = "put_field UF_SCHEMA 0 (length schema) u" and ?v = "url_loop s_req_server_start UF_SCHEMA False h"
  have 1: "url_loop s_req_spaces_before_url UF_MAX False 0 (a # as @ ''://'' @ b # ps @ CHR ''/'' # path @ ?t) u =
      url_loop s_req_schema UF_SCHEMA False (length schema) (''://'' @ b # ps @ CHR ''/'' # path @ ?t) ?u1"
    using url_loop_field [of s_req_spaces_before_url a s_req_schema as UF_SCHEMA UF_MAX] a
    by (simp add: schema_chars url_uf_def list_all_iff)
  have 2: "\<dots> = ?v (b # ps @ CHR ''/'' # path @ ?t) ?u1"
  proof -
    have "parse_url_char s_req_schema (CHR '':'') = s_req_schema_slash"
      "parse_url_char s_req_schema_slash (CHR ''/'') = s_req_schema_slash_slash"
      "parse_url_char s_req_schema_slash_slash (CHR ''/'') = s_req_server_start"
      by code_simp+
    then show ?thesis by (simp add: url_delimiter_def h_def numeral_3_eq_3 del: url_loop.simps add: url_loop_delimiter)
  qed
  have 3: "\<dots> = url_loop s_req_server UF_HOST False (h + hl) (CHR ''/'' # path @ ?t) (put_field UF_HOST h hl ?u1)"
    using url_loop_field [of s_req_server_start b s_req_server ps UF_HOST UF_SCHEMA] b ps
    by (simp add: server_chars url_uf_def list_all_iff server_char_def [of b] hl_def ps_def)
  have 4: "\<dots> = url_loop s_req_path UF_PATH False q ?t (put_field UF_PATH (h + hl) (1 + length path) (put_field UF_HOST h hl ?u1))"
  proof -
    have "parse_url_char s_req_server (CHR ''/'') = s_req_path" by code_simp
    then show ?thesis
      using url_loop_field [of s_req_server "CHR ''/''" s_req_path path UF_PATH UF_HOST] assms(6)
      by (simp add: path_chars url_uf_def list_all_iff q_def del: url_loop.simps)
  qed
  show ?thesis using 1 2 3 4 url_loop_query [OF assms(7,8)] by (simp add: url_text_def a(1) b(1) ps_def)
qed

lemma unat_u16: "k < 2 ^ 16 \<Longrightarrow> unat (of_nat k :: u16) = k"
  by (simp add: unat_of_nat)

text \<open>User information apart, the host is found in its slice and the port behind it.\<close>

lemma parse_host_text:
  assumes mem: "mem = pre @ host @ url_part (CHR '':'') portno @ after" and len: "length pre + length host + length (url_part (CHR '':'') portno) < 2 ^ 16"
    and host: "host \<noteq> []" "list_all IS_HOST_CHAR host" and portno: "wf_part IS_NUM portno"
    and u: "field_data u UF_HOST = \<lparr>f_off = of_nat (length pre), f_len = of_nat (length host + length (url_part (CHR '':'') portno))\<rparr>"
  shows "http_parse_host mem u False =
    Inr (False, put_part UF_PORT (length pre + length host) portno (host_at (length pre) (length host) u))"
proof -
  define p n where "p = length pre" and "n = length host"
  define u0 where "u0 = u\<lparr>field_data := (field_data u)(UF_HOST := (field_data u UF_HOST)\<lparr>f_len := 0\<rparr>)\<rparr>"
  have w: "unat (of_nat k :: u16) = k" if "k \<le> length pre + length host + length (url_part (CHR '':'') portno)" for k
    using that len by (intro unat_u16) simp
  have 1: "host_loop mem s_http_host_start [p..<p + n] u0 = Inr (False, s_http_host, host_at p n u)"
    using host_run [of n p mem u0] host by (simp add: mem nth_append p_def n_def list_all_length u0_def host_at_def)
  have off: "unat (f_off (field_data u UF_HOST)) = p" "unat (f_len (field_data u UF_HOST)) = n + length (url_part (CHR '':'') portno)"
    using w by (simp_all add: u mem p_def n_def del: of_nat_add)
  show ?thesis
  proof (cases portno)
    case None
    then show ?thesis using 1 off
      by (simp add: http_parse_host_def Let_def u0_def [symmetric] url_part_def put_part_def p_def n_def)
  next
    case (Some ds)
    let ?q = "p + n + 1"
    have ds: "ds \<noteq> []" "list_all IS_NUM ds" using portno Some by (simp_all add: wf_part_def)
    have r: "[p..<p + (n + (1 + length ds))] = [p..<p + n] @ (p + n) # [?q..<?q + length ds]"
      using upt_add_eq_append [of p "p + n" "1 + length ds"] upt_conv_Cons [of "p + n" "p + n + (1 + length ds)"]
      by (simp add: add.assoc del: upt_Suc)
    have c: "mem ! (p + n) = CHR '':''" "\<not> length mem \<le> p + n"
      by (simp_all add: mem nth_append p_def n_def url_part_def Some)
    have "?q + i < length mem \<and> IS_NUM (mem ! (?q + i))" if "i < length ds" for i
      using that ds(2) by (simp add: mem nth_append p_def n_def url_part_def Some list_all_length)
    then have 2: "host_loop mem s_http_host_port_start [?q..<?q + length ds] v = Inr (False, s_http_host_port, put_field UF_PORT ?q (length ds) v)" for v
      using ds(1) by (intro port_run) auto
    have 3: "http_parse_host_char s_http_host (CHR '':'') = s_http_host_port_start" by code_simp
    have "host_loop mem s_http_host_start [p..<p + (n + (1 + length ds))] u0 =
       Inr (False, s_http_host_port, put_field UF_PORT ?q (length ds) (host_at p n u))"
      unfolding r by (simp add: host_loop_append 1 c 3 2 [simplified] host_field_def)
    then show ?thesis using off Some
      by (simp add: http_parse_host_def Let_def u0_def [symmetric] url_part_def put_part_def p_def n_def)
  qed
qed


text \<open>The text of a URL, cut at the places where its parts begin.\<close>

definition port_value :: "string option \<Rightarrow> nat" where
  "port_value portno = (case portno of None \<Rightarrow> 0 | Some ds \<Rightarrow> read_nat ds)"

definition wf_url :: "string \<Rightarrow> string \<Rightarrow> string option \<Rightarrow> string \<Rightarrow> string option \<Rightarrow> string option \<Rightarrow> bool" where
  "wf_url schema host portno path query fragment \<longleftrightarrow>
     schema \<noteq> [] \<and> list_all IS_ALPHA schema \<and> host \<noteq> [] \<and> list_all IS_HOST_CHAR host \<and>
     wf_part IS_NUM portno \<and> port_value portno < 2 ^ 16 \<and> list_all IS_URL_CHAR path \<and>
     wf_part IS_URL_CHAR query \<and> wf_part IS_URL_CHAR fragment \<and>
     length (url_text schema host portno path query fragment) < 2 ^ 16"

definition field_text :: "string \<Rightarrow> http_parser_url \<Rightarrow> http_parser_url_fields \<Rightarrow> string option" where
  "field_text buf u f = (if has_field u f then Some (url_slice buf u f) else None)"

lemma takeWhile_digits: "list_all IS_NUM ds \<Longrightarrow> \<not> IS_NUM c \<Longrightarrow> takeWhile IS_NUM (ds @ c # cs) = ds"
  by (induction ds) simp_all

lemma uf_bit_and: "uf_bit f AND uf_bit g = (if f = g then uf_bit g else 0)"
  by (cases f; cases g; simp add: uf_bit_def)

lemma has_field_put [simp]: "has_field (put_field f p n u) g \<longleftrightarrow> f = g \<or> has_field u g"
proof -
  have "uf_bit g \<noteq> 0" by (cases g) (simp_all add: uf_bit_def)
  then show ?thesis by (auto simp: has_field_def put_field_def bit.conj_disj_distrib2 uf_bit_and or_eq_0_iff)
qed

lemma has_field_simps [simp]:
  "has_field (put_part f p x u) g \<longleftrightarrow> x \<noteq> None \<and> f = g \<or> has_field u g"
  "has_field (host_at p n u) g \<longleftrightarrow> has_field u g"
  by (auto simp: put_part_def split: option.split) (simp_all add: has_field_def host_at_def)

lemma field_data_simps [simp]:
  "field_data (put_field f p n u) g = (if f = g then \<lparr>f_off = of_nat p, f_len = of_nat n\<rparr> else field_data u g)"
  "field_data (put_part f p x u) g =
     (if f = g \<and> x \<noteq> None then \<lparr>f_off = of_nat (p + 1), f_len = of_nat (length (the x))\<rparr> else field_data u g)"
  "field_data (host_at p n u) g = (if g = UF_HOST then \<lparr>f_off = of_nat p, f_len = of_nat n\<rparr> else field_data u g)"
  by (simp_all add: put_field_def put_part_def host_at_def split: option.split)

lemma url_slice_eq:
  assumes "field_data u f = \<lparr>f_off = of_nat p, f_len = of_nat n\<rparr>" "buf = pre @ xs @ ys" "p = length pre" "n = length xs"
    and "length buf < 2 ^ 16"
  shows "url_slice buf u f = xs"
  using assms by (simp add: url_slice_def unat_of_nat)

text \<open>The structure the function is to leave: the places of the parts in the text.\<close>

definition url_layout ::
  "string \<Rightarrow> string \<Rightarrow> string option \<Rightarrow> string \<Rightarrow> string option \<Rightarrow> string option \<Rightarrow> http_parser_url \<Rightarrow> http_parser_url" where
  "url_layout schema host portno path query fragment u =
     (let h = length schema + 3; n = length host; hl = n + length (url_part (CHR '':'') portno); q = h + hl + 1 + length path
      in put_part UF_PORT (h + n) portno (host_at h n
           (put_part UF_FRAGMENT (q + length (url_part (CHR ''?'') query)) fragment
             (put_part UF_QUERY q query
               (put_field UF_PATH (h + hl) (1 + length path)
                 (put_field UF_HOST h hl (put_field UF_SCHEMA 0 (length schema) u)))))))"

lemma port_simps [simp]:
  "port (put_field f p n u) = port u" "port (put_part f p x u) = port u" "port (host_at p n u) = port u"
  by (simp_all add: put_field_def put_part_def host_at_def split: option.split)

lemma parse_url_text:
  fixes u :: http_parser_url
  assumes "wf_url schema host portno path query fragment"
  defines "buf \<equiv> url_text schema host portno path query fragment"
    and "W \<equiv> url_layout schema host portno path query fragment (u\<lparr>port := 0, field_set := 0\<rparr>)"
  shows "http_parser_parse_url buf rest False u = Inr (0, W\<lparr>port := of_nat (port_value portno)\<rparr>)"
proof -
  note wf = assms(1) [unfolded wf_url_def]
  define pre where "pre = schema @ ''://''"
  define tl where "tl = CHR ''/'' # path @ url_part (CHR ''?'') query @ url_part (CHR ''#'') fragment"
  define v where "v = u\<lparr>port := 0, field_set := 0\<rparr>"
  have buf: "buf = pre @ host @ url_part (CHR '':'') portno @ tl"
    by (simp add: buf_def url_text_def tl_def pre_def)
  have len: "length buf < 2 ^ 16" using wf by (simp add: buf_def)
  have pre: "length schema + 3 = length pre" by (simp add: pre_def)
  define U where "U = put_part UF_FRAGMENT (length pre + length host + length (url_part (CHR '':'') portno) + 1 + length path + length (url_part (CHR ''?'') query)) fragment
      (put_part UF_QUERY (length pre + length host + length (url_part (CHR '':'') portno) + 1 + length path) query
        (put_field UF_PATH (length pre + length host + length (url_part (CHR '':'') portno)) (1 + length path)
          (put_field UF_HOST (length pre) (length host + length (url_part (CHR '':'') portno)) (put_field UF_SCHEMA 0 (length schema) v))))"
  have 1: "url_loop s_req_spaces_before_url UF_MAX False 0 buf v = Inr (False, False, U)"
    using url_loop_text [of schema host portno path query fragment v] wf by (simp add: buf_def U_def pre add.assoc)
  have W: "W = put_part UF_PORT (length pre + length host) portno (host_at (length pre) (length host) U)"
    by (simp add: W_def U_def url_layout_def Let_def pre v_def add.assoc)
  have U: "has_field U UF_HOST" "\<not> has_field U UF_PORT" "port U = 0"
      "field_data U UF_HOST = \<lparr>f_off = of_nat (length pre), f_len = of_nat (length host + length (url_part (CHR '':'') portno))\<rparr>"
    by (simp_all add: U_def v_def) (simp add: has_field_def)
  have 2: "http_parse_host (buf @ rest) U False = Inr (False, W)"
    unfolding W using wf len U(4) by (intro parse_host_text [of _ _ _ _ "tl @ rest"]) (simp_all add: buf)
  have 3: "field_set U AND (uf_bit UF_SCHEMA OR uf_bit UF_HOST) \<noteq> 0"
    using U(1) by (auto simp: has_field_def bit.conj_disj_distrib or_eq_0_iff)
  have 4: "strtoul (drop (unat (f_off (field_data W UF_PORT))) (buf @ rest)) = port_value portno" if ds: "portno = Some ds" for ds
  proof -
    let ?k = "length pre + length host + 1"
    have "f_off (field_data W UF_PORT) = of_nat ?k" by (simp add: W ds)
    moreover have "?k < 2 ^ 16" using len by (simp add: buf ds url_part_def)
    ultimately have "unat (f_off (field_data W UF_PORT)) = ?k" by (simp only: unat_u16)
    moreover have "drop ?k (buf @ rest) = ds @ tl @ rest" by (simp add: buf ds url_part_def)
    moreover have "takeWhile IS_NUM (ds @ tl @ rest) = ds"
      using wf by (simp add: tl_def ds wf_part_def takeWhile_digits IS_NUM_def [of "CHR ''/''"] char_between_def)
    ultimately show ?thesis using wf by (simp add: strtoul_def port_value_def ds)
  qed
  have "has_field W UF_PORT \<longleftrightarrow> portno \<noteq> None" "port W = 0" using U(2,3) by (simp_all add: W)
  then show ?thesis
    using 1 2 3 4 wf by (cases portno) (simp_all add: http_parser_parse_url_def v_def [symmetric] port_value_def)
qed

lemma layout_fields:
  assumes "wf_url schema host portno path query fragment" "field_set u = 0"
  defines "buf \<equiv> url_text schema host portno path query fragment"
    and "W \<equiv> url_layout schema host portno path query fragment u"
  shows "field_text buf W UF_SCHEMA = Some schema" "field_text buf W UF_HOST = Some host" "field_text buf W UF_PORT = portno"
    and "field_text buf W UF_PATH = Some (CHR ''/'' # path)" "field_text buf W UF_QUERY = query"
    and "field_text buf W UF_FRAGMENT = fragment" "field_text buf W UF_USERINFO = None"
proof -
  have len: "length buf < 2 ^ 16" using assms(1) by (simp add: wf_url_def buf_def)
  have none: "\<not> has_field u f" for f using assms(2) by (simp add: has_field_def)
  let ?po = "url_part (CHR '':'') portno" and ?qu = "url_part (CHR ''?'') query" and ?fr = "url_part (CHR ''#'') fragment"
  let ?pre = "schema @ ''://''" and ?p = "CHR ''/'' # path"
  note eq = url_slice_eq [OF _ _ _ _ len] and d = buf_def W_def url_text_def url_layout_def Let_def
  have "url_slice buf W UF_SCHEMA = schema"
    by (rule eq [where pre = "[]" and ys = "''://'' @ host @ ?po @ ?p @ ?qu @ ?fr"]) (simp_all add: d)
  then show "field_text buf W UF_SCHEMA = Some schema" by (simp add: field_text_def W_def url_layout_def Let_def)
  have "url_slice buf W UF_HOST = host"
    by (rule eq [where pre = ?pre and ys = "?po @ ?p @ ?qu @ ?fr"]) (simp_all add: d numeral_3_eq_3)
  then show "field_text buf W UF_HOST = Some host" by (simp add: field_text_def W_def url_layout_def Let_def)
  have "url_slice buf W UF_PATH = ?p"
    by (rule eq [where pre = "?pre @ host @ ?po" and ys = "?qu @ ?fr"]) (simp_all add: d numeral_3_eq_3)
  then show "field_text buf W UF_PATH = Some ?p" by (simp add: field_text_def W_def url_layout_def Let_def)
  have "url_slice buf W UF_PORT = ds" if "portno = Some ds" for ds
    by (rule eq [where pre = "?pre @ host @ '':''" and ys = "?p @ ?qu @ ?fr"])
      (simp_all add: d that url_part_def [of "CHR '':''"] numeral_3_eq_3)
  then show "field_text buf W UF_PORT = portno"
    by (cases portno) (simp_all add: field_text_def W_def url_layout_def Let_def none)
  have "url_slice buf W UF_QUERY = ds" if "query = Some ds" for ds
    by (rule eq [where pre = "?pre @ host @ ?po @ ?p @ ''?''" and ys = ?fr])
      (simp_all add: d that url_part_def [of "CHR ''?''"] numeral_3_eq_3)
  then show "field_text buf W UF_QUERY = query"
    by (cases query) (simp_all add: field_text_def W_def url_layout_def Let_def none)
  have "url_slice buf W UF_FRAGMENT = ds" if "fragment = Some ds" for ds
    by (rule eq [where pre = "?pre @ host @ ?po @ ?p @ ?qu @ ''#''" and ys = "[]"])
      (simp_all add: d that url_part_def [of "CHR ''#''"] numeral_3_eq_3)
  then show "field_text buf W UF_FRAGMENT = fragment"
    by (cases fragment) (simp_all add: field_text_def W_def url_layout_def Let_def none)
  show "field_text buf W UF_USERINFO = None" by (simp add: field_text_def W_def url_layout_def Let_def none)
qed

lemma field_text_port [simp]: "field_text buf (u\<lparr>port := p\<rparr>) f = field_text buf u f"
  by (simp add: field_text_def has_field_def url_slice_def)

text \<open>
  C23. A URL is split into its parts. For a schema, a host, an optional port, a path, an optional query
  and an optional fragment, all well formed, the function returns 0 on their text, whatever lies in the
  caller's structure and in the memory behind the URL: each field that is there is reported with its own
  characters, no other field is reported, and the port is the value of its digits.
\<close>

theorem parse_url_roundtrip:
  assumes "wf_url schema host portno path query fragment"
  defines "buf \<equiv> url_text schema host portno path query fragment"
  shows "\<exists>u'. http_parser_parse_url buf rest False u = Inr (0, u') \<and>
    field_text buf u' UF_SCHEMA = Some schema \<and> field_text buf u' UF_HOST = Some host \<and>
    field_text buf u' UF_PORT = portno \<and> field_text buf u' UF_PATH = Some (CHR ''/'' # path) \<and>
    field_text buf u' UF_QUERY = query \<and> field_text buf u' UF_FRAGMENT = fragment \<and>
    field_text buf u' UF_USERINFO = None \<and> unat (port u') = port_value portno"
proof -
  let ?W = "url_layout schema host portno path query fragment (u\<lparr>port := 0, field_set := 0\<rparr>)"
  have "unat (of_nat (port_value portno) :: u16) = port_value portno"
    using assms(1) by (simp add: wf_url_def unat_of_nat)
  then show ?thesis
    using parse_url_text [OF assms(1), of rest u] layout_fields [OF assms(1), of "u\<lparr>port := 0, field_set := 0\<rparr>"]
    by (intro exI [of _ "?W\<lparr>port := of_nat (port_value portno)\<rparr>"]) (simp add: buf_def)
qed

definition blank_url :: http_parser_url where
  "blank_url = \<lparr>field_set = 0, port = 0, field_data = (\<lambda>_. \<lparr>f_off = 0, f_len = 0\<rparr>)\<rparr>"

theorem parse_url_roundtrip_witness:
  "url_text ''http'' ''example.org'' (Some ''8080'') ''a/b'' (Some ''x=1'') None = ''http://example.org:8080/a/b?x=1'' \<and>
   (\<exists>u'. http_parser_parse_url ''http://example.org:8080/a/b?x=1'' ''99'' False blank_url = Inr (0, u') \<and>
     field_text ''http://example.org:8080/a/b?x=1'' u' UF_HOST = Some ''example.org'' \<and>
     field_text ''http://example.org:8080/a/b?x=1'' u' UF_QUERY = Some ''x=1'' \<and> unat (port u') = 8080)"
proof -
  have t: "url_text ''http'' ''example.org'' (Some ''8080'') ''a/b'' (Some ''x=1'') None = ''http://example.org:8080/a/b?x=1''"
    by (simp add: url_text_def url_part_def)
  have v: "port_value (Some ''8080'') = 8080" by (simp add: port_value_def read_nat_def digit_val_def)
  have c: "list_all IS_ALPHA ''http''" "list_all IS_HOST_CHAR ''example.org''" "wf_part IS_NUM (Some ''8080'')"
    "list_all IS_URL_CHAR ''a/b''" "wf_part IS_URL_CHAR (Some ''x=1'')" "wf_part IS_URL_CHAR None" by code_simp+
  have wf: "wf_url ''http'' ''example.org'' (Some ''8080'') ''a/b'' (Some ''x=1'') None"
    unfolding wf_url_def t v using c by simp
  from parse_url_roundtrip [OF wf, of "''99''" blank_url] show ?thesis unfolding t v by blast
qed

text \<open>
  A schema without a host makes the result depend on what the caller's structure held before: on
  \<^verbatim>\<open>http:///toto\<close>, for which the source announces a failure, the function reads the offset and the
  length of the host, which it has not set. With zeros there it fails; with another content it succeeds.
\<close>

theorem missing_host_reads_stale_field:
  "(\<exists>u. http_parser_parse_url ''http:///toto'' [NUL] False blank_url = Inr (1, u)) \<and>
   (\<exists>u. http_parser_parse_url ''http:///toto'' [NUL] False
          (blank_url\<lparr>field_data := (\<lambda>_. \<lparr>f_off = 0, f_len = 4\<rparr>)\<rparr>) = Inr (0, u) \<and> \<not> has_field u UF_HOST)"
proof -
  have "case http_parser_parse_url ''http:///toto'' [NUL] False blank_url of Inl _ \<Rightarrow> False | Inr (n, u) \<Rightarrow> n = 1"
    by code_simp
  moreover have "case http_parser_parse_url ''http:///toto'' [NUL] False
      (blank_url\<lparr>field_data := (\<lambda>_. \<lparr>f_off = 0, f_len = 4\<rparr>)\<rparr>) of Inl _ \<Rightarrow> False | Inr (n, u) \<Rightarrow> n = 0 \<and> \<not> has_field u UF_HOST"
    by code_simp
  ultimately show ?thesis by (auto split: sum.splits)
qed

end
