(* ===== verification/CC_Sha1.thy ===== *)
theory CC_Sha1
  imports KF_Prelude
begin

section \<open>The capture client: SHA-1\<close>

text \<open>
  \<^verbatim>\<open>sha1.cpp\<close> of the capture client: a context that takes a message in pieces, block by block, and
  pads it at the end. The reference is the definition of the standard on the whole message.
\<close>

unbundle bit_operations_syntax

subsection \<open>The context\<close>

record SHA1Context =
  Message_Digest :: "u32 list"
  Length_Low :: u32
  Length_High :: u32
  Message_Block :: "u8 list"
  Message_Block_Index :: nat
  Computed :: bool
  Corrupted :: bool

definition SHA1CircularShift :: "nat \<Rightarrow> u32 \<Rightarrow> u32" where
  "SHA1CircularShift bits w = (push_bit bits w AND 0xFFFFFFFF) OR drop_bit (32 - bits) w"

definition SHA1Reset :: "SHA1Context \<Rightarrow> SHA1Context" where
  "SHA1Reset c =
     c\<lparr>Length_Low := 0, Length_High := 0, Message_Block_Index := 0,
       Message_Digest := [0x67452301, 0xEFCDAB89, 0x98BADCFE, 0x10325476, 0xC3D2E1F0],
       Computed := False, Corrupted := False\<rparr>"

subsection \<open>One block\<close>

definition K :: "u32 list" where
  "K = [0x5A827999, 0x6ED9EBA1, 0x8F1BBCDC, 0xCA62C1D6]"

definition first_words :: "u8 list \<Rightarrow> u32 list" where
  "first_words block =
     map (\<lambda>t. push_bit 24 (ucast (block ! (t * 4))) OR push_bit 16 (ucast (block ! (t * 4 + 1))) OR
              push_bit 8 (ucast (block ! (t * 4 + 2))) OR ucast (block ! (t * 4 + 3))) [0..<16]"

definition next_word :: "nat \<Rightarrow> u32 list \<Rightarrow> u32 list" where
  "next_word t W =
     W @ [SHA1CircularShift 1 (W ! (t - 3) XOR W ! (t - 8) XOR W ! (t - 14) XOR W ! (t - 16))]"

definition all_words :: "u8 list \<Rightarrow> u32 list" where
  "all_words block = fold next_word [16..<80] (first_words block)"

type_synonym word_buffers = "u32 \<times> u32 \<times> u32 \<times> u32 \<times> u32"

definition sha_step :: "(u32 \<Rightarrow> u32 \<Rightarrow> u32 \<Rightarrow> u32) \<Rightarrow> u32 \<Rightarrow> u32 list \<Rightarrow> nat \<Rightarrow> word_buffers \<Rightarrow> word_buffers" where
  "sha_step f k W t =
     (\<lambda>(A, B, C, D, E).
        let temp = (SHA1CircularShift 5 A + f B C D + E + W ! t + k) AND 0xFFFFFFFF
        in (temp, A, SHA1CircularShift 30 B, C, D))"

definition add_digest :: "u32 list \<Rightarrow> word_buffers \<Rightarrow> u32 list" where
  "add_digest h =
     (\<lambda>(A, B, C, D, E). [(h ! 0 + A) AND 0xFFFFFFFF, (h ! 1 + B) AND 0xFFFFFFFF, (h ! 2 + C) AND 0xFFFFFFFF,
        (h ! 3 + D) AND 0xFFFFFFFF, (h ! 4 + E) AND 0xFFFFFFFF])"

definition SHA1ProcessMessageBlock :: "SHA1Context \<Rightarrow> SHA1Context" where
  "SHA1ProcessMessageBlock c =
     (let W = all_words (Message_Block c);
          h = Message_Digest c;
          b0 = (h ! 0, h ! 1, h ! 2, h ! 3, h ! 4);
          b1 = fold (sha_step (\<lambda>B C D. (B AND C) OR ((NOT B) AND D)) (K ! 0) W) [0..<20] b0;
          b2 = fold (sha_step (\<lambda>B C D. B XOR C XOR D) (K ! 1) W) [20..<40] b1;
          b3 = fold (sha_step (\<lambda>B C D. (B AND C) OR (B AND D) OR (C AND D)) (K ! 2) W) [40..<60] b2;
          b4 = fold (sha_step (\<lambda>B C D. B XOR C XOR D) (K ! 3) W) [60..<80] b3
      in c\<lparr>Message_Digest := add_digest h b4, Message_Block_Index := 0\<rparr>)"

subsection \<open>Input and padding\<close>

text \<open>\<^verbatim>\<open>Message_Block[Message_Block_Index++] = b\<close>; \<open>None\<close> is a write outside of the array.\<close>

definition put_byte :: "u8 \<Rightarrow> SHA1Context \<Rightarrow> SHA1Context option" where
  "put_byte b c =
     (let i = Message_Block_Index c in
      if i < 64 then Some (c\<lparr>Message_Block := (Message_Block c)[i := b], Message_Block_Index := i + 1\<rparr>) else None)"

definition count_bits :: "SHA1Context \<Rightarrow> SHA1Context" where
  "count_bits c =
     (let c1 = c\<lparr>Length_Low := (Length_Low c + 8) AND 0xFFFFFFFF\<rparr> in
      if Length_Low c1 = 0
      then let c2 = c1\<lparr>Length_High := (Length_High c1 + 1) AND 0xFFFFFFFF\<rparr>
           in if Length_High c2 = 0 then c2\<lparr>Corrupted := True\<rparr> else c2
      else c1)"

definition flush_block :: "SHA1Context \<Rightarrow> SHA1Context" where
  "flush_block c = (if Message_Block_Index c = 64 then SHA1ProcessMessageBlock c else c)"

fun input_loop :: "u8 list \<Rightarrow> SHA1Context \<Rightarrow> SHA1Context option" where
  "input_loop [] c = Some c"
| "input_loop (b # bs) c =
     (if Corrupted c then Some c
      else Option.bind (put_byte b c) (\<lambda>c1. input_loop bs (flush_block (count_bits c1))))"

definition SHA1Input :: "u8 list \<Rightarrow> SHA1Context \<Rightarrow> SHA1Context option" where
  "SHA1Input message_array c =
     (if message_array = [] then Some c
      else if Computed c \<or> Corrupted c then Some (c\<lparr>Corrupted := True\<rparr>)
      else input_loop message_array c)"

function pad_zeros :: "nat \<Rightarrow> SHA1Context \<Rightarrow> SHA1Context option" where
  "pad_zeros n c = (if Message_Block_Index c < n then Option.bind (put_byte 0 c) (pad_zeros n) else Some c)"
  by pat_completeness auto
termination
  by (relation "measure (\<lambda>(n, c). n - Message_Block_Index c)") (auto simp: put_byte_def Let_def split: if_splits)

definition store_length :: "SHA1Context \<Rightarrow> SHA1Context" where
  "store_length c =
     c\<lparr>Message_Block := (Message_Block c)
        [56 := ucast (drop_bit 24 (Length_High c) AND 0xFF), 57 := ucast (drop_bit 16 (Length_High c) AND 0xFF),
         58 := ucast (drop_bit 8 (Length_High c) AND 0xFF), 59 := ucast (Length_High c AND 0xFF),
         60 := ucast (drop_bit 24 (Length_Low c) AND 0xFF), 61 := ucast (drop_bit 16 (Length_Low c) AND 0xFF),
         62 := ucast (drop_bit 8 (Length_Low c) AND 0xFF), 63 := ucast (Length_Low c AND 0xFF)]\<rparr>"

definition SHA1PadMessage :: "SHA1Context \<Rightarrow> SHA1Context option" where
  "SHA1PadMessage c =
     Option.bind
       (if Message_Block_Index c > 55
        then Option.bind (put_byte 0x80 c) (\<lambda>c1.
             Option.bind (pad_zeros 64 c1) (\<lambda>c2. pad_zeros 56 (SHA1ProcessMessageBlock c2)))
        else Option.bind (put_byte 0x80 c) (pad_zeros 56))
       (\<lambda>c3. Some (SHA1ProcessMessageBlock (store_length c3)))"

definition SHA1Result :: "SHA1Context \<Rightarrow> (bool \<times> SHA1Context) option" where
  "SHA1Result c =
     (if Corrupted c then Some (False, c)
      else if \<not> Computed c then Option.bind (SHA1PadMessage c) (\<lambda>c1. Some (True, c1\<lparr>Computed := True\<rparr>))
      else Some (True, c))"

subsection \<open>The standard\<close>

text \<open>
  The function of the standard for a block \<open>M\<close> of 16 words: the message schedule, one function and one
  constant for each of the 80 rounds.
\<close>

definition sha_f :: "nat \<Rightarrow> u32 \<Rightarrow> u32 \<Rightarrow> u32 \<Rightarrow> u32" where
  "sha_f t x y z =
     (if t < 20 then (x AND y) XOR (NOT x AND z)
      else if 40 \<le> t \<and> t < 60 then (x AND y) XOR (x AND z) XOR (y AND z)
      else x XOR y XOR z)"

definition sha_K :: "nat \<Rightarrow> u32" where
  "sha_K t = (if t < 20 then 0x5A827999 else if t < 40 then 0x6ED9EBA1 else if t < 60 then 0x8F1BBCDC else 0xCA62C1D6)"

definition rotl :: "nat \<Rightarrow> u32 \<Rightarrow> u32" where
  "rotl n w = word_rotl n w"

fun sha_W :: "u32 list \<Rightarrow> nat \<Rightarrow> u32" where
  "sha_W M t =
     (if t < 16 then M ! t
      else rotl 1 (sha_W M (t - 3) XOR sha_W M (t - 8) XOR sha_W M (t - 14) XOR sha_W M (t - 16)))"

fun sha_rounds :: "u32 list \<Rightarrow> nat \<Rightarrow> word_buffers \<Rightarrow> word_buffers" where
  "sha_rounds M 0 v = v"
| "sha_rounds M (Suc t) v =
     (case sha_rounds M t v of (a, b, c, d, e) \<Rightarrow> (rotl 5 a + sha_f t b c d + e + sha_K t + sha_W M t, a, rotl 30 b, c, d))"

definition be_word :: "u8 list \<Rightarrow> u32" where
  "be_word bs = foldl (\<lambda>w b. push_bit 8 w OR ucast b) 0 bs"

definition block_words :: "u8 list \<Rightarrow> u32 list" where
  "block_words bs = map (\<lambda>t. be_word (take 4 (drop (4 * t) bs))) [0..<16]"

definition sha1_compress :: "u32 list \<Rightarrow> u8 list \<Rightarrow> u32 list" where
  "sha1_compress h block =
     (case sha_rounds (block_words block) 80 (h ! 0, h ! 1, h ! 2, h ! 3, h ! 4) of
        (a, b, c, d, e) \<Rightarrow> [h ! 0 + a, h ! 1 + b, h ! 2 + c, h ! 3 + d, h ! 4 + e])"

text \<open>A message of whole blocks; padding; the hash.\<close>

fun sha1_blocks :: "u32 list \<Rightarrow> u8 list \<Rightarrow> u32 list" where
  "sha1_blocks h bs = (if length bs < 64 then h else sha1_blocks (sha1_compress h (take 64 bs)) (drop 64 bs))"

declare sha1_blocks.simps [simp del] sha_W.simps [simp del]

definition be_bytes :: "nat \<Rightarrow> u8 list" where
  "be_bytes n = map (\<lambda>i. of_nat (n div 256 ^ (7 - i))) [0..<8]"

definition sha1_pad :: "u8 list \<Rightarrow> u8 list" where
  "sha1_pad m = m @ [0x80] @ replicate ((119 - length m mod 64) mod 64) 0 @ be_bytes (8 * length m)"

definition sha1 :: "u8 list \<Rightarrow> u32 list" where
  "sha1 m = sha1_blocks [0x67452301, 0xEFCDAB89, 0x98BADCFE, 0x10325476, 0xC3D2E1F0] (sha1_pad m)"

subsection \<open>A block of the code is a block of the standard\<close>

lemma and_all_ones [simp]: "w AND 0xFFFFFFFF = w"
  for w :: u32
proof -
  have "(0xFFFFFFFF :: u32) = - 1"
    by simp
  then show ?thesis
    by (simp only: and.right_neutral)
qed

lemma SHA1CircularShift_rotl: "n < 32 \<Longrightarrow> SHA1CircularShift n w = rotl n w"
proof (rule bit_word_eqI)
  fix i
  assume n: "n < 32" and "i < LENGTH(32)"
  then have i: "i < 32"
    by simp
  have m: "(i + 32 - n) mod 32 = (if n \<le> i then i - n else i + 32 - n)"
    using i n by (simp add: mod_if)
  have over: "\<not> bit w (32 + i - n)" if "n \<le> i"
    using that bit_imp_le_length [of w "32 + i - n"] by auto
  have "bit (SHA1CircularShift n w) i \<longleftrightarrow> n \<le> i \<and> bit w (i - n) \<or> bit w (32 + i - n)"
    using i n by (simp add: SHA1CircularShift_def bit_simps)
  moreover have "bit (rotl n w) i \<longleftrightarrow> bit w ((i + 32 - n) mod 32)"
    using i n by (simp add: rotl_def bit_simps)
  moreover have "32 + i = i + 32"
    by simp
  ultimately show "bit (SHA1CircularShift n w) i = bit (rotl n w) i"
    using m over by (cases "n \<le> i") (simp_all only: if_True if_False simp_thms not_False_eq_True)
qed

lemma take_4_drop: "i + 3 < length bs \<Longrightarrow> take 4 (drop i bs) = [bs ! i, bs ! (i + 1), bs ! (i + 2), bs ! (i + 3)]"
  by (simp add: numeral_eq_Suc flip: Cons_nth_drop_Suc)

lemma first_words_block_words: "length block = 64 \<Longrightarrow> first_words block = block_words block"
proof -
  assume l: "length block = 64"
  have "take 4 (drop (4 * t) block) = [block ! (t * 4), block ! (t * 4 + 1), block ! (t * 4 + 2), block ! (t * 4 + 3)]"
    if "t < 16" for t
    using that l by (simp add: take_4_drop mult.commute)
  then show ?thesis
    by (auto simp: first_words_def block_words_def be_word_def push_bit_or push_bit_push_bit or.assoc)
qed

lemma length_block_words [simp]: "length (block_words block) = 16"
  by (simp add: block_words_def)

lemma words_up_to:
  "length M = 16 \<Longrightarrow> length (fold next_word [16..<16 + k] M) = 16 + k \<and>
     (\<forall>t < 16 + k. fold next_word [16..<16 + k] M ! t = sha_W M t)"
proof (induction k)
  case 0
  then show ?case
    by (simp add: sha_W.simps)
next
  case (Suc k)
  let ?W = "fold next_word [16..<16 + k] M"
  have IH: "length ?W = 16 + k" "\<And>t. t < 16 + k \<Longrightarrow> ?W ! t = sha_W M t"
    using Suc by auto
  have step: "fold next_word [16..<17 + k] M = ?W @ [sha_W M (16 + k)]"
    using IH upt_Suc_append [of 16 "16 + k"]
    by (simp add: next_word_def SHA1CircularShift_rotl sha_W.simps [of M "16 + k"])
  show ?case
    using IH by (auto simp: step nth_append intro!: arg_cong [of _ _ "sha_W M"])
qed

lemma all_words_sha_W:
  "length block = 64 \<Longrightarrow> t < 80 \<Longrightarrow> all_words block ! t = sha_W (block_words block) t"
  using words_up_to [of "block_words block" 64] by (simp add: all_words_def first_words_block_words)

lemma rounds_segment:
  assumes "\<And>t. i \<le> t \<Longrightarrow> t < j \<Longrightarrow> W ! t = sha_W M t \<and> k = sha_K t \<and> f = sha_f t"
    and "i \<le> j"
  shows "fold (sha_step f k W) [i..<j] (sha_rounds M i v) = sha_rounds M j v"
  using assms(2,1)
proof (induction j rule: dec_induct)
  case base
  then show ?case
    by simp
next
  case (step n)
  then have "fold (sha_step f k W) [i..<n] (sha_rounds M i v) = sha_rounds M n v"
    by simp
  then show ?case
    using step.hyps step.prems [of n]
    by (cases "sha_rounds M n v") (simp add: sha_step_def [of _ _ _ n] SHA1CircularShift_rotl ac_simps)
qed

lemma choose_xor: "(x AND y) XOR (NOT x AND z) = (x AND y) OR (NOT x AND z)"
  for x y z :: u32
  by (rule bit_word_eqI) (auto simp: bit_simps)

lemma majority_xor: "(x AND y) XOR (x AND z) XOR (y AND z) = (x AND y) OR (x AND z) OR (y AND z)"
  for x y z :: u32
  by (rule bit_word_eqI) (auto simp: bit_simps)

lemma SHA1ProcessMessageBlock_compress:
  assumes "length (Message_Block c) = 64"
  shows "SHA1ProcessMessageBlock c =
    c\<lparr>Message_Digest := sha1_compress (Message_Digest c) (Message_Block c), Message_Block_Index := 0\<rparr>"
proof -
  let ?M = "block_words (Message_Block c)" and ?W = "all_words (Message_Block c)"
  let ?h = "Message_Digest c"
  let ?v = "(?h ! 0, ?h ! 1, ?h ! 2, ?h ! 3, ?h ! 4)"
  note W = all_words_sha_W [OF assms]
  have "fold (sha_step (\<lambda>B C D. (B AND C) OR ((NOT B) AND D)) (K ! 0) ?W) [0..<20] (sha_rounds ?M 0 ?v) = sha_rounds ?M 20 ?v"
    by (rule rounds_segment) (simp_all add: W K_def sha_K_def sha_f_def choose_xor fun_eq_iff)
  moreover have "fold (sha_step (\<lambda>B C D. B XOR C XOR D) (K ! 1) ?W) [20..<40] (sha_rounds ?M 20 ?v) = sha_rounds ?M 40 ?v"
    by (rule rounds_segment) (simp_all add: W K_def sha_K_def sha_f_def fun_eq_iff)
  moreover have "fold (sha_step (\<lambda>B C D. (B AND C) OR (B AND D) OR (C AND D)) (K ! 2) ?W) [40..<60] (sha_rounds ?M 40 ?v)
      = sha_rounds ?M 60 ?v"
    by (rule rounds_segment) (simp_all add: W K_def sha_K_def sha_f_def majority_xor fun_eq_iff)
  moreover have "fold (sha_step (\<lambda>B C D. B XOR C XOR D) (K ! 3) ?W) [60..<80] (sha_rounds ?M 60 ?v) = sha_rounds ?M 80 ?v"
    by (rule rounds_segment) (simp_all add: W K_def sha_K_def sha_f_def fun_eq_iff)
  ultimately show ?thesis
    by (simp add: SHA1ProcessMessageBlock_def Let_def add_digest_def sha1_compress_def
        del: sha_rounds.simps(2) upt_Suc upt_rec_numeral split: prod.split)
qed

subsection \<open>Blocks of a message\<close>

lemma sha1_blocks_short: "length bs < 64 \<Longrightarrow> sha1_blocks h bs = h"
  by (simp add: sha1_blocks.simps)

lemma sha1_blocks_64: "length bs = 64 \<Longrightarrow> sha1_blocks h (bs @ x) = sha1_blocks (sha1_compress h bs) x"
  by (subst sha1_blocks.simps) simp

lemma sha1_blocks_append:
  "length a mod 64 = 0 \<Longrightarrow> sha1_blocks h (a @ b) = sha1_blocks (sha1_blocks h a) b"
proof (induction h a rule: sha1_blocks.induct)
  case (1 h a)
  show ?case
  proof (cases "length a < 64")
    case True
    then show ?thesis
      using 1(2) by (simp add: sha1_blocks_short)
  next
    case False
    then have "(length a - 64) mod 64 = 0"
      using 1(2) by (simp add: mod_if)
    then show ?thesis
      using False 1(1) by (simp add: sha1_blocks.simps [of _ a] sha1_blocks.simps [of _ "a @ b"])
  qed
qed

definition whole_blocks :: "u8 list \<Rightarrow> u8 list" where
  "whole_blocks m = take (64 * (length m div 64)) m"

definition tail_block :: "u8 list \<Rightarrow> u8 list" where
  "tail_block m = drop (64 * (length m div 64)) m"

lemma whole_rest: "whole_blocks m @ tail_block m = m"
  by (simp add: whole_blocks_def tail_block_def)

lemma length_whole: "length (whole_blocks m) = 64 * (length m div 64)"
  by (simp add: whole_blocks_def)

lemma length_rest: "length (tail_block m) = length m mod 64"
  by (simp add: tail_block_def minus_mult_div_eq_mod)

lemma sha1_blocks_whole: "sha1_blocks h (m @ x) = sha1_blocks (sha1_blocks h m) (tail_block m @ x)"
proof -
  have "sha1_blocks h (whole_blocks m @ y) = sha1_blocks (sha1_blocks h (whole_blocks m)) y" for y
    by (rule sha1_blocks_append) (simp add: length_whole)
  moreover have "sha1_blocks h (whole_blocks m) = sha1_blocks h m"
    using calculation [of "tail_block m"] by (simp add: whole_rest length_rest sha1_blocks_short)
  ultimately show ?thesis
    by (metis append.assoc whole_rest)
qed

lemma rest_snoc: "tail_block (m @ [b]) = (if length m mod 64 = 63 then [] else tail_block m @ [b])"
proof -
  have d: "Suc n div 64 = (if n mod 64 = 63 then Suc (n div 64) else n div 64)" for n :: nat
    by (simp add: div_Suc mod_Suc)
  have "64 * (length m div 64) + length m mod 64 = length m"
    by simp
  then show ?thesis
    by (auto simp: tail_block_def d)
qed

subsection \<open>The context holds the message so far\<close>

definition H0 :: "u32 list" where
  "H0 = [0x67452301, 0xEFCDAB89, 0x98BADCFE, 0x10325476, 0xC3D2E1F0]"

definition holds_message :: "u8 list \<Rightarrow> SHA1Context \<Rightarrow> bool" where
  "holds_message m c \<longleftrightarrow> length (Message_Block c) = 64 \<and> Message_Block_Index c = length m mod 64 \<and>
     take (length m mod 64) (Message_Block c) = tail_block m \<and> Message_Digest c = sha1_blocks H0 m \<and>
     unat (Length_High c) * 2 ^ 32 + unat (Length_Low c) = 8 * length m \<and> \<not> Computed c \<and> \<not> Corrupted c"

lemma holds_reset: "length (Message_Block c) = 64 \<Longrightarrow> holds_message [] (SHA1Reset c)"
  by (simp add: holds_message_def SHA1Reset_def H0_def tail_block_def sha1_blocks_short)

lemma unat_less_32: "unat w < 2 ^ 32"
  for w :: u32
  using unsigned_less [of w, where 'a = nat] by simp

lemma low_word_wraps:
  fixes l :: u32
  assumes "8 dvd unat l"
  shows "unat (l + 8) = (if l + 8 = 0 then 0 else unat l + 8)" and "l + 8 = 0 \<longleftrightarrow> unat l = 2 ^ 32 - 8"
proof -
  obtain q where q: "unat l = 8 * q"
    using assms by (rule dvdE)
  have q_less: "q < 2 ^ 29"
    using unat_less_32 [of l] q by simp
  have u: "unat (l + 8) = (8 * q + 8) mod 2 ^ 32"
    by (simp add: unat_word_ariths q)
  have z: "l + 8 = 0 \<longleftrightarrow> unat (l + 8) = 0"
    by (simp add: unat_eq_0)
  show "l + 8 = 0 \<longleftrightarrow> unat l = 2 ^ 32 - 8"
    unfolding z u q using q_less by (simp add: mod_if)
  show "unat (l + 8) = (if l + 8 = 0 then 0 else unat l + 8)"
    unfolding z u q using q_less by (simp add: mod_if)
qed

lemma high_word_wraps:
  fixes h :: u32
  shows "unat (h + 1) = (if h + 1 = 0 then 0 else unat h + 1)" and "h + 1 = 0 \<longleftrightarrow> unat h = 2 ^ 32 - 1"
proof -
  have h: "unat h < 2 ^ 32"
    using unat_less_32 [of h] by simp
  have u: "unat (h + 1) = (unat h + 1) mod 2 ^ 32"
    by (simp add: unat_word_ariths)
  have z: "h + 1 = 0 \<longleftrightarrow> unat (h + 1) = 0"
    by (simp add: unat_eq_0)
  show "h + 1 = 0 \<longleftrightarrow> unat h = 2 ^ 32 - 1"
    unfolding z u using h by (simp add: mod_if)
  show "unat (h + 1) = (if h + 1 = 0 then 0 else unat h + 1)"
    unfolding z u using h by (simp add: mod_if)
qed

lemma count_bits_fields:
  "count_bits c =
     c\<lparr>Length_Low := Length_Low c + 8,
       Length_High := (if Length_Low c + 8 = 0 then Length_High c + 1 else Length_High c),
       Corrupted := Corrupted c \<or> Length_Low c + 8 = 0 \<and> Length_High c + 1 = 0\<rparr>"
  by (simp add: count_bits_def Let_def)

lemma all_ones: "4294967296 * h + 8 * q = 18446744073709551608 \<Longrightarrow> q < 536870912 \<Longrightarrow> q = 536870911"
  for q h :: nat
  by (cases h "4294967295 :: nat" rule: linorder_cases) simp_all

lemma count_bits_length:
  assumes len: "unat (Length_High c) * 2 ^ 32 + unat (Length_Low c) = 8 * n"
  shows "unat (Length_High (count_bits c)) * 2 ^ 32 + unat (Length_Low (count_bits c)) = 8 * Suc n mod 2 ^ 64"
    and "Corrupted (count_bits c) \<longleftrightarrow> Corrupted c \<or> 8 * Suc n = 2 ^ 64"
proof -
  have "unat (Length_High c) * 2 ^ 32 = 8 * (unat (Length_High c) * 2 ^ 29)"
    by simp
  then have "8 dvd unat (Length_Low c)"
    using len by (metis dvd_add_right_iff dvd_triv_left)
  note low = low_word_wraps [OF this] and high = high_word_wraps [of "Length_High c"]
  obtain q where q: "unat (Length_Low c) = 8 * q"
    using \<open>8 dvd unat (Length_Low c)\<close> by (rule dvdE)
  then have n: "n = unat (Length_High c) * 2 ^ 29 + q"
    using len by simp
  have "unat (Length_High c) < 2 ^ 32" "q < 2 ^ 29"
    using unat_less_32 [of "Length_High c"] unat_less_32 [of "Length_Low c"] q by simp_all
  then show "unat (Length_High (count_bits c)) * 2 ^ 32 + unat (Length_Low (count_bits c)) = 8 * Suc n mod 2 ^ 64"
      "Corrupted (count_bits c) \<longleftrightarrow> Corrupted c \<or> 8 * Suc n = 2 ^ 64"
    by (auto simp: count_bits_fields low high mod_if n q dest: all_ones)
qed

lemma input_byte:
  assumes "holds_message m c"
  shows "\<exists>c'. put_byte b c = Some c' \<and>
    (if 8 * Suc (length m) = 2 ^ 64 then Corrupted (flush_block (count_bits c'))
     else holds_message (m @ [b]) (flush_block (count_bits c')))"
proof -
  have i: "length m mod 64 < 64"
    by simp
  define c' where "c' = c\<lparr>Message_Block := (Message_Block c)[length m mod 64 := b], Message_Block_Index := length m mod 64 + 1\<rparr>"
  have put: "put_byte b c = Some c'"
    using assms i by (simp add: put_byte_def holds_message_def c'_def Let_def)
  have len: "unat (Length_High c') * 2 ^ 32 + unat (Length_Low c') = 8 * length m"
    using assms by (simp add: c'_def holds_message_def)
  have fields [simp]: "length (Message_Block c') = 64" "Message_Block_Index c' = Suc (length m mod 64)" "\<not> Computed c'"
      "\<not> Corrupted c'" "Message_Digest c' = sha1_blocks H0 m"
    using assms by (simp_all add: c'_def holds_message_def)
  have "take (Suc (length m mod 64)) (Message_Block c') = tail_block m @ [b]"
    using assms by (simp add: c'_def holds_message_def take_Suc_conv_app_nth)
  then have block: "length m mod 64 = 63 \<Longrightarrow> Message_Block c' = tail_block m @ [b]"
      "length m mod 64 \<noteq> 63 \<Longrightarrow> take (Suc (length m mod 64)) (Message_Block c') = tail_block m @ [b]"
    by simp_all
  have digest: "sha1_blocks H0 (m @ [b]) =
      (if length m mod 64 = 63 then sha1_compress (sha1_blocks H0 m) (tail_block m @ [b]) else sha1_blocks H0 m)"
    unfolding sha1_blocks_whole [of _ m "[b]"] using i sha1_blocks_64 [of "tail_block m @ [b]" _ "[]"]
    by (auto simp: length_rest sha1_blocks_short)
  have kept [simp]: "Message_Block (count_bits c') = Message_Block c'" "Message_Digest (count_bits c') = Message_Digest c'"
      "Message_Block_Index (count_bits c') = Message_Block_Index c'" "Computed (count_bits c') = Computed c'"
    by (simp_all add: count_bits_fields)
  have bound: "length m < 2 ^ 61"
    using len unat_less_32 [of "Length_High c'"] unat_less_32 [of "Length_Low c'"] by simp
  then have small: "(8 + 8 * length m) mod 2 ^ 64 = 8 + 8 * length m" if "length m \<noteq> 2 ^ 61 - 1"
    using that by simp
  have "flush_block (count_bits c') =
      (if length m mod 64 = 63
       then (count_bits c')\<lparr>Message_Digest := sha1_blocks H0 (m @ [b]), Message_Block_Index := 0\<rparr> else count_bits c')"
    by (simp add: flush_block_def SHA1ProcessMessageBlock_compress digest block length_rest)
  then show ?thesis
    using put count_bits_length [OF len] block(2) small
    by (auto simp: holds_message_def rest_snoc mod_Suc digest)
qed

lemma input_loop_corrupted: "Corrupted c \<Longrightarrow> input_loop bs c = Some c"
  by (cases bs) simp_all

lemma holds_bound: "holds_message m c \<Longrightarrow> 8 * length m < 2 ^ 64"
  using unat_less_32 [of "Length_High c"] unat_less_32 [of "Length_Low c"] by (simp add: holds_message_def)

text \<open>The state after \<open>m\<close>: it holds \<open>m\<close>, or the message is too long and the context is spoilt.\<close>

definition has_read :: "u8 list \<Rightarrow> SHA1Context \<Rightarrow> bool" where
  "has_read m c \<longleftrightarrow> (if 8 * length m < 2 ^ 64 then holds_message m c else Corrupted c)"

lemma input_loop_reads: "holds_message m c \<Longrightarrow> \<exists>c'. input_loop bs c = Some c' \<and> has_read (m @ bs) c'"
proof (induction bs arbitrary: m c)
  case Nil
  then show ?case
    using holds_bound [of m c] by (simp add: has_read_def)
next
  case (Cons b bs)
  obtain c1 where c1: "put_byte b c = Some c1"
      "if 8 * Suc (length m) = 2 ^ 64 then Corrupted (flush_block (count_bits c1))
       else holds_message (m @ [b]) (flush_block (count_bits c1))"
    using input_byte [OF Cons.prems, of b] by auto
  have "\<not> Corrupted c"
    using Cons.prems by (simp add: holds_message_def)
  then have loop: "input_loop (b # bs) c = input_loop bs (flush_block (count_bits c1))"
    by (simp add: c1)
  show ?case
  proof (cases "8 * Suc (length m) = 2 ^ 64")
    case True
    then show ?thesis
      using c1 loop by (simp add: input_loop_corrupted has_read_def)
  next
    case False
    then show ?thesis
      using Cons.IH [of "m @ [b]"] c1 loop by simp
  qed
qed

lemma SHA1Input_reads: "has_read m c \<Longrightarrow> \<exists>c'. SHA1Input bs c = Some c' \<and> has_read (m @ bs) c'"
  using input_loop_reads [of m c bs] by (auto simp: has_read_def SHA1Input_def holds_message_def split: if_splits)

fun SHA1Inputs :: "u8 list list \<Rightarrow> SHA1Context \<Rightarrow> SHA1Context option" where
  "SHA1Inputs [] c = Some c"
| "SHA1Inputs (p # ps) c = Option.bind (SHA1Input p c) (SHA1Inputs ps)"

lemma SHA1Inputs_reads: "has_read m c \<Longrightarrow> \<exists>c'. SHA1Inputs ps c = Some c' \<and> has_read (m @ concat ps) c'"
proof (induction ps arbitrary: m c)
  case Nil
  then show ?case
    by simp
next
  case (Cons p ps)
  then obtain c1 where "SHA1Input p c = Some c1" "has_read (m @ p) c1"
    using SHA1Input_reads by blast
  then show ?case
    using Cons.IH [of "m @ p" c1] by simp
qed

subsection \<open>Padding\<close>

declare pad_zeros.simps [simp del]

lemma pad_zeros_fills:
  assumes "Message_Block_Index c \<le> n" "n \<le> 64" "length (Message_Block c) = 64"
  shows "pad_zeros n c =
    Some (c\<lparr>Message_Block := take (Message_Block_Index c) (Message_Block c) @ replicate (n - Message_Block_Index c) 0 @
                              drop n (Message_Block c), Message_Block_Index := n\<rparr>)"
  using assms
proof (induction n c rule: pad_zeros.induct)
  case (1 n c)
  show ?case
  proof (cases "Message_Block_Index c < n")
    case False
    then show ?thesis
      using 1(2) by (subst pad_zeros.simps) simp
  next
    case True
    define c1 where "c1 = c\<lparr>Message_Block := (Message_Block c)[Message_Block_Index c := 0], Message_Block_Index := Suc (Message_Block_Index c)\<rparr>"
    have put: "put_byte 0 c = Some c1"
      using True 1(3) by (simp add: put_byte_def c1_def Let_def)
    have "pad_zeros n c = pad_zeros n c1"
      using True put by (subst pad_zeros.simps) simp
    moreover have "replicate (n - Message_Block_Index c) (0 :: u8) = 0 # replicate (n - Suc (Message_Block_Index c)) 0"
      using True by (simp flip: replicate_Suc add: Suc_diff_Suc)
    ultimately show ?thesis
      using 1 True put by (simp add: c1_def take_Suc_conv_app_nth)
  qed
qed

lemma high_byte: "l < 2 ^ 32 \<Longrightarrow> (h * 2 ^ 32 + l) div 2 ^ (32 + j) = h div 2 ^ j"
  for h l :: nat
  by (simp add: power_add div_mult2_eq)

lemma low_byte: "j \<le> 24 \<Longrightarrow> (h * 2 ^ 32 + l) div 2 ^ j mod 256 = l div 2 ^ j mod 256"
  for h l :: nat
proof -
  assume j: "j \<le> 24"
  have "(2 :: nat) ^ 32 = 2 ^ j * 2 ^ (24 - j) * 256"
    using j by (simp flip: power_add)
  then have "h * 2 ^ 32 + l = l + (h * 2 ^ (24 - j) * 256) * 2 ^ j"
    by (simp only: mult.assoc mult.commute mult.left_commute add.commute)
  moreover have "(l + (h * 2 ^ (24 - j) * 256) * 2 ^ j) div 2 ^ j = h * 2 ^ (24 - j) * 256 + l div 2 ^ j"
    by (rule div_mult_self1) simp
  ultimately show ?thesis
    by (simp only: mod_mult_self3)
qed

lemma ucast_and_255: "ucast (w AND 0xFF) = (ucast w :: u8)"
  for w :: u32
proof -
  have "w AND 0xFF = take_bit 8 w"
    by (simp add: take_bit_eq_mask mask_eq_exp_minus_1)
  then show ?thesis
    by (simp only:) (rule bit_word_eqI, simp add: bit_simps)
qed

lemma eight_bytes: "length xs = 8 \<Longrightarrow> \<exists>x0 x1 x2 x3 x4 x5 x6 x7. xs = [x0, x1, x2, x3, x4, x5, x6, x7]"
  by (auto simp: numeral_eq_Suc length_Suc_conv)

lemma length_bytes:
  fixes h l :: u32
  assumes "unat h * 2 ^ 32 + unat l = n"
  shows "j \<le> 24 \<Longrightarrow> ucast (drop_bit j h) = (of_nat (n div 2 ^ (32 + j)) :: u8)"
    and "j \<le> 24 \<Longrightarrow> ucast (drop_bit j l) = (of_nat (n div 2 ^ j) :: u8)"
proof -
  assume j: "j \<le> 24"
  show "ucast (drop_bit j h) = (of_nat (n div 2 ^ (32 + j)) :: u8)"
    unfolding word_unat_eq_iff unat_byte_of_u32
    using high_byte [OF unat_less_32 [of l], of "unat h" j] by (simp add: unat_of_nat flip: assms)
  show "ucast (drop_bit j l) = (of_nat (n div 2 ^ j) :: u8)"
    unfolding word_unat_eq_iff unat_byte_of_u32
    using low_byte [OF j, of "unat h" "unat l"] by (simp add: unat_of_nat flip: assms)
qed

lemma store_length_block:
  assumes "length (Message_Block c) = 64" "unat (Length_High c) * 2 ^ 32 + unat (Length_Low c) = n"
  shows "Message_Block (store_length c) = take 56 (Message_Block c) @ be_bytes n"
proof -
  have "length (drop 56 (Message_Block c)) = 8"
    using assms(1) by simp
  then obtain x0 x1 x2 x3 x4 x5 x6 x7 where tail: "drop 56 (Message_Block c) = [x0, x1, x2, x3, x4, x5, x6, x7]"
    using eight_bytes by blast
  define B where "B = take 56 (Message_Block c)"
  have B: "length B = 56" "Message_Block c = B @ [x0, x1, x2, x3, x4, x5, x6, x7]"
    using assms(1) append_take_drop_id [of 56 "Message_Block c"] by (simp_all add: B_def tail)
  note bytes = length_bytes [OF assms(2)]
  show ?thesis
    unfolding store_length_def be_bytes_def
    using bytes [of 24] bytes [of 16] bytes [of 8] bytes [of 0]
    by (simp add: B list_update_append ucast_and_255 upt_conv_Cons)
qed

lemma be_bytes_length [simp]: "length (be_bytes n) = 8"
  by (simp add: be_bytes_def)

lemma store_length_kept [simp]:
  "Message_Digest (store_length c) = Message_Digest c" "length (Message_Block (store_length c)) = length (Message_Block c)"
  by (simp_all add: store_length_def)

lemma last_block:
  assumes "length (Message_Block c) = 64" "unat (Length_High c) * 2 ^ 32 + unat (Length_Low c) = n"
  shows "Message_Digest (SHA1ProcessMessageBlock (store_length c)) =
    sha1_compress (Message_Digest c) (take 56 (Message_Block c) @ be_bytes n)"
  using assms by (simp add: SHA1ProcessMessageBlock_compress store_length_block)

lemma SHA1PadMessage_digest:
  assumes "holds_message m c"
  shows "\<exists>c'. SHA1PadMessage c = Some c' \<and> Message_Digest c' = sha1 m"
proof -
  define r where "r = length m mod 64"
  define c1 where "c1 = c\<lparr>Message_Block := (Message_Block c)[r := 0x80], Message_Block_Index := Suc r\<rparr>"
  have r: "r < 64"
    by (simp add: r_def)
  have len: "length (tail_block m) = r"
    by (simp add: r_def length_rest)
  have put: "put_byte 0x80 c = Some c1"
    using assms r by (simp add: put_byte_def holds_message_def c1_def r_def [symmetric] Let_def)
  have c: "Message_Block_Index c = r" "length (Message_Block c1) = 64" "Message_Block_Index c1 = Suc r"
      "Message_Digest c1 = sha1_blocks H0 m" "take (Suc r) (Message_Block c1) = tail_block m @ [0x80]"
      "unat (Length_High c1) * 2 ^ 32 + unat (Length_Low c1) = 8 * length m"
    using assms r by (simp_all add: holds_message_def c1_def r_def [symmetric] take_Suc_conv_app_nth)
  have sha1: "sha1 m = sha1_blocks (sha1_blocks H0 m) (tail_block m @ [0x80] @ replicate ((119 - r) mod 64) 0 @ be_bytes (8 * length m))"
    unfolding sha1_def sha1_pad_def r_def H0_def [symmetric] by (rule sha1_blocks_whole)
  show ?thesis
  proof (cases "r > 55")
    case False
    then have "(119 - r) mod 64 = 55 - r"
      by (simp add: mod_if)
    then show ?thesis
      using False sha1_blocks_64 [of "tail_block m @ [0x80] @ replicate (55 - r) 0 @ be_bytes (8 * length m)" _ "[]"]
      by (simp add: SHA1PadMessage_def c c(6) [simplified] put pad_zeros_fills last_block sha1 sha1_blocks_short len take_Cons')
  next
    case True
    define block where "block = tail_block m @ [0x80] @ replicate (63 - r) 0"
    have block: "length block = 64"
      using True r by (simp add: block_def len)
    define c2 where "c2 = c1\<lparr>Message_Block := block, Message_Block_Index := 0, Message_Digest := sha1_compress (sha1_blocks H0 m) block\<rparr>"
    have "Option.bind (pad_zeros 64 c1) (\<lambda>c2. pad_zeros 56 (SHA1ProcessMessageBlock c2)) = pad_zeros 56 c2"
      using r block by (simp add: c pad_zeros_fills block_def SHA1ProcessMessageBlock_compress c2_def)
    moreover have "Option.bind (pad_zeros 56 c2) (\<lambda>c3. Some (SHA1ProcessMessageBlock (store_length c3))) =
        Some (SHA1ProcessMessageBlock (store_length (c2\<lparr>Message_Block := replicate 56 0 @ drop 56 block, Message_Block_Index := 56\<rparr>)))"
      using block by (simp add: c2_def pad_zeros_fills)
    moreover have "Message_Digest (SHA1ProcessMessageBlock (store_length (c2\<lparr>Message_Block := replicate 56 0 @ drop 56 block, Message_Block_Index := 56\<rparr>))) =
        sha1_compress (sha1_compress (sha1_blocks H0 m) block) (replicate 56 0 @ be_bytes (8 * length m))"
      using block c(6) by (subst last_block) (simp_all add: c2_def)
    moreover have "replicate ((119 - r) mod 64) (0 :: u8) = replicate (63 - r) 0 @ replicate 56 0"
      using True r by (simp add: replicate_add [symmetric])
    then have "tail_block m @ [0x80] @ replicate ((119 - r) mod 64) 0 @ be_bytes (8 * length m) =
        block @ replicate 56 0 @ be_bytes (8 * length m)"
      by (simp add: block_def)
    then have "sha1 m = sha1_compress (sha1_compress (sha1_blocks H0 m) block) (replicate 56 0 @ be_bytes (8 * length m))"
      using sha1_blocks_64 [of "replicate 56 0 @ be_bytes (8 * length m)" _ "[]"]
      unfolding sha1 by (simp only: sha1_blocks_64 [OF block]) (simp add: sha1_blocks_short)
    ultimately show ?thesis
      using True by (simp only: SHA1PadMessage_def c put) simp
  qed
qed

lemma hash_of_pieces:
  assumes "length (Message_Block c) = 64"
  shows "\<exists>c'. Option.bind (SHA1Inputs pieces (SHA1Reset c)) SHA1Result = Some (8 * length (concat pieces) < 2 ^ 64, c') \<and>
    (8 * length (concat pieces) < 2 ^ 64 \<longrightarrow> Message_Digest c' = sha1 (concat pieces))"
proof -
  have "has_read [] (SHA1Reset c)"
    using holds_reset [OF assms] by (simp add: has_read_def)
  then obtain c1 where c1: "SHA1Inputs pieces (SHA1Reset c) = Some c1" "has_read (concat pieces) c1"
    using SHA1Inputs_reads [of "[]" _ pieces] by auto
  show ?thesis
  proof (cases "8 * length (concat pieces) < 2 ^ 64")
    case True
    then have h: "holds_message (concat pieces) c1"
      using c1 by (simp add: has_read_def)
    then obtain c2 where "SHA1PadMessage c1 = Some c2" "Message_Digest c2 = sha1 (concat pieces)"
      using SHA1PadMessage_digest by blast
    moreover have "\<not> Corrupted c1" "\<not> Computed c1"
      using h by (simp_all add: holds_message_def)
    ultimately show ?thesis
      using True c1(1) by (simp add: SHA1Result_def)
  next
    case False
    then show ?thesis
      using c1 by (simp add: has_read_def SHA1Result_def)
  qed
qed

text \<open>
  C9. a message given to \<^const>\<open>SHA1Input\<close> in any pieces, after \<^const>\<open>SHA1Reset\<close>: nothing is written outside
  of the block, \<^const>\<open>SHA1Result\<close> returns 1 exactly when the message has less than \<open>2 ^ 64\<close> bits, and the digest is
  then the SHA-1 of the pieces joined.
\<close>

theorem sha1_of_any_pieces:
  assumes "length (Message_Block c) = 64"
  shows "\<exists>c'. Option.bind (SHA1Inputs pieces (SHA1Reset c)) SHA1Result = Some (8 * length (concat pieces) < 2 ^ 64, c') \<and>
    (8 * length (concat pieces) < 2 ^ 64 \<longrightarrow> Message_Digest c' = sha1 (concat pieces))"
  using assms by (rule hash_of_pieces)

definition fresh_context :: SHA1Context where
  "fresh_context = \<lparr>Message_Digest = replicate 5 0, Length_Low = 0, Length_High = 0, Message_Block = replicate 64 0,
     Message_Block_Index = 0, Computed = False, Corrupted = False\<rparr>"

theorem sha1_of_any_pieces_witness:
  "\<exists>c'. Option.bind (SHA1Inputs [[0x61], [], [0x62, 0x63]] (SHA1Reset fresh_context)) SHA1Result = Some (True, c') \<and>
     Message_Digest c' = sha1 [0x61, 0x62, 0x63]"
  using sha1_of_any_pieces [of fresh_context "[[0x61], [], [0x62, 0x63]]"] by (simp add: fresh_context_def)

end
