(* ===== verification/CC_Web.thy ===== *)
theory CC_Web
  imports HP_Loop CC_Sha1 "HOL-Library.State_Monad"
begin

section \<open>The capture client: the web command server\<close>

text \<open>
  \<^verbatim>\<open>WebService.cpp\<close>: the HTTP server of the sandbox guest that takes files and commands. A request
  is read by the HTTP parser through three callbacks and then served. What Windows answers is a
  parameter: a record of functions of the history of calls. The code is a state monad over that
  history, so that a theorem can speak of every call that is made and of their order.
\<close>

unbundle bit_operations_syntax

subsection \<open>The calls of the system\<close>

datatype call =
    C_send string
  | C_recv nat
  | C_GetFileAttributes string
  | C_CreateFile_read string
  | C_CreateFile_write string
  | C_GetFileSize nat
  | C_ReadFile nat u32
  | C_WriteFile nat string
  | C_CloseHandle nat
  | C_DeleteFile string
  | C_FindFirst string
  | C_FindClose
  | C_CreateProcess string
  | C_ShellExecute string
  | C_IcmpCreateFile
  | C_IcmpSendEcho2 nat
  | C_WaitForSingleObject
  | C_ReleaseMutex
  | C_fopen string string
  | C_fread nat
  | C_fprintf nat string
  | C_fclose nat
  | C_onCMDEvent string string
  | C_TlsSetValue
  | C_realloc nat
  | C_shutdown
  | C_closesocket
  | C_setup string
  | C_accept
  | C_CreateThread
  | C_wait_thread
  | C_TerminateThread

text \<open>
  The answers. A handle is a number and \<open>None\<close> is the invalid one; a transfer that fails is
  \<open>None\<close>; \<open>r_recv\<close> gives \<open>None\<close> for an error and no bytes when the peer has closed.
  \<open>r_listing\<close> is what \<^verbatim>\<open>FindFirstFile\<close> and \<^verbatim>\<open>FindNextFile\<close> run through, \<open>r_fresh\<close> the
  bytes of a new heap block or stack object before they are written.
\<close>

record win =
  r_send :: "call list \<Rightarrow> string \<Rightarrow> int"
  r_recv :: "call list \<Rightarrow> nat \<Rightarrow> string option"
  r_attributes :: "call list \<Rightarrow> string \<Rightarrow> u32"
  r_open :: "call list \<Rightarrow> string \<Rightarrow> nat option"
  r_create :: "call list \<Rightarrow> string \<Rightarrow> nat option"
  r_size :: "call list \<Rightarrow> nat \<Rightarrow> u32"
  r_read :: "call list \<Rightarrow> nat \<Rightarrow> u32 \<Rightarrow> string option"
  r_write :: "call list \<Rightarrow> nat \<Rightarrow> string \<Rightarrow> u32 option"
  r_listing :: "call list \<Rightarrow> string \<Rightarrow> (u32 \<times> string) list"
  r_process :: "call list \<Rightarrow> string \<Rightarrow> bool"
  r_shell :: "call list \<Rightarrow> string \<Rightarrow> int"
  r_icmp :: "call list \<Rightarrow> nat option"
  r_echo :: "call list \<Rightarrow> nat \<Rightarrow> u32"
  r_fopen :: "call list \<Rightarrow> string \<Rightarrow> string \<Rightarrow> nat option"
  r_ftell :: "call list \<Rightarrow> nat \<Rightarrow> nat"
  r_fread :: "call list \<Rightarrow> nat \<Rightarrow> string"
  r_time :: "call list \<Rightarrow> nat"
  r_tls :: "call list \<Rightarrow> bool"
  r_realloc :: "call list \<Rightarrow> nat \<Rightarrow> bool"
  r_fresh :: "call list \<Rightarrow> nat \<Rightarrow> string"
  r_setup :: "call list \<Rightarrow> string \<Rightarrow> bool"
  r_accept :: "call list \<Rightarrow> bool"
  r_stopped :: "call list \<Rightarrow> bool"
  r_canonicalize :: "string \<Rightarrow> nat \<Rightarrow> string option"

datatype web_fault =
    F_parser hp_fault
  | F_invalid_parameter
  | F_sprintf_overrun
  | F_read_outside
  | F_write_outside
  | F_int_overflow

type_synonym 'a act = "(call list, 'a) state"

definition api :: "call \<Rightarrow> (call list \<Rightarrow> 'a) \<Rightarrow> 'a act" where
  "api c answer = do {
     h \<leftarrow> State_Monad.get;
     State_Monad.set (h @ [c]);
     State_Monad.return (answer h)
   }"

lemma run_api [simp]: "run_state (api c f) h = (f h, h @ [c])"
  by (simp add: api_def)

definition send :: "win \<Rightarrow> string \<Rightarrow> int act" where
  "send w s = api (C_send s) (\<lambda>h. r_send w h s)"

definition CloseHandle :: "nat \<Rightarrow> unit act" where
  "CloseHandle f = api (C_CloseHandle f) (\<lambda>_. ())"

definition SERVER_BUFLEN :: nat where "SERVER_BUFLEN = 1024 * 8"
definition SERVER_BUFSTEP :: nat where "SERVER_BUFSTEP = 1024 * 1024 * 8"
definition MAX_FILE_SIZE :: u32 where "MAX_FILE_SIZE = 1024 * 1024 * 100"
definition MAX_URI_SIZE :: nat where "MAX_URI_SIZE = 1024"
definition WEBSVC_HTTP_PARTIAL :: nat where "WEBSVC_HTTP_PARTIAL = 0"
definition WEBSVC_HTTP_SUCCESS :: nat where "WEBSVC_HTTP_SUCCESS = 1"
definition TEMP_FILE_FOLDER :: string where "TEMP_FILE_FOLDER = ''C:'' @ [CHR 0x5C] @ ''WINDOWS'' @ [CHR 0x5C] @ ''Temp'' @ [CHR 0x5C]"
definition FILE_DATA_POLLUTION :: string where "FILE_DATA_POLLUTION = ''C:'' @ [CHR 0x5C] @ ''data_pollution.log''"

subsection \<open>The message and the callbacks of the parser\<close>

text \<open>
  \<^verbatim>\<open>post_data\<close> is a pointer into the receive buffer, as an offset, or null. The parser's callbacks
  find the message in thread-local storage; here it is the \<^verbatim>\<open>data\<close> of the parser, and \<open>None\<close> says
  that a checked function of the C library has ended the process.
\<close>

record http_message =
  msg_method :: nat
  request_uri :: string
  post_data :: "int option"
  post_data_len :: u32
  msg_status :: nat

primrec method_number :: "http_method \<Rightarrow> nat" where
  "method_number HTTP_DELETE = 0"
| "method_number HTTP_GET = 1"
| "method_number HTTP_HEAD = 2"
| "method_number HTTP_POST = 3"
| "method_number HTTP_PUT = 4"
| "method_number HTTP_CONNECT = 5"
| "method_number HTTP_OPTIONS = 6"
| "method_number HTTP_TRACE = 7"
| "method_number HTTP_COPY = 8"
| "method_number HTTP_LOCK = 9"
| "method_number HTTP_MKCOL = 10"
| "method_number HTTP_MOVE = 11"
| "method_number HTTP_PROPFIND = 12"
| "method_number HTTP_PROPPATCH = 13"
| "method_number HTTP_SEARCH = 14"
| "method_number HTTP_UNLOCK = 15"
| "method_number HTTP_REPORT = 16"
| "method_number HTTP_MKACTIVITY = 17"
| "method_number HTTP_CHECKOUT = 18"
| "method_number HTTP_MERGE = 19"
| "method_number HTTP_MSEARCH = 20"
| "method_number HTTP_NOTIFY = 21"
| "method_number HTTP_SUBSCRIBE = 22"
| "method_number HTTP_UNSUBSCRIBE = 23"
| "method_number HTTP_PATCH = 24"
| "method_number HTTP_PURGE = 25"

definition strncpy_s :: "nat \<Rightarrow> string \<Rightarrow> string option" where
  "strncpy_s room bytes =
     (let s = takeWhile (\<lambda>c. c \<noteq> NUL) bytes in if length s < room then Some s else None)"

definition callback_uri :: "win \<Rightarrow> http_message option http_data_cb" where
  "callback_uri w q i bytes =
     (0, False,
      Option.bind (hp_data q) (\<lambda>message.
      Option.bind (strncpy_s MAX_URI_SIZE bytes) (\<lambda>uri_buf.
        Some (case r_canonicalize w uri_buf MAX_URI_SIZE of
                Some s \<Rightarrow> message\<lparr>request_uri := s\<rparr>
              | None \<Rightarrow> message))))"

text \<open>\<open>base\<close> is \<^verbatim>\<open>datasize\<close>: the data that is parsed starts at \<^verbatim>\<open>buf + datasize\<close>.\<close>

definition callback_body :: "nat \<Rightarrow> http_message option http_data_cb" where
  "callback_body base q i bytes =
     (0, False, map_option (\<lambda>message.
        message\<lparr>post_data := Some (int (base + i + length bytes)),
                post_data_len := post_data_len message + of_nat (length bytes)\<rparr>) (hp_data q))"

definition callback_complete :: "http_message option http_cb" where
  "callback_complete q =
     (0, False, map_option (\<lambda>message.
        message\<lparr>msg_status := WEBSVC_HTTP_SUCCESS, msg_method := method_number (hp_method q)\<rparr>) (hp_data q))"

definition web_settings :: "win \<Rightarrow> nat \<Rightarrow> http_message option http_parser_settings" where
  "web_settings w base =
     \<lparr>on_message_begin = None, on_url = Some (callback_uri w), on_header_field = None, on_header_value = None,
      on_headers_complete = None, on_body = Some (callback_body base), on_message_complete = Some callback_complete\<rparr>"

subsection \<open>Answers\<close>

abbreviation CRLF :: string where
  "CRLF \<equiv> [CR, LF]"

definition serve_error :: "win \<Rightarrow> string \<Rightarrow> int act" where
  "serve_error w status = send w (''HTTP/1.0 '' @ status @ CRLF @ CRLF @ status)"

definition is_file :: "u32 \<Rightarrow> bool" where
  "is_file dwAttrib \<longleftrightarrow> dwAttrib \<noteq> 0xFFFFFFFF \<and> dwAttrib AND 0x10 = 0"

definition GetFileAttributesA :: "win \<Rightarrow> string \<Rightarrow> u32 act" where
  "GetFileAttributesA w path = api (C_GetFileAttributes path) (\<lambda>h. r_attributes w h path)"

definition serve_file :: "win \<Rightarrow> string \<Rightarrow> int act" where
  "serve_file w filepath = do {
     dwAttrib \<leftarrow> GetFileAttributesA w filepath;
     if is_file dwAttrib then do {
       hFile \<leftarrow> api (C_CreateFile_read filepath) (\<lambda>h. r_open w h filepath);
       case hFile of
         Some f \<Rightarrow> do {
           filesize \<leftarrow> api (C_GetFileSize f) (\<lambda>h. r_size w h f);
           if filesize > MAX_FILE_SIZE then do {
             CloseHandle f;
             serve_error w ''403 Forbidden (file too large)''
           } else do {
             bytecount \<leftarrow> send w (''HTTP/1.0 200 OK'' @ CRLF @ ''Content-Transfer-Encoding: binary'' @ CRLF @
                            ''Content-Type: application/octet-stream'' @ CRLF @ CRLF);
             buf \<leftarrow> api (C_ReadFile f filesize) (\<lambda>h. r_read w h f filesize);
             case buf of
               None \<Rightarrow> do {
                 CloseHandle f;
                 serve_error w ''403 Forbidden (file read error)''
               }
             | Some bytes \<Rightarrow> do {
                 CloseHandle f;
                 n \<leftarrow> send w bytes;
                 State_Monad.return (bytecount + n)
               }
           }
         }
       | None \<Rightarrow> serve_error w ''403 Forbidden (file open error)''
     } else serve_error w ''404 Not found''
   }"

text \<open>The bytes at a pointer into the received data.\<close>

definition bytes_at :: "string \<Rightarrow> int option \<Rightarrow> u32 \<Rightarrow> string option" where
  "bytes_at buf p n =
     (case p of
        None \<Rightarrow> None
      | Some i \<Rightarrow> if 0 \<le> i \<and> nat i + unat n \<le> length buf then Some (take (unat n) (drop (nat i) buf)) else None)"

definition hex_digit :: "nat \<Rightarrow> char" where
  "hex_digit d = ''0123456789ABCDEF'' ! d"

definition hex8 :: "u32 \<Rightarrow> string" where
  "hex8 x = map (\<lambda>i. hex_digit (unat x div 16 ^ (7 - i) mod 16)) [0..<8]"

text \<open>
  \<^verbatim>\<open>write_hash_to_log\<close>; \<open>sha\<close> is the context on the stack, not initialised. The function has no
  \<^verbatim>\<open>return\<close> on its last path: \<open>None\<close>.
\<close>

definition hash_of :: "string \<Rightarrow> SHA1Context \<Rightarrow> (bool \<times> SHA1Context) option" where
  "hash_of bytes sha = Option.bind (SHA1Input (map of_char bytes) (SHA1Reset sha)) SHA1Result"

definition write_hash_to_log ::
  "win \<Rightarrow> SHA1Context \<Rightarrow> string \<Rightarrow> http_message \<Rightarrow> string \<Rightarrow> (web_fault + int option) act" where
  "write_hash_to_log w sha buf message filepath =
     (case (if post_data_len message = 0 then Some [] else bytes_at buf (post_data message) (post_data_len message)) of
        None \<Rightarrow> State_Monad.return (Inl F_read_outside)
      | Some bytes \<Rightarrow>
          (case hash_of bytes sha of
             None \<Rightarrow> State_Monad.return (Inl F_write_outside)
           | Some (False, _) \<Rightarrow> do {
               n \<leftarrow> serve_error w ''403 calculating sha1 error!'';
               State_Monad.return (Inr (Some n))
             }
           | Some (True, digest) \<Rightarrow> do {
               fp \<leftarrow> api (C_fopen FILE_DATA_POLLUTION ''a'') (\<lambda>h. r_fopen w h FILE_DATA_POLLUTION ''a'');
               case fp of
                 None \<Rightarrow> do {
                   n \<leftarrow> serve_error w ''403 Error open data pollution log file!'';
                   State_Monad.return (Inr (Some n))
                 }
               | Some f \<Rightarrow> do {
                   h \<leftarrow> State_Monad.get;
                   api (C_fprintf f (''[upload time]'' @ show_nat (r_time w h) @ [TAB])) (\<lambda>_. ());
                   api (C_fprintf f (''[file sha1]'' @ concat (map hex8 (Message_Digest digest)) @ [TAB])) (\<lambda>_. ());
                   api (C_fprintf f (''[file path]'' @ filepath @ [LF])) (\<lambda>_. ());
                   api (C_fclose f) (\<lambda>_. ());
                   State_Monad.return (Inr None)
                 }
             }))"

definition recv_file :: "win \<Rightarrow> string \<Rightarrow> http_message \<Rightarrow> string \<Rightarrow> (web_fault + int) act" where
  "recv_file w buf message filepath =
     (if post_data message \<noteq> None \<and> post_data_len message \<noteq> 0 then
        let file = TEMP_FILE_FOLDER @ filepath in
        if length file \<ge> 1024 then State_Monad.return (Inl F_sprintf_overrun)
        else do {
          hFile \<leftarrow> api (C_CreateFile_write file) (\<lambda>h. r_create w h file);
          case hFile of
            Some f \<Rightarrow>
              (case bytes_at buf (post_data message) (post_data_len message) of
                 None \<Rightarrow> State_Monad.return (Inl F_read_outside)
               | Some bytes \<Rightarrow> do {
                   r \<leftarrow> api (C_WriteFile f bytes) (\<lambda>h. r_write w h f bytes);
                   if r \<noteq> Some (post_data_len message) then do {
                     CloseHandle f;
                     n \<leftarrow> serve_error w ''403 Forbidden (file write error)'';
                     State_Monad.return (Inr n)
                   } else do {
                     bytecount \<leftarrow> send w (''HTTP/1.0 201 Created'' @ CRLF @ CRLF);
                     CloseHandle f;
                     State_Monad.return (Inr bytecount)
                   }
                 })
          | None \<Rightarrow> do {
              n \<leftarrow> serve_error w ''403 Forbidden (file open error)'';
              State_Monad.return (Inr n)
            }
        }
      else do {
        n \<leftarrow> serve_error w ''400 Bad Request (no file received)'';
        State_Monad.return (Inr n)
      })"

definition InternetCheckPing :: "win \<Rightarrow> u32 act" where
  "InternetCheckPing w = do {
     hIcmp \<leftarrow> api C_IcmpCreateFile (r_icmp w);
     case hIcmp of
       None \<Rightarrow> State_Monad.return 0
     | Some f \<Rightarrow> api (C_IcmpSendEcho2 f) (\<lambda>h. r_echo w h f)
   }"

definition serve_ping :: "win \<Rightarrow> int act" where
  "serve_ping w = do {
     retval \<leftarrow> InternetCheckPing w;
     if retval \<noteq> 0 then send w (''HTTP/1.0 200 OK'' @ CRLF @ CRLF)
     else serve_error w ''404 Not found''
   }"

text \<open>\<^verbatim>\<open>strrchr(name, '.')\<close>: the name from its last dot on.\<close>

primrec from_last_dot :: "string \<Rightarrow> string option" where
  "from_last_dot [] = None"
| "from_last_dot (c # cs) =
     (case from_last_dot cs of Some e \<Rightarrow> Some e | None \<Rightarrow> if c = CHR ''.'' then Some (c # cs) else None)"

definition deletes :: "u32 \<times> string \<Rightarrow> bool" where
  "deletes = (\<lambda>(attributes, name).
     attributes AND 0x10 = 0 \<and> (case from_last_dot name of None \<Rightarrow> False | Some e \<Rightarrow> e \<noteq> ''.dat''))"

fun cleantemp_loop :: "win \<Rightarrow> (u32 \<times> string) list \<Rightarrow> nat \<Rightarrow> int \<Rightarrow> (nat \<times> int) act" where
  "cleantemp_loop w [] num_files bytecount = State_Monad.return (num_files, bytecount)"
| "cleantemp_loop w (ffd # ffds) num_files bytecount =
     (if deletes ffd then do {
        api (C_DeleteFile (snd ffd)) (\<lambda>_. ());
        n1 \<leftarrow> (if num_files = 0 then send w (''HTTP/1.0 400 Deleted'' @ CRLF @ CRLF) else State_Monad.return 0);
        n2 \<leftarrow> send w (snd ffd @ CRLF);
        cleantemp_loop w ffds (num_files + 1) (bytecount + n1 + n2)
      } else cleantemp_loop w ffds num_files bytecount)"

definition TEMP_PATTERN :: string where
  "TEMP_PATTERN = ''C:'' @ [CHR 0x5C] @ ''Windows'' @ [CHR 0x5C] @ ''Temp'' @ [CHR 0x5C] @ ''*''"

definition serve_cleantemp :: "win \<Rightarrow> int act" where
  "serve_cleantemp w = do {
     listing \<leftarrow> api (C_FindFirst TEMP_PATTERN) (\<lambda>h. r_listing w h TEMP_PATTERN);
     (num_files, bytecount) \<leftarrow> cleantemp_loop w listing 0 0;
     api C_FindClose (\<lambda>_. ());
     if num_files > 0 then State_Monad.return bytecount
     else send w (''HTTP/1.0 200 OK'' @ CRLF @ CRLF @ ''200 OK'')
   }"

definition created :: string where
  "created = ''HTTP/1.0 201 Created'' @ CRLF @ CRLF @ ''201 Created''"

definition serve_run :: "win \<Rightarrow> string \<Rightarrow> int act" where
  "serve_run w filepath = do {
     dwAttrib \<leftarrow> GetFileAttributesA w filepath;
     if is_file dwAttrib then do {
       ok \<leftarrow> api (C_CreateProcess filepath) (\<lambda>h. r_process w h filepath);
       if \<not> ok then serve_error w ''403 Forbidden (process creation error)'' else send w created
     } else serve_error w ''404 Not found''
   }"

definition serve_open :: "win \<Rightarrow> string \<Rightarrow> int act" where
  "serve_open w filepath = do {
     dwAttrib \<leftarrow> GetFileAttributesA w filepath;
     if is_file dwAttrib then do {
       retval \<leftarrow> api (C_ShellExecute filepath) (\<lambda>h. r_shell w h filepath);
       if retval \<le> 32 then serve_error w ''403 Forbidden (process creation error)'' else send w created
     } else serve_error w ''404 Not found''
   }"

text \<open>
  The log of \<^verbatim>\<open>serve_data_pollution\<close> is opened as text: \<^verbatim>\<open>fread\<close> may give less than the size, and
  the rest of what is sent is whatever the new heap block held.
\<close>

definition serve_data_pollution :: "win \<Rightarrow> int act" where
  "serve_data_pollution w = do {
     dwAttrib \<leftarrow> GetFileAttributesA w FILE_DATA_POLLUTION;
     api C_WaitForSingleObject (\<lambda>_. ());
     if is_file dwAttrib then do {
       fp \<leftarrow> api (C_fopen FILE_DATA_POLLUTION ''r'') (\<lambda>h. r_fopen w h FILE_DATA_POLLUTION ''r'');
       case fp of
         None \<Rightarrow> serve_error w ''403 Error open file!)''
       | Some f \<Rightarrow> do {
           h \<leftarrow> State_Monad.get;
           let filesize = r_ftell w h f;
           let fresh = r_fresh w h filesize;
           bytes \<leftarrow> api (C_fread f) (\<lambda>h. r_fread w h f);
           api (C_fclose f) (\<lambda>_. ());
           if filesize \<noteq> 0 then do {
             n1 \<leftarrow> send w (''HTTP/1.0 200 OK'' @ CRLF @ ''Content-Type: text/plain; charset=utf-16'' @ CRLF @ CRLF);
             n2 \<leftarrow> send w (take filesize (bytes @ drop (length bytes) fresh));
             State_Monad.return (n1 + n2)
           } else serve_error w ''404 something goes wrong! data pollution log file size is !''
         }
     } else serve_error w ''404 No data pollution data file''
   }"

subsection \<open>Reading a line\<close>

text \<open>
  \<^verbatim>\<open>readLine\<close> on the rest of a file; \<open>alloc\<close> says which sizes the heap can give. The character is kept
  in a \<^verbatim>\<open>char\<close>, so that the byte 255 ends the line as the end of the file does. The result is
  \<open>None\<close> when a reallocation fails.
\<close>

fun read_line_loop :: "(nat \<Rightarrow> bool) \<Rightarrow> string \<Rightarrow> string \<Rightarrow> nat \<Rightarrow> (string \<times> nat \<times> string) option" where
  "read_line_loop alloc [] lineBuffer maximum = Some (lineBuffer, maximum, [])"
| "read_line_loop alloc (ch # file) lineBuffer maximum =
     (if ch = LF \<or> ch = CHR 0xFF then Some (lineBuffer, maximum, file)
      else if length lineBuffer = maximum
      then if alloc (maximum + 128) then read_line_loop alloc file (lineBuffer @ [ch]) (maximum + 128) else None
      else read_line_loop alloc file (lineBuffer @ [ch]) maximum)"

definition readLine :: "(nat \<Rightarrow> bool) \<Rightarrow> string option \<Rightarrow> web_fault + (string \<times> string) option" where
  "readLine alloc file =
     (case file of
        None \<Rightarrow> Inr None
      | Some chars \<Rightarrow>
          if \<not> alloc 1024 then Inr None
          else (case read_line_loop alloc chars [] 1024 of
                  None \<Rightarrow> Inr None
                | Some (lineBuffer, maximum, file') \<Rightarrow>
                    if length lineBuffer < maximum
                    then Inr (Some (takeWhile (\<lambda>c. c \<noteq> NUL) lineBuffer, file'))
                    else Inl F_write_outside))"

subsection \<open>Dispatch\<close>

definition has_prefix :: "string \<Rightarrow> string \<Rightarrow> bool" where
  "has_prefix p s \<longleftrightarrow> take (length p) s = p"

definition find_from :: "char \<Rightarrow> nat \<Rightarrow> string \<Rightarrow> nat option" where
  "find_from c k s =
     (let n = k + length (takeWhile (\<lambda>x. x \<noteq> c) (drop k s)) in if n < length s then Some n else None)"

definition URI_FILE :: string where "URI_FILE = ''/file/''"
definition URI_RUN :: string where "URI_RUN = ''/run/''"
definition URI_OPEN :: string where "URI_OPEN = ''/open/''"
definition URI_EXPLORER :: string where "URI_EXPLORER = ''/explorer/''"
definition URI_CLEANTEMP :: string where "URI_CLEANTEMP = ''/cleantemp/''"
definition URI_START :: string where "URI_START = ''/start/''"
definition URI_STOP :: string where "URI_STOP = ''/stop/''"
definition URI_SCREENSHOT :: string where "URI_SCREENSHOT = ''/screenshot/''"
definition URI_EVENTS :: string where "URI_EVENTS = ''/events/''"
definition URI_SIGCHECK :: string where "URI_SIGCHECK = ''/sigcheck/''"
definition URI_PING :: string where "URI_PING = ''/ping/''"
definition URI_DATA_POLLUTION :: string where "URI_DATA_POLLUTION = ''/data_pollution/''"

text \<open>
  The name of the program and the path in the URI of a file: \<^verbatim>\<open>found\<close> is tested for being zero,
  so that without a second slash \<^verbatim>\<open>npos\<close> is used: \<^verbatim>\<open>found + 1\<close> is 0 and the path is the whole URI.
\<close>

definition uri_app :: "string \<Rightarrow> string" where
  "uri_app uri =
     (case find_from (CHR ''/'') (length URI_FILE) uri of
        None \<Rightarrow> drop (length URI_FILE) uri
      | Some found \<Rightarrow> take (found - length URI_FILE) (drop (length URI_FILE) uri))"

definition uri_filepath :: "string \<Rightarrow> string" where
  "uri_filepath uri =
     (case find_from (CHR ''/'') (length URI_FILE) uri of
        None \<Rightarrow> uri
      | Some found \<Rightarrow> drop (found + 1) uri)"

definition faultless :: "int act \<Rightarrow> (web_fault + int) act" where
  "faultless m = do { n \<leftarrow> m; State_Monad.return (Inr n) }"

definition serve_upload :: "win \<Rightarrow> string \<Rightarrow> http_message \<Rightarrow> (web_fault + int) act" where
  "serve_upload w buf message = do {
     r \<leftarrow> recv_file w buf message (uri_filepath (request_uri message));
     case r of
       Inl f \<Rightarrow> State_Monad.return (Inl f)
     | Inr bytecount \<Rightarrow> do {
         (if bytecount > 0
          then api (C_onCMDEvent (uri_app (request_uri message)) (uri_filepath (request_uri message))) (\<lambda>_. ())
          else State_Monad.return ());
         State_Monad.return (Inr bytecount)
       }
   }"

definition serve :: "win \<Rightarrow> string \<Rightarrow> http_message \<Rightarrow> (web_fault + int) act" where
  "serve w buf message =
     (let uri = request_uri message in
      if has_prefix URI_FILE uri then
        if msg_method message = 1 then faultless (serve_file w (uri_filepath uri))
        else if msg_method message = 3 then serve_upload w buf message
        else faultless (serve_error w ''400 Bad Request'')
      else if has_prefix URI_SIGCHECK uri then State_Monad.return (Inr 0)
      else if has_prefix URI_PING uri then faultless (serve_ping w)
      else if has_prefix URI_RUN uri then faultless (serve_run w (drop (length URI_RUN) uri))
      else if has_prefix URI_OPEN uri then faultless (serve_open w (drop (length URI_OPEN) uri))
      else if has_prefix URI_EXPLORER uri then State_Monad.return (Inr 0)
      else if has_prefix URI_CLEANTEMP uri then faultless (serve_cleantemp w)
      else if has_prefix URI_START uri then State_Monad.return (Inr 0)
      else if has_prefix URI_STOP uri then State_Monad.return (Inr 0)
      else if has_prefix URI_SCREENSHOT uri then State_Monad.return (Inr 0)
      else if has_prefix URI_EVENTS uri then State_Monad.return (Inr 0)
      else if has_prefix URI_DATA_POLLUTION uri then faultless (serve_data_pollution w)
      else faultless (serve_error w ''400 Bad Request''))"

subsection \<open>One connection\<close>

definition empty_message :: http_message where
  "empty_message =
     \<lparr>msg_method = 0, request_uri = [], post_data = None, post_data_len = 0, msg_status = WEBSVC_HTTP_PARTIAL\<rparr>"

type_synonym web_parser = "http_message option http_parser"

definition forget_post :: "web_parser \<Rightarrow> web_parser" where
  "forget_post q = q\<lparr>hp_data := map_option (post_data_update (\<lambda>_. None)) (hp_data q)\<rparr>"

text \<open>
  The receive loop. \<open>buf\<close> holds the \<^verbatim>\<open>datasize\<close> bytes that have arrived. When \<^verbatim>\<open>realloc\<close> fails,
  \<^verbatim>\<open>recv\<close> is given a bad address and fails. The loop ends: the buffer cannot grow beyond the
  largest \<^verbatim>\<open>int\<close>.
\<close>

function recv_loop :: "win \<Rightarrow> web_parser \<Rightarrow> string \<Rightarrow> nat \<Rightarrow> (web_fault + web_parser \<times> string) act" where
  "recv_loop w q buf buflen =
     (let full = (length buf = buflen);
          buflen1 = (if full then buflen + SERVER_BUFSTEP else buflen);
          q1 = (if full then forget_post q else q)
      in if full \<and> buflen1 \<ge> 2 ^ 31 then State_Monad.return (Inl F_int_overflow)
         else do {
           moved \<leftarrow> (if full then api (C_realloc buflen1) (\<lambda>h. r_realloc w h buflen1) else State_Monad.return True);
           received \<leftarrow> api (C_recv (buflen1 - length buf))
                        (\<lambda>h. if moved then r_recv w h (buflen1 - length buf) else None);
           case received of
             None \<Rightarrow> State_Monad.return (Inr (q1, buf))
           | Some bytes \<Rightarrow>
               if bytes = [] then State_Monad.return (Inr (q1, buf))
               else if length buf + length bytes > buflen1 then State_Monad.return (Inl F_write_outside)
               else (case http_parser_execute (web_settings w (length buf)) q1 bytes of
                       Inl f \<Rightarrow> State_Monad.return (Inl (F_parser f))
                     | Inr (n, q2) \<Rightarrow>
                         (case hp_data q2 of
                            None \<Rightarrow> State_Monad.return (Inl F_invalid_parameter)
                          | Some message \<Rightarrow>
                              if msg_status message = WEBSVC_HTTP_PARTIAL then recv_loop w q2 (buf @ bytes) buflen1
                              else State_Monad.return (Inr (q2, buf @ bytes))))
         })"
  by pat_completeness auto
termination
proof (relation "measures [\<lambda>(w, q, buf, buflen). 2 ^ 31 - buflen, \<lambda>(w, q, buf, buflen). buflen - length buf]",
    goal_cases)
  case 1
  then show ?case by simp
next
  case 2
  then show ?case
    by (auto simp: SERVER_BUFSTEP_def split: if_splits) (simp add: diff_less_mono2)
qed

definition point_to_start :: "http_message \<Rightarrow> http_message" where
  "point_to_start message =
     (case post_data message of
        None \<Rightarrow> message
      | Some p \<Rightarrow> if post_data_len message \<noteq> 0 then message\<lparr>post_data := Some (p - uint (post_data_len message))\<rparr>
                  else message)"

definition hang_up :: "unit act" where
  "hang_up = do { api C_shutdown (\<lambda>_. ()); api C_closesocket (\<lambda>_. ()) }"

definition sockethandler :: "win \<Rightarrow> (web_fault + unit) act" where
  "sockethandler w = do {
     set \<leftarrow> api C_TlsSetValue (r_tls w);
     if \<not> set then do { hang_up; State_Monad.return (Inr ()) }
     else do {
       r \<leftarrow> recv_loop w (http_parser_init HTTP_REQUEST (Some empty_message)) [] SERVER_BUFLEN;
       case r of
         Inl f \<Rightarrow> State_Monad.return (Inl f)
       | Inr (q, buf) \<Rightarrow>
           (case hp_data q of
              None \<Rightarrow> State_Monad.return (Inl F_invalid_parameter)
            | Some message \<Rightarrow>
                if msg_status message = WEBSVC_HTTP_PARTIAL then do { hang_up; State_Monad.return (Inr ()) }
                else do {
                  s \<leftarrow> serve w buf (point_to_start message);
                  case s of
                    Inl f \<Rightarrow> State_Monad.return (Inl f)
                  | Inr n \<Rightarrow> do { hang_up; State_Monad.return (Inr ()) }
                })
     }
   }"

subsection \<open>The server\<close>

text \<open>
  \<^verbatim>\<open>WebCmdServer\<close> has a flag \<^verbatim>\<open>running\<close> of its own besides the one of its base class \<^verbatim>\<open>Runnable\<close>:
  \<^verbatim>\<open>Thread::stop\<close> clears the latter, the accept loop tests the former.
\<close>

record web_server =
  running :: bool
  runnable_running :: bool
  serverSocket :: bool

definition Thread_stop :: "win \<Rightarrow> web_server \<Rightarrow> (bool \<times> web_server) act" where
  "Thread_stop w sv = do {
     stopped \<leftarrow> api C_wait_thread (r_stopped w);
     State_Monad.return (stopped, sv\<lparr>runnable_running := False\<rparr>)
   }"

definition Thread_exit :: "win \<Rightarrow> web_server \<Rightarrow> web_server act" where
  "Thread_exit w sv = do {
     (stopped, sv1) \<leftarrow> Thread_stop w sv;
     (if stopped then State_Monad.return () else api C_TerminateThread (\<lambda>_. ()));
     State_Monad.return sv1
   }"

definition server_new :: "bool \<Rightarrow> web_server" where
  "server_new junk = \<lparr>running = False, runnable_running = junk, serverSocket = False\<rparr>"

definition server_start :: "win \<Rightarrow> web_server \<Rightarrow> web_server act" where
  "server_start w sv =
     (if \<not> running sv then do {
        api C_CreateThread (\<lambda>_. ());
        State_Monad.return (sv\<lparr>running := True, runnable_running := True\<rparr>)
      } else State_Monad.return sv)"

definition server_stop :: "win \<Rightarrow> web_server \<Rightarrow> web_server act" where
  "server_stop w sv = do {
     sv1 \<leftarrow> (if running sv then Thread_exit w sv else State_Monad.return sv);
     (if serverSocket sv1 then api C_closesocket (\<lambda>_. ()) else State_Monad.return ());
     State_Monad.return (sv1\<lparr>running := False\<rparr>)
   }"

text \<open>
  \<^verbatim>\<open>run\<close>: its preparations, each of which ends it when it fails (the last one by leaving the
  program), then the accept loop; \<open>turns\<close> is how often the loop finds \<^verbatim>\<open>running\<close> set before another
  thread clears it. \<^verbatim>\<open>serverSocket\<close> is not zero once \<^verbatim>\<open>socket\<close> was called, also when that failed.
\<close>

fun run_steps :: "win \<Rightarrow> string list \<Rightarrow> bool act" where
  "run_steps w [] = State_Monad.return True"
| "run_steps w (step # steps) = do {
     succeeded \<leftarrow> api (C_setup step) (\<lambda>h. r_setup w h step);
     if succeeded then run_steps w steps else State_Monad.return False
   }"

definition setup_steps :: "string list" where
  "setup_steps = [''socket'', ''SO_REUSEADDR'', ''SO_KEEPALIVE'', ''bind'', ''listen'', ''TlsAlloc'', ''CreateMutex'']"

definition accept_turn :: "win \<Rightarrow> unit act" where
  "accept_turn w = do {
     accepted \<leftarrow> api C_accept (r_accept w);
     if accepted then api C_CreateThread (\<lambda>_. ()) else State_Monad.return ()
   }"

primrec accept_loop :: "win \<Rightarrow> nat \<Rightarrow> unit act" where
  "accept_loop w 0 = State_Monad.return ()"
| "accept_loop w (Suc turns) = do { accept_turn w; accept_loop w turns }"

definition server_run :: "win \<Rightarrow> nat \<Rightarrow> web_server \<Rightarrow> web_server act" where
  "server_run w turns sv = do {
     started \<leftarrow> run_steps w [''WSAStartup''];
     if \<not> started then State_Monad.return sv
     else do {
       prepared \<leftarrow> run_steps w setup_steps;
       if \<not> prepared then State_Monad.return (sv\<lparr>serverSocket := True\<rparr>)
       else do {
         accept_loop w turns;
         State_Monad.return (sv\<lparr>serverSocket := True, running := False\<rparr>)
       }
     }
   }"

end
