(* ===== verification/HP_Request.thy ===== *)
theory HP_Request
  imports HP_Loop
begin

section \<open>The HTTP parser: the head of a request\<close>

text \<open>
  What \<^verbatim>\<open>http_parser_execute\<close> makes of a request line with a path and a \<^verbatim>\<open>Content-Length\<close> header: the
  method, the bytes of the URL and the number come out as they went in.
\<close>

lemmas hp_eval = exec_byte.simps exec_case_def PARSING_HEADER_def break_def STRICT_CHECK_def goto_state_def upd_def
  case_letter_def case_req_http_start_def case_req_first_http_major_def case_http_major_def case_first_http_minor_def
  case_req_http_minor_def case_req_line_almost_done_def char_between_def IS_NUM_def digit_def digit_val_def

lemma drop_Suc_tl: "drop (Suc n) xs = tl (drop n xs)"
  by (simp add: drop_Suc tl_drop)

text \<open>
  The parser and the position in the head of the first request on a connection: \<^verbatim>\<open>nread\<close> counts every
  byte.
\<close>

definition req ::
  "state \<Rightarrow> header_states \<Rightarrow> u8 \<Rightarrow> u64 \<Rightarrow> u16 \<Rightarrow> http_method \<Rightarrow> 'd \<Rightarrow> nat \<Rightarrow> (mark \<Rightarrow> nat option) \<Rightarrow> 'd hp_run" where
  "req s h i n v m d p M =
     \<lparr>parser = \<lparr>hp_type = HTTP_REQUEST, hp_flags = 0, hp_state = s, header_state = h, hp_index = i, nread = of_nat p,
        content_length = n, http_major = v, http_minor = v, status_code = 0, hp_method = m, http_errno = HPE_OK,
        hp_upgrade = False, hp_data = d\<rparr>, pos = p, marks = M\<rparr>"

lemma no_header_overflow: "p < 81920 \<Longrightarrow> \<not> HTTP_MAX_HEADER_SIZE < of_nat (Suc p)"
proof -
  assume p: "p < 81920"
  then have "unat (of_nat (Suc p) :: u32) = Suc p"
    by (simp add: unat_of_nat del: of_nat_Suc)
  then show ?thesis
    using p by (simp add: HTTP_MAX_HEADER_SIZE_def word_less_nat_alt del: of_nat_Suc)
qed

lemma header_byte:
  assumes "PARSING_HEADER s" "drop p data \<noteq> []" "p < 81920"
  shows "exec_loop st data \<lparr>parser = \<lparr>hp_type = t, hp_flags = f, hp_state = s, header_state = h, hp_index = i, nread = of_nat p,
      content_length = n, http_major = v1, http_minor = v2, status_code = c, hp_method = m, http_errno = HPE_OK,
      hp_upgrade = u, hp_data = d\<rparr>, pos = p, marks = M\<rparr> =
    rbind (exec_byte st data (hd (drop p data)) \<lparr>parser = \<lparr>hp_type = t, hp_flags = f, hp_state = s, header_state = h, hp_index = i,
      nread = of_nat (Suc p), content_length = n, http_major = v1, http_minor = v2, status_code = c, hp_method = m,
      http_errno = HPE_OK, hp_upgrade = u, hp_data = d\<rparr>, pos = p, marks = M\<rparr>)
      (\<lambda>l. case l of
            Next r2 \<Rightarrow> exec_loop st data (r2\<lparr>pos := Suc (pos r2)\<rparr>)
          | Error r2 \<Rightarrow> Inr (at_error r2)
          | Returned n q \<Rightarrow> Inr (n, q))"
proof -
  show ?thesis
    using assms no_header_overflow [OF assms(3)]
    by (subst exec_loop.simps) (simp add: count_byte_def header_overflow_def upd_def hd_drop_conv_nth add.commute)
qed

lemmas read_byte = header_byte drop_Suc_tl hp_eval

text \<open>The callbacks of a program that looks at the URL and at the body only.\<close>

definition url_only :: "('d \<Rightarrow> nat \<Rightarrow> string \<Rightarrow> 'd) \<Rightarrow> 'd http_parser_settings \<Rightarrow> bool" where
  "url_only g st \<longleftrightarrow> on_message_begin st = None \<and> on_header_field st = None \<and> on_header_value st = None \<and>
     on_headers_complete st = None \<and> on_url st = Some (\<lambda>q i bytes. (0, False, g (hp_data q) i bytes))"

lemma read_method:
  assumes "url_only g st" "drop p data = method_strings m @ '' '' @ x" "p + 20 < 81920"
  shows "\<exists>i. exec_loop st data (req s_start_req h0 i0 n0 0 m0 d p M) =
    exec_loop st data (req s_req_spaces_before_url h0 i ULLONG_MAX 0 m d (p + length (method_strings m) + 1) M)"
  by (rule exI [of _ "of_nat (length (method_strings m) + 1)"], use assms in \<open>cases m\<close>)
   (simp_all add: read_byte req_def case_start_req_def case_req_method_def notify_begin_def CALLBACK_NOTIFY_def
      url_only_def IS_ALPHA_def first_letter_method_def fresh_message_def c_str_at_def next_letter_def other_method_def
      Let_def assert_def del: of_nat_Suc, simp_all)

subsection \<open>The URL\<close>

lemma url_char_plain: "IS_URL_CHAR c \<Longrightarrow> c \<notin> {CHR '' '', CR, LF, TAB, CHR 0x0C}"
  by (auto simp: IS_URL_CHAR_def normal_url_char_def)

lemma read_path:
  assumes "url_only g st" "list_all IS_URL_CHAR cs"
  shows "drop p data = cs @ x \<Longrightarrow> p + length cs < 81920 \<Longrightarrow>
    exec_loop st data (req s_req_path h i n v m d p M) = exec_loop st data (req s_req_path h i n v m d (p + length cs) M)"
  using assms(2)
proof (induction cs arbitrary: p)
  case Nil
  then show ?case by simp
next
  case (Cons c cs)
  then have c: "IS_URL_CHAR c" "c \<notin> {CHR '' '', CR, LF, TAB, CHR 0x0C}"
    using url_char_plain by auto
  have "exec_loop st data (req s_req_path h i n v m d p M) = exec_loop st data (req s_req_path h i n v m d (Suc p) M)"
    using Cons.prems c by (simp add: read_byte req_def case_req_url_def url_step_def parse_url_char_def del: of_nat_Suc)
  also have "\<dots> = exec_loop st data (req s_req_path h i n v m d (Suc p + length cs) M)"
    using Cons.prems by (intro Cons.IH) (simp_all add: drop_Suc_tl)
  finally show ?case by simp
qed

lemma read_url:
  assumes "url_only g st" "drop p data = (CHR ''/'' # cs) @ '' '' @ x" "list_all IS_URL_CHAR cs" "p + length cs + 5 < 81920"
    and "m \<noteq> HTTP_CONNECT" "M = (\<lambda>_. None)"
  shows "exec_loop st data (req s_req_spaces_before_url h i n v m d p M) =
    exec_loop st data (req s_req_http_start h i n v m (g d p (CHR ''/'' # cs)) (p + length cs + 2) M)"
proof -
  have "exec_loop st data (req s_req_spaces_before_url h i n v m d p M) =
      exec_loop st data (req s_req_path h i n v m d (Suc p) (M(M_url := Some p)))"
    using assms by (simp add: read_byte req_def case_req_spaces_before_url_def url_step_def parse_url_char_def MARK_def del: of_nat_Suc)
  also have "\<dots> = exec_loop st data (req s_req_path h i n v m d (Suc p + length cs) (M(M_url := Some p)))"
    using assms by (intro read_path) (simp_all add: drop_Suc_tl)
  also have "\<dots> = exec_loop st data (req s_req_http_start h i n v m (g d p (CHR ''/'' # cs)) (p + length cs + 2) M)"
  proof -
    have "drop (Suc p + length cs) data = drop (Suc (length cs)) (drop p data)"
      by (simp add: add.commute)
    then have "drop (Suc p + length cs) data = CHR '' '' # x"
      using assms(2) by simp
    then show ?thesis
      using assms
      by (simp add: read_byte req_def case_req_url_def CALLBACK_DATA_def CALLBACK_DATA_ends_def assert_def url_only_def
          called_def Let_def del: of_nat_Suc)
  qed
  finally show ?thesis .
qed

subsection \<open>The version and the length of the body\<close>

lemmas header_eval = case_header_field_start_def case_header_field_def case_header_value_start_def case_header_value_def
  case_header_almost_done_def case_header_value_lws_def case_headers_almost_done_def case_headers_done_def
  header_field_char_def field_letter_def match_keyword_def header_value_first_def header_value_char_def
  CALLBACK_DATA_def CALLBACK_DATA_ends_def MARK_def reexecute_byte_def assert_def Let_def CONTENT_LENGTH_def url_only_def

lemma add_Sucs:
  "p + 10 = Suc (Suc (Suc (Suc (Suc (Suc (Suc (Suc (Suc (Suc p)))))))))"
  "p + 16 = Suc (Suc (Suc (Suc (Suc (Suc (Suc (Suc (Suc (Suc (Suc (Suc (Suc (Suc (Suc (Suc p)))))))))))))))"
  by simp_all

lemma of_nat_one: "of_nat (Suc 0) = (1 :: u16)"
  by simp

lemma read_version:
  assumes "url_only g st" "drop p data = ''HTTP/1.1'' @ [CR, LF] @ x" "p + 20 < 81920"
  shows "exec_loop st data (req s_req_http_start h i n v m d p M) =
    exec_loop st data (req s_header_field_start h i n 1 m d (p + 10) M)"
  unfolding add_Sucs using assms by (simp add: read_byte req_def of_nat_one del: of_nat_Suc)

lemma tokens_of_letters [simp]:
  "TOKEN (CHR ''C'') = CHR ''c''" "TOKEN (CHR ''o'') = CHR ''o''" "TOKEN (CHR ''n'') = CHR ''n''" "TOKEN (CHR ''t'') = CHR ''t''"
  "TOKEN (CHR ''e'') = CHR ''e''" "TOKEN (CHR ''-'') = CHR ''-''" "TOKEN (CHR ''L'') = CHR ''l''" "TOKEN (CHR ''g'') = CHR ''g''"
  "TOKEN (CHR ''h'') = CHR ''h''" "TOKEN (CHR '':'') = NUL"
  by code_simp+

lemma read_content_length:
  assumes "url_only g st" "drop p data = ''Content-Length: '' @ x" "p + 20 < 81920"
  shows "exec_loop st data (req s_header_field_start h i n v m d p (\<lambda>_. None)) =
    exec_loop st data (req s_header_value_start h_content_length 13 n v m d (p + 16) (\<lambda>_. None))"
  unfolding add_Sucs using assms by (simp add: read_byte req_def header_eval del: of_nat_Suc)

lemma digit_shown [simp]:
  "d < 10 \<Longrightarrow> IS_NUM (show_digit d)" "d < 10 \<Longrightarrow> digit_val (show_digit d) = d"
  "d < 10 \<Longrightarrow> show_digit d \<notin> {CHR '' '', TAB, CR, LF}"
  using of_char_show_digit [of d]
  by (auto simp: IS_NUM_def char_between_def digit_val_def dest!: arg_cong [of _ _ "of_char :: char \<Rightarrow> nat"])

lemma length_word:
  assumes "k < 2 ^ 63"
  shows "unat (of_nat k :: u64) = k" "(of_nat k :: u64) \<noteq> ULLONG_MAX" "(of_nat k :: u64) = 0 \<longleftrightarrow> k = 0"
proof -
  show u: "unat (of_nat k :: u64) = k"
    using assms by (simp add: unat_of_nat)
  then show "(of_nat k :: u64) = 0 \<longleftrightarrow> k = 0"
    using unat_eq_0 [of "of_nat k :: u64"] by simp
  show "(of_nat k :: u64) \<noteq> ULLONG_MAX"
    using u assms by (auto simp: ULLONG_MAX_def unsigned_minus_1_eq_mask mask_eq_exp_minus_1)
qed

lemma next_digit:
  assumes "k < 2 ^ 63"
  defines "t \<equiv> of_nat (k div 10) * 10 + of_nat (k mod 10) :: u64"
  shows "t = of_nat k" "\<not> t < of_nat (k div 10)" "t \<noteq> ULLONG_MAX"
proof -
  have "t = of_nat (k div 10 * 10 + k mod 10)"
    by (simp only: t_def of_nat_add of_nat_mult of_nat_numeral)
  then show t: "t = of_nat k"
    by simp
  show "\<not> t < of_nat (k div 10)"
    using length_word(1) [of k] length_word(1) [of "k div 10"] assms(1) by (simp add: t word_less_nat_alt)
  show "t \<noteq> ULLONG_MAX"
    using length_word(2) [OF assms(1)] by (simp add: t)
qed

definition value_mark :: "nat \<Rightarrow> mark \<Rightarrow> nat option" where
  "value_mark p = (\<lambda>_. None)(M_header_value := Some p)"

lemma read_digit:
  assumes "url_only g st" "drop p data = show_digit (k mod 10) # x" "p < 81920" "k < 2 ^ 63"
  shows "exec_loop st data (req s_header_value h_content_length i (of_nat (k div 10)) v m d p M) =
    exec_loop st data (req s_header_value h_content_length i (of_nat k) v m d (Suc p) M)"
  using assms digit_shown [of "k mod 10"] next_digit [OF assms(4)]
  by (simp add: read_byte req_def header_eval content_length_digit_def del: of_nat_Suc)

lemma read_first_digit:
  assumes "url_only g st" "drop p data = show_digit k # x" "p < 81920" "k < 10"
  shows "exec_loop st data (req s_header_value_start h_content_length i n v m d p (\<lambda>_. None)) =
    exec_loop st data (req s_header_value h_content_length 0 (of_nat k) v m d (Suc p) (value_mark p))"
  using assms digit_shown [of k]
  by (simp add: read_byte req_def header_eval value_mark_def fun_upd_def del: of_nat_Suc)

lemma read_number:
  assumes "url_only g st"
  shows "drop p data = show_nat k @ x \<Longrightarrow> k < 2 ^ 63 \<Longrightarrow> p + length (show_nat k) < 81920 \<Longrightarrow>
    exec_loop st data (req s_header_value_start h_content_length i n v m d p (\<lambda>_. None)) =
    exec_loop st data (req s_header_value h_content_length 0 (of_nat k) v m d (p + length (show_nat k)) (value_mark p))"
proof (induction k arbitrary: x rule: show_nat.induct)
  case (1 k)
  show ?case
  proof (cases "k < 10")
    case True
    then show ?thesis
      using "1.prems" read_first_digit [OF assms, of p data k x] by (simp add: show_nat.simps [of k])
  next
    case False
    let ?p = "p + length (show_nat (k div 10))"
    have s: "show_nat k = show_nat (k div 10) @ [show_digit (k mod 10)]"
      using False by (simp add: show_nat.simps [of k])
    have "drop ?p data = drop (length (show_nat (k div 10))) (drop p data)"
      by (simp add: add.commute)
    then have d: "drop ?p data = show_digit (k mod 10) # x"
      by (simp only: "1.prems"(1) s) simp
    have "exec_loop st data (req s_header_value h_content_length 0 (of_nat (k div 10)) v m d ?p (value_mark p)) =
        exec_loop st data (req s_header_value h_content_length 0 (of_nat k) v m d (Suc ?p) (value_mark p))"
      using "1.prems" s by (intro read_digit [OF assms d]) simp_all
    moreover have "exec_loop st data (req s_header_value_start h_content_length i n v m d p (\<lambda>_. None)) =
        exec_loop st data (req s_header_value h_content_length 0 (of_nat (k div 10)) v m d ?p (value_mark p))"
      using False "1.prems" s by (intro "1.IH") auto
    ultimately show ?thesis
      by (simp add: s)
  qed
qed

lemma read_end:
  assumes "url_only g st" "drop p data = [CR, LF, CR, LF] @ x" "p + 20 < 81920" "0 < k" "k < 2 ^ 63" "m \<noteq> HTTP_CONNECT"
  shows "exec_loop st data (req s_header_value h_content_length i (of_nat k) v m d p (value_mark j)) =
    exec_loop st data (\<lparr>parser = (parser (req s_body_identity h_content_length i (of_nat k) v m d p (\<lambda>_. None)))\<lparr>nread := 0\<rparr>,
      pos = Suc (Suc (Suc (Suc p))), marks = \<lambda>_. None\<rparr>)"
  using assms length_word [OF assms(5)] by (simp add: read_byte req_def header_eval flag_set_def value_mark_def del: of_nat_Suc)

subsection \<open>The whole head\<close>

definition request_head :: "http_method \<Rightarrow> string \<Rightarrow> nat \<Rightarrow> string" where
  "request_head m uri n =
     method_strings m @ '' '' @ uri @ '' HTTP/1.1'' @ [CR, LF] @ ''Content-Length: '' @ show_nat n @ [CR, LF, CR, LF]"

text \<open>A path as the parser takes it.\<close>

definition is_path :: "string \<Rightarrow> bool" where
  "is_path uri \<longleftrightarrow> (\<exists>cs. uri = CHR ''/'' # cs \<and> list_all IS_URL_CHAR cs)"

lemma drop_further: "drop p data = a @ b \<Longrightarrow> length a = k \<Longrightarrow> drop (p + k) data = b"
  by (metis add.commute append_eq_conv_conj drop_drop)

lemma head_positions:
  fixes m uri n
  defines "data \<equiv> request_head m uri n" and "x4 \<equiv> [CR, LF, CR, LF]"
  defines "x3 \<equiv> show_nat n @ x4"
  defines "x2 \<equiv> ''Content-Length: '' @ x3"
  defines "x1 \<equiv> (''HTTP/1.1'' @ [CR, LF]) @ x2"
  defines "p1 \<equiv> length (method_strings m) + 1"
  defines "p2 \<equiv> p1 + length uri + 1"
  shows "drop 0 data = method_strings m @ '' '' @ (uri @ '' '') @ x1" "drop p1 data = (uri @ '' '') @ x1"
    "drop p2 data = x1" "drop (p2 + 10) data = x2" "drop (p2 + 10 + 16) data = x3"
    "drop (p2 + 10 + 16 + length (show_nat n)) data = x4 @ []"
    "length data = p2 + 10 + 16 + length (show_nat n) + 4"
proof -
  show d0: "drop 0 data = method_strings m @ '' '' @ (uri @ '' '') @ x1"
    by (simp add: data_def request_head_def x1_def x2_def x3_def x4_def)
  then have "drop 0 data = (method_strings m @ '' '') @ (uri @ '' '') @ x1"
    by (simp only: append.assoc)
  from drop_further [OF this, of p1] show d1: "drop p1 data = (uri @ '' '') @ x1"
    by (simp add: p1_def)
  from drop_further [OF d1, of "length uri + 1"] show d2: "drop p2 data = x1"
    by (simp add: p2_def)
  show d3: "drop (p2 + 10) data = x2"
    by (rule drop_further [OF d2 [unfolded x1_def]]) simp
  show d4: "drop (p2 + 10 + 16) data = x3"
    by (rule drop_further [OF d3 [unfolded x2_def]]) simp
  from drop_further [OF d4 [unfolded x3_def] refl] show "drop (p2 + 10 + 16 + length (show_nat n)) data = x4 @ []"
    by simp
  show "length data = p2 + 10 + 16 + length (show_nat n) + 4"
    by (simp add: data_def request_head_def p1_def p2_def)
qed

lemma read_request_head:
  assumes "url_only g st" "is_path uri" "m \<noteq> HTTP_CONNECT" "0 < n" "n < 2 ^ 63" "length (request_head m uri n) < 80000"
  shows "\<exists>q. http_parser_execute st (http_parser_init HTTP_REQUEST d) (request_head m uri n) = Inr (length (request_head m uri n), q) \<and>
    http_errno q = HPE_OK \<and> hp_state q = s_body_identity \<and> content_length q = of_nat n \<and> hp_method q = m \<and>
    http_major q = 1 \<and> http_minor q = 1 \<and> hp_data q = g d (length (method_strings m) + 1) uri"
proof -
  define data where "data = request_head m uri n"
  obtain cs where uri: "uri = CHR ''/'' # cs" "list_all IS_URL_CHAR cs"
    using assms(2) by (auto simp: is_path_def)
  let ?p1 = "length (method_strings m) + 1"
  let ?p2 = "?p1 + length uri + 1"
  let ?p3 = "?p2 + 10"
  let ?p4 = "?p3 + 16"
  let ?p5 = "?p4 + length (show_nat n)"
  note pieces = head_positions [of m uri n, folded data_def]
  have len: "length data = ?p5 + 4" "?p5 + 4 < 80000"
    using pieces(7) assms(6) by (simp_all only: data_def)
  have "exec_loop st data (req s_start_req h_general 0 0 0 HTTP_DELETE d 0 (\<lambda>_. None)) =
    Inr (length data, (parser (req s_body_identity h_content_length 0 (of_nat n) 1 m (g d ?p1 uri) ?p5 (\<lambda>_. None)))\<lparr>nread := 0\<rparr>)"
    (is "?L = ?R")
  proof -
    obtain i where "?L = exec_loop st data (req s_req_spaces_before_url h_general i ULLONG_MAX 0 m d ?p1 (\<lambda>_. None))"
      using read_method [OF assms(1) pieces(1), of h_general 0 0 HTTP_DELETE d "\<lambda>_. None"] by auto
    also have "\<dots> = exec_loop st data (req s_req_http_start h_general i ULLONG_MAX 0 m (g d ?p1 uri) ?p2 (\<lambda>_. None))"
      using read_url [OF assms(1), of ?p1 data cs] pieces(2) uri assms(3) len by simp
    also have "\<dots> = exec_loop st data (req s_header_field_start h_general i ULLONG_MAX 1 m (g d ?p1 uri) ?p3 (\<lambda>_. None))"
      using read_version [OF assms(1), of ?p2 data] pieces(3) len by simp
    also have "\<dots> = exec_loop st data (req s_header_value_start h_content_length 13 ULLONG_MAX 1 m (g d ?p1 uri) ?p4 (\<lambda>_. None))"
      using read_content_length [OF assms(1) pieces(4)] len by simp
    also have "\<dots> = exec_loop st data (req s_header_value h_content_length 0 (of_nat n) 1 m (g d ?p1 uri) ?p5 (value_mark ?p4))"
      using read_number [OF assms(1) pieces(5) assms(5)] len by simp
    also have "\<dots> = exec_loop st data (\<lparr>parser = (parser (req s_body_identity h_content_length 0 (of_nat n) 1 m (g d ?p1 uri) ?p5 (\<lambda>_. None)))\<lparr>nread := 0\<rparr>,
      pos = Suc (Suc (Suc (Suc ?p5))), marks = \<lambda>_. None\<rparr>)"
      using read_end [OF assms(1) pieces(6) _ assms(4,5,3)] len by simp
    also have "\<dots> = ?R"
      using len by (subst exec_loop.simps)
        (simp add: leftover_def marks_set_def CALLBACK_DATA_NOADVANCE_def CALLBACK_DATA_ends_def assert_def req_def returned_def)
    finally show ?thesis .
  qed
  moreover have "start_run (http_parser_init HTTP_REQUEST d) = req s_start_req h_general 0 0 0 HTTP_DELETE d 0 (\<lambda>_. None)"
    by (auto simp: start_run_def http_parser_init_def req_def initial_marks_def url_states_def)
  ultimately show ?thesis
    using len(1) by (auto simp: http_parser_execute_def http_parser_init_def req_def simp flip: data_def)
qed

end
