(* ===== verification/CC_Upload.thy ===== *)
theory CC_Upload
  imports CC_Web HP_Request
begin

section \<open>The capture client: what an upload does\<close>

text \<open>
  The HTTP parser, the callbacks, the receive loop and the handlers of \<^verbatim>\<open>WebService.cpp\<close> together:
  the body of a request is what is written to the file, in whatever pieces it arrives and however
  often the buffer is moved.
\<close>

subsection \<open>The parser inside a body of known length\<close>

definition with_body :: "nat \<Rightarrow> string \<Rightarrow> http_message \<Rightarrow> http_message" where
  "with_body base bytes m =
     m\<lparr>post_data := Some (int (base + length bytes)), post_data_len := post_data_len m + of_nat (length bytes)\<rparr>"

definition completed :: "http_method \<Rightarrow> http_message \<Rightarrow> http_message" where
  "completed k m = m\<lparr>msg_status := WEBSVC_HTTP_SUCCESS, msg_method := method_number k\<rparr>"

lemma body_marks: "initial_marks s_body_identity = (\<lambda>_. None)"
  by (auto simp: initial_marks_def url_states_def)

lemma take_body_start:
  assumes "hp_state q = s_body_identity" "length data \<le> unat (content_length q)"
  shows "take_body data (start_run q) =
    \<lparr>parser = q\<lparr>content_length := content_length q - of_nat (length data)\<rparr>, pos = length data - 1,
     marks = (\<lambda>_. None)(M_body := Some 0)\<rparr>"
  using assms by (simp add: take_body_def to_read_def start_run_def Let_def MARK_def upd_def body_marks)

lemma unread_zero: "k \<le> unat v \<Longrightarrow> v - of_nat k = 0 \<longleftrightarrow> k = unat v"
  for v :: u64
proof -
  assume k: "k \<le> unat v"
  then have "unat (of_nat k :: u64) = k"
    by (rule le_unat_uoi)
  then show ?thesis
    using word_unat_eq_iff [of v "of_nat k"] by auto
qed

lemmas callback_defs = CALLBACK_DATA_NOADVANCE_def CALLBACK_DATA_ends_def CALLBACK_NOTIFY_def assert_def called_def upd_def
  web_settings_def callback_body_def callback_complete_def

lemma execute_body_part:
  assumes "http_errno q = HPE_OK" "hp_state q = s_body_identity" "hp_data q = Some m"
    and "data \<noteq> []" "length data < unat (content_length q)" "content_length q \<noteq> ULLONG_MAX"
  shows "http_parser_execute (web_settings w base) q data =
    Inr (length data, q\<lparr>content_length := content_length q - of_nat (length data), hp_data := Some (with_body base data m)\<rparr>)"
proof -
  note t = take_body_start [OF assms(2) less_imp_le [OF assms(5)]]
  have "content_length q \<noteq> 0" "content_length q - of_nat (length data) \<noteq> 0"
    using assms(5) unread_zero [OF less_imp_le [OF assms(5)]] by auto
  then have "exec_byte (web_settings w base) data (data ! 0) (start_run q) = Inr (Next (take_body data (start_run q)))"
    using assms t by (simp add: exec_byte.simps exec_case_def case_body_identity_def assert_def break_def start_run_def)
  then show ?thesis
    using assms
    by (simp add: http_parser_execute_def exec_loop.simps count_byte_def PARSING_HEADER_def header_overflow_def t)
      (simp add: start_run_def leftover_def marks_set_def returned_def callback_defs with_body_def Let_def)
qed

lemma execute_body_last:
  assumes "http_errno q = HPE_OK" "hp_state q = s_body_identity" "hp_data q = Some m"
    and "data \<noteq> []" "length data = unat (content_length q)" "content_length q \<noteq> ULLONG_MAX"
  shows "\<exists>q'. http_parser_execute (web_settings w base) q data = Inr (length data, q') \<and>
    hp_data q' = Some (completed (hp_method q) (with_body base data m))"
proof -
  note t = take_body_start [OF assms(2) eq_imp_le [OF assms(5)]]
  have "content_length q \<noteq> 0" "content_length q - of_nat (length data) = 0"
    using assms(4,5) unread_zero [OF eq_imp_le [OF assms(5)]] by auto
  then have "\<exists>q'. exec_byte (web_settings w base) data (data ! 0) (start_run q) =
      Inr (Next \<lparr>parser = q', pos = length data - 1, marks = \<lambda>_. None\<rparr>) \<and> http_errno q' = HPE_OK \<and>
      hp_data q' = Some (completed (hp_method q) (with_body base data m))"
    using assms t
    by (simp add: exec_byte.simps exec_case_def case_body_identity_def case_message_done_def reexecute_byte_def break_def start_run_def
      callback_defs new_message_def notify_complete_def goto_state_def Let_def completed_def with_body_def)
  then show ?thesis
    using assms
    by (auto simp: http_parser_execute_def exec_loop.simps [of _ _ "start_run q"] count_byte_def PARSING_HEADER_def header_overflow_def)
      (simp_all add: start_run_def exec_loop.simps leftover_def marks_set_def returned_def callback_defs Let_def)
qed

subsection \<open>A peer that sends given pieces\<close>

definition is_transport :: "call \<Rightarrow> bool" where
  "is_transport c = (case c of C_recv n \<Rightarrow> True | C_realloc n \<Rightarrow> True | _ \<Rightarrow> False)"

definition is_recv :: "call \<Rightarrow> bool" where
  "is_recv c = (case c of C_recv n \<Rightarrow> True | _ \<Rightarrow> False)"

definition recvs :: "call list \<Rightarrow> nat" where
  "recvs h = length (filter is_recv h)"

definition effects :: "call list \<Rightarrow> call list" where
  "effects h = filter (\<lambda>c. \<not> is_transport c) h"

lemma transport_simps [simp]:
  "recvs (h @ h') = recvs h + recvs h'" "recvs [] = 0" "recvs (C_recv n # h) = Suc (recvs h)" "recvs (C_realloc n # h) = recvs h"
  "effects (h @ h') = effects h @ effects h'" "effects [] = []" "effects (C_recv n # h) = effects h"
  "effects (C_realloc n # h) = effects h"
  by (simp_all add: recvs_def effects_def is_recv_def is_transport_def)

text \<open>
  The peer sends the pieces one after the other and then closes; each fits into what is left of the
  buffer when it is received, as \<^verbatim>\<open>recv\<close> guarantees.
\<close>

definition sends :: "win \<Rightarrow> string list \<Rightarrow> bool" where
  "sends w pieces \<longleftrightarrow> (\<forall>h n. r_recv w h n = Some (if recvs h < length pieces then pieces ! recvs h else []))"

definition room :: "nat \<Rightarrow> nat \<Rightarrow> nat" where
  "room datasize buflen = (if datasize = buflen then buflen + SERVER_BUFSTEP else buflen)"

fun fits :: "nat \<Rightarrow> nat \<Rightarrow> string list \<Rightarrow> bool" where
  "fits datasize buflen [] \<longleftrightarrow> True"
| "fits datasize buflen (p # ps) \<longleftrightarrow>
     datasize + length p \<le> room datasize buflen \<and> fits (datasize + length p) (room datasize buflen) ps"

subsection \<open>The receive loop over a body\<close>

declare recv_loop.simps [simp del]

definition awaits :: "nat \<Rightarrow> web_parser \<Rightarrow> http_message \<Rightarrow> bool" where
  "awaits n q m \<longleftrightarrow> http_errno q = HPE_OK \<and> hp_state q = s_body_identity \<and> unat (content_length q) = n \<and>
     n < 2 ^ 63 \<and> hp_data q = Some m \<and> msg_status m = WEBSVC_HTTP_PARTIAL"

lemma recv_loop_step:
  assumes "sends w pieces" "\<And>h n. r_realloc w h n" "recvs h < length pieces" "pieces ! recvs h = bytes" "bytes \<noteq> []"
    and "length buf + length bytes \<le> room (length buf) buflen" "length buf = buflen \<longrightarrow> buflen + SERVER_BUFSTEP < 2 ^ 31"
    and "http_parser_execute (web_settings w (length buf)) (if length buf = buflen then forget_post q else q) bytes = Inr (n, q2)"
    and "hp_data q2 = Some m"
  shows "\<exists>h'. recvs h' = Suc (recvs h) \<and> effects h' = effects h \<and>
    run_state (recv_loop w q buf buflen) h =
      (if msg_status m = WEBSVC_HTTP_PARTIAL then run_state (recv_loop w q2 (buf @ bytes) (room (length buf) buflen)) h'
       else (Inr (q2, buf @ bytes), h'))"
proof (cases "length buf = buflen")
  case True
  then show ?thesis
    using assms
    by (intro exI [of _ "h @ [C_realloc (buflen + SERVER_BUFSTEP), C_recv SERVER_BUFSTEP]"])
      (simp add: recv_loop.simps [of w q buf buflen] room_def sends_def Let_def)
next
  case False
  then show ?thesis
    using assms
    by (intro exI [of _ "h @ [C_recv (buflen - length buf)]"])
      (simp add: recv_loop.simps [of w q buf buflen] room_def sends_def)
qed

lemma forget_awaits:
  "awaits n q m \<Longrightarrow> awaits n (forget_post q) (m\<lparr>post_data := None\<rparr>)" "hp_method (forget_post q) = hp_method q"
  "with_body base bytes (m\<lparr>post_data := None\<rparr>) = with_body base bytes m"
  by (simp_all add: awaits_def forget_post_def with_body_def)

lemma unat_minus_of_nat: "k \<le> unat v \<Longrightarrow> unat (v - of_nat k) = unat v - k"
  for v :: u64
proof -
  assume k: "k \<le> unat v"
  then have u: "unat (of_nat k :: u64) = k"
    by (rule le_unat_uoi)
  then have "of_nat k \<le> v"
    using k by (simp add: word_le_nat_alt)
  then show ?thesis
    using u by (simp add: unat_sub)
qed

lemma short_not_max: "unat v < 2 ^ 63 \<Longrightarrow> v \<noteq> ULLONG_MAX"
  by (auto simp: ULLONG_MAX_def unsigned_minus_1_eq_mask mask_eq_exp_minus_1)

lemma awaits_execute:
  assumes "awaits n q m" "bytes \<noteq> []"
  shows "length bytes < n \<Longrightarrow> \<exists>q2. http_parser_execute (web_settings w base) q bytes = Inr (length bytes, q2) \<and>
      awaits (n - length bytes) q2 (with_body base bytes m) \<and> hp_method q2 = hp_method q"
    and "length bytes = n \<Longrightarrow> \<exists>q2. http_parser_execute (web_settings w base) q bytes = Inr (length bytes, q2) \<and>
      hp_data q2 = Some (completed (hp_method q) (with_body base bytes m))"
proof -
  show "length bytes = n \<Longrightarrow> \<exists>q2. http_parser_execute (web_settings w base) q bytes = Inr (length bytes, q2) \<and>
      hp_data q2 = Some (completed (hp_method q) (with_body base bytes m))"
    using assms by (intro execute_body_last) (simp_all add: awaits_def short_not_max)
  assume less: "length bytes < n"
  then show "\<exists>q2. http_parser_execute (web_settings w base) q bytes = Inr (length bytes, q2) \<and>
      awaits (n - length bytes) q2 (with_body base bytes m) \<and> hp_method q2 = hp_method q"
    using assms execute_body_part [of q m bytes w base] short_not_max [of "content_length q"]
    by (auto simp: awaits_def with_body_def unat_minus_of_nat)
qed

definition all_body :: "nat \<Rightarrow> nat \<Rightarrow> http_message \<Rightarrow> http_message" where
  "all_body til n m = m\<lparr>post_data := Some (int til), post_data_len := post_data_len m + of_nat n\<rparr>"

lemma drop_Cons_nth: "drop k xs = y # ys \<Longrightarrow> k < length xs \<and> xs ! k = y \<and> drop (Suc k) xs = ys"
  by (metis Cons_nth_drop_Suc drop_all leI list.distinct(1) list.inject)

lemma all_body_simps:
  "with_body base p m = all_body (base + length p) (length p) m"
  "all_body til n (all_body til' n' m) = all_body til (n' + n) m"
  by (simp_all add: all_body_def with_body_def add.assoc)

lemma recv_loop_body:
  assumes "sends w pieces" "\<And>h n. r_realloc w h n"
  shows "drop (recvs h) pieces = ps \<Longrightarrow> ps \<noteq> [] \<Longrightarrow> [] \<notin> set ps \<Longrightarrow> awaits (length (concat ps)) q m \<Longrightarrow>
    fits (length buf) buflen ps \<Longrightarrow> length buf \<le> buflen \<Longrightarrow> length buf + length (concat ps) + SERVER_BUFSTEP < 2 ^ 31 \<Longrightarrow>
    \<exists>q' h'. run_state (recv_loop w q buf buflen) h = (Inr (q', buf @ concat ps), h') \<and> effects h' = effects h \<and>
      hp_data q' = Some (completed (hp_method q) (all_body (length buf + length (concat ps)) (length (concat ps)) m))"
proof (induction ps arbitrary: h q m buf buflen)
  case Nil
  then show ?case by simp
next
  case (Cons p ps)
  have piece: "recvs h < length pieces" "pieces ! recvs h = p" "drop (Suc (recvs h)) pieces = ps"
    using drop_Cons_nth [OF Cons.prems(1)] by auto
  let ?q = "if length buf = buflen then forget_post q else q"
  let ?m = "if length buf = buflen then m\<lparr>post_data := None\<rparr> else m"
  have q: "awaits (length (concat (p # ps))) ?q ?m" "hp_method ?q = hp_method q"
      "with_body (length buf) p ?m = with_body (length buf) p m"
    using Cons.prems(4) forget_awaits by auto
  have p: "p \<noteq> []" "length buf + length p \<le> room (length buf) buflen" "length buf = buflen \<longrightarrow> buflen + SERVER_BUFSTEP < 2 ^ 31"
    using Cons.prems(3,5,7) by auto
  note step = recv_loop_step [OF assms piece(1,2) p]
  show ?case
  proof (cases "ps = []")
    case True
    then obtain q2 where q2: "http_parser_execute (web_settings w (length buf)) ?q p = Inr (length p, q2)"
        "hp_data q2 = Some (completed (hp_method q) (with_body (length buf) p m))"
      using awaits_execute(2) [OF q(1) p(1), of w "length buf"] q(2,3) by auto
    then show ?thesis
      using step [OF q2] True by (auto simp: completed_def all_body_simps WEBSVC_HTTP_SUCCESS_def WEBSVC_HTTP_PARTIAL_def)
  next
    case False
    then have "length p < length (concat (p # ps))"
      using Cons.prems(3) by (cases ps) auto
    then obtain q2 where q2: "http_parser_execute (web_settings w (length buf)) ?q p = Inr (length p, q2)"
        "awaits (length (concat ps)) q2 (with_body (length buf) p m)" "hp_method q2 = hp_method q"
      using awaits_execute(1) [OF q(1) p(1), of w "length buf"] q(2,3) by auto
    then have "hp_data q2 = Some (with_body (length buf) p m)" "msg_status (with_body (length buf) p m) = WEBSVC_HTTP_PARTIAL"
      by (simp_all add: awaits_def)
    with step [OF q2(1)] obtain h' where h': "recvs h' = Suc (recvs h)" "effects h' = effects h"
        "run_state (recv_loop w q buf buflen) h = run_state (recv_loop w q2 (buf @ p) (room (length buf) buflen)) h'"
      by auto
    show ?thesis
      using Cons.IH [of h' q2 "with_body (length buf) p m" "buf @ p" "room (length buf) buflen"] False Cons.prems h' q2 piece p
      by (simp add: all_body_simps add.assoc)
  qed
qed

subsection \<open>The head of an upload\<close>

definition store_uri :: "win \<Rightarrow> http_message option \<Rightarrow> nat \<Rightarrow> string \<Rightarrow> http_message option" where
  "store_uri w d i bytes = snd (snd (callback_uri w (http_parser_init HTTP_REQUEST d) i bytes))"

lemma web_settings_url_only: "url_only (store_uri w) (web_settings w base)"
  by (auto simp: url_only_def web_settings_def store_uri_def callback_uri_def http_parser_init_def fun_eq_iff)

lemma path_no_NUL: "is_path uri \<Longrightarrow> takeWhile (\<lambda>c. c \<noteq> NUL) uri = uri"
proof -
  have "c \<noteq> NUL" if "IS_URL_CHAR c" for c
    using that by (auto simp: IS_URL_CHAR_def normal_url_char_def)
  then have "NUL \<notin> set cs" if "list_all IS_URL_CHAR cs" for cs
    using that by (auto simp: list_all_iff)
  then show "is_path uri \<Longrightarrow> takeWhile (\<lambda>c. c \<noteq> NUL) uri = uri"
    by (auto simp: is_path_def)
qed

lemma upload_head:
  assumes "is_path uri" "length uri < MAX_URI_SIZE" "r_canonicalize w uri MAX_URI_SIZE = Some uri'" "0 < n" "n < 2 ^ 31"
    and "length (request_head HTTP_POST uri n) < 80000"
  shows "\<exists>q. http_parser_execute (web_settings w base) (http_parser_init HTTP_REQUEST (Some empty_message))
      (request_head HTTP_POST uri n) = Inr (length (request_head HTTP_POST uri n), q) \<and>
    awaits n q (empty_message\<lparr>request_uri := uri'\<rparr>) \<and> hp_method q = HTTP_POST"
proof -
  have "store_uri w (Some empty_message) i uri = Some (empty_message\<lparr>request_uri := uri'\<rparr>)" for i
    using assms(1-3) by (simp add: store_uri_def callback_uri_def http_parser_init_def strncpy_s_def path_no_NUL)
  then show ?thesis
    using read_request_head [OF web_settings_url_only [of w base] assms(1), of HTTP_POST n "Some empty_message"] assms(4-6)
    by (auto simp: awaits_def empty_message_def unat_of_nat)
qed

lemma serve_upload_effects:
  assumes "bytes_at buf (post_data msg) (post_data_len msg) = Some body" "unat (post_data_len msg) = length body" "body \<noteq> []"
    and "msg_method msg = 3" "has_prefix URI_FILE (request_uri msg)"
    and "file = TEMP_FILE_FOLDER @ uri_filepath (request_uri msg)" "length file < 1024" "r_create w h file = Some f"
    and "r_write w (h @ [C_CreateFile_write file]) f body = Some (post_data_len msg)" "\<And>h s. r_send w h s = int (length s)"
  shows "run_state (serve w buf msg) h =
    (Inr 24,
     h @ [C_CreateFile_write file, C_WriteFile f body, C_send (''HTTP/1.0 201 Created'' @ CRLF @ CRLF), C_CloseHandle f,
       C_onCMDEvent (uri_app (request_uri msg)) (uri_filepath (request_uri msg))])"
proof -
  have "post_data msg \<noteq> None" "post_data_len msg \<noteq> 0"
    using assms(1-3) by (auto simp: bytes_at_def split: option.splits)
  then show ?thesis
    using assms(1,4-)
    by (simp add: serve_def serve_upload_def recv_file_def send_def CloseHandle_def Let_def)
qed

text \<open>A system on which every call of an upload succeeds; \<open>f\<close> is the handle of a new file.\<close>

definition obliging :: "win \<Rightarrow> nat \<Rightarrow> bool" where
  "obliging w f \<longleftrightarrow> (\<forall>h. r_tls w h) \<and> (\<forall>h n. r_realloc w h n) \<and> (\<forall>h file. r_create w h file = Some f) \<and>
     (\<forall>h s. r_write w h f s = Some (of_nat (length s))) \<and> (\<forall>h s. r_send w h s = int (length s))"

definition upload_effects :: "string \<Rightarrow> nat \<Rightarrow> string \<Rightarrow> call list" where
  "upload_effects uri f body =
     [C_TlsSetValue, C_CreateFile_write (TEMP_FILE_FOLDER @ uri_filepath uri), C_WriteFile f body,
      C_send (''HTTP/1.0 201 Created'' @ CRLF @ CRLF), C_CloseHandle f, C_onCMDEvent (uri_app uri) (uri_filepath uri),
      C_shutdown, C_closesocket]"

lemma effects_others [simp]:
  "effects (C_TlsSetValue # h) = C_TlsSetValue # effects h" "effects (C_CreateFile_write s # h) = C_CreateFile_write s # effects h"
  "effects (C_WriteFile f s # h) = C_WriteFile f s # effects h" "effects (C_send s # h) = C_send s # effects h"
  "effects (C_CloseHandle f # h) = C_CloseHandle f # effects h" "effects (C_onCMDEvent s t # h) = C_onCMDEvent s t # effects h"
  "effects (C_shutdown # h) = C_shutdown # effects h" "effects (C_closesocket # h) = C_closesocket # effects h"
  "recvs (C_TlsSetValue # h) = recvs h"
  by (simp_all add: effects_def recvs_def is_transport_def is_recv_def)

lemma recv_loop_upload:
  fixes ps uri
  defines "body \<equiv> concat ps"
  defines "head \<equiv> request_head HTTP_POST uri (length body)"
  assumes "obliging w f" "sends w (head # ps)" "recvs h = 0"
    and uri: "is_path uri" "length uri < MAX_URI_SIZE" "r_canonicalize w uri MAX_URI_SIZE = Some uri'"
    and "ps \<noteq> []" "[] \<notin> set ps" "fits 0 SERVER_BUFLEN (head # ps)" "length head + length body + SERVER_BUFSTEP < 2 ^ 31"
  shows "\<exists>q h'. run_state (recv_loop w (http_parser_init HTTP_REQUEST (Some empty_message)) [] SERVER_BUFLEN) h =
      (Inr (q, head @ body), h') \<and> effects h' = effects h \<and>
    hp_data q = Some (completed HTTP_POST (all_body (length head + length body) (length body) (empty_message\<lparr>request_uri := uri'\<rparr>)))"
proof -
  have body: "body \<noteq> []" "length body < 2 ^ 31"
    using assms(9,10,12) by (cases ps; auto simp: body_def)+
  have head: "length head \<le> SERVER_BUFLEN" "fits (length head) SERVER_BUFLEN ps" "head \<noteq> []"
    using assms(11) by (simp_all add: head_def room_def SERVER_BUFLEN_def request_head_def)
  let ?m = "empty_message\<lparr>request_uri := uri'\<rparr>" and ?q0 = "http_parser_init HTTP_REQUEST (Some empty_message)"
  obtain q where q: "http_parser_execute (web_settings w 0) ?q0 head = Inr (length head, q)"
      "awaits (length body) q ?m" "hp_method q = HTTP_POST"
    using upload_head [OF uri, of "length body" 0] body head(1) by (auto simp: head_def SERVER_BUFLEN_def)
  have w: "r_realloc w h n" for h n
    using assms(3) by (simp add: obliging_def)
  have m: "hp_data q = Some ?m" "msg_status ?m = WEBSVC_HTTP_PARTIAL"
    using q(2) by (simp_all add: awaits_def)
  have first: "recvs h < length (head # ps)" "(head # ps) ! recvs h = head"
    using assms(5) by simp_all
  have "\<exists>h1. recvs h1 = Suc (recvs h) \<and> effects h1 = effects h \<and>
      run_state (recv_loop w ?q0 [] SERVER_BUFLEN) h = run_state (recv_loop w q head SERVER_BUFLEN) h1"
    using recv_loop_step [OF assms(4) w first head(3), of "[]" SERVER_BUFLEN ?q0 "length head" q ?m] q(1) m head(1)
    by (simp add: room_def SERVER_BUFLEN_def)
  then obtain h1 where h1: "recvs h1 = 1" "effects h1 = effects h"
      "run_state (recv_loop w ?q0 [] SERVER_BUFLEN) h = run_state (recv_loop w q head SERVER_BUFLEN) h1"
    using assms(5) by auto
  have "drop (recvs h1) (head # ps) = ps"
    using h1(1) by simp
  then show ?thesis
    using recv_loop_body [OF assms(4) w _ assms(9,10), of h1 q ?m head SERVER_BUFLEN] q h1 head assms(12)
    by (auto simp: body_def)
qed

lemma uploaded_bytes:
  fixes head body uri
  assumes "length body < 2 ^ 31" "body \<noteq> []"
  defines "msg \<equiv> point_to_start (completed HTTP_POST (all_body (length head + length body) (length body) (empty_message\<lparr>request_uri := uri\<rparr>)))"
  shows "bytes_at (head @ body) (post_data msg) (post_data_len msg) = Some body" "unat (post_data_len msg) = length body"
    "msg_method msg = 3" "request_uri msg = uri" "post_data_len msg = of_nat (length body)"
proof -
  have u: "unat (of_nat (length body) :: u32) = length body"
    using assms(1) by (simp add: unat_of_nat)
  then have "uint (of_nat (length body) :: u32) = int (length body)" "(of_nat (length body) :: u32) \<noteq> 0"
    using assms(2) by (metis uint_nat, metis length_0_conv unat_0)
  then have "msg = \<lparr>msg_method = 3, request_uri = uri, post_data = Some (int (length head)), post_data_len = of_nat (length body),
      msg_status = WEBSVC_HTTP_SUCCESS\<rparr>"
    by (simp add: msg_def point_to_start_def completed_def all_body_def empty_message_def)
  then show "bytes_at (head @ body) (post_data msg) (post_data_len msg) = Some body" "unat (post_data_len msg) = length body"
    "msg_method msg = 3" "request_uri msg = uri" "post_data_len msg = of_nat (length body)"
    using u by (simp_all add: bytes_at_def)
qed

text \<open>
  C8. an upload from the connection to the disk. The peer sends \<^verbatim>\<open>POST\<close> with a path and a
  \<^verbatim>\<open>Content-Length\<close> in one piece and then the body, cut into pieces anyhow; each piece fits into what is
  left of the buffer, which is moved when it is full. On a system where the calls succeed the handler
  writes exactly the body to the file named by the path, answers 201, closes the file, announces the
  program and the path once, and hangs up; it makes no other call.
\<close>

theorem upload_is_written:
  assumes "obliging w f" "sends w (request_head HTTP_POST uri (length (concat ps)) # ps)"
    and "is_path uri" "length uri < MAX_URI_SIZE" "r_canonicalize w uri MAX_URI_SIZE = Some uri'" "has_prefix URI_FILE uri'"
    and "length (TEMP_FILE_FOLDER @ uri_filepath uri') < 1024" "ps \<noteq> []" "[] \<notin> set ps"
    and "fits 0 SERVER_BUFLEN (request_head HTTP_POST uri (length (concat ps)) # ps)"
    and "length (request_head HTTP_POST uri (length (concat ps))) + length (concat ps) + SERVER_BUFSTEP < 2 ^ 31"
  shows "\<exists>h. run_state (sockethandler w) [] = (Inr (), h) \<and> effects h = upload_effects uri' f (concat ps)"
proof -
  let ?body = "concat ps" and ?head = "request_head HTTP_POST uri (length (concat ps))"
  have body: "length ?body < 2 ^ 31" "?body \<noteq> []"
    using assms(8,9,11) by (cases ps; auto)+
  define msg where "msg = point_to_start (completed HTTP_POST (all_body (length ?head + length ?body) (length ?body) (empty_message\<lparr>request_uri := uri'\<rparr>)))"
  note up = uploaded_bytes [OF body, of ?head uri', folded msg_def]
  have "recvs [C_TlsSetValue] = 0"
    by simp
  then obtain q h where h: "run_state (recv_loop w (http_parser_init HTTP_REQUEST (Some empty_message)) [] SERVER_BUFLEN) [C_TlsSetValue] =
      (Inr (q, ?head @ ?body), h)" "effects h = [C_TlsSetValue]"
      "hp_data q = Some (completed HTTP_POST (all_body (length ?head + length ?body) (length ?body) (empty_message\<lparr>request_uri := uri'\<rparr>)))"
    using recv_loop_upload [OF assms(1,2) _ assms(3-5,8-11), of "[C_TlsSetValue]"] by auto
  have "run_state (serve w (?head @ ?body) msg) h =
    (Inr 24,
     h @ [C_CreateFile_write (TEMP_FILE_FOLDER @ uri_filepath uri'), C_WriteFile f ?body, C_send (''HTTP/1.0 201 Created'' @ CRLF @ CRLF),
       C_CloseHandle f, C_onCMDEvent (uri_app uri') (uri_filepath uri')])"
    using serve_upload_effects [OF up(1,2) body(2) up(3), of _ w h f] up assms(1,6,7) body
    by (simp add: obliging_def)
  then show ?thesis
    using h assms(1)
    by (simp add: sockethandler_def hang_up_def msg_def upload_effects_def obliging_def completed_def WEBSVC_HTTP_SUCCESS_def
        WEBSVC_HTTP_PARTIAL_def)
qed

definition quiet_win :: win where
  "quiet_win =
     \<lparr>r_send = \<lambda>h s. int (length s), r_recv = \<lambda>h n. Some [], r_attributes = \<lambda>h s. 0xFFFFFFFF, r_open = \<lambda>h s. None, r_create = \<lambda>h s. Some 7,
      r_size = \<lambda>h f. 0, r_read = \<lambda>h f n. None, r_write = \<lambda>h f s. Some (of_nat (length s)), r_listing = \<lambda>h s. [],
      r_process = \<lambda>h s. False, r_shell = \<lambda>h s. 0, r_icmp = \<lambda>h. None, r_echo = \<lambda>h f. 0, r_fopen = \<lambda>h s t. None,
      r_ftell = \<lambda>h f. 0, r_fread = \<lambda>h f. [], r_time = \<lambda>h. 0, r_tls = \<lambda>h. True, r_realloc = \<lambda>h n. True,
      r_fresh = \<lambda>h n. replicate n NUL, r_setup = \<lambda>h s. True, r_accept = \<lambda>h. True, r_stopped = \<lambda>h. True,
      r_canonicalize = \<lambda>s n. Some s\<rparr>"

definition peer :: "string list \<Rightarrow> win" where
  "peer pieces = quiet_win\<lparr>r_recv := \<lambda>h n. Some (if recvs h < length pieces then pieces ! recvs h else [])\<rparr>"

lemma peer_simps: "obliging (peer pieces) 7" "sends (peer pieces) pieces" "r_canonicalize (peer pieces) s n = Some s"
  by (simp_all add: obliging_def sends_def peer_def quiet_win_def)

theorem upload_is_written_witness:
  "\<exists>h. run_state (sockethandler (peer [request_head HTTP_POST ''/file/app/a.exe'' 5, ''MZ'', ''abc''])) [] = (Inr (), h) \<and>
     effects h = upload_effects ''/file/app/a.exe'' 7 ''MZabc'' \<and>
     upload_effects ''/file/app/a.exe'' 7 ''MZabc'' =
       [C_TlsSetValue, C_CreateFile_write (TEMP_FILE_FOLDER @ ''a.exe''), C_WriteFile 7 ''MZabc'',
        C_send (''HTTP/1.0 201 Created'' @ CRLF @ CRLF), C_CloseHandle 7, C_onCMDEvent ''app'' ''a.exe'',
        C_shutdown, C_closesocket]"
proof -
  let ?uri = "''/file/app/a.exe''" and ?ps = "[''MZ'', ''abc'']"
  have path: "is_path ?uri"
    unfolding is_path_def by (rule exI [of _ "''file/app/a.exe''"]) code_simp
  have sizes: "length ?uri < MAX_URI_SIZE" "has_prefix URI_FILE ?uri" "length (TEMP_FILE_FOLDER @ uri_filepath ?uri) < 1024"
    by (simp_all add: MAX_URI_SIZE_def has_prefix_def URI_FILE_def TEMP_FILE_FOLDER_def uri_filepath_def find_from_def)
  have five: "length (concat ?ps) = 5" and whole: "concat ?ps = ''MZabc''"
    by simp_all
  have len: "length (request_head HTTP_POST ?uri 5) = 52"
    by (simp add: request_head_def show_nat.simps)
  have "\<exists>h. run_state (sockethandler (peer (request_head HTTP_POST ?uri 5 # ?ps))) [] = (Inr (), h) \<and>
      effects h = upload_effects ?uri 7 (concat ?ps)"
    by (rule upload_is_written [of _ 7 ?uri ?ps ?uri, unfolded five, OF peer_simps(1,2) path sizes(1) peer_simps(3) sizes(2,3)])
      (simp_all add: len room_def SERVER_BUFLEN_def SERVER_BUFSTEP_def)
  then show ?thesis
    unfolding whole by (simp add: upload_effects_def uri_filepath_def uri_app_def find_from_def URI_FILE_def)
qed

end
