(* ===== verification/CC_Serve.thy ===== *)
theory CC_Serve
  imports CC_Upload
begin

section \<open>The capture client: what a request may do\<close>

text \<open>
  The handlers of \<^verbatim>\<open>WebService.cpp\<close> for every request and every answer of the system: which calls a
  route makes, that files are closed, which files are deleted; and the inputs on which they go wrong.
\<close>

subsection \<open>The calls of an action\<close>

definition calls_only :: "(call \<Rightarrow> bool) \<Rightarrow> 'a act \<Rightarrow> bool" where
  "calls_only P m \<longleftrightarrow> (\<forall>h. \<exists>cs. snd (run_state m h) = h @ cs \<and> list_all P cs)"

named_theorems calls \<open>how the calls of an action come from its parts\<close>

lemma calls_only_return [calls]: "calls_only P (State_Monad.return x)"
  by (simp add: calls_only_def)

lemma calls_only_get [calls]: "calls_only P State_Monad.get"
  by (simp add: calls_only_def)

lemma calls_only_api [calls]: "P c \<Longrightarrow> calls_only P (api c f)"
  by (simp add: calls_only_def)

lemma calls_only_bind [calls]:
  assumes "calls_only P m" "\<And>x. calls_only P (k x)"
  shows "calls_only P (m \<bind> k)"
  unfolding calls_only_def
proof
  fix h
  obtain cs where cs: "snd (run_state m h) = h @ cs" "list_all P cs"
    using assms(1) by (auto simp: calls_only_def)
  obtain x where x: "run_state m h = (x, h @ cs)"
    using cs(1) by (metis prod.collapse)
  obtain cs' where "snd (run_state (k x) (h @ cs)) = (h @ cs) @ cs'" "list_all P cs'"
    using assms(2) [of x] unfolding calls_only_def by blast
  then show "\<exists>cs. snd (run_state (m \<bind> k) h) = h @ cs \<and> list_all P cs"
    using x cs(2) by (intro exI [of _ "cs @ cs'"]) simp
qed

lemma calls_only_if [calls]: "(b \<Longrightarrow> calls_only P m) \<Longrightarrow> (\<not> b \<Longrightarrow> calls_only P k) \<Longrightarrow> calls_only P (if b then m else k)"
  by simp

lemma calls_only_option [calls]:
  "(x = None \<Longrightarrow> calls_only P m) \<Longrightarrow> (\<And>y. x = Some y \<Longrightarrow> calls_only P (k y)) \<Longrightarrow>
     calls_only P (case x of None \<Rightarrow> m | Some y \<Rightarrow> k y)"
  by (cases x) simp_all

lemma calls_only_sum [calls]:
  "(\<And>y. calls_only P (m y)) \<Longrightarrow> (\<And>y. calls_only P (k y)) \<Longrightarrow> calls_only P (case x of Inl y \<Rightarrow> m y | Inr y \<Rightarrow> k y)"
  by (cases x) simp_all

lemma calls_only_pair [calls]: "(\<And>y z. calls_only P (k y z)) \<Longrightarrow> calls_only P (case x of (y, z) \<Rightarrow> k y z)"
  by (cases x) simp

lemma calls_only_mono: "calls_only P m \<Longrightarrow> (\<And>c. P c \<Longrightarrow> Q c) \<Longrightarrow> calls_only Q m"
  unfolding calls_only_def list_all_iff by meson

subsection \<open>What a request is allowed to do\<close>

fun allowed :: "http_message \<Rightarrow> call \<Rightarrow> bool" where
  "allowed m (C_CreateFile_read p) \<longleftrightarrow> has_prefix URI_FILE (request_uri m) \<and> msg_method m = 1 \<and> p = uri_filepath (request_uri m)"
| "allowed m (C_CreateFile_write p) \<longleftrightarrow>
     has_prefix URI_FILE (request_uri m) \<and> msg_method m = 3 \<and> p = TEMP_FILE_FOLDER @ uri_filepath (request_uri m)"
| "allowed m (C_WriteFile f s) \<longleftrightarrow> has_prefix URI_FILE (request_uri m) \<and> msg_method m = 3"
| "allowed m (C_onCMDEvent a p) \<longleftrightarrow>
     has_prefix URI_FILE (request_uri m) \<and> msg_method m = 3 \<and> a = uri_app (request_uri m) \<and> p = uri_filepath (request_uri m)"
| "allowed m (C_DeleteFile p) \<longleftrightarrow> has_prefix URI_CLEANTEMP (request_uri m)"
| "allowed m (C_CreateProcess p) \<longleftrightarrow> has_prefix URI_RUN (request_uri m) \<and> p = drop (length URI_RUN) (request_uri m)"
| "allowed m (C_ShellExecute p) \<longleftrightarrow> has_prefix URI_OPEN (request_uri m) \<and> p = drop (length URI_OPEN) (request_uri m)"
| "allowed m (C_fopen p mode) \<longleftrightarrow> has_prefix URI_DATA_POLLUTION (request_uri m) \<and> p = FILE_DATA_POLLUTION \<and> mode = ''r''"
| "allowed m C_WaitForSingleObject \<longleftrightarrow> has_prefix URI_DATA_POLLUTION (request_uri m)"
| "allowed m C_ReleaseMutex \<longleftrightarrow> False"
| "allowed m (C_fprintf f s) \<longleftrightarrow> False"
| "allowed m (C_recv n) \<longleftrightarrow> False"
| "allowed m (C_realloc n) \<longleftrightarrow> False"
| "allowed m C_shutdown \<longleftrightarrow> False"
| "allowed m C_closesocket \<longleftrightarrow> False"
| "allowed m _ \<longleftrightarrow> True"

lemmas serve_defs = serve_error_def send_def CloseHandle_def GetFileAttributesA_def

lemma calls_cleantemp [calls]: "has_prefix URI_CLEANTEMP (request_uri m) \<Longrightarrow> calls_only (allowed m) (cleantemp_loop w ffds k n)"
  by (induction ffds arbitrary: k n) (auto simp: serve_defs intro!: calls)


subsection \<open>Handles\<close>

text \<open>The handles that the calls open, given what was called before, and those they close.\<close>

fun opened :: "win \<Rightarrow> call list \<Rightarrow> call list \<Rightarrow> nat list" where
  "opened w h [] = []"
| "opened w h (C_CreateFile_read p # cs) =
     (case r_open w h p of Some f \<Rightarrow> f # opened w (h @ [C_CreateFile_read p]) cs | None \<Rightarrow> opened w (h @ [C_CreateFile_read p]) cs)"
| "opened w h (C_CreateFile_write p # cs) =
     (case r_create w h p of Some f \<Rightarrow> f # opened w (h @ [C_CreateFile_write p]) cs | None \<Rightarrow> opened w (h @ [C_CreateFile_write p]) cs)"
| "opened w h (c # cs) = opened w (h @ [c]) cs"

fun closed :: "call list \<Rightarrow> nat list" where
  "closed [] = []"
| "closed (C_CloseHandle f # cs) = f # closed cs"
| "closed (_ # cs) = closed cs"

fun no_handle :: "call \<Rightarrow> bool" where
  "no_handle (C_CreateFile_read p) = False"
| "no_handle (C_CreateFile_write p) = False"
| "no_handle (C_CloseHandle f) = False"
| "no_handle _ = True"

lemma no_handle_calls: "list_all no_handle cs \<Longrightarrow> opened w h cs = [] \<and> closed cs = []"
proof (induction cs arbitrary: h)
  case (Cons c cs)
  then show ?case by (cases c) simp_all
qed simp

lemma calls_cleantemp_no_handle [calls]: "calls_only no_handle (cleantemp_loop w ffds k n)"
  by (induction ffds arbitrary: k n) (auto simp: serve_defs intro!: calls)

definition balanced :: "win \<Rightarrow> (web_fault + int) act \<Rightarrow> bool" where
  "balanced w m \<longleftrightarrow>
     (\<forall>h. \<exists>r cs. run_state m h = (r, h @ cs) \<and> (r = Inl F_read_outside \<or> opened w h cs = closed cs))"

lemma balanced_no_handle: "calls_only no_handle m \<Longrightarrow> balanced w m"
  unfolding calls_only_def balanced_def by (metis no_handle_calls prod.collapse)

lemma balanced_serve_file: "balanced w (faultless (serve_file w p))"
  by (auto simp: balanced_def faultless_def serve_file_def serve_defs split: option.splits)

lemma balanced_serve_upload: "balanced w (serve_upload w buf m)"
  by (auto simp: balanced_def serve_upload_def recv_file_def serve_defs Let_def split: option.splits)

lemma balanced_if: "balanced w m \<Longrightarrow> balanced w k \<Longrightarrow> balanced w (if b then m else k)"
  by simp

lemma other_routes_no_handle:
  "calls_only no_handle (faultless (serve_error w s))" "calls_only no_handle (faultless (serve_ping w))"
  "calls_only no_handle (faultless (serve_run w p))" "calls_only no_handle (faultless (serve_open w p))"
  "calls_only no_handle (faultless (serve_cleantemp w))" "calls_only no_handle (faultless (serve_data_pollution w))"
  unfolding serve_ping_def InternetCheckPing_def serve_run_def serve_open_def serve_cleantemp_def serve_data_pollution_def
    serve_defs faultless_def Let_def
  by (intro calls | simp)+


subsection \<open>Cleaning the temporary folder\<close>

definition deletions :: "call list \<Rightarrow> string list" where
  "deletions cs = concat (map (\<lambda>c. case c of C_DeleteFile p \<Rightarrow> [p] | _ \<Rightarrow> []) cs)"

lemma cleantemp_loop_deletes:
  "\<exists>n cs. run_state (cleantemp_loop w ffds k b) h = ((k + length (filter deletes ffds), n), h @ cs) \<and>
     deletions cs = map snd (filter deletes ffds)"
proof (induction ffds arbitrary: k b h)
  case Nil
  then show ?case by (simp add: deletions_def)
next
  case (Cons ffd ffds)
  show ?case
  proof (cases "deletes ffd")
    case False
    then show ?thesis using Cons.IH by simp
  next
    case True
    let ?h = "h @ [C_DeleteFile (snd ffd)] @ (if k = 0 then [C_send (''HTTP/1.0 400 Deleted'' @ CRLF @ CRLF)] else []) @ [C_send (snd ffd @ CRLF)]"
    have "\<exists>b'. run_state (cleantemp_loop w (ffd # ffds) k b) h = run_state (cleantemp_loop w ffds (Suc k) b') ?h"
      using True by (cases "k = 0") (auto simp: send_def)
    then obtain b' where "run_state (cleantemp_loop w (ffd # ffds) k b) h = run_state (cleantemp_loop w ffds (Suc k) b') ?h"
      by blast
    moreover obtain n cs where "run_state (cleantemp_loop w ffds (Suc k) b') ?h = ((Suc k + length (filter deletes ffds), n), ?h @ cs)"
        "deletions cs = map snd (filter deletes ffds)"
      using Cons.IH by blast
    ultimately show ?thesis
      using True by (auto simp: deletions_def)
  qed
qed

text \<open>
  \<^verbatim>\<open>/cleantemp/\<close> deletes, in the order of the listing and once each, exactly the entries that are not
  directories and whose name has a dot and does not end in \<^verbatim>\<open>.dat\<close> after its last dot. (The names are
  passed as they are listed, without the folder.)
\<close>

theorem cleantemp_deletes:
  "\<exists>n cs. run_state (serve_cleantemp w) h = (n, h @ cs) \<and>
     deletions cs = map snd (filter deletes (r_listing w h TEMP_PATTERN))"
proof -
  obtain n cs where "run_state (cleantemp_loop w (r_listing w h TEMP_PATTERN) 0 0) (h @ [C_FindFirst TEMP_PATTERN]) =
      ((length (filter deletes (r_listing w h TEMP_PATTERN)), n), (h @ [C_FindFirst TEMP_PATTERN]) @ cs)"
      "deletions cs = map snd (filter deletes (r_listing w h TEMP_PATTERN))"
    using cleantemp_loop_deletes [of w "r_listing w h TEMP_PATTERN" 0 0 "h @ [C_FindFirst TEMP_PATTERN]"] by auto
  then show ?thesis
    by (simp add: serve_cleantemp_def send_def) (auto simp: deletions_def)
qed

subsection \<open>The log of uploads\<close>

lemma hash_of_sha1:
  assumes "length (Message_Block sha) = 64" "length bytes < 2 ^ 61"
  shows "\<exists>c. hash_of bytes sha = Some (True, c) \<and> Message_Digest c = sha1 (map of_char bytes)"
  using hash_of_pieces [OF assms(1), of "[map of_char bytes]"] assms(2) by (auto simp: hash_of_def)

text \<open>
  \<^verbatim>\<open>write_hash_to_log\<close> appends one line to the log: the time, the SHA-1 of the bytes of the body in
  forty hexadecimal digits, and the path. What the stack held before does not matter.
\<close>

theorem hash_is_logged:
  assumes "length (Message_Block sha) = 64" "post_data_len m \<noteq> 0" "bytes_at buf (post_data m) (post_data_len m) = Some bytes"
    and "r_fopen w h FILE_DATA_POLLUTION ''a'' = Some f"
  shows "run_state (write_hash_to_log w sha buf m path) h =
    (Inr None, h @ [C_fopen FILE_DATA_POLLUTION ''a'',
       C_fprintf f (''[upload time]'' @ show_nat (r_time w (h @ [C_fopen FILE_DATA_POLLUTION ''a''])) @ [TAB]),
       C_fprintf f (''[file sha1]'' @ concat (map hex8 (sha1 (map of_char bytes))) @ [TAB]),
       C_fprintf f (''[file path]'' @ path @ [LF]), C_fclose f])"
proof -
  have "length bytes = unat (post_data_len m)"
    using assms(3) by (auto simp: bytes_at_def split: option.splits if_splits)
  then have "length bytes < 2 ^ 61"
    using unat_less_32 [of "post_data_len m"] by simp
  then obtain c where "hash_of bytes sha = Some (True, c)" "Message_Digest c = sha1 (map of_char bytes)"
    using hash_of_sha1 [OF assms(1)] by blast
  then show ?thesis
    using assms(2-4) by (simp add: write_hash_to_log_def)
qed

theorem hash_is_logged_witness:
  "\<exists>calls. run_state (write_hash_to_log (quiet_win\<lparr>r_fopen := \<lambda>h s t. Some 3\<rparr>) fresh_context ''POST MZ''
      (empty_message\<lparr>post_data := Some 5, post_data_len := 2\<rparr>) ''a.exe'') [] = (Inr None, calls) \<and>
    C_fprintf 3 (''[file sha1]'' @ concat (map hex8 (sha1 [0x4D, 0x5A])) @ [TAB]) \<in> set calls"
proof -
  let ?m = "empty_message\<lparr>post_data := Some 5, post_data_len := 2\<rparr>"
  have "length (Message_Block fresh_context) = 64" "post_data_len ?m \<noteq> 0"
      "bytes_at ''POST MZ'' (post_data ?m) (post_data_len ?m) = Some ''MZ''"
    by (simp_all add: fresh_context_def bytes_at_def)
  from hash_is_logged [OF this, of "quiet_win\<lparr>r_fopen := \<lambda>h s t. Some 3\<rparr>" "[]" 3 "''a.exe''"] show ?thesis
    by simp
qed

subsection \<open>Lines of a file\<close>

definition first_line :: "string \<Rightarrow> string" where
  "first_line chars = takeWhile (\<lambda>c. c \<noteq> LF \<and> c \<noteq> CHR 0xFF) chars"

definition grown :: "nat \<Rightarrow> nat \<Rightarrow> nat" where
  "grown maximum n = (if n \<le> maximum then maximum else maximum + 128 * Suc ((n - maximum - 1) div 128))"

lemma grown_step: "maximum < n \<Longrightarrow> grown (maximum + 128) n = grown maximum n"
  by (auto simp: grown_def le_div_geq)

lemma read_line_loop_result:
  "length b \<le> maximum \<Longrightarrow> \<exists>chars'. read_line_loop (\<lambda>_. True) chars b maximum =
     Some (b @ first_line chars, grown maximum (length b + length (first_line chars)), chars')"
proof (induction chars arbitrary: b maximum)
  case Nil
  then show ?case by (simp add: first_line_def grown_def)
next
  case (Cons c cs)
  show ?case
  proof (cases "c = LF \<or> c = CHR 0xFF")
    case True
    then show ?thesis using Cons.prems by (auto simp: first_line_def grown_def)
  next
    case False
    then have l: "first_line (c # cs) = c # first_line cs"
      by (simp add: first_line_def)
    show ?thesis
      using False Cons.IH [of "b @ [c]" maximum] Cons.IH [of "b @ [c]" "maximum + 128"] Cons.prems
      by (auto simp: l grown_step)
  qed
qed


subsection \<open>Requests that go wrong\<close>


definition wide_message :: http_message where
  "wide_message =
     \<lparr>msg_method = 3, request_uri = URI_FILE @ replicate 1010 (CHR ''a''), post_data = Some 0, post_data_len = 1, msg_status = 1\<rparr>"


text \<open>
  The URI of a request that arrives in two pieces with the cut inside of the URI: the callback is called for
  each piece and copies it over what it had.
\<close>

definition cut_request :: "string list" where
  "cut_request = [''GET /fi'', ''le/app/a.txt HTTP/1.0'' @ CRLF @ CRLF]"

lemma cut_parsed:
  "case http_parser_execute (web_settings (peer cut_request) 0) (http_parser_init HTTP_REQUEST (Some empty_message)) (cut_request ! 0) of
     Inl f \<Rightarrow> False
   | Inr (n, q) \<Rightarrow> hp_data q = Some (empty_message\<lparr>request_uri := ''/fi''\<rparr>) \<and>
      (case http_parser_execute (web_settings (peer cut_request) 7) q (cut_request ! 1) of
         Inl f \<Rightarrow> False
       | Inr (n, q2) \<Rightarrow> hp_data q2 =
          Some (empty_message\<lparr>request_uri := ''le/app/a.txt'', msg_status := WEBSVC_HTTP_SUCCESS, msg_method := 1\<rparr>))"
  by code_simp


end
