(* ===== verification/NM_PQueue.thy ===== *)
theory NM_PQueue
  imports KF_Prelude "HOL-Library.Multiset"
begin

section \<open>The network monitor: the priority queue\<close>

text \<open>
  \<^verbatim>\<open>PriorityQueue.cc\<close> of the network monitor, the queue behind its timers. The elements are objects
  that know their place in the array; \<open>objs\<close> is the memory they live in. The array is indexed from 0
  with the index arithmetic of a heap that is indexed from 1: the root has one child, bin 1, and every
  other bin \<open>b\<close> has the children \<open>2 * b\<close> and \<open>2 * b + 1\<close>.

  Times are doubles; the code compares them and sets them to minus infinity, so any linear order with a
  least element will do. The time of an element is not a NaN.
\<close>

subsection \<open>Elements and the array\<close>

datatype pq_fault = Heap_out_of_bounds | Int_overflow | Internal_error

record 't PQ_Element =
  time :: 't
  offset :: int

definition MinimizeTime :: "('t::{linorder, order_bot}, 'm) PQ_Element_scheme \<Rightarrow> ('t, 'm) PQ_Element_scheme" where
  "MinimizeTime e = e\<lparr>time := bot\<rparr>"

record 'e PriorityQueue =
  heap :: "nat list"
  heap_size :: nat
  peak_heap_size :: nat
  max_heap_size :: nat
  objs :: "nat \<Rightarrow> 'e"

type_synonym ('t, 'm) pq = "('t, 'm) PQ_Element_scheme PriorityQueue"

text \<open>\<open>junk\<close> is what the new array holds before it is written.\<close>

definition pq_new :: "nat \<Rightarrow> (nat \<Rightarrow> nat) \<Rightarrow> (nat \<Rightarrow> 'e) \<Rightarrow> 'e PriorityQueue" where
  "pq_new initial_size junk s =
     \<lparr>heap = map junk [0..<initial_size], heap_size = 0, peak_heap_size = 0, max_heap_size = initial_size, objs = s\<rparr>"

definition slot :: "nat \<Rightarrow> 'e PriorityQueue \<Rightarrow> pq_fault + nat" where
  "slot bin q = (if bin < length (heap q) then Inr (heap q ! bin) else Inl Heap_out_of_bounds)"

definition Time_at :: "nat \<Rightarrow> ('t, 'm) pq \<Rightarrow> pq_fault + 't" where
  "Time_at bin q = rbind (slot bin q) (\<lambda>e. Inr (time (objs q e)))"

definition SetOffset :: "nat \<Rightarrow> int \<Rightarrow> ('t, 'm) pq \<Rightarrow> ('t, 'm) pq" where
  "SetOffset e off q = q\<lparr>objs := (objs q)(e := (objs q e)\<lparr>offset := off\<rparr>)\<rparr>"

definition SetElement :: "nat \<Rightarrow> nat \<Rightarrow> ('t, 'm) pq \<Rightarrow> pq_fault + ('t, 'm) pq" where
  "SetElement bin e q =
     (if bin < length (heap q) then Inr (SetOffset e (int bin) (q\<lparr>heap := (heap q)[bin := e]\<rparr>))
      else Inl Heap_out_of_bounds)"

definition Parent :: "nat \<Rightarrow> nat" where "Parent bin = bin div 2"
definition LeftChild :: "nat \<Rightarrow> nat" where "LeftChild bin = 2 * bin"
definition RightChild :: "nat \<Rightarrow> nat" where "RightChild bin = LeftChild bin + 1"

definition Swap :: "nat \<Rightarrow> nat \<Rightarrow> ('t, 'm) pq \<Rightarrow> pq_fault + ('t, 'm) pq" where
  "Swap bin1 bin2 q =
     rbind (slot bin1 q) (\<lambda>t.
     rbind (slot bin2 q) (\<lambda>e.
     rbind (SetElement bin1 e q) (SetElement bin2 t)))"

subsection \<open>Operations\<close>

function BubbleUp :: "nat \<Rightarrow> ('t::linorder, 'm) pq \<Rightarrow> pq_fault + ('t, 'm) pq" where
  "BubbleUp bin q =
     (if bin = 0 then Inr q
      else rbind (Time_at (Parent bin) q) (\<lambda>tp.
           rbind (Time_at bin q) (\<lambda>tb.
           if tp > tb then rbind (Swap (Parent bin) bin q) (BubbleUp (Parent bin)) else Inr q)))"
  by pat_completeness auto
termination
  by (relation "measure fst") (auto simp: Parent_def)

text \<open>The root is its own left child; the times are compared before the recursive call.\<close>

function BubbleDown :: "nat \<Rightarrow> ('t::linorder, 'm) pq \<Rightarrow> pq_fault + ('t, 'm) pq" where
  "BubbleDown bin q =
     rbind (Time_at bin q) (\<lambda>v.
     let l = LeftChild bin; r = RightChild bin in
     if l \<ge> heap_size q then Inr q
     else if r \<ge> heap_size q
     then rbind (Time_at l q) (\<lambda>lv. if lv < v then Swap l bin q else Inr q)
     else rbind (Time_at l q) (\<lambda>lv.
          rbind (Time_at r q) (\<lambda>rv.
          if lv < rv then if lv < v then rbind (Swap l bin q) (BubbleDown l) else Inr q
          else if rv < v then rbind (Swap r bin q) (BubbleDown r) else Inr q)))"
  by pat_completeness auto

lemma Swap_sizes: "Swap i j q = Inr q' \<Longrightarrow> heap_size q' = heap_size q \<and> length (heap q') = length (heap q)"
  by (auto simp: Swap_def slot_def SetElement_def SetOffset_def split: if_splits)

termination BubbleDown
proof (relation "measure (\<lambda>(bin, q). heap_size q - bin)", goal_cases)
  case 1
  then show ?case by simp
next
  case (2 bin q v l r lv rv q')
  then have "bin \<noteq> 0" by (cases "bin = 0") (auto simp: LeftChild_def)
  moreover have "heap_size q' = heap_size q" using 2 Swap_sizes by blast
  ultimately show ?case using 2 by (simp add: LeftChild_def RightChild_def)
next
  case (3 bin q v l r lv rv q')
  moreover have "heap_size q' = heap_size q" using 3 Swap_sizes by blast
  ultimately show ?case by (simp add: LeftChild_def RightChild_def)
qed

definition Top :: "'e PriorityQueue \<Rightarrow> pq_fault + nat option" where
  "Top q = (if heap_size q = 0 then Inr None else rbind (slot 0 q) (\<lambda>e. Inr (Some e)))"

definition Remove :: "('t::linorder, 'm) pq \<Rightarrow> pq_fault + nat option \<times> ('t, 'm) pq" where
  "Remove q =
     (if heap_size q = 0 then Inr (None, q)
      else rbind (slot 0 q) (\<lambda>top.
           let q1 = q\<lparr>heap_size := heap_size q - 1\<rparr> in
           rbind (slot (heap_size q1) q1) (\<lambda>e.
           rbind (SetElement 0 e q1) (\<lambda>q2.
           rbind (BubbleDown 0 q2) (\<lambda>q3.
           Inr (Some top, SetOffset top (-1) q3))))))"

definition Remove_element ::
  "nat \<Rightarrow> ('t::{linorder, order_bot}, 'm) pq \<Rightarrow> pq_fault + nat option \<times> ('t, 'm) pq" where
  "Remove_element e q =
     (let off = offset (objs q e) in
      if off < 0 \<or> off \<ge> int (heap_size q) then Inr (None, q)
      else rbind (slot (nat off) q) (\<lambda>e'.
           if e' \<noteq> e then Inr (None, q)
           else let q1 = q\<lparr>objs := (objs q)(e := MinimizeTime (objs q e))\<rparr> in
                rbind (BubbleUp (nat off) q1) (\<lambda>q2.
                rbind (Remove q2) (\<lambda>(e2, q3).
                if e2 \<noteq> Some e then Inl Internal_error else Inr (e2, q3)))))"

text \<open>\<open>junk\<close> is again what the new memory holds behind the elements that are copied.\<close>

definition Resize :: "nat \<Rightarrow> (nat \<Rightarrow> nat) \<Rightarrow> 'e PriorityQueue \<Rightarrow> pq_fault + 'e PriorityQueue" where
  "Resize new_size junk q =
     (if new_size \<ge> 2 ^ 31 then Inl Int_overflow
      else if new_size < max_heap_size q \<or> length (heap q) < max_heap_size q then Inl Heap_out_of_bounds
      else Inr (q\<lparr>heap := take (max_heap_size q) (heap q) @ map junk [max_heap_size q..<new_size], max_heap_size := new_size\<rparr>))"

definition Add :: "(nat \<Rightarrow> nat) \<Rightarrow> nat \<Rightarrow> ('t::linorder, 'm) pq \<Rightarrow> pq_fault + ('t, 'm) pq" where
  "Add junk e q =
     rbind (SetElement (heap_size q) e q) (\<lambda>q1.
     rbind (BubbleUp (heap_size q1) q1) (\<lambda>q2.
     let q3 = q2\<lparr>heap_size := heap_size q2 + 1\<rparr>;
         q4 = (if heap_size q3 > peak_heap_size q3 then q3\<lparr>peak_heap_size := heap_size q3\<rparr> else q3)
     in if heap_size q4 \<ge> max_heap_size q4 then Resize (max_heap_size q4 * 2) junk q4 else Inr q4))"

subsection \<open>The order of the array\<close>

definition key :: "('t, 'm) pq \<Rightarrow> nat \<Rightarrow> 't" where
  "key q i = time (objs q (heap q ! i))"

definition ordered :: "nat \<Rightarrow> (nat \<Rightarrow> 't::linorder) \<Rightarrow> bool" where
  "ordered n K \<longleftrightarrow> (\<forall>i<n. 0 < i \<longrightarrow> K (i div 2) \<le> K i)"

text \<open>The order with one exception: bin \<open>b\<close> may be too small, or too large.\<close>

definition ordered_up :: "nat \<Rightarrow> nat \<Rightarrow> (nat \<Rightarrow> 't::linorder) \<Rightarrow> bool" where
  "ordered_up n b K \<longleftrightarrow>
     (\<forall>i<n. 0 < i \<and> i \<noteq> b \<longrightarrow> K (i div 2) \<le> K i) \<and> (\<forall>i<n. 0 < b \<and> i div 2 = b \<longrightarrow> K (b div 2) \<le> K i)"

definition ordered_down :: "nat \<Rightarrow> nat \<Rightarrow> (nat \<Rightarrow> 't::linorder) \<Rightarrow> bool" where
  "ordered_down n b K \<longleftrightarrow>
     (\<forall>i<n. 0 < i \<and> i div 2 \<noteq> b \<longrightarrow> K (i div 2) \<le> K i) \<and> (\<forall>i<n. 0 < b \<and> i div 2 = b \<longrightarrow> K (b div 2) \<le> K i)"

lemma ordered_least:
  assumes "ordered n K" "i < n"
  shows "K 0 \<le> K i"
  using assms(2)
proof (induction i rule: less_induct)
  case (less i)
  show ?case
  proof (cases "i = 0")
    case False
    then have "K (i div 2) \<le> K i" using assms(1) less.prems by (simp add: ordered_def)
    moreover have "K 0 \<le> K (i div 2)" using False less by simp
    ultimately show ?thesis by simp
  qed simp
qed

lemma ordered_up_stop:
  assumes "ordered_up n b K" "b = 0 \<or> K (b div 2) \<le> K b"
  shows "ordered n K"
  using assms by (auto simp: ordered_up_def ordered_def)

lemma ordered_up_swap:
  assumes "ordered_up n b K" "0 < b" "b < n" "K b < K (b div 2)"
  shows "ordered_up n (b div 2) (K(b div 2 := K b, b := K (b div 2)))"
proof -
  let ?p = "b div 2" and ?K = "K(b div 2 := K b, b := K (b div 2))"
  have p: "?p \<noteq> b" "?p < n" using assms by auto
  have par: "K (i div 2) \<le> K i" if "i < n" "0 < i" "i \<noteq> b" for i using assms(1) that by (simp add: ordered_up_def)
  have grand: "K ?p \<le> K i" if "i < n" "i div 2 = b" for i using assms(1,2) that by (auto simp: ordered_up_def)
  have "?K (i div 2) \<le> ?K i" if i: "i < n" "0 < i" "i \<noteq> ?p" for i
  proof -
    consider "i = b" | "i \<noteq> b" "i div 2 = b" | "i \<noteq> b" "i div 2 = ?p" "i div 2 \<noteq> b" | "i \<noteq> b" "i div 2 \<noteq> ?p" "i div 2 \<noteq> b" by blast
    then show ?thesis
      using par [OF i(1,2)] grand [OF i(1)] assms(4) p i(3) by cases auto
  qed
  moreover have "?K (?p div 2) \<le> ?K i" if "i < n" "0 < ?p" "i div 2 = ?p" for i
  proof -
    have up: "K (?p div 2) \<le> K ?p" using par [of ?p] p that(2) by simp
    have "?p div 2 \<noteq> ?p" "?p div 2 \<noteq> b" using that(2) by auto
    moreover have "K (?p div 2) \<le> ?K i"
    proof (cases "i = b")
      case False
      moreover have "i \<noteq> ?p" using that by auto
      moreover have "K ?p \<le> K i" using par [of i] that False by auto
      ultimately show ?thesis using up by simp
    qed (use up in simp)
    ultimately show ?thesis by simp
  qed
  ultimately show ?thesis by (simp add: ordered_up_def)
qed

lemma ordered_down_stop:
  assumes "ordered_down n b K" "\<And>i. i < n \<Longrightarrow> 0 < i \<Longrightarrow> i div 2 = b \<Longrightarrow> K b \<le> K i"
  shows "ordered n K"
  using assms by (auto simp: ordered_down_def ordered_def)

lemma ordered_down_swap:
  assumes "ordered_down n b K" "c < n" "c div 2 = b" "c \<noteq> b" "K c < K b"
    and least: "\<And>i. i < n \<Longrightarrow> 0 < i \<Longrightarrow> i div 2 = b \<Longrightarrow> K c \<le> K i"
  shows "ordered_down n c (K(c := K b, b := K c))"
proof -
  let ?K = "K(c := K b, b := K c)"
  have c: "0 < c" "c div 2 \<noteq> c" using assms(3,4) by auto
  have par: "K (i div 2) \<le> K i" if "i < n" "0 < i" "i div 2 \<noteq> b" for i using assms(1) that by (simp add: ordered_down_def)
  have grand: "K (b div 2) \<le> K i" if "i < n" "0 < b" "i div 2 = b" for i using assms(1) that by (auto simp: ordered_down_def)
  have "?K (i div 2) \<le> ?K i" if i: "i < n" "0 < i" "i div 2 \<noteq> c" for i
  proof -
    consider "i = b" | "i \<noteq> b" "i = c" | "i \<noteq> b" "i \<noteq> c" "i div 2 = b" | "i \<noteq> b" "i \<noteq> c" "i div 2 \<noteq> b" by blast
    then show ?thesis
    proof cases
      case 1
      then have "b div 2 \<noteq> b" using i(2) by simp
      then show ?thesis using 1 i grand [OF assms(2) _ assms(3)] by simp
    qed (use par [OF i(1,2)] least [OF i(1,2)] assms(3-5) i(3) in auto)
  qed
  moreover have "?K (c div 2) \<le> ?K i" if "i < n" "i div 2 = c" for i
  proof -
    have "i \<noteq> c" "i \<noteq> b" "0 < i" using that c assms(3) by auto
    then show ?thesis using par [OF that(1)] that(2) assms(3,4) by simp
  qed
  ultimately show ?thesis by (simp add: ordered_down_def)
qed

subsection \<open>Bubbling\<close>

text \<open>The first \<open>n\<close> bins hold different elements, each of which knows its bin.\<close>

definition placed :: "nat \<Rightarrow> ('t, 'm) pq \<Rightarrow> bool" where
  "placed n q \<longleftrightarrow> n \<le> length (heap q) \<and> distinct (take n (heap q)) \<and> (\<forall>i<n. offset (objs q (heap q ! i)) = int i)"

definition members :: "nat \<Rightarrow> 'e PriorityQueue \<Rightarrow> nat set" where
  "members n q = set (take n (heap q))"

text \<open>What bubbling keeps: everything but the order of the first \<open>n\<close> bins and the offsets of their elements.\<close>

definition rearranged :: "nat \<Rightarrow> ('t, 'm) pq \<Rightarrow> ('t, 'm) pq \<Rightarrow> bool" where
  "rearranged n q q' \<longleftrightarrow>
     length (heap q') = length (heap q) \<and> heap_size q' = heap_size q \<and> peak_heap_size q' = peak_heap_size q \<and>
     max_heap_size q' = max_heap_size q \<and> members n q' = members n q \<and>
     (\<forall>e. e \<notin> members n q \<longrightarrow> objs q' e = objs q e) \<and>
     (\<forall>e. time (objs q' e) = time (objs q e) \<and> PQ_Element.more (objs q' e) = PQ_Element.more (objs q e))"

lemma rearranged_refl: "rearranged n q q"
  by (simp add: rearranged_def)

lemma rearranged_trans: "rearranged n q q1 \<Longrightarrow> rearranged n q1 q2 \<Longrightarrow> rearranged n q q2"
  by (simp add: rearranged_def)

lemma member_nth: "i < n \<Longrightarrow> n \<le> length (heap q) \<Longrightarrow> heap q ! i \<in> members n q"
  unfolding members_def in_set_conv_nth by (rule exI [of _ i]) simp

lemma member_index:
  assumes "placed n q" "e \<in> members n q"
  obtains i where "i < n" "heap q ! i = e" "offset (objs q e) = int i"
proof -
  obtain i where "i < length (take n (heap q))" "take n (heap q) ! i = e"
    using assms(2) by (auto simp: members_def in_set_conv_nth)
  then show ?thesis using assms(1) that by (auto simp: placed_def)
qed

lemma placed_inj: "placed n q \<Longrightarrow> i < n \<Longrightarrow> j < n \<Longrightarrow> heap q ! i = heap q ! j \<longleftrightarrow> i = j"
  using nth_eq_iff_index_eq [of "take n (heap q)" i j] by (simp add: placed_def)

lemma Swap_works:
  assumes "placed n q" "i < n" "j < n" "i \<noteq> j"
  obtains q' where "Swap i j q = Inr q'" "placed n q'" "rearranged n q q'"
    "key q' = (key q)(i := key q j, j := key q i)" "heap q' = (heap q)[i := heap q ! j, j := heap q ! i]"
proof -
  have len: "n \<le> length (heap q)" using assms(1) by (simp add: placed_def)
  let ?a = "heap q ! i" and ?b = "heap q ! j"
  let ?s = "(objs q)(?b := (objs q ?b)\<lparr>offset := int i\<rparr>)"
  define q' where "q' = q\<lparr>heap := (heap q)[i := ?b, j := ?a], objs := ?s(?a := (?s ?a)\<lparr>offset := int j\<rparr>)\<rparr>"
  have ab: "?a \<noteq> ?b" using placed_inj [OF assms(1-3)] assms(4) by simp
  have "Swap i j q = Inr q'"
    using assms len ab by (simp add: Swap_def slot_def SetElement_def SetOffset_def q'_def)
  moreover have "placed n q'"
  proof -
    have "distinct (take n ((heap q)[i := ?b, j := ?a]))"
      using assms len distinct_swap [of i "take n (heap q)" j] by (simp add: placed_def take_update_swap)
    moreover have "offset (objs q' (heap q' ! k)) = int k" if "k < n" for k
    proof -
      have "heap q ! k \<noteq> ?a" if "k \<noteq> i" using placed_inj [OF assms(1) \<open>k < n\<close> assms(2)] that by simp
      moreover have "heap q ! k \<noteq> ?b" if "k \<noteq> j" using placed_inj [OF assms(1) \<open>k < n\<close> assms(3)] that by simp
      moreover have "offset (objs q (heap q ! k)) = int k" using assms(1) that by (simp add: placed_def)
      ultimately show ?thesis using ab assms len that
        by (cases "k = i"; cases "k = j") (auto simp: q'_def nth_list_update)
    qed
    ultimately show ?thesis using len by (simp add: placed_def q'_def)
  qed
  moreover have "members n q' = members n q"
    using assms len set_swap [of i "take n (heap q)" j] by (simp add: members_def q'_def take_update_swap)
  then have "rearranged n q q'"
    using member_nth [OF assms(2) len] member_nth [OF assms(3) len] ab by (auto simp: rearranged_def q'_def)
  moreover have "key q' = (key q)(i := key q j, j := key q i)"
    using assms len ab by (auto simp: key_def q'_def fun_eq_iff nth_list_update)
  ultimately show ?thesis using that by (simp add: q'_def)
qed

lemma Time_at_key: "i < length (heap q) \<Longrightarrow> Time_at i q = Inr (key q i)"
  by (simp add: Time_at_def slot_def key_def)

declare BubbleUp.simps [simp del] BubbleDown.simps [simp del]

lemma BubbleUp_works:
  assumes "placed n q" "bin < n" "ordered_up n bin (key q)"
  obtains q' where "BubbleUp bin q = Inr q'" "placed n q'" "rearranged n q q'" "ordered n (key q')"
  using assms
proof (induction bin q arbitrary: thesis rule: BubbleUp.induct)
  case (1 bin q)
  let ?p = "Parent bin"
  have lens: "bin < length (heap q)" "?p < length (heap q)" "?p < n"
    using "1.prems"(2,3) by (auto simp: placed_def Parent_def)
  note unfold = BubbleUp.simps [of bin q] Time_at_key [OF lens(1)] Time_at_key [OF lens(2)]
  show ?case
  proof (cases "bin = 0 \<or> key q ?p \<le> key q bin")
    case True
    then have "BubbleUp bin q = Inr q" using unfold by auto
    moreover have "ordered n (key q)" using ordered_up_stop [OF "1.prems"(4)] True by (simp add: Parent_def)
    ultimately show ?thesis using "1.prems"(1,2) rearranged_refl by blast
  next
    case False
    then have b: "bin \<noteq> 0" "key q bin < key q ?p" "?p \<noteq> bin" by (auto simp: Parent_def)
    obtain q1 where q1: "Swap ?p bin q = Inr q1" "placed n q1" "rearranged n q q1"
      "key q1 = (key q)(?p := key q bin, bin := key q ?p)"
      using Swap_works [OF "1.prems"(2) lens(3) "1.prems"(3) b(3)] by metis
    have "ordered_up n ?p (key q1)"
      using ordered_up_swap [OF "1.prems"(4) _ "1.prems"(3)] b q1(4) by (simp add: Parent_def)
    then obtain q2 where "BubbleUp ?p q1 = Inr q2" "placed n q2" "rearranged n q1 q2" "ordered n (key q2)"
      using "1.IH" [of "key q ?p" "key q bin" q1] b q1 lens unfold(2,3) by blast
    moreover from this have "BubbleUp bin q = Inr q2" using unfold b q1(1) by simp
    ultimately show ?thesis using "1.prems"(1) rearranged_trans q1(3) by blast
  qed
qed

text \<open>The child that \<^verbatim>\<open>BubbleDown\<close> compares with: the root is its own left child and has only bin 1.\<close>

lemma children: "i div 2 = b \<and> 0 < i \<longleftrightarrow> i = RightChild b \<or> i = LeftChild b \<and> 0 < b" for i b :: nat
  by (auto simp: LeftChild_def RightChild_def)

lemma BubbleDown_unfold:
  assumes "bin < length (heap q)" "heap_size q \<le> length (heap q)"
  shows "BubbleDown bin q =
     (let l = LeftChild bin; r = RightChild bin in
      if heap_size q \<le> l then Inr q
      else if heap_size q \<le> r then if key q l < key q bin then Swap l bin q else Inr q
      else if key q l < key q r then if key q l < key q bin then rbind (Swap l bin q) (BubbleDown l) else Inr q
      else if key q r < key q bin then rbind (Swap r bin q) (BubbleDown r) else Inr q)"
proof -
  have "Time_at i q = Inr (key q i)" if "\<not> heap_size q \<le> i" for i
    using that assms by (simp add: Time_at_key)
  then show ?thesis using BubbleDown.simps [of bin q] Time_at_key [OF assms(1)] by (simp add: Let_def)
qed

lemma BubbleDown_swap:
  assumes "placed n q" "bin < n" "ordered_down n bin (key q)"
    and "c = LeftChild bin \<or> c = RightChild bin" "c < n" "key q c < key q bin"
    and "\<And>i. i < n \<Longrightarrow> i = LeftChild bin \<or> i = RightChild bin \<Longrightarrow> key q c \<le> key q i"
  obtains q' where "Swap c bin q = Inr q'" "placed n q'" "rearranged n q q'" "ordered_down n c (key q')"
proof -
  have "c \<noteq> bin" using assms(6) by auto
  then have c: "0 < c" "c div 2 = bin" using assms(4) by (auto simp: LeftChild_def RightChild_def)
  obtain q' where q': "Swap c bin q = Inr q'" "placed n q'" "rearranged n q q'"
    "key q' = (key q)(c := key q bin, bin := key q c)"
    using Swap_works [OF assms(1,5,2) \<open>c \<noteq> bin\<close>] by metis
  moreover have "ordered_down n c (key q')"
    unfolding q'(4) using \<open>c \<noteq> bin\<close> c assms(5-7) children
    by (intro ordered_down_swap [OF assms(3)]) blast+
  ultimately show ?thesis using that by blast
qed

lemma BubbleDown_works:
  assumes "placed n q" "bin < n \<or> n = 0 \<and> heap q \<noteq> [] \<and> bin = 0" "heap_size q = n" "ordered_down n bin (key q)"
  shows "\<exists>q'. BubbleDown bin q = Inr q' \<and> placed n q' \<and> rearranged n q q' \<and> ordered n (key q')"
  using assms
proof (induction "n - bin" arbitrary: bin q rule: less_induct)
  case less
  let ?l = "LeftChild bin" and ?r = "RightChild bin"
  have "bin < length (heap q)" "n \<le> length (heap q)" using less.prems(1,2) by (auto simp: placed_def)
  then have down: "BubbleDown bin q = (if n \<le> ?l then Inr q else if n \<le> ?r then if key q ?l < key q bin then Swap ?l bin q else Inr q
      else if key q ?l < key q ?r then if key q ?l < key q bin then rbind (Swap ?l bin q) (BubbleDown ?l) else Inr q
      else if key q ?r < key q bin then rbind (Swap ?r bin q) (BubbleDown ?r) else Inr q)"
    using BubbleDown_unfold [of bin q] less.prems(3) by (simp add: Let_def)
  have lr: "?l < ?r" by (simp add: RightChild_def)
  show ?case
  proof (cases "\<exists>c. (c = ?l \<or> c = ?r) \<and> c < n \<and> key q c < key q bin")
    case False
    then have "?l < n \<Longrightarrow> \<not> key q ?l < key q bin" "?r < n \<Longrightarrow> \<not> key q ?r < key q bin" by blast+
    then have "BubbleDown bin q = Inr q" unfolding down using lr by (simp add: not_le)
    moreover have "ordered n (key q)"
      using ordered_down_stop [OF less.prems(4)] False children by (metis not_le)
    ultimately show ?thesis using less.prems(1) rearranged_refl by blast
  next
    case True
    then have bin: "bin < n" using less.prems(2) by auto
    define c where "c = (if n \<le> ?r \<or> key q ?l < key q ?r then ?l else ?r)"
    have c: "c = ?l \<or> c = ?r" "c < n" "key q c < key q bin" "\<And>i. i < n \<Longrightarrow> i = ?l \<or> i = ?r \<Longrightarrow> key q c \<le> key q i"
      using True lr by (auto simp: c_def split: if_splits)
    then have "c \<noteq> bin" by auto
    then have "bin < c" using c(1) by (auto simp: LeftChild_def RightChild_def)
    obtain q1 where q1: "Swap c bin q = Inr q1" "placed n q1" "rearranged n q q1" "ordered_down n c (key q1)"
      using BubbleDown_swap [OF less.prems(1) bin less.prems(4) c] by blast
    show ?thesis
    proof (cases "n \<le> ?r")
      case last: True
      have "BubbleDown bin q = Inr q1" using down last c q1(1) by (auto simp: c_def split: if_splits)
      moreover have "ordered n (key q1)"
        using ordered_down_stop [OF q1(4)] last c \<open>bin < c\<close> by (auto simp: c_def RightChild_def LeftChild_def)
      ultimately show ?thesis using q1 by blast
    next
      case False
      have "heap_size q1 = n" using q1(3) less.prems(3) by (simp add: rearranged_def)
      moreover have "n - c < n - bin" using \<open>bin < c\<close> c(2) by simp
      ultimately obtain q2 where "BubbleDown c q1 = Inr q2" "placed n q2" "rearranged n q1 q2" "ordered n (key q2)"
        using less.hyps [of c q1] c(2) q1 by auto
      moreover have "BubbleDown bin q = rbind (Swap c bin q) (BubbleDown c)"
        using down False lr c(3) by (auto simp: c_def)
      ultimately show ?thesis using q1(1,3) rearranged_trans by fastforce
    qed
  qed
qed

subsection \<open>The operations\<close>

definition elements :: "'e PriorityQueue \<Rightarrow> nat set" where
  "elements q = members (heap_size q) q"

definition pq_inv :: "('t::linorder, 'm) pq \<Rightarrow> bool" where
  "pq_inv q \<longleftrightarrow>
     placed (heap_size q) q \<and> ordered (heap_size q) (key q) \<and> max_heap_size q = length (heap q) \<and>
     heap_size q < max_heap_size q \<and> heap_size q \<le> peak_heap_size q"

text \<open>The operations change the place of an element and nothing else of it.\<close>

definition same_data :: "('t, 'm) pq \<Rightarrow> ('t, 'm) pq \<Rightarrow> bool" where
  "same_data q q' \<longleftrightarrow>
     (\<forall>e. time (objs q' e) = time (objs q e) \<and> PQ_Element.more (objs q' e) = PQ_Element.more (objs q e))"

lemma pq_new_inv: "0 < initial_size \<Longrightarrow> pq_inv (pq_new initial_size junk s)" "elements (pq_new initial_size junk s) = {}"
  by (simp_all add: pq_inv_def pq_new_def placed_def ordered_def elements_def members_def)

lemma card_elements: "pq_inv q \<Longrightarrow> card (elements q) = heap_size q" "finite (elements q)"
  by (simp_all add: pq_inv_def placed_def elements_def members_def distinct_card)

lemma Top_works:
  assumes "pq_inv q"
  shows "heap_size q = 0 \<longleftrightarrow> elements q = {}" "heap_size q = 0 \<Longrightarrow> Top q = Inr None"
    and "heap_size q \<noteq> 0 \<Longrightarrow> Top q = Inr (Some (heap q ! 0))" "heap_size q \<noteq> 0 \<Longrightarrow> heap q ! 0 \<in> elements q"
    and "\<forall>e \<in> elements q. time (objs q (heap q ! 0)) \<le> time (objs q e)"
proof -
  have len: "heap_size q < length (heap q)" using assms by (simp add: pq_inv_def)
  show "heap_size q = 0 \<longleftrightarrow> elements q = {}" "heap_size q = 0 \<Longrightarrow> Top q = Inr None"
    and "heap_size q \<noteq> 0 \<Longrightarrow> Top q = Inr (Some (heap q ! 0))" "heap_size q \<noteq> 0 \<Longrightarrow> heap q ! 0 \<in> elements q"
    using len member_nth [of 0 "heap_size q" q] by (auto simp: Top_def slot_def elements_def members_def)
  show "\<forall>e \<in> elements q. time (objs q (heap q ! 0)) \<le> time (objs q e)"
  proof
    fix e
    assume "e \<in> elements q"
    then obtain i where "i < heap_size q" "heap q ! i = e"
      using assms member_index by (metis elements_def pq_inv_def)
    then show "time (objs q (heap q ! 0)) \<le> time (objs q e)"
      using assms ordered_least [of "heap_size q" "key q" i] by (auto simp: pq_inv_def key_def)
  qed
qed

lemma last_to_front:
  assumes "placed (Suc n) q" "ordered (Suc n) (key q)"
    and "q2 = SetOffset (heap q ! n) 0 (q\<lparr>heap_size := n, heap := (heap q)[0 := heap q ! n]\<rparr>)"
  shows "placed n q2" "ordered_down n 0 (key q2)" "members n q2 = members (Suc n) q - {heap q ! 0}"
proof -
  have len: "Suc n \<le> length (heap q)" using assms(1) by (simp add: placed_def)
  have h2: "heap q2 = (heap q)[0 := heap q ! n]" by (simp add: assms(3) SetOffset_def)
  have hn: "heap q2 ! i = (if i = 0 then heap q ! n else heap q ! i)" for i
    unfolding h2 using len by (cases "heap q"; cases i) simp_all
  have inj: "heap q ! i = heap q ! j \<longleftrightarrow> i = j" if "i \<le> n" "j \<le> n" for i j
    using placed_inj [OF assms(1), of i j] that by simp
  have offs: "offset (objs q (heap q ! i)) = int i" if "i \<le> n" for i
    using assms(1) that by (simp add: placed_def)
  have "time (objs q2 e) = time (objs q e)" for e by (simp add: assms(3) SetOffset_def)
  then have key2: "key q2 i = (if i = 0 then key q n else key q i)" for i
    by (simp add: key_def hn)
  have "heap q2 ! i = heap q2 ! j \<longleftrightarrow> i = j" if "i < n" "j < n" for i j
    using that inj [of i j] inj [of i n] inj [of n j] by (auto simp: hn)
  then have "distinct (take n (heap q2))" using len by (simp add: distinct_conv_nth h2)
  moreover have "offset (objs q2 (heap q2 ! i)) = int i" if "i < n" for i
    using that offs [of i] inj [of i n] by (auto simp: hn) (auto simp: assms(3) SetOffset_def)
  ultimately show "placed n q2" using len by (simp add: placed_def h2)
  show "ordered_down n 0 (key q2)"
    using assms(2) by (auto simp: ordered_down_def ordered_def key2)
  have "x \<in> members n q2 \<longleftrightarrow> x \<in> members (Suc n) q - {heap q ! 0}" for x
  proof -
    have "x \<in> members n q2 \<longleftrightarrow> (\<exists>i<n. heap q2 ! i = x)" using len by (auto simp: members_def in_set_conv_nth h2)
    also have "\<dots> \<longleftrightarrow> (\<exists>i<Suc n. i \<noteq> 0 \<and> heap q ! i = x)"
    proof (cases "n = 0")
      case False
      have "(\<exists>i<n. heap q2 ! i = x) \<longleftrightarrow> heap q ! n = x \<or> (\<exists>i<n. i \<noteq> 0 \<and> heap q ! i = x)"
        using False hn by (metis not_gr_zero)
      then show ?thesis using False by (auto simp: less_Suc_eq)
    qed simp
    also have "\<dots> \<longleftrightarrow> x \<in> members (Suc n) q - {heap q ! 0}"
    proof -
      have "x \<in> members (Suc n) q \<longleftrightarrow> (\<exists>i<Suc n. heap q ! i = x)"
        using len by (auto simp: members_def in_set_conv_nth)
      then show ?thesis using inj by (metis DiffE DiffI insertI1 le0 less_Suc_eq_le singletonD)
    qed
    finally show ?thesis .
  qed
  then show "members n q2 = members (Suc n) q - {heap q ! 0}" by blast
qed

lemma Remove_works:
  assumes "pq_inv q" "heap_size q \<noteq> 0"
  shows "\<exists>q'. Remove q = Inr (Some (heap q ! 0), q') \<and> pq_inv q' \<and> elements q' = elements q - {heap q ! 0} \<and>
    same_data q q' \<and> (\<forall>e. e \<notin> elements q \<longrightarrow> objs q' e = objs q e) \<and> offset (objs q' (heap q ! 0)) = -1 \<and>
    max_heap_size q' = max_heap_size q \<and> peak_heap_size q' = peak_heap_size q"
proof -
  let ?top = "heap q ! 0"
  define n where "n = heap_size q - 1"
  have n: "heap_size q = Suc n" "Suc n < length (heap q)" using assms by (auto simp: n_def pq_inv_def)
  define q2 where "q2 = SetOffset (heap q ! n) 0 (q\<lparr>heap_size := n, heap := (heap q)[0 := heap q ! n]\<rparr>)"
  have q2: "placed n q2" "ordered_down n 0 (key q2)" "members n q2 = elements q - {?top}"
    using last_to_front [of n q q2] assms(1) n by (simp_all add: q2_def pq_inv_def elements_def)
  have "heap_size q2 = n" "heap q2 \<noteq> []" using n by (auto simp: q2_def SetOffset_def)
  then obtain q3 where q3: "BubbleDown 0 q2 = Inr q3" "placed n q3" "rearranged n q2 q3" "ordered n (key q3)"
    using BubbleDown_works [OF q2(1) _ _ q2(2)] by auto
  define q' where "q' = SetOffset ?top (-1) q3"
  have out: "?top \<notin> members n q3" using q2(3) q3(3) by (simp add: rearranged_def)
  have rem: "Remove q = Inr (Some ?top, q')"
    using n q3(1) \<open>heap q2 \<noteq> []\<close> by (simp add: Remove_def slot_def SetElement_def q2_def q'_def Let_def SetOffset_def)
  have nth: "heap q3 ! i \<noteq> ?top" if "i < n" for i
    using out member_nth [OF that, of q3] q3(2) by (auto simp: placed_def)
  have "placed n q'" using q3(2) nth by (auto simp: placed_def q'_def SetOffset_def)
  moreover have "key q' i = key q3 i" for i by (simp add: key_def q'_def SetOffset_def)
  then have "ordered n (key q')" using q3(4) by (simp add: ordered_def)
  moreover have szs: "heap_size q' = n" "length (heap q') = length (heap q)" "max_heap_size q' = max_heap_size q"
    "peak_heap_size q' = peak_heap_size q" "heap q' = heap q3"
    using q3(3) by (simp_all add: q'_def SetOffset_def rearranged_def q2_def)
  ultimately have "pq_inv q'" using assms(1) n by (simp add: pq_inv_def)
  moreover have "elements q' = elements q - {?top}" using q2(3) q3(3) szs by (simp add: elements_def members_def rearranged_def)
  moreover have "same_data q q'" using q3(3) by (simp add: same_data_def rearranged_def q'_def SetOffset_def q2_def)
  moreover have "objs q' e = objs q e" if "e \<notin> elements q" for e
    using that q3(3) member_nth [of n "Suc n" q] member_nth [of 0 "Suc n" q] n q2(3)
    by (auto simp: rearranged_def q'_def SetOffset_def q2_def elements_def)
  moreover have "offset (objs q' ?top) = -1" by (simp add: q'_def SetOffset_def)
  ultimately show ?thesis using rem szs by blast
qed

lemma BubbleUp_last:
  assumes "pq_inv q" "e \<notin> elements q"
  shows "\<exists>q1 q2. SetElement (heap_size q) e q = Inr q1 \<and> heap_size q1 = heap_size q \<and> BubbleUp (heap_size q) q1 = Inr q2 \<and>
    placed (heap_size q + 1) q2 \<and> ordered (heap_size q + 1) (key q2) \<and> members (heap_size q + 1) q2 = insert e (elements q) \<and>
    heap_size q2 = heap_size q \<and> peak_heap_size q2 = peak_heap_size q \<and> max_heap_size q2 = max_heap_size q \<and>
    length (heap q2) = length (heap q) \<and> same_data q q2 \<and> (\<forall>a. a \<notin> insert e (elements q) \<longrightarrow> objs q2 a = objs q a)"
proof -
  let ?n = "heap_size q"
  have len: "?n < length (heap q)" and pl: "placed ?n q" and ord: "ordered ?n (key q)" using assms(1) by (simp_all add: pq_inv_def)
  define q1 where "q1 = SetOffset e (int ?n) (q\<lparr>heap := (heap q)[?n := e]\<rparr>)"
  have h1: "heap q1 = (heap q)[?n := e]" by (simp add: q1_def SetOffset_def)
  have nth: "heap q ! i \<noteq> e" if "i < ?n" for i
    using member_nth [OF that, of q] assms(2) len by (auto simp: elements_def)
  have take1: "take (?n + 1) (heap q1) = take ?n (heap q) @ [e]"
    using len by (simp add: h1 take_Suc_conv_app_nth)
  have mem1: "members (?n + 1) q1 = insert e (elements q)"
    unfolding members_def take1 by (simp add: elements_def members_def)
  have hi: "heap q1 ! i = (if i = ?n then e else heap q ! i)" for i using len by (simp add: h1)
  have "placed (?n + 1) q1"
    unfolding placed_def take1
    using pl assms(2) len nth by (auto simp: placed_def elements_def members_def hi less_Suc_eq) (auto simp: h1 q1_def SetOffset_def)
  moreover have "key q1 i = (if i = ?n then time (objs q e) else key q i)" for i
    by (simp add: key_def hi) (auto simp: q1_def SetOffset_def)
  then have "ordered_up (?n + 1) ?n (key q1)"
    using ord by (auto simp: ordered_up_def ordered_def less_Suc_eq)
  ultimately obtain q2 where q2: "BubbleUp ?n q1 = Inr q2" "placed (?n + 1) q2" "rearranged (?n + 1) q1 q2" "ordered (?n + 1) (key q2)"
    using BubbleUp_works [of "?n + 1" q1 ?n] by auto
  have "SetElement ?n e q = Inr q1" using len by (simp add: SetElement_def q1_def)
  moreover have "same_data q q2" using q2(3) by (simp add: same_data_def rearranged_def q1_def SetOffset_def)
  moreover have "objs q2 a = objs q a" if "a \<notin> insert e (elements q)" for a
    using that q2(3) mem1 by (auto simp: rearranged_def q1_def SetOffset_def)
  ultimately show ?thesis
    using q2 mem1 by (intro exI [of _ q1] exI [of _ q2]) (simp add: rearranged_def h1 q1_def SetOffset_def)
qed

lemma Resize_works:
  assumes "max_heap_size q = length (heap q)" "max_heap_size q \<le> m" "m < 2 ^ 31"
  shows "\<exists>q'. Resize m junk q = Inr q' \<and> take (length (heap q)) (heap q') = heap q \<and> length (heap q') = m \<and>
    max_heap_size q' = m \<and> heap_size q' = heap_size q \<and> peak_heap_size q' = peak_heap_size q \<and> objs q' = objs q"
  using assms by (simp add: Resize_def)

lemma larger_array:
  assumes "take (length (heap q)) (heap q') = heap q" "objs q' = objs q" "n \<le> length (heap q)"
  shows "placed n q \<Longrightarrow> placed n q'" "members n q' = members n q" "ordered n (key q) \<Longrightarrow> ordered n (key q')"
proof -
  have t: "take n (heap q') = take n (heap q)" using assms(1,3) by (metis min.absorb1 take_take)
  have l: "length (heap q) \<le> length (heap q')" using assms(1) by (metis length_take min.cobounded1)
  have nth: "heap q' ! i = heap q ! i" if "i < n" for i using t that by (metis nth_take)
  show "members n q' = members n q" using t by (simp add: members_def)
  show "placed n q'" if "placed n q" using that t l nth assms(2,3) by (simp add: placed_def)
  show "ordered n (key q')" if "ordered n (key q)" using that nth assms(2) by (auto simp: ordered_def key_def)
qed

lemma Add_works:
  assumes "pq_inv q" "e \<notin> elements q" "max_heap_size q < 2 ^ 30"
  shows "\<exists>q'. Add junk e q = Inr q' \<and> pq_inv q' \<and> elements q' = insert e (elements q) \<and> same_data q q' \<and>
    (\<forall>a. a \<notin> insert e (elements q) \<longrightarrow> objs q' a = objs q a) \<and> peak_heap_size q' = max (heap_size q + 1) (peak_heap_size q) \<and>
    (max_heap_size q' = max_heap_size q \<or> max_heap_size q' = 2 * (heap_size q + 1))"
proof -
  let ?n = "heap_size q"
  obtain q1 q2 where q2: "SetElement ?n e q = Inr q1" "heap_size q1 = ?n" "BubbleUp ?n q1 = Inr q2"
    "placed (?n + 1) q2" "ordered (?n + 1) (key q2)" "members (?n + 1) q2 = insert e (elements q)"
    "heap_size q2 = ?n" "peak_heap_size q2 = peak_heap_size q" "max_heap_size q2 = max_heap_size q"
    "length (heap q2) = length (heap q)" "same_data q q2" "\<forall>a. a \<notin> insert e (elements q) \<longrightarrow> objs q2 a = objs q a"
    using BubbleUp_last [OF assms(1,2)] by blast
  have inv: "max_heap_size q = length (heap q)" "?n < max_heap_size q" "?n \<le> peak_heap_size q" using assms(1) by (simp_all add: pq_inv_def)
  define q4 where "q4 = q2\<lparr>heap_size := ?n + 1, peak_heap_size := max (?n + 1) (peak_heap_size q)\<rparr>"
  have q4: "placed (?n + 1) q4" "ordered (?n + 1) (key q4)" "elements q4 = insert e (elements q)" "heap_size q4 = ?n + 1"
    "max_heap_size q4 = length (heap q4)" "length (heap q4) = length (heap q)" "peak_heap_size q4 = max (?n + 1) (peak_heap_size q)"
    "objs q4 = objs q2"
    using q2 inv by (simp_all add: q4_def placed_def key_def [abs_def] elements_def members_def)
  have add: "Add junk e q = (if ?n + 1 \<ge> max_heap_size q then Resize (max_heap_size q * 2) junk q4 else Inr q4)"
  proof -
    have "q4 = (if peak_heap_size q2 < heap_size q2 + 1 then q2\<lparr>heap_size := ?n + 1, peak_heap_size := ?n + 1\<rparr> else q2\<lparr>heap_size := ?n + 1\<rparr>)"
      using q2(7,8) by (cases q2) (simp add: q4_def max_def)
    then show ?thesis using q2(1-3,7-9) by (cases "peak_heap_size q < ?n + 1") (simp_all add: Add_def Let_def)
  qed
  show ?thesis
  proof (cases "?n + 1 \<ge> max_heap_size q")
    case False
    then have "pq_inv q4" using q4 inv by (simp add: pq_inv_def)
    then show ?thesis using False add q2(11,12) q4 inv by (auto simp: same_data_def)
  next
    case True
    obtain q5 where q5: "Resize (max_heap_size q * 2) junk q4 = Inr q5" "take (length (heap q4)) (heap q5) = heap q4"
      "length (heap q5) = max_heap_size q * 2" "max_heap_size q5 = max_heap_size q * 2" "heap_size q5 = heap_size q4"
      "peak_heap_size q5 = peak_heap_size q4" "objs q5 = objs q4"
      using Resize_works [of q4 "max_heap_size q * 2" junk] q4 inv assms(3) by auto
    note big = larger_array [OF q5(2,7), of "?n + 1"]
    have "pq_inv q5" using big q4 q5 inv True by (simp add: pq_inv_def)
    moreover have "elements q5 = insert e (elements q)" using big(2) q4 q5 inv by (simp add: elements_def)
    moreover have "max_heap_size q = ?n + 1" using True inv by simp
    ultimately show ?thesis using add q5 q2(11,12) q4(7,8) by (auto simp: same_data_def)
  qed
qed

lemma Remove_element_absent:
  assumes "pq_inv q" "e \<notin> elements q"
  shows "Remove_element e q = Inr (None, q)"
proof -
  have "heap q ! i \<noteq> e" if "i < heap_size q" for i
    using assms member_nth [OF that, of q] by (auto simp: pq_inv_def elements_def)
  then show ?thesis using assms(1) by (auto simp: Remove_element_def Let_def slot_def pq_inv_def nat_less_iff)
qed

lemma Remove_element_works:
  assumes "pq_inv q" "e \<in> elements q" "\<forall>a \<in> elements q. a \<noteq> e \<longrightarrow> time (objs q a) \<noteq> bot"
  shows "\<exists>q'. Remove_element e q = Inr (Some e, q') \<and> pq_inv q' \<and> elements q' = elements q - {e} \<and>
    (\<forall>a. a \<noteq> e \<longrightarrow> time (objs q' a) = time (objs q a)) \<and> (\<forall>a. a \<notin> elements q \<longrightarrow> objs q' a = objs q a) \<and>
    offset (objs q' e) = -1 \<and> max_heap_size q' = max_heap_size q \<and> peak_heap_size q' = peak_heap_size q"
proof -
  let ?n = "heap_size q"
  have pl: "placed ?n q" and ord: "ordered ?n (key q)" and len: "?n < length (heap q)" using assms(1) by (simp_all add: pq_inv_def)
  obtain i where i: "i < ?n" "heap q ! i = e" "offset (objs q e) = int i"
    using member_index [OF pl] assms(2) by (metis elements_def)
  define q1 where "q1 = q\<lparr>objs := (objs q)(e := MinimizeTime (objs q e))\<rparr>"
  have key1: "key q1 j = (if heap q ! j = e then bot else key q j)" for j by (simp add: key_def q1_def MinimizeTime_def)
  have pl1: "placed ?n q1" using pl by (auto simp: placed_def q1_def MinimizeTime_def)
  have at: "heap q ! j = e \<longleftrightarrow> j = i" if "j < ?n" for j using placed_inj [OF pl that i(1)] i(2) by simp
  have "ordered_up ?n i (key q1)"
  proof -
    have "key q1 (j div 2) \<le> key q1 j" if "j < ?n" "0 < j" "j \<noteq> i" for j
      using ord that at [of j] by (auto simp: key1 ordered_def)
    moreover have "key q1 (i div 2) \<le> key q1 j" if "j < ?n" "0 < i" "j div 2 = i" for j
    proof -
      have "key q (i div 2) \<le> key q i" "key q i \<le> key q j" using ord that i(1) by (auto simp: ordered_def)
      then show ?thesis using that at [of j] by (auto simp: key1)
    qed
    ultimately show ?thesis by (simp add: ordered_up_def)
  qed
  then obtain q2 where q2: "BubbleUp i q1 = Inr q2" "placed ?n q2" "rearranged ?n q1 q2" "ordered ?n (key q2)"
    using BubbleUp_works [OF pl1 i(1)] by blast
  have same: "heap_size q2 = ?n" "max_heap_size q2 = max_heap_size q" "peak_heap_size q2 = peak_heap_size q"
    "length (heap q2) = length (heap q)" "elements q2 = elements q" "\<forall>a. time (objs q2 a) = time (objs q1 a)"
    "\<forall>a. a \<notin> elements q \<longrightarrow> objs q2 a = objs q a"
    using q2(3) assms(2) by (auto simp: rearranged_def q1_def elements_def members_def)
  have inv2: "pq_inv q2" using q2 same assms(1) by (simp add: pq_inv_def)
  have "time (objs q2 (heap q2 ! 0)) \<le> time (objs q2 e)" using Top_works(5) [OF inv2] assms(2) same(5) by blast
  then have "time (objs q1 (heap q2 ! 0)) = bot" using same(6) by (simp add: q1_def MinimizeTime_def le_bot)
  moreover have "heap q2 ! 0 \<in> elements q" using Top_works(4) [OF inv2] i(1) same(1,5) by simp
  ultimately have top: "heap q2 ! 0 = e" using assms(3) by (auto simp: q1_def split: if_splits)
  obtain q3 where q3: "Remove q2 = Inr (Some e, q3)" "pq_inv q3" "elements q3 = elements q2 - {e}" "same_data q2 q3"
    "\<forall>a. a \<notin> elements q2 \<longrightarrow> objs q3 a = objs q2 a" "offset (objs q3 e) = -1" "max_heap_size q3 = max_heap_size q2"
    "peak_heap_size q3 = peak_heap_size q2"
    using Remove_works [OF inv2] same(1) i(1) top by auto
  have "Remove_element e q = Inr (Some e, q3)"
    using i len q2(1) q3(1) by (simp add: Remove_element_def slot_def q1_def)
  then show ?thesis using q3 same by (auto simp: same_data_def q1_def)
qed

subsection \<open>The contract\<close>

text \<open>
  What a queue promises, over the set of the elements it holds: taking an element out gives one with
  the least time. \<open>pq_step\<close> is a call; an addition has no answer.
\<close>

datatype pq_op = Op_add nat | Op_remove | Op_cancel nat

definition spec_step :: "(nat \<Rightarrow> 't::linorder) \<Rightarrow> pq_op \<Rightarrow> nat set \<Rightarrow> nat option \<Rightarrow> nat set \<Rightarrow> bool" where
  "spec_step T op S r S' =
     (case op of
        Op_add e \<Rightarrow> r = None \<and> S' = insert e S
      | Op_remove \<Rightarrow> if S = {} then r = None \<and> S' = S
                     else \<exists>e \<in> S. r = Some e \<and> S' = S - {e} \<and> (\<forall>a \<in> S. T e \<le> T a)
      | Op_cancel e \<Rightarrow> if e \<in> S then r = Some e \<and> S' = S - {e} else r = None \<and> S' = S)"

fun spec_run :: "(nat \<Rightarrow> 't::linorder) \<Rightarrow> pq_op list \<Rightarrow> nat set \<Rightarrow> nat option list \<Rightarrow> nat set \<Rightarrow> bool" where
  "spec_run T [] S rs S' \<longleftrightarrow> rs = [] \<and> S' = S"
| "spec_run T (op # ops) S rs S' \<longleftrightarrow>
     (\<exists>r rs' S1. rs = r # rs' \<and> spec_step T op S r S1 \<and> spec_run T ops S1 rs' S')"

definition pq_step ::
  "(nat \<Rightarrow> nat) \<Rightarrow> pq_op \<Rightarrow> ('t::{linorder, order_bot}, 'm) pq \<Rightarrow> pq_fault + nat option \<times> ('t, 'm) pq" where
  "pq_step junk op q =
     (case op of
        Op_add e \<Rightarrow> rbind (Add junk e q) (\<lambda>q'. Inr (None, q'))
      | Op_remove \<Rightarrow> Remove q
      | Op_cancel e \<Rightarrow> Remove_element e q)"

fun pq_run ::
  "(nat \<Rightarrow> nat) \<Rightarrow> pq_op list \<Rightarrow> ('t::{linorder, order_bot}, 'm) pq \<Rightarrow> pq_fault + nat option list \<times> ('t, 'm) pq" where
  "pq_run junk [] q = Inr ([], q)"
| "pq_run junk (op # ops) q =
     rbind (pq_step junk op q) (\<lambda>(r, q1). rbind (pq_run junk ops q1) (\<lambda>(rs, q2). Inr (r # rs, q2)))"

fun adds :: "pq_op list \<Rightarrow> nat list" where
  "adds [] = []"
| "adds (Op_add e # ops) = e # adds ops"
| "adds (op # ops) = adds ops"

text \<open>The queue during a run: \<open>T\<close> are the times, \<open>k\<close> is the number of calls that are left.\<close>

definition in_run :: "(nat \<Rightarrow> 't::{linorder, order_bot}) \<Rightarrow> pq_op list \<Rightarrow> ('t, 'm) pq \<Rightarrow> bool" where
  "in_run T ops q \<longleftrightarrow> pq_inv q \<and> distinct (adds ops) \<and> elements q \<inter> set (adds ops) = {} \<and>
     (\<forall>e \<in> elements q \<union> set (adds ops). time (objs q e) = T e \<and> T e \<noteq> bot) \<and>
     peak_heap_size q + length ops < 2 ^ 29 \<and> max_heap_size q < 2 ^ 30"

lemma step_meets_spec:
  assumes "in_run T (op # ops) q"
  shows "\<exists>r q'. pq_step junk op q = Inr (r, q') \<and> spec_step T op (elements q) r (elements q') \<and> in_run T ops q'"
proof (cases op)
  case (Op_add e)
  with assms have a: "pq_inv q" "e \<notin> elements q" "max_heap_size q < 2 ^ 30" by (auto simp: in_run_def)
  obtain q' where q': "Add junk e q = Inr q'" "pq_inv q'" "elements q' = insert e (elements q)" "same_data q q'"
    "peak_heap_size q' = max (heap_size q + 1) (peak_heap_size q)"
    "max_heap_size q' = max_heap_size q \<or> max_heap_size q' = 2 * (heap_size q + 1)"
    using Add_works [OF a] by blast
  have "heap_size q \<le> peak_heap_size q" using a(1) by (simp add: pq_inv_def)
  then have "in_run T ops q'" using assms q' Op_add by (auto simp: in_run_def same_data_def)
  then show ?thesis using q' Op_add by (simp add: pq_step_def spec_step_def)
next
  case Op_remove
  with assms have inv: "pq_inv q" by (simp add: in_run_def)
  show ?thesis
  proof (cases "heap_size q = 0")
    case True
    then have "elements q = {}" using Top_works(1) [OF inv] by simp
    then show ?thesis using True assms Op_remove by (auto simp: pq_step_def spec_step_def Remove_def in_run_def)
  next
    case False
    obtain q' where q': "Remove q = Inr (Some (heap q ! 0), q')" "pq_inv q'" "elements q' = elements q - {heap q ! 0}"
      "same_data q q'" "max_heap_size q' = max_heap_size q" "peak_heap_size q' = peak_heap_size q"
      using Remove_works [OF inv False] by blast
    have "in_run T ops q'" using assms q' Op_remove by (auto simp: in_run_def same_data_def)
    moreover have "T (heap q ! 0) \<le> T a" if "a \<in> elements q" for a
      using Top_works(4,5) [OF inv] False that assms by (auto simp: in_run_def)
    moreover have "heap q ! 0 \<in> elements q" using Top_works(4) [OF inv False] .
    ultimately show ?thesis using q' Op_remove by (auto simp: pq_step_def spec_step_def)
  qed
next
  case (Op_cancel e)
  with assms have inv: "pq_inv q" by (simp add: in_run_def)
  show ?thesis
  proof (cases "e \<in> elements q")
    case True
    have "\<forall>a \<in> elements q. a \<noteq> e \<longrightarrow> time (objs q a) \<noteq> bot" using assms by (simp add: in_run_def)
    then obtain q' where q': "Remove_element e q = Inr (Some e, q')" "pq_inv q'" "elements q' = elements q - {e}"
      "\<forall>a. a \<noteq> e \<longrightarrow> time (objs q' a) = time (objs q a)" "max_heap_size q' = max_heap_size q" "peak_heap_size q' = peak_heap_size q"
      using Remove_element_works [OF inv True] by blast
    have "in_run T ops q'" using assms q' Op_cancel True by (auto simp: in_run_def)
    then show ?thesis using q' Op_cancel True by (simp add: pq_step_def spec_step_def)
  next
    case False
    then show ?thesis using Remove_element_absent [OF inv False] assms Op_cancel
      by (auto simp: pq_step_def spec_step_def in_run_def)
  qed
qed

lemma run_meets_spec:
  assumes "in_run T ops q"
  shows "\<exists>rs q'. pq_run junk ops q = Inr (rs, q') \<and> spec_run T ops (elements q) rs (elements q') \<and> pq_inv q'"
  using assms
proof (induction ops arbitrary: q)
  case Nil
  then show ?case by (simp add: in_run_def)
next
  case (Cons op ops)
  obtain r q1 where 1: "pq_step junk op q = Inr (r, q1)" "spec_step T op (elements q) r (elements q1)" "in_run T ops q1"
    using step_meets_spec [OF Cons.prems] by blast
  obtain rs q2 where "pq_run junk ops q1 = Inr (rs, q2)" "spec_run T ops (elements q1) rs (elements q2)" "pq_inv q2"
    using Cons.IH [OF 1(3)] by blast
  then show ?case using 1 by auto
qed

text \<open>
  C10. The array heap of the network monitor implements a priority queue. From a new queue of any
  positive size, any sequence of fewer than \<open>2 ^ 29\<close> additions, removals of the first element and
  removals of a given element runs without an access outside the array, without an overflow of the
  doubled size and without the internal error of \<^verbatim>\<open>Remove\<close>; every answer is the one of the contract:
  the first element has the least time of all, and an element that is not in the queue is reported as
  such. Each element is added once and its time is not minus infinity.
\<close>

theorem pq_meets_its_contract:
  assumes "0 < initial_size" "initial_size < 2 ^ 30" "length ops < 2 ^ 29"
    and "distinct (adds ops)" "\<forall>e \<in> set (adds ops). time (s e) \<noteq> bot"
  shows "\<exists>answers q'. pq_run junk ops (pq_new initial_size junk0 s) = Inr (answers, q') \<and> pq_inv q' \<and>
    spec_run (\<lambda>e. time (s e)) ops {} answers (elements q')"
proof -
  let ?q = "pq_new initial_size junk0 s"
  have "in_run (\<lambda>e. time (s e)) ops ?q"
    using assms pq_new_inv [of initial_size junk0 s] by (simp add: in_run_def) (simp add: pq_new_def)
  then show ?thesis using run_meets_spec [of "\<lambda>e. time (s e)" ops ?q junk] pq_new_inv(2) [of initial_size junk0 s] by auto
qed

definition example_element :: "nat \<Rightarrow> nat PQ_Element" where
  "example_element e = \<lparr>time = (if e = 7 then 3 else if e = 8 then 1 else 2), offset = -1\<rparr>"

theorem pq_meets_its_contract_witness:
  "\<exists>answers q'. pq_run (\<lambda>_. 0) [Op_add 7, Op_add 8, Op_add 9, Op_cancel 9, Op_remove, Op_remove, Op_remove]
      (pq_new 2 (\<lambda>_. 0) example_element) = Inr (answers, q') \<and> pq_inv q' \<and>
    spec_run (\<lambda>e. time (example_element e)) [Op_add 7, Op_add 8, Op_add 9, Op_cancel 9, Op_remove, Op_remove, Op_remove]
      {} answers (elements q')"
  by (rule pq_meets_its_contract) (simp_all add: example_element_def bot_nat_def)

end
