(* ===== verification/NM_Timer.thy ===== *)
theory NM_Timer
  imports NM_PQueue
begin

section \<open>The network monitor: timers\<close>

text \<open>
  \<^verbatim>\<open>Timer.cc\<close>: the timer manager on top of the priority queue. What a timer does when it is
  dispatched is a virtual method of code elsewhere; it is a parameter \<open>dispatch\<close> that may change the
  manager, which is how a timer arms another one. \<open>timer_log\<close> is the history of dispatches and
  deletions. \<^verbatim>\<open>current_timers\<close> is the static array of counts by type.
\<close>

definition TimerNames :: "string list" where
  "TimerNames =
     [''BackdoorTimer'', ''BreakpointTimer'', ''ConnectionDeleteTimer'', ''ConnectionExpireTimer'',
      ''ConnectionInactivityTimer'', ''ConnectionStatusUpdateTimer'', ''DNSExpireTimer'',
      ''FileAnalysisInactivityTimer'', ''FragTimer'', ''IncrementalSendTimer'', ''IncrementalWriteTimer'',
      ''InterconnTimer'', ''IPTunnelInactivityTimer'', ''NetbiosExpireTimer'', ''NetworkTimer'',
      ''NTPExpireTimer'', ''ProfileTimer'', ''RotateTimer'', ''RemoveConnection'', ''RPCExpireTimer'',
      ''ScheduleTimer'', ''TableValTimer'', ''TCPConnectionAttemptTimer'', ''TCPConnectionDeleteTimer'',
      ''TCPConnectionExpireTimer'', ''TCPConnectionPartialClose'', ''TCPConnectionResetTimer'', ''TriggerTimer'',
      ''TimerMgrExpireTimer'']"

definition NUM_TIMER_TYPES :: nat where "NUM_TIMER_TYPES = 29"

definition timer_type_to_string :: "nat \<Rightarrow> pq_fault + string" where
  "timer_type_to_string type = (if type < length TimerNames then Inr (TimerNames ! type) else Inl Heap_out_of_bounds)"

record 't Timer = "'t PQ_Element" +
  timer_type :: nat

datatype 't timer_event = Dispatched nat 't bool | Deleted nat

record 't PQ_TimerMgr =
  mgr_t :: 't
  last_timestamp :: 't
  last_advance :: 't
  num_expired :: nat
  timers :: "'t Timer PriorityQueue"
  current_timers :: "nat \<Rightarrow> u32"
  timer_log :: "'t timer_event list"

type_synonym 't dispatch = "nat \<Rightarrow> 't \<Rightarrow> bool \<Rightarrow> 't PQ_TimerMgr \<Rightarrow> pq_fault + 't PQ_TimerMgr"

definition PQ_TimerMgr_new :: "(nat \<Rightarrow> nat) \<Rightarrow> (nat \<Rightarrow> 't Timer) \<Rightarrow> ('t::zero) PQ_TimerMgr" where
  "PQ_TimerMgr_new junk s =
     \<lparr>mgr_t = 0, last_timestamp = 0, last_advance = 0, num_expired = 0, timers = pq_new 16 junk s,
      current_timers = (\<lambda>_. 0), timer_log = []\<rparr>"

definition Type_of :: "nat \<Rightarrow> 't PQ_TimerMgr \<Rightarrow> nat" where
  "Type_of e m = timer_type (objs (timers m) e)"

definition count_up :: "nat \<Rightarrow> 't PQ_TimerMgr \<Rightarrow> 't PQ_TimerMgr" where
  "count_up e m = m\<lparr>current_timers := (current_timers m)(Type_of e m := current_timers m (Type_of e m) + 1)\<rparr>"

definition count_down :: "nat \<Rightarrow> 't PQ_TimerMgr \<Rightarrow> 't PQ_TimerMgr" where
  "count_down e m = m\<lparr>current_timers := (current_timers m)(Type_of e m := current_timers m (Type_of e m) - 1)\<rparr>"

definition run_dispatch :: "'t dispatch \<Rightarrow> nat \<Rightarrow> 't \<Rightarrow> bool \<Rightarrow> 't PQ_TimerMgr \<Rightarrow> pq_fault + 't PQ_TimerMgr" where
  "run_dispatch dispatch e t is_expire m =
     dispatch e t is_expire (m\<lparr>timer_log := timer_log m @ [Dispatched e t is_expire]\<rparr>)"

definition delete_timer :: "nat \<Rightarrow> 't PQ_TimerMgr \<Rightarrow> 't PQ_TimerMgr" where
  "delete_timer e m = m\<lparr>timer_log := timer_log m @ [Deleted e]\<rparr>"

subsection \<open>Operations\<close>

definition mgr_Add :: "(nat \<Rightarrow> nat) \<Rightarrow> nat \<Rightarrow> ('t::linorder) PQ_TimerMgr \<Rightarrow> pq_fault + 't PQ_TimerMgr" where
  "mgr_Add junk timer m = rbind (Add junk timer (timers m)) (\<lambda>q. Inr (count_up timer (m\<lparr>timers := q\<rparr>)))"

definition mgr_Remove :: "('t::linorder) PQ_TimerMgr \<Rightarrow> pq_fault + nat option \<times> 't PQ_TimerMgr" where
  "mgr_Remove m = rbind (Remove (timers m)) (\<lambda>(e, q). Inr (e, m\<lparr>timers := q\<rparr>))"

definition mgr_Cancel :: "nat \<Rightarrow> ('t::{linorder, order_bot}) PQ_TimerMgr \<Rightarrow> pq_fault + 't PQ_TimerMgr" where
  "mgr_Cancel timer m =
     rbind (Remove_element timer (timers m)) (\<lambda>(e, q).
     if e = None then Inl Internal_error
     else Inr (delete_timer timer (count_down timer (m\<lparr>timers := q\<rparr>))))"

text \<open>The test of the loop of \<^verbatim>\<open>DoAdvance\<close>: the timer that the next turn takes.\<close>

definition advance_ready :: "nat \<Rightarrow> 't \<Rightarrow> ('t::linorder) PQ_TimerMgr \<Rightarrow> pq_fault + nat option" where
  "advance_ready max_expire new_t m =
     rbind (Top (timers m)) (\<lambda>top.
     Inr (case top of
            None \<Rightarrow> None
          | Some timer \<Rightarrow>
              if (num_expired m < max_expire \<or> max_expire = 0) \<and> time (objs (timers m) timer) \<le> new_t then Some timer
              else None))"

definition advance_body :: "'t dispatch \<Rightarrow> 't \<Rightarrow> nat \<Rightarrow> ('t::linorder) PQ_TimerMgr \<Rightarrow> pq_fault + 't PQ_TimerMgr" where
  "advance_body dispatch new_t timer m =
     (let m1 = count_down timer (m\<lparr>last_timestamp := time (objs (timers m) timer)\<rparr>) in
      rbind (mgr_Remove m1) (\<lambda>(_, m2).
      rbind (run_dispatch dispatch timer new_t False m2) (\<lambda>m3.
      let m4 = delete_timer timer m3 in Inr (m4\<lparr>num_expired := num_expired m4 + 1\<rparr>))))"

partial_function (option) advance_loop ::
  "('t::linorder) dispatch \<Rightarrow> nat \<Rightarrow> 't \<Rightarrow> 't PQ_TimerMgr \<Rightarrow> (pq_fault + 't PQ_TimerMgr) option" where
  "advance_loop dispatch max_expire new_t m =
     (case advance_ready max_expire new_t m of
        Inl f \<Rightarrow> Some (Inl f)
      | Inr None \<Rightarrow> Some (Inr m)
      | Inr (Some timer) \<Rightarrow>
          (case advance_body dispatch new_t timer m of
             Inl f \<Rightarrow> Some (Inl f)
           | Inr m' \<Rightarrow> advance_loop dispatch max_expire new_t m'))"

definition DoAdvance ::
  "('t::linorder) dispatch \<Rightarrow> 't \<Rightarrow> nat \<Rightarrow> 't PQ_TimerMgr \<Rightarrow> (pq_fault + nat \<times> 't PQ_TimerMgr) option" where
  "DoAdvance dispatch new_t max_expire m =
     map_option (\<lambda>r. rbind r (\<lambda>m'. Inr (num_expired m', m')))
       (advance_loop dispatch max_expire new_t (m\<lparr>num_expired := 0\<rparr>))"

text \<open>\<open>global_time\<close> is \<^verbatim>\<open>timer_mgr->Time()\<close>, the time of the manager of the whole program.\<close>

definition mgr_Time :: "'t PQ_TimerMgr \<Rightarrow> 't::{zero, one}" where
  "mgr_Time m = (if mgr_t m \<noteq> 0 then mgr_t m else 1)"

definition Advance ::
  "('t::{linorder, zero}) dispatch \<Rightarrow> 't \<Rightarrow> 't \<Rightarrow> nat \<Rightarrow> 't PQ_TimerMgr \<Rightarrow> (pq_fault + nat \<times> 't PQ_TimerMgr) option" where
  "Advance dispatch global_time arg_t max_expire m =
     DoAdvance dispatch arg_t max_expire
       (m\<lparr>mgr_t := arg_t, last_timestamp := 0, num_expired := 0, last_advance := global_time\<rparr>)"

text \<open>The loop of \<^verbatim>\<open>Expire\<close> removes in its test and counts down after the dispatch.\<close>

partial_function (option) Expire :: "('t::linorder) dispatch \<Rightarrow> 't PQ_TimerMgr \<Rightarrow> (pq_fault + 't PQ_TimerMgr) option" where
  "Expire dispatch m =
     (case mgr_Remove m of
        Inl f \<Rightarrow> Some (Inl f)
      | Inr (None, m1) \<Rightarrow> Some (Inr m1)
      | Inr (Some timer, m1) \<Rightarrow>
          (case run_dispatch dispatch timer (mgr_t m1) True m1 of
             Inl f \<Rightarrow> Some (Inl f)
           | Inr m2 \<Rightarrow> Expire dispatch (delete_timer timer (count_down timer m2))))"

subsection \<open>Loops that take the least first\<close>

text \<open>
  Both loops of the manager have the same shape: while something is pending, take the first of it. The
  contract of one turn is the locale; what follows for the whole loop is proved once.
\<close>

fun loop_runs :: "('s \<Rightarrow> 'f + nat option) \<Rightarrow> (nat \<Rightarrow> 's \<Rightarrow> 'f + 's) \<Rightarrow> nat list \<Rightarrow> 's \<Rightarrow> 's \<Rightarrow> bool" where
  "loop_runs ready body [] s s' \<longleftrightarrow> ready s = Inr None \<and> s' = s"
| "loop_runs ready body (e # es) s s' \<longleftrightarrow>
     ready s = Inr (Some e) \<and> (\<exists>s1. body e s = Inr s1 \<and> loop_runs ready body es s1 s')"

locale least_first =
  fixes ready :: "'s \<Rightarrow> 'f + nat option"
    and body :: "nat \<Rightarrow> 's \<Rightarrow> 'f + 's"
    and inv :: "'s \<Rightarrow> bool"
    and pending :: "'s \<Rightarrow> nat set"
    and rank :: "'s \<Rightarrow> nat \<Rightarrow> 't::linorder"
    and log :: "'s \<Rightarrow> 'x list"
    and entry :: "nat \<Rightarrow> 'x list"
  assumes finite_pending: "inv s \<Longrightarrow> finite (pending s)"
    and nothing_pending: "inv s \<Longrightarrow> pending s = {} \<Longrightarrow> ready s = Inr None"
    and some_pending: "inv s \<Longrightarrow> pending s \<noteq> {} \<Longrightarrow>
      \<exists>e \<in> pending s. ready s = Inr (Some e) \<and> (\<forall>a \<in> pending s. rank s e \<le> rank s a)"
    and body_takes: "inv s \<Longrightarrow> ready s = Inr (Some e) \<Longrightarrow> e \<in> pending s \<Longrightarrow>
      \<exists>s'. body e s = Inr s' \<and> inv s' \<and> pending s' = pending s - {e} \<and>
        (\<forall>a \<in> pending s'. rank s' a = rank s a) \<and> log s' = log s @ entry e"
begin

lemma drains:
  assumes "inv s"
  shows "\<exists>es s'. loop_runs ready body es s s' \<and> inv s' \<and> pending s' = {} \<and> set es = pending s \<and> distinct es \<and>
    sorted (map (rank s) es) \<and> log s' = log s @ concat (map entry es)"
  using assms
proof (induction "card (pending s)" arbitrary: s)
  case 0
  then have "pending s = {}" using finite_pending by simp
  then show ?case using nothing_pending [OF 0(2)] 0(2) by (intro exI [of _ "[]"]) simp
next
  case (Suc k)
  then have "pending s \<noteq> {}" by auto
  then obtain e where e: "e \<in> pending s" "ready s = Inr (Some e)" "\<forall>a \<in> pending s. rank s e \<le> rank s a"
    using some_pending [OF Suc.prems] by blast
  obtain s1 where s1: "body e s = Inr s1" "inv s1" "pending s1 = pending s - {e}"
    "\<forall>a \<in> pending s1. rank s1 a = rank s a" "log s1 = log s @ entry e"
    using body_takes [OF Suc.prems e(2,1)] by blast
  have "k = card (pending s1)" using Suc.hyps(2) e(1) finite_pending [OF Suc.prems] s1(3) by simp
  then obtain es s' where es: "loop_runs ready body es s1 s'" "inv s'" "pending s' = {}" "set es = pending s1"
    "distinct es" "sorted (map (rank s1) es)" "log s' = log s1 @ concat (map entry es)"
    using Suc.hyps(1) [of s1] s1(2) by blast
  have "map (rank s1) es = map (rank s) es" by (rule map_cong) (use s1(4) es(4) in simp_all)
  then have "sorted (map (rank s) es)" using es(6) by (simp only:)
  then show ?case using e s1 es by (intro exI [of _ "e # es"] exI [of _ s']) auto
qed

end

lemma advance_loop_runs:
  assumes "loop_runs (advance_ready max_expire new_t) (advance_body dispatch new_t) es m m'"
  shows "advance_loop dispatch max_expire new_t m = Some (Inr m')"
  using assms by (induction es arbitrary: m) (auto simp: advance_loop.simps [of _ _ _ m for m])

subsection \<open>Advancing the clock\<close>

abbreviation armed :: "'t PQ_TimerMgr \<Rightarrow> nat set" where
  "armed m \<equiv> elements (timers m)"

abbreviation due :: "'t PQ_TimerMgr \<Rightarrow> nat \<Rightarrow> 't" where
  "due m e \<equiv> time (objs (timers m) e)"

text \<open>By how much the count of a type exceeds the number of timers of that type that are armed.\<close>

definition excess :: "'t PQ_TimerMgr \<Rightarrow> nat \<Rightarrow> u32" where
  "excess m k = current_timers m k - of_nat (card {e \<in> armed m. Type_of e m = k})"

definition mgr_inv :: "('t::linorder) PQ_TimerMgr \<Rightarrow> bool" where
  "mgr_inv m \<longleftrightarrow> pq_inv (timers m) \<and> excess m = (\<lambda>_. 0)"

text \<open>
  What a dispatch at time \<open>t\<close> may do: arm more timers, all of them for later. It neither touches the
  timers that are armed nor the one that is dispatched, and does not advance the clock.
\<close>

definition arms_later :: "('t::linorder) dispatch \<Rightarrow> 't \<Rightarrow> bool \<Rightarrow> bool" where
  "arms_later dispatch t is_expire \<longleftrightarrow>
     (\<forall>e m. pq_inv (timers m) \<and> e \<notin> armed m \<longrightarrow>
        (\<exists>m'. dispatch e t is_expire m = Inr m' \<and> pq_inv (timers m') \<and> armed m \<subseteq> armed m' \<and> e \<notin> armed m' \<and>
           (\<forall>a \<in> armed m. due m' a = due m a) \<and> (\<forall>a \<in> armed m' - armed m. t < due m' a) \<and>
           Type_of e m' = Type_of e m \<and> excess m' = excess m \<and> num_expired m' = num_expired m \<and> mgr_t m' = mgr_t m \<and>
           timer_log m' = timer_log m))"

lemma excess_removed:
  assumes "pq_inv (timers m)" "e \<in> armed m" "armed m' = armed m - {e}" "current_timers m' = current_timers m"
    "\<forall>a. Type_of a m' = Type_of a m"
  shows "excess m' = (excess m)(Type_of e m := excess m (Type_of e m) + 1)"
proof
  fix k
  let ?S = "{a \<in> armed m. Type_of a m = k}"
  have fin: "finite ?S" using card_elements(2) [of "timers m"] by simp
  have "{a \<in> armed m'. Type_of a m' = k} = ?S - {e}" using assms(3,5) by auto
  moreover have "of_nat (card (?S - {e})) = (of_nat (card ?S) - 1 :: u32)" if "Type_of e m = k"
  proof -
    have "card ?S = Suc (card (?S - {e}))" by (rule card.remove [OF fin]) (use that assms(2) in simp)
    then show ?thesis by simp
  qed
  ultimately show "excess m' k = ((excess m)(Type_of e m := excess m (Type_of e m) + 1)) k"
    using assms(4) by (cases "Type_of e m = k") (simp_all add: excess_def)
qed

lemma mgr_Remove_works:
  assumes "pq_inv (timers m)" "Top (timers m) = Inr (Some e)"
  shows "\<exists>m'. mgr_Remove m = Inr (Some e, m') \<and> pq_inv (timers m') \<and> e \<in> armed m \<and> armed m' = armed m - {e} \<and>
    (\<forall>a. due m' a = due m a \<and> Type_of a m' = Type_of a m) \<and> m' = m\<lparr>timers := timers m'\<rparr>"
proof -
  have n: "heap_size (timers m) \<noteq> 0" "heap (timers m) ! 0 = e"
    using assms(2) Top_works(2,3) [OF assms(1)] by auto
  obtain q' where q': "Remove (timers m) = Inr (Some e, q')" "pq_inv q'" "elements q' = armed m - {e}" "same_data (timers m) q'"
    using Remove_works [OF assms(1) n(1)] n(2) by auto
  have "timer_type (objs q' a) = timer_type (objs (timers m) a)" for a
  proof -
    have "PQ_Element.more (objs q' a) = PQ_Element.more (objs (timers m) a)" using q'(4) by (simp add: same_data_def)
    then show ?thesis by (cases "objs q' a"; cases "objs (timers m) a") simp
  qed
  then show ?thesis
    using q' Top_works(4) [OF assms(1) n(1)] n(2)
    by (intro exI [of _ "m\<lparr>timers := q'\<rparr>"]) (simp add: mgr_Remove_def Type_of_def same_data_def)
qed

lemma advance_body_works:
  assumes "mgr_inv m" "Top (timers m) = Inr (Some e)" "arms_later dispatch new_t False"
  shows "\<exists>m'. advance_body dispatch new_t e m = Inr m' \<and> mgr_inv m' \<and> armed m - {e} \<subseteq> armed m' \<and> e \<notin> armed m' \<and>
    (\<forall>a \<in> armed m - {e}. due m' a = due m a) \<and> (\<forall>a \<in> armed m' - armed m. new_t < due m' a) \<and>
    num_expired m' = num_expired m + 1 \<and> timer_log m' = timer_log m @ [Dispatched e new_t False, Deleted e]"
proof -
  define m1 where "m1 = count_down e (m\<lparr>last_timestamp := due m e\<rparr>)"
  have inv1: "pq_inv (timers m1)" "Top (timers m1) = Inr (Some e)"
    using assms(1,2) by (simp_all add: m1_def count_down_def mgr_inv_def)
  obtain m2 where m2: "mgr_Remove m1 = Inr (Some e, m2)" "pq_inv (timers m2)" "e \<in> armed m1" "armed m2 = armed m1 - {e}"
    "\<forall>a. due m2 a = due m1 a \<and> Type_of a m2 = Type_of a m1" "m2 = m1\<lparr>timers := timers m2\<rparr>"
    using mgr_Remove_works [OF inv1] by blast
  define m2' where "m2' = m2\<lparr>timer_log := timer_log m2 @ [Dispatched e new_t False]\<rparr>"
  have "pq_inv (timers m2')" "e \<notin> armed m2'" using m2 by (simp_all add: m2'_def)
  then obtain m3 where m3: "dispatch e new_t False m2' = Inr m3" "pq_inv (timers m3)" "armed m2' \<subseteq> armed m3" "e \<notin> armed m3"
    "\<forall>a \<in> armed m2'. due m3 a = due m2' a" "\<forall>a \<in> armed m3 - armed m2'. new_t < due m3 a"
    "excess m3 = excess m2'" "num_expired m3 = num_expired m2'" "timer_log m3 = timer_log m2'"
    using assms(3) unfolding arms_later_def by blast
  define m' where "m' = (delete_timer e m3)\<lparr>num_expired := num_expired m3 + 1\<rparr>"
  have "current_timers m2 = current_timers m1" by (subst m2(6)) simp
  then have "excess m2 = (excess m1)(Type_of e m1 := excess m1 (Type_of e m1) + 1)"
    using excess_removed [OF inv1(1) m2(3,4)] m2(5) by blast
  moreover have "excess m1 = (excess m)(Type_of e m := excess m (Type_of e m) - 1)" "Type_of e m1 = Type_of e m"
    by (auto simp: excess_def m1_def count_down_def Type_of_def fun_eq_iff)
  ultimately have "excess m2 = (\<lambda>_. 0)" using assms(1) by (auto simp: mgr_inv_def fun_eq_iff)
  moreover have "excess m2' = excess m2" "excess m' = excess m3"
    by (simp_all add: excess_def [abs_def] m2'_def m'_def delete_timer_def Type_of_def)
  ultimately have "mgr_inv m'" using m3 by (simp add: mgr_inv_def) (simp add: m'_def delete_timer_def)
  moreover have "advance_body dispatch new_t e m = Inr m'"
    using m2(1) m3(1) by (simp add: advance_body_def m1_def [symmetric] run_dispatch_def m2'_def m'_def delete_timer_def Let_def)
  moreover have "armed m1 = armed m" "\<forall>a. due m1 a = due m a" "num_expired m2 = num_expired m" "timer_log m2 = timer_log m"
    by (simp_all add: m1_def count_down_def) (subst m2(6), simp add: m1_def count_down_def)+
  ultimately show ?thesis
    using m2 m3 by (intro exI [of _ m']) (auto simp: m'_def m2'_def delete_timer_def)
qed

definition expired :: "'t::linorder \<Rightarrow> 't PQ_TimerMgr \<Rightarrow> nat set" where
  "expired t m = {e \<in> armed m. due m e \<le> t}"

interpretation adv: least_first "advance_ready 0 new_t" "advance_body dispatch new_t"
  "\<lambda>m. mgr_inv m \<and> arms_later dispatch new_t False \<and> num_expired m + card (expired new_t m) = n"
  "expired new_t" due timer_log "\<lambda>e. [Dispatched e new_t False, Deleted e]"
  for dispatch and new_t :: "'t::linorder" and n
proof (unfold_locales, goal_cases)
  case (1 m)
  then show ?case by (simp add: expired_def card_elements(2))
next
  case (2 m)
  then have inv: "pq_inv (timers m)" by (simp add: mgr_inv_def)
  show ?case
    using Top_works [OF inv] 2 by (cases "heap_size (timers m) = 0") (auto simp: advance_ready_def expired_def)
next
  case (3 m)
  then have inv: "pq_inv (timers m)" by (simp add: mgr_inv_def)
  let ?e = "heap (timers m) ! 0"
  have "heap_size (timers m) \<noteq> 0" using 3 Top_works(1) [OF inv] by (auto simp: expired_def)
  moreover obtain a where "a \<in> armed m" "due m a \<le> new_t" using 3 by (auto simp: expired_def)
  then have "due m ?e \<le> new_t" using Top_works(5) [OF inv] by force
  ultimately show ?case
    using Top_works(3-5) [OF inv] by (intro bexI [of _ ?e]) (auto simp: advance_ready_def expired_def)
next
  case (4 m e)
  then have inv: "mgr_inv m" and top: "Top (timers m) = Inr (Some e)"
    by (auto simp: advance_ready_def rbind_eq_Inr split: option.splits if_splits)
  obtain m' where m': "advance_body dispatch new_t e m = Inr m'" "mgr_inv m'" "armed m - {e} \<subseteq> armed m'" "e \<notin> armed m'"
    "\<forall>a \<in> armed m - {e}. due m' a = due m a" "\<forall>a \<in> armed m' - armed m. new_t < due m' a"
    "num_expired m' = num_expired m + 1" "timer_log m' = timer_log m @ [Dispatched e new_t False, Deleted e]"
    using advance_body_works [OF inv top] 4 by blast
  have exp: "expired new_t m' = expired new_t m - {e}"
  proof (rule set_eqI)
    fix x
    have "\<not> due m' x \<le> new_t" if "x \<in> armed m'" "x \<notin> armed m" using m'(6) that by (simp add: not_le)
    then show "x \<in> expired new_t m' \<longleftrightarrow> x \<in> expired new_t m - {e}"
      using m'(3-5) by (cases "x \<in> armed m"; cases "x = e") (auto simp: expired_def)
  qed
  moreover have "card (expired new_t m) = Suc (card (expired new_t m'))"
    unfolding exp by (rule card.remove) (use 4 card_elements(2) [of "timers m"] in \<open>simp_all add: expired_def\<close>)
  moreover have "\<forall>a \<in> expired new_t m'. due m' a = due m a"
    using m'(5) exp by (auto simp: expired_def)
  ultimately show ?case using m' 4 by auto
qed


definition quiet_dispatch :: "'t dispatch" where
  "quiet_dispatch e t is_expire m = Inr m"

definition example_mgr :: "nat PQ_TimerMgr" where
  "example_mgr =
     \<lparr>mgr_t = 1, last_timestamp = 0, last_advance = 0, num_expired = 0,
      timers = \<lparr>heap = [0, 1, 0], heap_size = 2, peak_heap_size = 2, max_heap_size = 3,
                objs = (\<lambda>e. \<lparr>time = 10 * e, offset = int e, timer_type = e\<rparr>)\<rparr>,
      current_timers = (\<lambda>k. if k < 2 then 1 else 0), timer_log = []\<rparr>"

lemma example_mgr_inv: "mgr_inv example_mgr"
proof -
  have "{e. (e = 0 \<or> e = Suc 0) \<and> e = k} = (if k < 2 then {k} else {})" for k :: nat by auto
  then have "excess example_mgr = (\<lambda>_. 0)"
    by (auto simp: excess_def example_mgr_def elements_def members_def Type_of_def numeral_2_eq_2 fun_eq_iff)
  then show ?thesis
    by (auto simp: mgr_inv_def pq_inv_def example_mgr_def placed_def ordered_def key_def less_Suc_eq numeral_2_eq_2)
qed


lemma advance_loop_limit:
  assumes "0 < max_expire" "\<forall>e m m'. dispatch e new_t False m = Inr m' \<longrightarrow> num_expired m' = num_expired m" "num_expired m \<le> max_expire"
  shows "\<exists>r. advance_loop dispatch max_expire new_t m = Some r \<and> (\<forall>m'. r = Inr m' \<longrightarrow> num_expired m' \<le> max_expire)"
  using assms(3)
proof (induction "max_expire - num_expired m" arbitrary: m rule: less_induct)
  case less
  note unfold = advance_loop.simps [of dispatch max_expire new_t m]
  show ?case
  proof (cases "advance_ready max_expire new_t m")
    case (Inr top)
    show ?thesis
    proof (cases top)
      case (Some e)
      have lt: "num_expired m < max_expire"
        using Inr Some assms(1) by (auto simp: advance_ready_def rbind_eq_Inr split: option.splits if_splits)
      show ?thesis
      proof (cases "advance_body dispatch new_t e m")
        case (Inr m')
        then have "num_expired m' = num_expired m + 1"
          using assms(2) by (auto simp: advance_body_def Let_def mgr_Remove_def count_down_def run_dispatch_def delete_timer_def rbind_eq_Inr)
        then have "max_expire - num_expired m' < max_expire - num_expired m" "num_expired m' \<le> max_expire" using lt by auto
        then show ?thesis using less.hyps [of m'] unfold Inr \<open>advance_ready max_expire new_t m = Inr top\<close> Some by simp
      qed (use unfold Inr Some in simp)
    qed (use unfold Inr less.prems in simp)
  qed (use unfold in simp)
qed

text \<open>
  C21. With a limit, advancing the clock always returns, whatever the dispatched timers do (they may arm
  others for the past, again and again), unless one of them advances the clock itself; and it dispatches
  no more timers than the limit.
\<close>

theorem limited_advance_returns:
  assumes "0 < max_expire" "\<forall>e m m'. dispatch e new_t False m = Inr m' \<longrightarrow> num_expired m' = num_expired m"
  shows "\<exists>r. DoAdvance dispatch new_t max_expire m = Some r \<and> (\<forall>n m'. r = Inr (n, m') \<longrightarrow> n \<le> max_expire)"
proof -
  obtain r where "advance_loop dispatch max_expire new_t (m\<lparr>num_expired := 0\<rparr>) = Some r" "\<forall>m'. r = Inr m' \<longrightarrow> num_expired m' \<le> max_expire"
    using advance_loop_limit [where max_expire = max_expire and dispatch = dispatch and new_t = new_t and m = "m\<lparr>num_expired := 0\<rparr>"] assms by auto
  then show ?thesis by (auto simp: DoAdvance_def rbind_eq_Inr)
qed

definition again_dispatch :: "nat dispatch" where
  "again_dispatch e t is_expire m = mgr_Add (\<lambda>_. 0) e m"

theorem limited_advance_returns_witness:
  "\<exists>r. DoAdvance again_dispatch 5 100 example_mgr = Some r \<and>
    (\<forall>n m'. r = Inr (n, m') \<longrightarrow> n \<le> 100)"
  by (rule limited_advance_returns) (auto simp: again_dispatch_def mgr_Add_def count_up_def rbind_eq_Inr)

subsection \<open>Expiring every timer\<close>

definition expire_body :: "'t dispatch \<Rightarrow> nat \<Rightarrow> ('t::linorder) PQ_TimerMgr \<Rightarrow> pq_fault + 't PQ_TimerMgr" where
  "expire_body dispatch timer m =
     rbind (mgr_Remove m) (\<lambda>(_, m1).
     rbind (run_dispatch dispatch timer (mgr_t m1) True m1) (\<lambda>m2. Inr (delete_timer timer (count_down timer m2))))"

lemma Expire_unfold:
  assumes "pq_inv (timers m)"
  shows "Expire dispatch m =
    (case Top (timers m) of
       Inl f \<Rightarrow> Some (Inl f)
     | Inr None \<Rightarrow> Some (Inr m)
     | Inr (Some e) \<Rightarrow> (case expire_body dispatch e m of Inl f \<Rightarrow> Some (Inl f) | Inr m' \<Rightarrow> Expire dispatch m'))"
proof (cases "heap_size (timers m) = 0")
  case True
  then show ?thesis
    by (simp add: Expire.simps [of dispatch m] mgr_Remove_def Remove_def Top_def)
next
  case False
  then have top: "Top (timers m) = Inr (Some (heap (timers m) ! 0))" using Top_works(3) [OF assms] by simp
  then show ?thesis
    using mgr_Remove_works [OF assms top]
    by (auto simp: Expire.simps [of dispatch m] expire_body_def split: sum.splits)
qed

text \<open>A dispatch that arms nothing.\<close>

definition arms_nothing :: "('t::linorder) dispatch \<Rightarrow> 't \<Rightarrow> bool" where
  "arms_nothing dispatch t \<longleftrightarrow>
     arms_later dispatch t True \<and> (\<forall>e m m'. dispatch e t True m = Inr m' \<longrightarrow> armed m' = armed m)"

interpretation exp: least_first "\<lambda>m. Top (timers m)" "expire_body dispatch"
  "\<lambda>m. mgr_inv m \<and> arms_nothing dispatch t \<and> mgr_t m = t" armed due timer_log "\<lambda>e. [Dispatched e t True, Deleted e]"
  for dispatch and t :: "'t::linorder"
proof (unfold_locales, goal_cases)
  case (1 m)
  then show ?case by (simp add: card_elements(2))
next
  case (2 m)
  then show ?case using Top_works(1,2) [of "timers m"] by (simp add: mgr_inv_def)
next
  case (3 m)
  then have inv: "pq_inv (timers m)" by (simp add: mgr_inv_def)
  have "heap_size (timers m) \<noteq> 0" using 3 Top_works(1) [OF inv] by auto
  then show ?case using Top_works(3-5) [OF inv] by auto
next
  case (4 m e)
  then have inv: "pq_inv (timers m)" and arm: "arms_later dispatch t True" and t: "mgr_t m = t"
    by (simp_all add: mgr_inv_def arms_nothing_def)
  obtain m1 where m1: "mgr_Remove m = Inr (Some e, m1)" "pq_inv (timers m1)" "e \<in> armed m" "armed m1 = armed m - {e}"
    "\<forall>a. due m1 a = due m a \<and> Type_of a m1 = Type_of a m" "m1 = m\<lparr>timers := timers m1\<rparr>"
    using mgr_Remove_works [OF inv 4(2)] by blast
  define m1' where "m1' = m1\<lparr>timer_log := timer_log m1 @ [Dispatched e t True]\<rparr>"
  have "pq_inv (timers m1')" "e \<notin> armed m1'" using m1 by (simp_all add: m1'_def)
  then obtain m2 where m2: "dispatch e t True m1' = Inr m2" "pq_inv (timers m2)" "\<forall>a \<in> armed m1'. due m2 a = due m1' a"
    "Type_of e m2 = Type_of e m1'" "excess m2 = excess m1'" "mgr_t m2 = mgr_t m1'" "timer_log m2 = timer_log m1'"
    using arm unfolding arms_later_def by blast
  have armed2: "armed m2 = armed m - {e}" using 4(1) m2(1) m1(4) by (auto simp: arms_nothing_def m1'_def)
  define m' where "m' = delete_timer e (count_down e m2)"
  have "current_timers m1 = current_timers m" "mgr_t m1 = t" "timer_log m1 = timer_log m"
    using t by (subst m1(6); simp)+
  then have ex1: "excess m1 = (\<lambda>_. 0)(Type_of e m := 1)" and data: "mgr_t m1' = t" "timer_log m1' = timer_log m @ [Dispatched e t True]"
    using excess_removed [OF inv m1(3,4)] m1(5) 4(1) by (simp_all add: mgr_inv_def m1'_def)
  have "excess m' = (excess m2)(Type_of e m2 := excess m2 (Type_of e m2) - 1)"
    by (auto simp: excess_def m'_def delete_timer_def count_down_def Type_of_def fun_eq_iff)
  also have "excess m2 = excess m1" using m2(5) by (simp add: excess_def [abs_def] m1'_def Type_of_def)
  also have "Type_of e m2 = Type_of e m" using m2(4) m1(5) by (simp add: m1'_def Type_of_def)
  finally have "excess m' = (\<lambda>_. 0)" using ex1 by auto
  then have "mgr_inv m'" using m2(2) by (simp add: mgr_inv_def) (simp add: m'_def delete_timer_def count_down_def)
  moreover have "expire_body dispatch e m = Inr m'"
    using m1(1) m2(1) \<open>mgr_t m1 = t\<close> by (simp add: expire_body_def run_dispatch_def m1'_def m'_def)
  moreover have "mgr_t m' = t" "timer_log m' = timer_log m @ [Dispatched e t True, Deleted e]" "armed m' = armed m - {e}"
    "\<forall>a \<in> armed m'. due m' a = due m a"
    using m2 data armed2 m1(4,5) by (simp_all add: m'_def delete_timer_def count_down_def m1'_def)
  ultimately show ?case using 4(1) by blast
qed

lemma Expire_runs:
  assumes "loop_runs (\<lambda>m. Top (timers m)) (expire_body dispatch) es m m'" "mgr_inv m" "arms_nothing dispatch (mgr_t m)"
  shows "Expire dispatch m = Some (Inr m')"
  using assms
proof (induction es arbitrary: m)
  case Nil
  then show ?case using Expire_unfold [of m dispatch] by (simp add: mgr_inv_def)
next
  case (Cons e es)
  then have inv: "pq_inv (timers m)" by (simp add: mgr_inv_def)
  then have "e \<in> armed m" using Cons.prems(1) Top_works(2-4) [OF inv] by (cases "heap_size (timers m) = 0") auto
  then obtain m1 where m1: "expire_body dispatch e m = Inr m1" "mgr_inv m1" "arms_nothing dispatch (mgr_t m)" "mgr_t m1 = mgr_t m"
    using exp.body_takes [where dispatch = dispatch and t = "mgr_t m" and s = m and e = e] Cons.prems by auto
  then show ?case using Cons Expire_unfold [OF inv, of dispatch] by simp
qed

lemma expire_dispatches_all:
  assumes "mgr_inv m" "arms_nothing dispatch (mgr_t m)"
  shows "\<exists>es m'. Expire dispatch m = Some (Inr m') \<and> mgr_inv m' \<and> armed m' = {} \<and> set es = armed m \<and> distinct es \<and>
    sorted (map (due m) es) \<and> timer_log m' = timer_log m @ concat (map (\<lambda>e. [Dispatched e (mgr_t m) True, Deleted e]) es)"
proof -
  obtain es m' where "loop_runs (\<lambda>m. Top (timers m)) (expire_body dispatch) es m m'" "mgr_inv m'" "armed m' = {}" "set es = armed m"
    "distinct es" "sorted (map (due m) es)" "timer_log m' = timer_log m @ concat (map (\<lambda>e. [Dispatched e (mgr_t m) True, Deleted e]) es)"
    using exp.drains [where dispatch = dispatch and t = "mgr_t m" and s = m] assms by auto
  then show ?thesis using Expire_runs assms by blast
qed

end
