(* ===== verification/NM_Reassem.thy ===== *)
theory NM_Reassem
  imports KF_Prelude
begin

section \<open>The network monitor: the reassembler\<close>

text \<open>
  \<^verbatim>\<open>Reassem.cc\<close> of the network monitor: blocks of a byte stream that arrive in any order, with holes
  and overlaps. The doubly linked list of blocks is a HOL list; a block has an identity, so that
  \<^verbatim>\<open>last_block\<close> is a pointer of its own, and a pointer to a block that is no longer in the list is
  dangling. The subclasses for TCP and for IP fragments extend the record and supply the virtual
  methods, which are parameters here.

  Sequence numbers are relative to the start of the stream. They are 64 bits wide; a block that ends
  at \<open>2 ^ 64\<close> or behind is not followed any further (\<open>LengthError\<close>).
\<close>

subsection \<open>Blocks\<close>

record DataBlock =
  db_id :: nat
  db_seq :: nat
  db_block :: "u8 list"

definition db_upper :: "DataBlock \<Rightarrow> nat" where
  "db_upper b = db_seq b + length (db_block b)"

record Reassembler =
  blocks :: "DataBlock list"
  last_block :: "nat option"
  last_reassem_seq :: nat
  trim_seq :: nat
  next_id :: nat

definition Reassembler_init :: "nat \<Rightarrow> Reassembler" where
  "Reassembler_init init_seq =
     \<lparr>blocks = [], last_block = None, last_reassem_seq = init_seq, trim_seq = init_seq, next_id = 0\<rparr>"

text \<open>The place of the block that a pointer points to.\<close>

definition block_at :: "nat \<Rightarrow> DataBlock list \<Rightarrow> nat res" where
  "block_at p bs =
     (let i = length (takeWhile (\<lambda>b. db_id b \<noteq> p) bs) in if i < length bs then Inr i else Inl UseAfterFree)"

text \<open>\<^verbatim>\<open>new DataBlock\<close> in front of place \<open>k\<close>; \<open>chop\<close> says that it has no successor.\<close>

definition new_block ::
  "nat \<Rightarrow> bool \<Rightarrow> u8 list \<Rightarrow> nat \<Rightarrow> nat \<Rightarrow> 'x Reassembler_scheme \<Rightarrow> 'x Reassembler_scheme res" where
  "new_block k chop data len seq s =
     (if len > length data then Inl OutOfBounds
      else let b = \<lparr>db_id = next_id s, db_seq = seq, db_block = take len data\<rparr>
           in Inr (s\<lparr>blocks := take k (blocks s) @ b # (if chop then [] else drop k (blocks s)), next_id := next_id s + 1\<rparr>))"

type_synonym 'x overlap = "u8 list \<Rightarrow> u8 list \<Rightarrow> 'x Reassembler_scheme \<Rightarrow> 'x Reassembler_scheme"

subsection \<open>Inserting data\<close>

fun skip_before :: "DataBlock list \<Rightarrow> nat \<Rightarrow> nat \<Rightarrow> nat" where
  "skip_before (b # b' # bs) seq k = (if db_upper b \<le> seq then skip_before (b' # bs) seq (k + 1) else k)"
| "skip_before bs seq k = k"

text \<open>The special check for the common case; \<open>None\<close> when it does not apply.\<close>

definition append_last ::
  "nat \<Rightarrow> nat \<Rightarrow> u8 list \<Rightarrow> 'x Reassembler_scheme \<Rightarrow> (nat \<times> 'x Reassembler_scheme) option res" where
  "append_last seq upper data s =
     (case last_block s of
        None \<Rightarrow> Inr None
      | Some l \<Rightarrow>
          rbind (block_at l (blocks s)) (\<lambda>i.
          if seq = db_upper (blocks s ! i)
          then rbind (new_block (i + 1) True data (upper - seq) seq s) (\<lambda>s1.
               Inr (Some (i + 1, s1\<lparr>last_block := Some (next_id s)\<rparr>)))
          else Inr None))"

text \<open>
  \<open>k\<close> is the place of \<^verbatim>\<open>b\<close>; the result is the place of the block that is returned. The blocks that a
  recursive call adds come after \<^verbatim>\<open>b\<close>.
\<close>

lemma overlap_progress:
  fixes seq :: nat
  assumes "\<not> u \<le> seq" "\<not> upper \<le> b" "d = max seq b" "e = upper - d" "f = min e (u - d)" "f < e"
  shows "upper - (d + f) < upper - seq"
  using assms by (simp add: max_def min_def split: if_splits)

function AddAndCheck ::
  "'x overlap \<Rightarrow> nat \<Rightarrow> nat \<Rightarrow> nat \<Rightarrow> u8 list \<Rightarrow> 'x Reassembler_scheme \<Rightarrow> (nat \<times> 'x Reassembler_scheme) res" where
  "AddAndCheck Overlap k0 seq upper data s =
     rbind (append_last seq upper data s) (\<lambda>appended.
     case appended of
       Some r \<Rightarrow> Inr r
     | None \<Rightarrow>
         let k = skip_before (drop k0 (blocks s)) seq k0 in
         if k \<ge> length (blocks s) then Inl OutOfBounds
         else let b = blocks s ! k in
         if db_upper b \<le> seq
         then rbind (new_block (k + 1) True data (upper - seq) seq s) (\<lambda>s1.
              Inr (k + 1, s1\<lparr>last_block := Some (next_id s)\<rparr>))
         else if upper \<le> db_seq b
         then rbind (new_block k False data (upper - seq) seq s) (\<lambda>s1. Inr (k, s1))
         else
           rbind (if seq < db_seq b then new_block k False data (db_seq b - seq) seq s else Inr s) (\<lambda>s1.
           let kb = (if seq < db_seq b then k + 1 else k);
               data1 = drop (db_seq b - seq) data;
               seq1 = max seq (db_seq b);
               new_b_len = upper - seq1;
               overlap_len = min new_b_len (db_upper b - seq1)
           in if overlap_len > length data1 then Inl OutOfBounds
              else let s2 = Overlap (take overlap_len (drop (seq1 - db_seq b) (db_block b))) (take overlap_len data1) s1
                   in rbind
                        (if overlap_len < new_b_len
                         then rbind (AddAndCheck Overlap kb (seq1 + overlap_len) upper (drop overlap_len data1) s2)
                                (\<lambda>(i, s3). Inr (if seq < db_seq b then k else i, s3))
                         else Inr (k, s2))
                        (\<lambda>(i, s3).
                           Inr (i, if (if i = 0 then None else Some (db_id (blocks s3 ! (i - 1)))) = last_block s3
                                   then s3\<lparr>last_block := Some (db_id (blocks s3 ! i))\<rparr> else s3))))"
  by pat_completeness auto
termination
proof (relation "measure (\<lambda>(_, _, seq, upper, _, _). upper - seq)", goal_cases)
  case 1
  then show ?case by simp
next
  case 2
  show ?case unfolding in_measure prod.case by (rule overlap_progress [OF 2(6,7,11-13,16)])
qed

text \<open>\<^verbatim>\<open>BlockInserted\<close> is given the place of the block.\<close>

definition NewBlock ::
  "'x overlap \<Rightarrow> (nat \<Rightarrow> 'x Reassembler_scheme \<Rightarrow> 'x Reassembler_scheme res) \<Rightarrow>
   nat \<Rightarrow> u8 list \<Rightarrow> 'x Reassembler_scheme \<Rightarrow> 'x Reassembler_scheme res" where
  "NewBlock Overlap BlockInserted seq data s =
     (if data = [] then Inr s
      else if seq + length data \<ge> 2 ^ 64 then Inl LengthError
      else let upper_seq = seq + length data in
      if upper_seq \<le> trim_seq s then Inr s
      else let amount_old = trim_seq s - seq;
               data1 = drop amount_old data;
               seq1 = max seq (trim_seq s)
           in rbind
                (if blocks s = []
                 then rbind (new_block 0 True data1 (length data1) seq1 s) (\<lambda>s1.
                      Inr (0, s1\<lparr>last_block := Some (next_id s)\<rparr>))
                 else AddAndCheck Overlap 0 seq1 upper_seq data1 s)
                (\<lambda>(i, s1). BlockInserted i s1))"

subsection \<open>Throwing data away\<close>

text \<open>The loop of \<^verbatim>\<open>TrimToSeq\<close>: what is left of the blocks and how many bytes were missing.\<close>

fun trim_loop :: "nat \<Rightarrow> DataBlock list \<Rightarrow> nat \<Rightarrow> DataBlock list \<times> nat" where
  "trim_loop seq [] num_missing = ([], num_missing)"
| "trim_loop seq (b # bs) num_missing =
     (if db_upper b \<le> seq
      then trim_loop seq bs
             (num_missing +
              (case bs of
                 b' # _ \<Rightarrow>
                   if db_seq b' \<le> seq then if db_upper b \<noteq> db_seq b' then db_seq b' - db_upper b else 0
                   else if db_upper b \<noteq> seq \<and> db_upper b \<noteq> seq - 1 then seq - db_upper b else 0
               | [] \<Rightarrow> if db_upper b \<noteq> seq \<and> db_upper b \<noteq> seq - 1 then seq - db_upper b else 0))
      else (b # bs, num_missing))"

definition TrimToSeq ::
  "(nat \<Rightarrow> 'x Reassembler_scheme \<Rightarrow> 'x Reassembler_scheme res) \<Rightarrow>
   (nat \<Rightarrow> 'x Reassembler_scheme \<Rightarrow> 'x Reassembler_scheme res) \<Rightarrow>
   nat \<Rightarrow> 'x Reassembler_scheme \<Rightarrow> (nat \<times> 'x Reassembler_scheme) res" where
  "TrimToSeq BlockInserted Undelivered seq s =
     (let missing0 =
            (case blocks s of
               b # _ \<Rightarrow> if db_seq b > last_reassem_seq s then db_seq b - last_reassem_seq s else 0
             | [] \<Rightarrow> if seq > last_reassem_seq s then seq - last_reassem_seq s else 0)
      in rbind (if seq > last_reassem_seq s then Undelivered seq s else Inr s) (\<lambda>s1.
         let (left, num_missing) = trim_loop seq (blocks s1) missing0;
             s2 = s1\<lparr>blocks := left\<rparr>
         in rbind
              (case left of
                 b # _ \<Rightarrow> if db_seq b = last_reassem_seq s2 then BlockInserted 0 s2 else Inr s2
               | [] \<Rightarrow> Inr (s2\<lparr>last_block := None\<rparr>))
              (\<lambda>s3. Inr (num_missing, if seq > trim_seq s3 then s3\<lparr>trim_seq := seq\<rparr> else s3))))"

definition ClearBlocks :: "'x Reassembler_scheme \<Rightarrow> 'x Reassembler_scheme" where
  "ClearBlocks s = s\<lparr>blocks := [], last_block := None\<rparr>"

definition TotalSize :: "'x Reassembler_scheme \<Rightarrow> nat" where
  "TotalSize s = sum_list (map (\<lambda>b. length (db_block b)) (blocks s))"

definition base_Undelivered :: "nat \<Rightarrow> 'x Reassembler_scheme \<Rightarrow> 'x Reassembler_scheme res" where
  "base_Undelivered up_to_seq s = Inr (s\<lparr>last_reassem_seq := up_to_seq\<rparr>)"

subsection \<open>The bytes that the blocks hold\<close>

definition bytes_from :: "nat \<Rightarrow> u8 list \<Rightarrow> nat \<rightharpoonup> u8" where
  "bytes_from seq d p = (if seq \<le> p \<and> p < seq + length d then Some (d ! (p - seq)) else None)"

fun content :: "DataBlock list \<Rightarrow> nat \<rightharpoonup> u8" where
  "content [] = Map.empty"
| "content (b # bs) = content bs ++ bytes_from (db_seq b) (db_block b)"

definition holds :: "DataBlock \<Rightarrow> nat \<Rightarrow> bool" where
  "holds b p \<longleftrightarrow> db_seq b \<le> p \<and> p < db_upper b"

lemma content_append: "content (xs @ ys) = content ys ++ content xs"
  by (induction xs) simp_all

lemma content_None: "content bs p = None \<longleftrightarrow> (\<forall>b \<in> set bs. \<not> holds b p)"
  by (induction bs) (auto simp: bytes_from_def holds_def db_upper_def map_add_def split: option.splits)

lemma bytes_from_cut:
  assumes "n \<le> length d"
  shows "bytes_from seq d = bytes_from seq (take n d) ++ bytes_from (seq + n) (drop n d)"
  using assms by (auto simp: bytes_from_def map_add_def fun_eq_iff)

definition separated :: "DataBlock list \<Rightarrow> bool" where
  "separated bs \<longleftrightarrow> sorted_wrt (\<lambda>a b. db_upper a \<le> db_seq b) bs \<and> (\<forall>b \<in> set bs. db_block b \<noteq> [])"

definition reassem_inv :: "'x Reassembler_scheme \<Rightarrow> bool" where
  "reassem_inv s \<longleftrightarrow> separated (blocks s) \<and> distinct (map db_id (blocks s)) \<and> (\<forall>b \<in> set (blocks s). db_id b < next_id s) \<and>
     last_block s = (if blocks s = [] then None else Some (db_id (last (blocks s))))"

lemma upper_gt: "db_block b \<noteq> [] \<Longrightarrow> db_seq b < db_upper b"
  by (simp add: db_upper_def)

lemma separated_append:
  "separated (xs @ ys) \<longleftrightarrow> separated xs \<and> separated ys \<and> (\<forall>a \<in> set xs. \<forall>b \<in> set ys. db_upper a \<le> db_seq b)"
  by (auto simp: separated_def sorted_wrt_append)

lemma separated_Cons: "separated (b # bs) \<longleftrightarrow> db_block b \<noteq> [] \<and> separated bs \<and> (\<forall>a \<in> set bs. db_upper b \<le> db_seq a)"
  by (auto simp: separated_def)

lemma block_at_nth:
  assumes "distinct (map db_id bs)" "i < length bs"
  shows "block_at (db_id (bs ! i)) bs = Inr i"
proof -
  have "takeWhile (\<lambda>b. db_id b \<noteq> db_id (bs ! i)) bs = take i bs"
    using assms by (intro takeWhile_eq_take_P_nth) (auto simp: distinct_conv_nth)
  then show ?thesis using assms(2) by (simp add: block_at_def)
qed

text \<open>A new block between the blocks before \<open>k\<close> and those from \<open>k\<close> on.\<close>

lemma new_block_works:
  assumes "reassem_inv s" "k \<le> length (blocks s)" "len \<noteq> 0" "len \<le> length data"
    and "\<forall>b \<in> set (take k (blocks s)). db_upper b \<le> seq" "\<forall>b \<in> set (drop k (blocks s)). seq + len \<le> db_seq b"
    and "chop \<longrightarrow> k = length (blocks s)"
  shows "\<exists>s1. new_block k chop data len seq s = Inr s1 \<and>
    blocks s1 = take k (blocks s) @ \<lparr>db_id = next_id s, db_seq = seq, db_block = take len data\<rparr> # drop k (blocks s) \<and>
    s1 = s\<lparr>blocks := blocks s1, next_id := next_id s + 1\<rparr> \<and>
    content (blocks s1) = bytes_from seq (take len data) ++ content (blocks s) \<and>
    reassem_inv (if k = length (blocks s) then s1\<lparr>last_block := Some (next_id s)\<rparr> else s1)"
proof -
  let ?b = "\<lparr>db_id = next_id s, db_seq = seq, db_block = take len data\<rparr>"
  define xs ys where "xs = take k (blocks s)" and "ys = drop k (blocks s)"
  define s1 where "s1 = s\<lparr>blocks := xs @ ?b # ys, next_id := next_id s + 1\<rparr>"
  have bl: "blocks s = xs @ ys" and "length xs = k" using assms(2) by (simp_all add: xs_def ys_def)
  have le: "\<forall>b \<in> set xs. db_upper b \<le> seq" "\<forall>b \<in> set ys. seq + len \<le> db_seq b" using assms(5,6) by (simp_all add: xs_def ys_def)
  have new: "new_block k chop data len seq s = Inr s1"
    using assms(4,7) by (auto simp: new_block_def Let_def s1_def xs_def ys_def)
  have cont: "content (xs @ ?b # ys) = bytes_from seq (take len data) ++ content (xs @ ys)"
  proof
    fix p
    have "content xs p = None" "content ys p = None" if "seq \<le> p" "p < seq + len"
      using le that by (auto simp: content_None holds_def dest!: bspec)
    then show "content (xs @ ?b # ys) p = (bytes_from seq (take len data) ++ content (xs @ ys)) p"
      using assms(4) by (cases "seq \<le> p \<and> p < seq + len")
        (auto simp: content_append map_add_def bytes_from_def split: option.splits)
  qed
  have inv: "separated (xs @ ys)" "distinct (map db_id (xs @ ys))" "\<forall>b \<in> set (xs @ ys). db_id b < next_id s"
    "last_block s = (if xs @ ys = [] then None else Some (db_id (last (xs @ ys))))"
    using assms(1) unfolding reassem_inv_def bl by blast+
  have "db_upper ?b = seq + len" using assms(4) by (simp add: db_upper_def)
  then have "separated (xs @ ?b # ys)" using inv(1) assms(3,4) le by (auto simp: separated_append separated_Cons)
  then have "reassem_inv (if ys = [] then s1\<lparr>last_block := Some (next_id s)\<rparr> else s1)"
    using inv by (auto simp: reassem_inv_def s1_def less_Suc_eq)
  moreover have "ys = [] \<longleftrightarrow> k = length (blocks s)" using assms(2) by (auto simp: ys_def)
  ultimately show ?thesis
    using new cont by (intro exI [of _ s1]) (simp add: s1_def bl [symmetric] xs_def [symmetric] ys_def [symmetric])
qed

lemma skip_before_works:
  assumes "bs \<noteq> []"
  shows "\<exists>j. skip_before bs seq k = k + j \<and> j < length bs \<and> (\<forall>b \<in> set (take j bs). db_upper b \<le> seq) \<and>
    (db_upper (bs ! j) \<le> seq \<longrightarrow> Suc j = length bs)"
  using assms
proof (induction bs seq k rule: skip_before.induct)
  case (1 b b' bs seq k)
  show ?case
  proof (cases "db_upper b \<le> seq")
    case True
    then obtain j where "skip_before (b' # bs) seq (k + 1) = k + 1 + j \<and> j < length (b' # bs) \<and>
      (\<forall>b \<in> set (take j (b' # bs)). db_upper b \<le> seq) \<and> (db_upper ((b' # bs) ! j) \<le> seq \<longrightarrow> Suc j = length (b' # bs))"
      using "1.IH" by auto
    then show ?thesis using True by (intro exI [of _ "Suc j"]) simp
  next
    case False
    then show ?thesis by (intro exI [of _ 0]) simp
  qed
qed auto

text \<open>The part of the state that \<^verbatim>\<open>Overlap\<close> leaves alone.\<close>

definition same_base :: "'x Reassembler_scheme \<Rightarrow> 'x Reassembler_scheme \<Rightarrow> bool" where
  "same_base s s' \<longleftrightarrow> blocks s' = blocks s \<and> last_block s' = last_block s \<and> last_reassem_seq s' = last_reassem_seq s \<and>
     trim_seq s' = trim_seq s \<and> next_id s' = next_id s"

definition reports_only :: "'x overlap \<Rightarrow> bool" where
  "reports_only Overlap \<longleftrightarrow> (\<forall>b1 b2 s. same_base s (Overlap b1 b2 s))"

lemma same_base_inv: "same_base s s' \<Longrightarrow> reassem_inv s \<Longrightarrow> reassem_inv s'"
  by (simp add: same_base_def reassem_inv_def)

text \<open>
  What an insertion of \<open>data\<close> at \<open>seq\<close> has done: the blocks hold what they held before and the new bytes
  where they held nothing; block \<open>i\<close> begins at the first new byte, if there is one.
\<close>

definition covered :: "'x Reassembler_scheme \<Rightarrow> nat \<Rightarrow> nat \<Rightarrow> bool" where
  "covered s seq len \<longleftrightarrow> (\<forall>p. seq \<le> p \<and> p < seq + len \<longrightarrow> content (blocks s) p \<noteq> None)"

definition first_new :: "'x Reassembler_scheme \<Rightarrow> nat \<Rightarrow> nat \<Rightarrow> nat \<Rightarrow> bool" where
  "first_new s seq len q \<longleftrightarrow> content (blocks s) q = None \<and> seq \<le> q \<and> q < seq + len \<and> covered s seq (q - seq)"

definition inserted :: "nat \<Rightarrow> u8 list \<Rightarrow> 'x Reassembler_scheme \<Rightarrow> nat \<Rightarrow> 'x Reassembler_scheme \<Rightarrow> bool" where
  "inserted seq data s i s' \<longleftrightarrow>
     reassem_inv s' \<and> content (blocks s') = bytes_from seq data ++ content (blocks s) \<and> i < length (blocks s') \<and>
     last_reassem_seq s' = last_reassem_seq s \<and> trim_seq s' = trim_seq s \<and>
     (if covered s seq (length data) then blocks s' ! i \<in> set (blocks s)
      else first_new s seq (length data) (db_seq (blocks s' ! i)))"

lemma covered_0 [simp]: "covered s seq 0"
  by (auto simp: covered_def)

lemma covered_add: "covered s seq (m + n) \<longleftrightarrow> covered s seq m \<and> covered s (seq + m) n"
proof -
  have "covered s seq (m + n)" if "covered s seq m" "covered s (seq + m) n"
    using that unfolding covered_def by (metis add.assoc not_le)
  then show ?thesis by (auto simp: covered_def)
qed

lemma covered_block: "b \<in> set (blocks s) \<Longrightarrow> db_seq b \<le> seq \<Longrightarrow> seq + n \<le> db_upper b \<Longrightarrow> covered s seq n"
  by (auto simp: covered_def content_None holds_def intro!: bexI [of _ b])

lemma inserted_first:
  assumes "content (blocks s) seq = None" "data \<noteq> []" "reassem_inv s'" "content (blocks s') = bytes_from seq data ++ content (blocks s)"
    and "i < length (blocks s')" "last_reassem_seq s' = last_reassem_seq s" "trim_seq s' = trim_seq s" "db_seq (blocks s' ! i) = seq"
  shows "inserted seq data s i s'"
proof -
  have "\<not> covered s seq (length data)"
    using assms(1,2) by (auto simp: covered_def intro!: exI [of _ seq])
  then show ?thesis using assms by (simp add: inserted_def first_new_def)
qed

lemma AddAndCheck_new:
  assumes "reassem_inv s" "k \<le> length (blocks s)" "data \<noteq> []"
    and "\<forall>b \<in> set (take k (blocks s)). db_upper b \<le> seq" "\<forall>b \<in> set (drop k (blocks s)). seq + length data \<le> db_seq b"
    and "chop \<longrightarrow> k = length (blocks s)"
  shows "\<exists>s1. new_block k chop data (length data) seq s = Inr s1 \<and> take k (blocks s1) = take k (blocks s) \<and>
    inserted seq data s k (if k = length (blocks s) then s1\<lparr>last_block := Some (next_id s)\<rparr> else s1)"
proof -
  obtain s1 where s1: "new_block k chop data (length data) seq s = Inr s1"
    "blocks s1 = take k (blocks s) @ \<lparr>db_id = next_id s, db_seq = seq, db_block = data\<rparr> # drop k (blocks s)"
    "s1 = s\<lparr>blocks := blocks s1, next_id := next_id s + 1\<rparr>" "content (blocks s1) = bytes_from seq data ++ content (blocks s)"
    "reassem_inv (if k = length (blocks s) then s1\<lparr>last_block := Some (next_id s)\<rparr> else s1)"
    using new_block_works [of s k "length data" data seq chop] assms by auto
  have "blocks s = take k (blocks s) @ drop k (blocks s)" by simp
  moreover have "content (take k (blocks s)) seq = None" "content (drop k (blocks s)) seq = None"
  proof -
    show "content (take k (blocks s)) seq = None" using assms(4) by (auto simp: content_None holds_def)
    have "0 < length data" using assms(3) by simp
    then have "seq < db_seq b" if "b \<in> set (drop k (blocks s))" for b
      using bspec [OF assms(5) that] by linarith
    then show "content (drop k (blocks s)) seq = None" unfolding content_None holds_def by (meson leD)
  qed
  ultimately have none: "content (blocks s) seq = None" by (metis content_append map_add_None)
  have "last_reassem_seq s1 = last_reassem_seq s" "trim_seq s1 = trim_seq s" by (subst s1(3); simp)+
  moreover have "db_seq (blocks s1 ! k) = seq" "k < length (blocks s1)" "take k (blocks s1) = take k (blocks s)"
    using assms(2) by (simp_all add: s1(2) nth_append)
  ultimately show ?thesis
    using s1(1,4,5) by (intro exI [of _ s1] conjI inserted_first [OF none assms(3)]) (cases "k = length (blocks s)"; simp)+
qed

text \<open>What the overlapped bytes and the rest amount to.\<close>

lemma overlap_content:
  assumes "b \<in> set bs" "db_seq b \<le> seq" "seq + n \<le> db_upper b" "n \<le> length data"
  shows "bytes_from seq data ++ content bs = bytes_from (seq + n) (drop n data) ++ content bs"
proof
  fix p
  have "content bs p \<noteq> None" if "seq \<le> p" "p < seq + n"
    using assms(1-3) that by (auto simp: content_None holds_def intro!: bexI [of _ b])
  then show "(bytes_from seq data ++ content bs) p = (bytes_from (seq + n) (drop n data) ++ content bs) p"
    using assms(4) by (cases "seq \<le> p \<and> p < seq + n") (auto simp: map_add_def bytes_from_def split: option.splits)
qed

lemma last_block_stays:
  assumes "reassem_inv s" "i < length (blocks s)"
  shows "(if i = 0 then None else Some (db_id (blocks s ! (i - 1)))) \<noteq> last_block s"
proof
  assume *: "(if i = 0 then None else Some (db_id (blocks s ! (i - 1)))) = last_block s"
  then have "i \<noteq> 0" "db_id (blocks s ! (i - 1)) = db_id (blocks s ! (length (blocks s) - 1))"
    using assms by (auto simp: reassem_inv_def last_conv_nth split: if_splits)
  then have "i - 1 = length (blocks s) - 1"
    using assms nth_eq_iff_index_eq [of "map db_id (blocks s)" "i - 1" "length (blocks s) - 1"] by (auto simp: reassem_inv_def)
  then show False using assms(2) \<open>i \<noteq> 0\<close> by simp
qed

declare AddAndCheck.simps [simp del]

lemma append_last_works:
  assumes "reassem_inv s" "blocks s \<noteq> []" "length data = upper - seq" "seq < upper"
  shows "if seq = db_upper (last (blocks s))
    then \<exists>s'. append_last seq upper data s = Inr (Some (length (blocks s), s')) \<and> inserted seq data s (length (blocks s)) s' \<and>
      take (length (blocks s)) (blocks s') = blocks s
    else append_last seq upper data s = Inr None"
proof -
  let ?n = "length (blocks s)"
  have last: "last (blocks s) = blocks s ! (?n - 1)" "?n - 1 < ?n" using assms(2) by (simp_all add: last_conv_nth)
  have at: "block_at (db_id (last (blocks s))) (blocks s) = Inr (?n - 1)"
    unfolding last(1) using assms(1) last(2) by (intro block_at_nth) (simp_all add: reassem_inv_def)
  have lb: "last_block s = Some (db_id (last (blocks s)))" using assms(1,2) by (simp add: reassem_inv_def)
  show ?thesis
  proof (cases "seq = db_upper (last (blocks s))")
    case True
    have "db_upper b \<le> seq" if "b \<in> set (blocks s)" for b
    proof -
      have "b \<in> set (butlast (blocks s) @ [last (blocks s)])" using that assms(2) by simp
      moreover have "separated (butlast (blocks s) @ [last (blocks s)])" using assms(1,2) by (simp add: reassem_inv_def)
      ultimately show ?thesis using upper_gt [of "last (blocks s)"] True by (auto simp: separated_append separated_Cons)
    qed
    then have "\<exists>s1. new_block ?n True data (length data) seq s = Inr s1 \<and> take ?n (blocks s1) = take ?n (blocks s) \<and>
      inserted seq data s ?n (if ?n = length (blocks s) then s1\<lparr>last_block := Some (next_id s)\<rparr> else s1)"
      by (intro AddAndCheck_new) (use assms in auto)
    then obtain s1 where "new_block ?n True data (length data) seq s = Inr s1" "take ?n (blocks s1) = blocks s"
      "inserted seq data s ?n (s1\<lparr>last_block := Some (next_id s)\<rparr>)"
      by auto
    then show ?thesis using True lb at last assms(2,3) by (simp add: append_last_def)
  qed (use lb at last in \<open>simp add: append_last_def\<close>)
qed

lemma bytes_from_Nil [simp]: "bytes_from seq [] = Map.empty"
  by (auto simp: bytes_from_def)

lemma inserted_after:
  assumes "inserted (seq + n) (drop n data) s i s'" "n \<le> length data" "b \<in> set (blocks s)" "db_seq b \<le> seq" "seq + n \<le> db_upper b"
  shows "inserted seq data s i s'"
proof -
  have "covered s seq (n + length (drop n data)) \<longleftrightarrow> covered s (seq + n) (length (drop n data))"
    unfolding covered_add using covered_block [OF assms(3-5)] by simp
  moreover have "covered s seq (q - seq)" if "covered s (seq + n) (q - (seq + n))" "seq + n \<le> q" for q
  proof -
    have "q - seq = n + (q - (seq + n))" using that(2) by simp
    then show ?thesis using that(1) covered_block [OF assms(3-5)] by (simp only: covered_add)
  qed
  ultimately show ?thesis
    using assms(1,2) overlap_content [OF assms(3-5,2)] by (auto simp: inserted_def first_new_def split: if_splits)
qed

lemma inserted_old:
  assumes "reassem_inv s" "same_base s s'" "k < length (blocks s)" "blocks s ! k = b" "db_seq b \<le> seq" "seq + length data \<le> db_upper b"
  shows "inserted seq data s k s'"
proof -
  have b: "b \<in> set (blocks s)" using assms(3,4) by auto
  have "inserted (seq + length data) [] s k s'"
    using assms(1-4) b same_base_inv [OF assms(2,1)] by (auto simp: inserted_def same_base_def)
  then show ?thesis using inserted_after [of seq "length data" data s k s' b] b assms(5,6) by simp
qed

lemma inserted_behind_prefix:
  assumes "inserted (seq + m + n) (drop (m + n) data) s1 i s'" "m + n \<le> length data" "0 < m"
    and "content (blocks s1) = bytes_from seq (take m data) ++ content (blocks s)" "content (blocks s) seq = None"
    and "last_reassem_seq s1 = last_reassem_seq s" "trim_seq s1 = trim_seq s"
    and "b \<in> set (blocks s1)" "db_seq b = seq + m" "seq + m + n \<le> db_upper b"
    and "k < length (blocks s')" "db_seq (blocks s' ! k) = seq"
  shows "inserted seq data s k s'"
proof (rule inserted_first)
  have "inserted (seq + m) (drop m data) s1 i s'"
    using inserted_after [of "seq + m" n "drop m data" s1 i s' b] assms by (simp add: add.commute)
  then have "content (blocks s') = bytes_from (seq + m) (drop m data) ++ (bytes_from seq (take m data) ++ content (blocks s))"
    using assms(4) by (simp add: inserted_def)
  also have "\<dots> = bytes_from seq data ++ content (blocks s)"
    using assms(2) by (auto simp: fun_eq_iff map_add_def bytes_from_def split: option.splits)
  finally show "content (blocks s') = bytes_from seq data ++ content (blocks s)" .
  show "data \<noteq> []" using assms(2,3) by auto
qed (use assms in \<open>simp_all add: inserted_def\<close>)

text \<open>Block \<open>b\<close> at place \<open>k\<close> overlaps the new data.\<close>

lemma overlap_prefix:
  assumes "reassem_inv s" "k < length (blocks s)" "blocks s ! k = b" "seq < db_seq b" "db_seq b - seq \<le> length data"
    and "\<forall>b \<in> set (take k (blocks s)). db_upper b \<le> seq"
  shows "\<exists>s1. new_block k False data (db_seq b - seq) seq s = Inr s1 \<and> reassem_inv s1 \<and>
    content (blocks s1) = bytes_from seq (take (db_seq b - seq) data) ++ content (blocks s) \<and> content (blocks s) seq = None \<and>
    last_reassem_seq s1 = last_reassem_seq s \<and> trim_seq s1 = trim_seq s \<and> k + 1 < length (blocks s1) \<and> blocks s1 ! (k + 1) = b \<and>
    db_seq (blocks s1 ! k) = seq \<and> take k (blocks s1) = take k (blocks s) \<and> (\<forall>a \<in> set (take (k + 1) (blocks s1)). db_upper a \<le> db_seq b)"
proof -
  let ?m = "db_seq b - seq"
  have split: "blocks s = take k (blocks s) @ b # drop (k + 1) (blocks s)" using id_take_nth_drop [OF assms(2)] assms(3) by simp
  then have "separated (take k (blocks s) @ b # drop (k + 1) (blocks s))" using assms(1) unfolding reassem_inv_def by metis
  then have late: "\<forall>a \<in> set (b # drop (k + 1) (blocks s)). db_seq b \<le> db_seq a"
    using upper_gt [of b] by (auto simp: separated_append separated_Cons)
  have drop: "drop k (blocks s) = b # drop (k + 1) (blocks s)" using assms(2,3) Cons_nth_drop_Suc by fastforce
  then have "\<forall>a \<in> set (drop k (blocks s)). seq + ?m \<le> db_seq a" using late assms(4) by simp
  then have "\<exists>s1. new_block k False data ?m seq s = Inr s1 \<and>
    blocks s1 = take k (blocks s) @ \<lparr>db_id = next_id s, db_seq = seq, db_block = take ?m data\<rparr> # drop k (blocks s) \<and>
    s1 = s\<lparr>blocks := blocks s1, next_id := next_id s + 1\<rparr> \<and>
    content (blocks s1) = bytes_from seq (take ?m data) ++ content (blocks s) \<and>
    reassem_inv (if k = length (blocks s) then s1\<lparr>last_block := Some (next_id s)\<rparr> else s1)"
    by (intro new_block_works) (use assms in auto)
  then obtain s1 where s1: "new_block k False data ?m seq s = Inr s1"
    "blocks s1 = take k (blocks s) @ \<lparr>db_id = next_id s, db_seq = seq, db_block = take ?m data\<rparr> # drop k (blocks s)"
    "s1 = s\<lparr>blocks := blocks s1, next_id := next_id s + 1\<rparr>"
    "content (blocks s1) = bytes_from seq (take ?m data) ++ content (blocks s)" "reassem_inv s1"
    using assms(2) by auto
  have "last_reassem_seq s1 = last_reassem_seq s" "trim_seq s1 = trim_seq s" by (subst s1(3); simp)+
  moreover have "\<not> holds a seq" if "a \<in> set (blocks s)" for a
  proof -
    have "a \<in> set (take k (blocks s)) \<or> a \<in> set (b # drop (k + 1) (blocks s))" using that by (subst (asm) split) auto
    then show ?thesis using assms(4,6) late by (force simp: holds_def)
  qed
  then have "content (blocks s) seq = None" by (simp add: content_None)
  moreover have "k + 1 < length (blocks s1)" "blocks s1 ! (k + 1) = b" "db_seq (blocks s1 ! k) = seq" "take k (blocks s1) = take k (blocks s)"
    using assms(2,3) by (simp_all add: s1(2) nth_append)
  moreover have "\<forall>a \<in> set (take (k + 1) (blocks s1)). db_upper a \<le> db_seq b"
    using assms(2,4-6) by (auto simp: s1(2) db_upper_def)
  ultimately show ?thesis using s1 by blast
qed

definition adds_block :: "nat \<Rightarrow> nat \<Rightarrow> u8 list \<Rightarrow> 'x Reassembler_scheme \<Rightarrow> (nat \<times> 'x Reassembler_scheme) res \<Rightarrow> bool" where
  "adds_block k seq data s r \<longleftrightarrow> (\<exists>i s'. r = Inr (i, s') \<and> inserted seq data s i s' \<and> take k (blocks s') = take k (blocks s))"

lemma AddAndCheck_unfold:
  assumes "append_last seq upper data s = Inr None" "skip_before (drop k0 (blocks s)) seq k0 = k" "k < length (blocks s)"
    "blocks s ! k = b"
  shows "AddAndCheck Overlap k0 seq upper data s =
    (if db_upper b \<le> seq
     then rbind (new_block (k + 1) True data (upper - seq) seq s) (\<lambda>s1. Inr (k + 1, s1\<lparr>last_block := Some (next_id s)\<rparr>))
     else if upper \<le> db_seq b then rbind (new_block k False data (upper - seq) seq s) (\<lambda>s1. Inr (k, s1))
     else
       rbind (if seq < db_seq b then new_block k False data (db_seq b - seq) seq s else Inr s) (\<lambda>s1.
       let kb = (if seq < db_seq b then k + 1 else k);
           data1 = drop (db_seq b - seq) data;
           seq1 = max seq (db_seq b);
           new_b_len = upper - seq1;
           overlap_len = min new_b_len (db_upper b - seq1)
       in if overlap_len > length data1 then Inl OutOfBounds
          else let s2 = Overlap (take overlap_len (drop (seq1 - db_seq b) (db_block b))) (take overlap_len data1) s1
               in rbind
                    (if overlap_len < new_b_len
                     then rbind (AddAndCheck Overlap kb (seq1 + overlap_len) upper (drop overlap_len data1) s2)
                            (\<lambda>(i, s3). Inr (if seq < db_seq b then k else i, s3))
                     else Inr (k, s2))
                    (\<lambda>(i, s3).
                       Inr (i, if (if i = 0 then None else Some (db_id (blocks s3 ! (i - 1)))) = last_block s3
                               then s3\<lparr>last_block := Some (db_id (blocks s3 ! i))\<rparr> else s3))))"
proof -
  have "\<not> length (blocks s) \<le> k" using assms(3) by simp
  then show ?thesis using assms by (subst AddAndCheck.simps) (simp only: rbind_Inr option.case Let_def if_False)
qed

lemma AddAndCheck_apart:
  assumes "reassem_inv s" "k < length (blocks s)" "blocks s ! k = b" "\<forall>a \<in> set (take k (blocks s)). db_upper a \<le> seq"
    and "seq < upper" "length data = upper - seq"
  shows "db_upper b \<le> seq \<Longrightarrow> Suc k = length (blocks s) \<Longrightarrow>
      adds_block k seq data s (rbind (new_block (k + 1) True data (upper - seq) seq s) (\<lambda>s1. Inr (k + 1, s1\<lparr>last_block := Some (next_id s)\<rparr>)))"
    and "upper \<le> db_seq b \<Longrightarrow> adds_block k seq data s (rbind (new_block k False data (upper - seq) seq s) (\<lambda>s1. Inr (k, s1)))"
proof -
  have data: "data \<noteq> []" using assms(5,6) by auto
  have split: "blocks s = take k (blocks s) @ b # drop (k + 1) (blocks s)" using id_take_nth_drop [OF assms(2)] assms(3) by simp
  then have ch: "separated (take k (blocks s) @ b # drop (k + 1) (blocks s))" using assms(1) unfolding reassem_inv_def by metis
  show "adds_block k seq data s (rbind (new_block (k + 1) True data (upper - seq) seq s) (\<lambda>s1. Inr (k + 1, s1\<lparr>last_block := Some (next_id s)\<rparr>)))"
    if "db_upper b \<le> seq" "Suc k = length (blocks s)"
  proof -
    have "\<forall>a \<in> set (take (k + 1) (blocks s)). db_upper a \<le> seq"
      using assms(2-4) that(1) by (simp add: take_Suc_conv_app_nth)
    then have "\<exists>s1. new_block (k + 1) True data (length data) seq s = Inr s1 \<and> take (k + 1) (blocks s1) = take (k + 1) (blocks s) \<and>
        inserted seq data s (k + 1) (if k + 1 = length (blocks s) then s1\<lparr>last_block := Some (next_id s)\<rparr> else s1)"
      by (intro AddAndCheck_new) (use assms that data in auto)
    then show ?thesis using assms(6) that(2) by (auto simp: adds_block_def) (metis lessI min.absorb3 take_take)
  qed
  show "adds_block k seq data s (rbind (new_block k False data (upper - seq) seq s) (\<lambda>s1. Inr (k, s1)))" if "upper \<le> db_seq b"
  proof -
    have "\<forall>a \<in> set (b # drop (k + 1) (blocks s)). db_seq b \<le> db_seq a"
      using ch upper_gt [of b] by (auto simp: separated_append separated_Cons)
    moreover have "drop k (blocks s) = b # drop (k + 1) (blocks s)" using Cons_nth_drop_Suc [OF assms(2)] assms(3) by simp
    ultimately have "\<forall>a \<in> set (drop k (blocks s)). seq + length data \<le> db_seq a" using that assms(5,6) by auto
    then have "\<exists>s1. new_block k False data (length data) seq s = Inr s1 \<and> take k (blocks s1) = take k (blocks s) \<and>
        inserted seq data s k (if k = length (blocks s) then s1\<lparr>last_block := Some (next_id s)\<rparr> else s1)"
      by (intro AddAndCheck_new) (use assms data in auto)
    then show ?thesis using assms(2,6) by (auto simp: adds_block_def)
  qed
qed

lemma take_same:
  assumes "take (Suc k) xs = take (Suc k) ys" "k < length ys"
  shows "k < length xs" "xs ! k = ys ! k"
proof -
  have "length (take (Suc k) xs) = length (take (Suc k) ys)" using assms(1) by simp
  then show "k < length xs" using assms(2) by (simp add: min_def split: if_splits)
  show "xs ! k = ys ! k" using nth_take [of k "Suc k" xs] nth_take [of k "Suc k" ys] assms(1) by simp
qed

lemma inserted_same_base:
  assumes "same_base s s2"
  shows "inserted seq data s2 i s3 \<longleftrightarrow> inserted seq data s i s3"
proof -
  have "covered s2 = covered s" by (intro ext) (use assms in \<open>simp add: covered_def same_base_def\<close>)
  then show ?thesis using assms unfolding inserted_def first_new_def same_base_def by simp
qed

lemma inserted_nothing: "reassem_inv s \<Longrightarrow> i < length (blocks s) \<Longrightarrow> inserted seq [] s i s"
  by (simp add: inserted_def)

text \<open>The state in which the overlapped bytes are compared: with a block for a prefix that is new.\<close>

definition overlap_start ::
  "nat \<Rightarrow> DataBlock \<Rightarrow> nat \<Rightarrow> u8 list \<Rightarrow> 'x Reassembler_scheme \<Rightarrow> nat \<Rightarrow> nat \<Rightarrow> 'x Reassembler_scheme \<Rightarrow> bool" where
  "overlap_start k b seq data s m kb s1 \<longleftrightarrow>
     (if seq < db_seq b then new_block k False data m seq s else Inr s) = Inr s1 \<and> reassem_inv s1 \<and>
     kb < length (blocks s1) \<and> blocks s1 ! kb = b \<and> take k (blocks s1) = take k (blocks s) \<and>
     (\<forall>a \<in> set (take kb (blocks s1)). db_upper a \<le> seq + m) \<and>
     (seq < db_seq b \<longrightarrow> content (blocks s1) = bytes_from seq (take m data) ++ content (blocks s) \<and> content (blocks s) seq = None \<and>
        last_reassem_seq s1 = last_reassem_seq s \<and> trim_seq s1 = trim_seq s \<and> db_seq (blocks s1 ! k) = seq) \<and>
     (\<not> seq < db_seq b \<longrightarrow> s1 = s)"

lemma overlap_starts:
  assumes "reassem_inv s" "k < length (blocks s)" "blocks s ! k = b" "\<forall>a \<in> set (take k (blocks s)). db_upper a \<le> seq"
    and "db_seq b - seq \<le> length data"
  shows "\<exists>s1. overlap_start k b seq data s (db_seq b - seq) (if seq < db_seq b then k + 1 else k) s1"
proof (cases "seq < db_seq b")
  case True
  then show ?thesis using overlap_prefix [OF assms(1-3) True assms(5,4)] by (auto simp: overlap_start_def)
next
  case False
  then show ?thesis using assms by (intro exI [of _ s]) (auto simp: overlap_start_def)
qed

lemma overlap_rest:
  assumes st: "overlap_start k b seq data s m kb s1" and sb: "same_base s1 s2"
    and ins: "inserted (seq + m + n) (drop (m + n) data) s2 i s3" and tk: "take kb (blocks s3) = take kb (blocks s2)"
    and mn: "m = db_seq b - seq" "kb = (if seq < db_seq b then k + 1 else k)" "m + n \<le> length data" "seq + m + n \<le> db_upper b"
  shows "inserted seq data s (if seq < db_seq b then k else i) s3"
proof -
  have bl: "blocks s2 = blocks s1" "last_reassem_seq s2 = last_reassem_seq s1" "trim_seq s2 = trim_seq s1"
    using sb by (simp_all add: same_base_def)
  have kb: "kb < length (blocks s1)" "blocks s1 ! kb = b" using st by (simp_all add: overlap_start_def)
  then have b2: "b \<in> set (blocks s2)" using bl nth_mem by metis
  show ?thesis
  proof (cases "seq < db_seq b")
    case True
    then have "take (k + 1) (blocks s3) = take (k + 1) (blocks s1)" using tk bl(1) mn(2) by simp
    then have "blocks s3 ! k = blocks s1 ! k" "k < length (blocks s3)"
      using True kb(1) mn(2) take_same [of k "blocks s3" "blocks s1"] by simp_all
    then have "inserted seq data s k s3"
      using True st bl b2 mn by (intro inserted_behind_prefix [OF ins]) (auto simp: overlap_start_def)
    then show ?thesis using True by simp
  next
    case False
    then have "m = 0" using mn(1) by simp
    moreover have "s1 = s" using False st unfolding overlap_start_def by blast
    moreover from calculation have "inserted (seq + n) (drop n data) s i s3" using ins inserted_same_base [OF sb] by simp
    ultimately show ?thesis using False inserted_after [of seq n data s i s3 b] mn b2 bl(1) by simp
  qed
qed

lemma overlap_last_block:
  assumes "overlap_start k b seq data s m kb s1" "k \<le> kb" "inserted seq data s i s3" "take kb (blocks s3) = take kb (blocks s1)"
  shows "adds_block k seq data s
    (Inr (i, if (if i = 0 then None else Some (db_id (blocks s3 ! (i - 1)))) = last_block s3
             then s3\<lparr>last_block := Some (db_id (blocks s3 ! i))\<rparr> else s3))"
proof -
  have "reassem_inv s3" "i < length (blocks s3)" using assms(3) by (simp_all add: inserted_def)
  then have "(if i = 0 then None else Some (db_id (blocks s3 ! (i - 1)))) \<noteq> last_block s3" by (rule last_block_stays)
  moreover have "take k (blocks s3) = take k (blocks s)"
    using assms(1,2,4) unfolding overlap_start_def by (metis min.absorb1 take_take)
  ultimately show ?thesis using assms(3) unfolding adds_block_def by (simp only: if_False) blast
qed

lemma AddAndCheck_overlap:
  assumes "reports_only Overlap" "reassem_inv s" "k < length (blocks s)" "blocks s ! k = b"
    and "\<forall>a \<in> set (take k (blocks s)). db_upper a \<le> seq" "\<not> db_upper b \<le> seq" "\<not> upper \<le> db_seq b"
    and "seq < upper" "length data = upper - seq"
    and IH: "\<And>k' seq' data' s'. upper - seq' < upper - seq \<Longrightarrow> reassem_inv s' \<Longrightarrow> k' < length (blocks s') \<Longrightarrow>
      (\<forall>a \<in> set (take k' (blocks s')). db_upper a \<le> seq') \<Longrightarrow> seq' < upper \<Longrightarrow> length data' = upper - seq' \<Longrightarrow>
      adds_block k' seq' data' s' (AddAndCheck Overlap k' seq' upper data' s')"
    and m: "m = db_seq b - seq" and n: "n = min (upper - (seq + m)) (db_upper b - (seq + m))"
    and kb: "kb = (if seq < db_seq b then k + 1 else k)"
  shows "\<exists>s1. (if seq < db_seq b then new_block k False data m seq s else Inr s) = Inr s1 \<and>
    adds_block k seq data s
      (let s2 = Overlap x (take n (drop m data)) s1 in
       rbind (if n < upper - (seq + m)
              then rbind (AddAndCheck Overlap kb (seq + m + n) upper (drop n (drop m data)) s2)
                     (\<lambda>(i, s3). Inr (if seq < db_seq b then k else i, s3))
              else Inr (k, s2))
             (\<lambda>(i, s3).
                Inr (i, if (if i = 0 then None else Some (db_id (blocks s3 ! (i - 1)))) = last_block s3
                        then s3\<lparr>last_block := Some (db_id (blocks s3 ! i))\<rparr> else s3)))"
proof -
  have "db_block b \<noteq> []" using assms(2-4) nth_mem [OF assms(3)] by (auto simp: reassem_inv_def separated_def)
  then have "db_seq b < db_upper b" by (rule upper_gt)
  then have mn: "m + n \<le> length data" "seq + m + n \<le> db_upper b" "0 < m + n" "db_seq b \<le> seq + m" "m \<le> length data"
    "n < upper - (seq + m) \<longleftrightarrow> seq + m + n < upper" "\<not> n < upper - (seq + m) \<Longrightarrow> m + n = length data"
    using assms(6-9) by (auto simp: m n min_def)
  obtain s1 where s1: "overlap_start k b seq data s m kb s1"
    using overlap_starts [OF assms(2-5)] mn(5) m kb by blast
  define s2 where "s2 = Overlap x (take n (drop m data)) s1"
  have sb: "same_base s1 s2" using assms(1) by (simp add: reports_only_def s2_def)
  then have bl: "blocks s2 = blocks s1" and inv2: "reassem_inv s2"
    using same_base_inv [OF sb] s1 by (simp_all add: same_base_def overlap_start_def)
  have "k \<le> kb" "kb < length (blocks s2)" using s1 bl by (simp_all add: kb overlap_start_def)
  note rest = overlap_rest [OF s1 sb _ _ m kb mn(1,2)] and fin = overlap_last_block [OF s1 \<open>k \<le> kb\<close>]
  show ?thesis
  proof (cases "n < upper - (seq + m)")
    case True
    then have "adds_block kb (seq + m + n) (drop (m + n) data) s2 (AddAndCheck Overlap kb (seq + m + n) upper (drop (m + n) data) s2)"
      using mn s1 bl assms(8,9) by (intro IH [OF _ inv2 \<open>kb < length (blocks s2)\<close>]) (auto simp: overlap_start_def)
    then obtain i s3 where i: "AddAndCheck Overlap kb (seq + m + n) upper (drop (m + n) data) s2 = Inr (i, s3)"
      "inserted (seq + m + n) (drop (m + n) data) s2 i s3" "take kb (blocks s3) = take kb (blocks s2)"
      by (auto simp: adds_block_def)
    then show ?thesis
      using True s1 fin [OF rest [OF i(2,3)]] bl
      by (intro exI [of _ s1]) (simp add: s2_def [symmetric] Let_def add.commute [of n] overlap_start_def)
  next
    case False
    then have "inserted (seq + m + n) (drop (m + n) data) s2 k s2"
      using mn(7) inserted_nothing [OF inv2, of k] \<open>k \<le> kb\<close> \<open>kb < length (blocks s2)\<close> by simp
    from rest [OF this refl] have "inserted seq data s k s2" by simp
    from fin [OF this] show ?thesis
      using False s1 bl by (intro exI [of _ s1]) (simp add: s2_def [symmetric] Let_def overlap_start_def)
  qed
qed

lemma AddAndCheck_works:
  assumes "reports_only Overlap" "reassem_inv s" "k0 < length (blocks s)" "\<forall>b \<in> set (take k0 (blocks s)). db_upper b \<le> seq"
    and "seq < upper" "length data = upper - seq"
  shows "adds_block k0 seq data s (AddAndCheck Overlap k0 seq upper data s)"
  using assms(2-)
proof (induction "upper - seq" arbitrary: k0 seq data s rule: less_induct)
  case less
  have ne: "blocks s \<noteq> []" using less.prems(2) by auto
  note app = append_last_works [OF less.prems(1) ne less.prems(5,4)]
  show ?case
  proof (cases "seq = db_upper (last (blocks s))")
    case True
    then obtain s' where s': "append_last seq upper data s = Inr (Some (length (blocks s), s'))" "inserted seq data s (length (blocks s)) s'"
      "take (length (blocks s)) (blocks s') = blocks s"
      using app by auto
    have "take k0 (blocks s') = take k0 (blocks s)"
      using less.prems(2) arg_cong [OF s'(3), of "take k0"] by (simp add: min_def)
    then show ?thesis using s' by (subst AddAndCheck.simps) (auto simp: adds_block_def)
  next
    case False
    then have none: "append_last seq upper data s = Inr None" using app by simp
    obtain j where j: "skip_before (drop k0 (blocks s)) seq k0 = k0 + j" "j < length (drop k0 (blocks s))"
      "\<forall>b \<in> set (take j (drop k0 (blocks s))). db_upper b \<le> seq"
      "db_upper (drop k0 (blocks s) ! j) \<le> seq \<longrightarrow> Suc j = length (drop k0 (blocks s))"
      using skip_before_works [of "drop k0 (blocks s)" seq k0] less.prems(2) by auto
    define k b where "k = k0 + j" and "b = blocks s ! k"
    have k: "k < length (blocks s)" "blocks s ! k = b" "k0 \<le> k" "db_upper b \<le> seq \<longrightarrow> Suc k = length (blocks s)"
      using j(2,4) by (auto simp: k_def b_def)
    have pre: "\<forall>a \<in> set (take k (blocks s)). db_upper a \<le> seq"
      using less.prems(3) j(3) unfolding k_def take_add by auto
    have cut: "adds_block k0 seq data s r" if "adds_block k seq data s r" for r
      using that k(3) unfolding adds_block_def by (metis min.absorb1 take_take)
    note unfold = AddAndCheck_unfold [OF none _ k(1,2), of k0 Overlap, OF j(1) [folded k_def]]
    consider "db_upper b \<le> seq" | "\<not> db_upper b \<le> seq" "upper \<le> db_seq b" | "\<not> db_upper b \<le> seq" "\<not> upper \<le> db_seq b" by blast
    then show ?thesis
    proof cases
      case 1
      then show ?thesis using AddAndCheck_apart(1) [OF less.prems(1) k(1,2) pre less.prems(4,5)] k(4) unfold cut by simp
    next
      case 2
      then show ?thesis using AddAndCheck_apart(2) [OF less.prems(1) k(1,2) pre less.prems(4,5)] unfold cut by simp
    next
      case 3
      define m where "m = db_seq b - seq"
      define n where "n = min (upper - (seq + m)) (db_upper b - (seq + m))"
      have mx: "max seq (db_seq b) = seq + m" by (auto simp: m_def)
      have le: "\<not> length (drop m data) < n" using 3 less.prems(4,5) by (auto simp: m_def n_def)
      note r = AddAndCheck_overlap [OF assms(1) less.prems(1) k(1,2) pre 3 less.prems(4,5) _ m_def n_def refl]
      have "adds_block k seq data s (AddAndCheck Overlap k0 seq upper data s)"
        unfolding unfold mx m_def [symmetric] Let_def n_def [symmetric] if_not_P [OF 3(1)] if_not_P [OF 3(2)] if_not_P [OF le]
        using r [of "take n (drop (seq + m - db_seq b) (db_block b))"] less.hyps by (auto simp: Let_def)
      then show ?thesis by (rule cut)
    qed
  qed
qed

subsection \<open>The part of the state that belongs to the subclass\<close>

definition kept_by :: "'x overlap \<Rightarrow> ('x Reassembler_scheme \<Rightarrow> 'k) \<Rightarrow> bool" where
  "kept_by Overlap K \<longleftrightarrow> (\<forall>s b1 b2. K (Overlap b1 b2 s) = K s) \<and>
     (\<forall>s bs. K (s\<lparr>blocks := bs\<rparr>) = K s) \<and> (\<forall>s l. K (s\<lparr>last_block := l\<rparr>) = K s) \<and> (\<forall>s i. K (s\<lparr>next_id := i\<rparr>) = K s)"

lemma kept_by_simps:
  assumes "kept_by Overlap K"
  shows "K (Overlap b1 b2 s) = K s" "K (s\<lparr>blocks := bs\<rparr>) = K s" "K (s\<lparr>last_block := l\<rparr>) = K s" "K (s\<lparr>next_id := i\<rparr>) = K s"
    "new_block k chop data len seq s = Inr s' \<Longrightarrow> K s' = K s" "append_last seq upper data s = Inr (Some (j, s')) \<Longrightarrow> K s' = K s"
proof -
  show simps: "K (Overlap b1 b2 s) = K s" "K (s\<lparr>blocks := bs\<rparr>) = K s" "K (s\<lparr>last_block := l\<rparr>) = K s" "K (s\<lparr>next_id := i\<rparr>) = K s"
    for s b1 b2 bs l i
    using assms by (simp_all add: kept_by_def)
  have "K (s\<lparr>blocks := bs, next_id := i\<rparr>) = K s" for s bs i using simps(4) [of i "s\<lparr>blocks := bs\<rparr>"] simps(2) by simp
  then show new: "new_block k chop data len seq s = Inr s' \<Longrightarrow> K s' = K s" for k chop data len seq s s'
    by (auto simp: new_block_def Let_def split: if_splits)
  show "append_last seq upper data s = Inr (Some (j, s')) \<Longrightarrow> K s' = K s"
    by (auto simp: append_last_def rbind_eq_Inr simps dest: new split: option.splits if_splits)
qed

lemma kept_by_nothing: "kept_by Overlap (\<lambda>s. ())"
  by (simp add: kept_by_def)

lemma AddAndCheck_keeps:
  assumes "kept_by Overlap K" "AddAndCheck Overlap k0 seq upper data s = Inr (i, s')"
  shows "K s' = K s"
  using assms
proof (induction Overlap k0 seq upper data s arbitrary: i s' rule: AddAndCheck.induct)
  case (1 Overlap k0 seq upper data s)
  note ks = kept_by_simps [OF "1.prems"(1)]
  obtain app where app: "append_last seq upper data s = Inr app"
    using "1.prems"(2) by (cases "append_last seq upper data s") (simp_all add: AddAndCheck.simps [of Overlap k0])
  show ?case
  proof (cases app)
    case (Some r)
    then show ?thesis using "1.prems"(2) app ks(6) by (auto simp: AddAndCheck.simps [of Overlap k0])
  next
    case None
    define k b where "k = skip_before (drop k0 (blocks s)) seq k0" and "b = blocks s ! k"
    have k: "k < length (blocks s)"
      using "1.prems"(2) app None by (auto simp: AddAndCheck.simps [of Overlap k0] k_def Let_def split: if_splits)
    note unf = AddAndCheck_unfold [OF app [unfolded None] k_def [symmetric] k b_def [symmetric], of Overlap]
    show ?thesis
    proof (cases "db_upper b \<le> seq \<or> upper \<le> db_seq b")
      case True
      then show ?thesis using "1.prems"(2) unfolding unf by (auto simp: rbind_eq_Inr ks(3) dest: ks(5) split: if_splits)
    next
      case False
      obtain s1 where s1: "(if seq < db_seq b then new_block k False data (db_seq b - seq) seq s else Inr s) = Inr s1"
        using "1.prems"(2) False unfolding unf by (auto simp: rbind_eq_Inr)
      define data1 seq1 new_b_len overlap_len where "data1 = drop (db_seq b - seq) data" and "seq1 = max seq (db_seq b)"
        and "new_b_len = upper - seq1" and "overlap_len = min new_b_len (db_upper b - seq1)"
      define s2 where "s2 = Overlap (take overlap_len (drop (seq1 - db_seq b) (db_block b))) (take overlap_len data1) s1"
      have K2: "K s2 = K s" using s1 ks(1,5) by (auto simp: s2_def split: if_splits)
      note IH = "1.IH" [OF app None k_def _ b_def _ _ s1 refl data1_def seq1_def new_b_len_def overlap_len_def _ s2_def _ "1.prems"(1)]
      let ?rest = "if overlap_len < new_b_len
            then rbind (AddAndCheck Overlap (if seq < db_seq b then k + 1 else k) (seq1 + overlap_len) upper (drop overlap_len data1) s2)
                   (\<lambda>(i, s3). Inr (if seq < db_seq b then k else i, s3))
            else Inr (k, s2)"
      have "(if overlap_len > length data1 then Inl OutOfBounds
          else rbind ?rest (\<lambda>(i, s3).
                       Inr (i, if (if i = 0 then None else Some (db_id (blocks s3 ! (i - 1)))) = last_block s3
                               then s3\<lparr>last_block := Some (db_id (blocks s3 ! i))\<rparr> else s3))) = Inr (i, s')"
        using "1.prems"(2) False unfolding unf s2_def overlap_len_def new_b_len_def seq1_def data1_def
        by (simp only: s1 de_Morgan_disj if_False rbind_Inr Let_def simp_thms)
      then obtain j s3 where s3: "?rest = Inr (j, s3)" "s' = s3 \<or> s' = s3\<lparr>last_block := Some (db_id (blocks s3 ! j))\<rparr>"
          "\<not> overlap_len > length data1"
        by (cases ?rest) (auto split: if_splits)
      then have "K s3 = K s2" using IH k False by (auto simp: rbind_eq_Inr split: if_splits)
      then show ?thesis using K2 s3(2) ks(3) by auto
    qed
  qed
qed

subsection \<open>The first bytes win\<close>

lemma NewBlock_works:
  assumes "reports_only Overlap" "reassem_inv s" "data \<noteq> []" "seq + length data < 2 ^ 64" "trim_seq s < seq + length data"
    and "kept_by Overlap K"
  obtains i s1 where "NewBlock Overlap BlockInserted seq data s = BlockInserted i s1"
    "inserted (max seq (trim_seq s)) (drop (trim_seq s - seq) data) s i s1" "K s1 = K s"
proof -
  let ?d = "drop (trim_seq s - seq) data" and ?q = "max seq (trim_seq s)"
  have "0 < length data" using assms(3) by simp
  then have "trim_seq s - seq < length data" using assms(5) by arith
  then have d: "?d \<noteq> []" "length ?d = seq + length data - ?q" "?q < seq + length data" using assms(5) by auto
  show thesis
  proof (cases "blocks s = []")
    case True
    have "\<exists>s1. new_block 0 True ?d (length ?d) ?q s = Inr s1 \<and> take 0 (blocks s1) = take 0 (blocks s) \<and>
        inserted ?q ?d s 0 (if 0 = length (blocks s) then s1\<lparr>last_block := Some (next_id s)\<rparr> else s1)"
      by (rule AddAndCheck_new) (use True assms(2) d(1) in simp_all)
    then obtain s1 where "new_block 0 True ?d (length ?d) ?q s = Inr s1" "inserted ?q ?d s 0 (s1\<lparr>last_block := Some (next_id s)\<rparr>)"
      using True by auto
    moreover have "K (s1\<lparr>last_block := Some (next_id s)\<rparr>) = K s" using calculation(1) kept_by_simps(3,5) [OF assms(6)] by metis
    ultimately show ?thesis using True assms(3-5) that by (simp add: NewBlock_def Let_def)
  next
    case False
    have "adds_block 0 ?q ?d s (AddAndCheck Overlap 0 ?q (seq + length data) ?d s)"
      by (rule AddAndCheck_works) (use False assms(1,2) d in auto)
    then obtain i s1 where "AddAndCheck Overlap 0 ?q (seq + length data) ?d s = Inr (i, s1)" "inserted ?q ?d s i s1"
      by (auto simp: adds_block_def)
    then show ?thesis using AddAndCheck_keeps [OF assms(6)] False assms(3-5) that by (simp add: NewBlock_def Let_def)
  qed
qed

lemma NewBlock_old:
  "data = [] \<or> (seq + length data < 2 ^ 64 \<and> seq + length data \<le> trim_seq s) \<Longrightarrow> NewBlock Overlap BlockInserted seq data s = Inr s"
  by (auto simp: NewBlock_def Let_def)

text \<open>
  What the base class relies on: \<^verbatim>\<open>Overlap\<close> of a subclass reports and leaves the blocks alone. A subclass has then
  from an insertion that the part \<open>K\<close> of its own state is kept.
\<close>

locale overlap_hook =
  fixes Overlap :: "'x overlap" and K :: "'x Reassembler_scheme \<Rightarrow> 'k"
  assumes reports: "reports_only Overlap" and keeps: "kept_by Overlap K"
begin

lemma insertion:
  assumes "reassem_inv s" "data \<noteq> []" "seq + length data < 2 ^ 64" "trim_seq s < seq + length data"
  obtains i s1 where "NewBlock Overlap BlockInserted seq data s = BlockInserted i s1"
    "inserted (max seq (trim_seq s)) (drop (trim_seq s - seq) data) s i s1" "K s1 = K s"
  by (rule NewBlock_works [OF reports assms keeps, of BlockInserted]) (rule that)

end

fun first_bytes :: "(nat \<times> u8 list) list \<Rightarrow> nat \<rightharpoonup> u8" where
  "first_bytes [] = Map.empty"
| "first_bytes ((seq, data) # segs) = first_bytes segs ++ bytes_from seq data"

lemma bytes_from_trim:
  "bytes_from (max seq t) (drop (t - seq) data) = bytes_from seq data |` {t..}"
  by (auto simp: bytes_from_def restrict_map_def fun_eq_iff max_def)

lemma NewBlock_content:
  assumes "reports_only Overlap" "reassem_inv s" "seq + length data < 2 ^ 64"
  shows "\<exists>s'. NewBlock Overlap (\<lambda>i. Inr) seq data s = Inr s' \<and> reassem_inv s' \<and> trim_seq s' = trim_seq s \<and>
    content (blocks s') = (bytes_from seq data |` {trim_seq s..}) ++ content (blocks s)"
proof (cases "data = [] \<or> seq + length data \<le> trim_seq s")
  case True
  then have "bytes_from seq data |` {trim_seq s..} = Map.empty" by (auto simp: bytes_from_def restrict_map_def fun_eq_iff)
  then show ?thesis using NewBlock_old [of data seq s] True assms(2,3) by auto
next
  case False
  then obtain i s1 where "NewBlock Overlap (\<lambda>i. Inr) seq data s = Inr s1"
    "inserted (max seq (trim_seq s)) (drop (trim_seq s - seq) data) s i s1"
    using NewBlock_works [OF assms(1,2) _ assms(3) _ kept_by_nothing, of "\<lambda>i. Inr"] by (metis not_le rbind_Inr)
  then show ?thesis by (auto simp: inserted_def bytes_from_trim)
qed

text \<open>
  C11. Whatever segments arrive, in any order, with any holes, overlaps and contradictions, the
  reassembler holds for every position behind its start the byte of the first segment that had one
  there, and nothing else; its list of blocks stays sorted, without overlaps and without empty blocks,
  the pointer to the last block points to the last block, and no byte outside a segment is read.
\<close>

theorem first_data_wins:
  assumes "reports_only Overlap" "\<forall>(seq, data) \<in> set segs. seq + length data < 2 ^ 64"
  shows "\<exists>s'. rfold (\<lambda>(seq, data). NewBlock Overlap (\<lambda>i. Inr) seq data) segs (Reassembler_init init) = Inr s' \<and>
    reassem_inv s' \<and> content (blocks s') = first_bytes segs |` {init..}"
proof -
  have "\<exists>s'. rfold (\<lambda>(seq, data). NewBlock Overlap (\<lambda>i. Inr) seq data) segs s = Inr s' \<and> reassem_inv s' \<and>
      content (blocks s') = (first_bytes segs |` {trim_seq s..}) ++ content (blocks s)" if "reassem_inv s" for s
    using that assms(2)
  proof (induction segs arbitrary: s)
    case Nil
    then show ?case by simp
  next
    case (Cons seg segs)
    obtain seq data where seg: "seg = (seq, data)" by (cases seg)
    then obtain s1 where s1: "NewBlock Overlap (\<lambda>i. Inr) seq data s = Inr s1" "reassem_inv s1" "trim_seq s1 = trim_seq s"
      "content (blocks s1) = (bytes_from seq data |` {trim_seq s..}) ++ content (blocks s)"
      using NewBlock_content [OF assms(1) Cons.prems(1)] Cons.prems(2) by force
    have "(m |` A) ++ ((m' |` A) ++ c) = ((m ++ m') |` A) ++ c" for m m' c :: "nat \<rightharpoonup> u8" and A
      by (auto simp: map_add_def restrict_map_def fun_eq_iff split: option.splits)
    then show ?case using Cons.IH [OF s1(2)] Cons.prems(2) s1 seg by auto
  qed
  from this [of "Reassembler_init init"] show ?thesis
    by (simp add: reassem_inv_def Reassembler_init_def separated_def)
qed

definition silent :: "'x overlap" where
  "silent b1 b2 s = s"

theorem first_data_wins_witness:
  "\<exists>s'. rfold (\<lambda>(seq, data). NewBlock silent (\<lambda>i. Inr) seq data) [(5, [101, 102, 103]), (1, [97, 98, 88, 88]), (2, [90, 99, 100, 89, 89, 89, 89, 104])] (Reassembler_init 1) = Inr s' \<and>
    reassem_inv s' \<and> content (blocks s') = first_bytes [(5, [101, 102, 103]), (1, [97, 98, 88, 88]), (2, [90, 99, 100, 89, 89, 89, 89, 104])] |` {1..}"
  by (rule first_data_wins) (simp_all add: reports_only_def silent_def same_base_def)

end
