(* ===== verification/NM_IP.thy ===== *)
theory NM_IP
  imports KF_Prelude
begin

section \<open>The network monitor: IP headers\<close>

text \<open>
  \<^verbatim>\<open>IP.h\<close> and \<^verbatim>\<open>IPv6_Hdr_Chain\<close> of \<^verbatim>\<open>IP.cc\<close>: the headers of a packet, read in place.
  The memory from the first byte of the packet to the last byte that was captured is a list of bytes,
  a pointer into it is a position, and a read behind its end is the fault \<open>OutOfBounds\<close>. Lengths and
  offsets are natural numbers; the one that can leave its sixteen bits, the length of a chain, is
  reduced modulo \<open>2 ^ 16\<close>. Mobile IPv6 is not configured (\<^verbatim>\<open>ENABLE_MOBILE_IPV6\<close>).
\<close>

subsection \<open>Reading fields\<close>

definition IPPROTO_HOPOPTS :: nat where "IPPROTO_HOPOPTS = 0"
definition IPPROTO_IPV6 :: nat where "IPPROTO_IPV6 = 41"
definition IPPROTO_ROUTING :: nat where "IPPROTO_ROUTING = 43"
definition IPPROTO_FRAGMENT :: nat where "IPPROTO_FRAGMENT = 44"
definition IPPROTO_ESP :: nat where "IPPROTO_ESP = 50"
definition IPPROTO_AH :: nat where "IPPROTO_AH = 51"
definition IPPROTO_NONE :: nat where "IPPROTO_NONE = 59"
definition IPPROTO_DSTOPTS :: nat where "IPPROTO_DSTOPTS = 60"
definition IPPROTO_RAW :: nat where "IPPROTO_RAW = 255"

lemmas ipproto_defs = IPPROTO_HOPOPTS_def IPPROTO_IPV6_def IPPROTO_ROUTING_def IPPROTO_FRAGMENT_def IPPROTO_ESP_def
  IPPROTO_AH_def IPPROTO_NONE_def IPPROTO_DSTOPTS_def IPPROTO_RAW_def

definition rdb :: "u8 list \<Rightarrow> nat \<Rightarrow> nat res" where
  "rdb mem p = rbind (rd8 mem p) (\<lambda>b. Inr (unat b))"

text \<open>A field of two or four bytes after \<^verbatim>\<open>ntohs\<close> or \<^verbatim>\<open>ntohl\<close>.\<close>

definition be16 :: "u8 list \<Rightarrow> nat \<Rightarrow> nat res" where
  "be16 mem p = rbind (rdb mem p) (\<lambda>a. rbind (rdb mem (p + 1)) (\<lambda>b. Inr (256 * a + b)))"

definition be32 :: "u8 list \<Rightarrow> nat \<Rightarrow> nat res" where
  "be32 mem p = rbind (be16 mem p) (\<lambda>a. rbind (be16 mem (p + 2)) (\<lambda>b. Inr (65536 * a + b)))"

definition field16 :: "u8 list \<Rightarrow> nat \<Rightarrow> nat" where
  "field16 mem p = 256 * unat (mem ! p) + unat (mem ! (p + 1))"

lemma rdb_ok [rd_simps]: "p < length mem \<Longrightarrow> rdb mem p = Inr (unat (mem ! p))"
  by (simp add: rdb_def rd8_def)

lemma be16_ok [rd_simps]: "p + 2 \<le> length mem \<Longrightarrow> be16 mem p = Inr (field16 mem p)"
  by (simp add: be16_def rdb_ok field16_def)

lemma be32_ok [rd_simps]: "p + 4 \<le> length mem \<Longrightarrow> be32 mem p = Inr (65536 * field16 mem p + field16 mem (p + 2))"
  by (simp add: be32_def be16_ok)

lemma field16_less: "field16 mem p < 65536"
  using u8_bound [of "mem ! p"] u8_bound [of "mem ! (p + 1)"] by (simp add: field16_def)

subsection \<open>One IPv6 header\<close>

record IPv6_Hdr =
  hdr_type :: nat
  hdr_data :: nat

definition ChangeNext :: "nat \<Rightarrow> u8 list \<Rightarrow> IPv6_Hdr \<Rightarrow> u8 list res" where
  "ChangeNext next_type mem h =
     (let put = (\<lambda>p. if p < length mem then Inr (mem[p := of_nat next_type]) else Inl OutOfBounds) in
      if hdr_type h = IPPROTO_IPV6 then put (hdr_data h + 6)
      else if hdr_type h \<in> {IPPROTO_HOPOPTS, IPPROTO_DSTOPTS, IPPROTO_ROUTING, IPPROTO_FRAGMENT, IPPROTO_AH} then put (hdr_data h)
      else Inr mem)"

definition NextHdr :: "u8 list \<Rightarrow> IPv6_Hdr \<Rightarrow> nat res" where
  "NextHdr mem h =
     (if hdr_type h = IPPROTO_IPV6 then rdb mem (hdr_data h + 6)
      else if hdr_type h \<in> {IPPROTO_HOPOPTS, IPPROTO_DSTOPTS, IPPROTO_ROUTING, IPPROTO_FRAGMENT, IPPROTO_AH} then rdb mem (hdr_data h)
      else Inr IPPROTO_NONE)"

definition hdr_Length :: "u8 list \<Rightarrow> IPv6_Hdr \<Rightarrow> nat res" where
  "hdr_Length mem h =
     (if hdr_type h = IPPROTO_IPV6 then Inr 40
      else if hdr_type h \<in> {IPPROTO_HOPOPTS, IPPROTO_DSTOPTS, IPPROTO_ROUTING}
      then rbind (rdb mem (hdr_data h + 1)) (\<lambda>l. Inr (8 + 8 * l))
      else if hdr_type h = IPPROTO_FRAGMENT then Inr 8
      else if hdr_type h = IPPROTO_AH then rbind (rdb mem (hdr_data h + 1)) (\<lambda>l. Inr (8 + 4 * l))
      else if hdr_type h = IPPROTO_ESP then Inr 8
      else Inr 0)"

definition isIPv6ExtHeader :: "nat \<Rightarrow> bool" where
  "isIPv6ExtHeader t \<longleftrightarrow>
     t \<in> {IPPROTO_HOPOPTS, IPPROTO_ROUTING, IPPROTO_DSTOPTS, IPPROTO_FRAGMENT, IPPROTO_AH, IPPROTO_ESP}"

subsection \<open>The chain of the headers\<close>

text \<open>An address is its sixteen bytes; \<open>hdr_weirds\<close> is what was reported.\<close>

datatype hdr_weird = Weird_between "u8 list" "u8 list" string | Weird_routing_type nat

record IPv6_Hdr_Chain =
  chain :: "IPv6_Hdr list"
  chain_length :: nat
  finalDst :: "u8 list option"
  hdr_weirds :: "hdr_weird list"

definition chain_IsFragment :: "IPv6_Hdr_Chain \<Rightarrow> bool" where
  "chain_IsFragment c \<longleftrightarrow> chain c \<noteq> [] \<and> hdr_type (last (chain c)) = IPPROTO_FRAGMENT"

definition GetFragHdr :: "IPv6_Hdr_Chain \<Rightarrow> nat" where
  "GetFragHdr c = hdr_data (last (chain c))"

definition chain_FragOffset :: "u8 list \<Rightarrow> IPv6_Hdr_Chain \<Rightarrow> nat res" where
  "chain_FragOffset mem c =
     (if chain_IsFragment c then rbind (be16 mem (GetFragHdr c + 2)) (\<lambda>offlg. Inr (offlg AND 0xfff8)) else Inr 0)"

definition chain_ID :: "u8 list \<Rightarrow> IPv6_Hdr_Chain \<Rightarrow> nat res" where
  "chain_ID mem c = (if chain_IsFragment c then be32 mem (GetFragHdr c + 4) else Inr 0)"

definition chain_MF :: "u8 list \<Rightarrow> IPv6_Hdr_Chain \<Rightarrow> bool res" where
  "chain_MF mem c =
     (if chain_IsFragment c then rbind (be16 mem (GetFragHdr c + 2)) (\<lambda>offlg. Inr (offlg AND 1 \<noteq> 0)) else Inr False)"

definition chain_SrcAddr :: "u8 list \<Rightarrow> IPv6_Hdr_Chain \<Rightarrow> u8 list res" where
  "chain_SrcAddr mem c =
     (case chain c of [] \<Rightarrow> Inr (replicate 16 0) | h # _ \<Rightarrow> rdn mem (hdr_data h + 8) 16)"

definition chain_DstAddr :: "u8 list \<Rightarrow> IPv6_Hdr_Chain \<Rightarrow> u8 list res" where
  "chain_DstAddr mem c =
     (case finalDst c of
        Some a \<Rightarrow> Inr a
      | None \<Rightarrow> (case chain c of [] \<Rightarrow> Inr (replicate 16 0) | h # _ \<Rightarrow> rdn mem (hdr_data h + 24) 16))"

definition chain_weird :: "string \<Rightarrow> u8 list \<Rightarrow> IPv6_Hdr_Chain \<Rightarrow> IPv6_Hdr_Chain res" where
  "chain_weird name mem c =
     rbind (chain_SrcAddr mem c) (\<lambda>src.
     rbind (chain_DstAddr mem c) (\<lambda>dst.
     Inr (c\<lparr>hdr_weirds := hdr_weirds c @ [Weird_between src dst name]\<rparr>)))"

definition ProcessRoutingHeader :: "u8 list \<Rightarrow> nat \<Rightarrow> nat \<Rightarrow> IPv6_Hdr_Chain \<Rightarrow> IPv6_Hdr_Chain res" where
  "ProcessRoutingHeader mem r len c =
     (if finalDst c \<noteq> None then chain_weird ''multiple_routing_headers'' mem c
      else
        rbind (rdb mem (r + 2)) (\<lambda>ip6r_type.
        if ip6r_type = 0
        then rbind (rdb mem (r + 3)) (\<lambda>ip6r_segleft.
             rbind (rdb mem (r + 1)) (\<lambda>ip6r_len.
             rbind
               (if ip6r_segleft > 0 \<and> ip6r_len \<ge> 2
                then if ip6r_len mod 2 = 0
                     then rbind (rdn mem (r + len - 16) 16) (\<lambda>addr. Inr (c\<lparr>finalDst := Some addr\<rparr>))
                     else chain_weird ''odd_routing0_len'' mem c
                else Inr c)
               (chain_weird ''routing0_hdr'' mem)))
        else Inr (c\<lparr>hdr_weirds := hdr_weirds c @ [Weird_routing_type ip6r_type]\<rparr>)))"

lemma ext_header_long:
  assumes "NextHdr mem h = Inr n" "hdr_Length mem h = Inr l" "isIPv6ExtHeader n"
  shows "8 \<le> l"
  using assms
  by (auto simp: NextHdr_def hdr_Length_def isIPv6ExtHeader_def ipproto_defs rbind_eq_Inr split: if_splits)

text \<open>
  The loop of \<^verbatim>\<open>Init\<close>: \<open>hdrs\<close> is the place of the next header, of type \<open>next_type\<close>, and \<open>total_len\<close> the
  number of bytes from there on. When \<open>set_next\<close> is true, the memory is changed.
\<close>

function init_loop ::
  "bool \<Rightarrow> nat \<Rightarrow> nat \<Rightarrow> nat \<Rightarrow> nat \<Rightarrow> u8 list \<Rightarrow> IPv6_Hdr_Chain \<Rightarrow> (u8 list \<times> IPv6_Hdr_Chain) res" where
  "init_loop set_next nxt hdrs total_len next_type mem c =
     (if total_len < 2 then Inr (mem, c)
      else let p = \<lparr>hdr_type = next_type, hdr_data = hdrs\<rparr> in
      rbind (NextHdr mem p) (\<lambda>next1.
      rbind (hdr_Length mem p) (\<lambda>cur_len.
      if cur_len > total_len then Inr (mem, c)
      else
        rbind (if set_next \<and> next1 = IPPROTO_FRAGMENT
               then rbind (ChangeNext (nxt mod 256) mem p) (\<lambda>mem'. Inr (nxt mod 256, mem'))
               else Inr (next1, mem)) (\<lambda>(next2, mem1).
        rbind (if next_type = IPPROTO_ROUTING then ProcessRoutingHeader mem1 hdrs cur_len (c\<lparr>chain := chain c @ [p]\<rparr>)
               else Inr (c\<lparr>chain := chain c @ [p]\<rparr>)) (\<lambda>c1.
        let c2 = c1\<lparr>chain_length := (chain_length c1 + cur_len) mod 2 ^ 16\<rparr> in
        if next_type \<noteq> IPPROTO_FRAGMENT \<and> next_type \<noteq> IPPROTO_ESP \<and> isIPv6ExtHeader next2
        then init_loop set_next nxt (hdrs + cur_len) (total_len - cur_len) next2 mem1 c2
        else Inr (mem1, c2))))))"
  by pat_completeness auto
termination
proof (relation "measure (\<lambda>(_, _, _, total_len, _, _, _). total_len)", goal_cases)
  case 1
  then show ?case by simp
next
  case (2 set_next nxt hdrs total_len next_type mem c p next1 cur_len r next2 mem1 c1 c2)
  have "isIPv6ExtHeader IPPROTO_FRAGMENT" by (simp add: isIPv6ExtHeader_def)
  then have "isIPv6ExtHeader next1" using 2 by (auto simp: rbind_eq_Inr split: if_splits)
  then have "8 \<le> cur_len" using 2(3,4) ext_header_long by blast
  then show ?case using 2(1,5) by simp
qed

declare init_loop.simps [simp del]

definition chain_Init :: "bool \<Rightarrow> nat \<Rightarrow> nat \<Rightarrow> u8 list \<Rightarrow> (u8 list \<times> IPv6_Hdr_Chain) res" where
  "chain_Init set_next nxt total_len mem =
     (let c = \<lparr>chain = [], chain_length = 0, finalDst = None, hdr_weirds = []\<rparr>
      in if total_len < 40 then Inr (mem, c)
         else init_loop set_next nxt 0 total_len IPPROTO_IPV6 mem c)"

subsection \<open>The packet\<close>

text \<open>\<^verbatim>\<open>IP_Hdr\<close>: the memory at \<^verbatim>\<open>ip4\<close> or at \<^verbatim>\<open>ip6\<close>, and for IPv6 the chain.\<close>

datatype IP_Hdr = IP4 "u8 list" | IP6 "u8 list" IPv6_Hdr_Chain

definition IP_Hdr_6 :: "u8 list \<Rightarrow> nat \<Rightarrow> IP_Hdr res" where
  "IP_Hdr_6 mem len = rbind (chain_Init False 0 len mem) (\<lambda>(mem', c). Inr (IP6 mem' c))"

definition ip_hl :: "u8 list \<Rightarrow> nat res" where
  "ip_hl mem = rbind (rdb mem 0) (\<lambda>b. Inr (b AND 15))"

definition v4_mapped :: "u8 list \<Rightarrow> u8 list" where
  "v4_mapped a = replicate 10 0 @ [255, 255] @ a"

primrec IPHeaderSrcAddr :: "IP_Hdr \<Rightarrow> u8 list res" where
  "IPHeaderSrcAddr (IP4 mem) = rbind (rdn mem 12 4) (\<lambda>a. Inr (v4_mapped a))"
| "IPHeaderSrcAddr (IP6 mem c) = rdn mem 8 16"

primrec IPHeaderDstAddr :: "IP_Hdr \<Rightarrow> u8 list res" where
  "IPHeaderDstAddr (IP4 mem) = rbind (rdn mem 16 4) (\<lambda>a. Inr (v4_mapped a))"
| "IPHeaderDstAddr (IP6 mem c) = rdn mem 24 16"

primrec SrcAddr :: "IP_Hdr \<Rightarrow> u8 list res" where
  "SrcAddr (IP4 mem) = rbind (rdn mem 12 4) (\<lambda>a. Inr (v4_mapped a))"
| "SrcAddr (IP6 mem c) = chain_SrcAddr mem c"

primrec DstAddr :: "IP_Hdr \<Rightarrow> u8 list res" where
  "DstAddr (IP4 mem) = rbind (rdn mem 16 4) (\<lambda>a. Inr (v4_mapped a))"
| "DstAddr (IP6 mem c) = chain_DstAddr mem c"

text \<open>The place of the payload in the memory.\<close>

primrec Payload :: "IP_Hdr \<Rightarrow> nat res" where
  "Payload (IP4 mem) = rbind (ip_hl mem) (\<lambda>hl. Inr (hl * 4))"
| "Payload (IP6 mem c) = Inr (chain_length c)"

definition sub16 :: "nat \<Rightarrow> nat \<Rightarrow> nat" where
  "sub16 a b = nat ((int a - int b) mod 2 ^ 16)"

primrec PayloadLen :: "IP_Hdr \<Rightarrow> nat res" where
  "PayloadLen (IP4 mem) = rbind (be16 mem 2) (\<lambda>ip_len. rbind (ip_hl mem) (\<lambda>hl. Inr (sub16 ip_len (hl * 4))))"
| "PayloadLen (IP6 mem c) = rbind (be16 mem 4) (\<lambda>ip6_plen. Inr (sub16 (ip6_plen + 40) (chain_length c)))"

primrec TotalLen :: "IP_Hdr \<Rightarrow> nat res" where
  "TotalLen (IP4 mem) = be16 mem 2"
| "TotalLen (IP6 mem c) = rbind (be16 mem 4) (\<lambda>ip6_plen. Inr (ip6_plen + 40))"

primrec HdrLen :: "IP_Hdr \<Rightarrow> nat res" where
  "HdrLen (IP4 mem) = rbind (ip_hl mem) (\<lambda>hl. Inr (hl * 4))"
| "HdrLen (IP6 mem c) = Inr (chain_length c)"

primrec LastHeader :: "IP_Hdr \<Rightarrow> nat" where
  "LastHeader (IP4 mem) = IPPROTO_RAW"
| "LastHeader (IP6 mem c) = (if chain c = [] then IPPROTO_NONE else hdr_type (last (chain c)))"

primrec NextProto :: "IP_Hdr \<Rightarrow> nat res" where
  "NextProto (IP4 mem) = rdb mem 9"
| "NextProto (IP6 mem c) = (if chain c = [] then Inr IPPROTO_NONE else NextHdr mem (last (chain c)))"

primrec TTL :: "IP_Hdr \<Rightarrow> nat res" where
  "TTL (IP4 mem) = rdb mem 8"
| "TTL (IP6 mem c) = rdb mem 7"

primrec IsFragment :: "IP_Hdr \<Rightarrow> bool res" where
  "IsFragment (IP4 mem) = rbind (be16 mem 6) (\<lambda>ip_off. Inr (ip_off AND 0x3fff \<noteq> 0))"
| "IsFragment (IP6 mem c) = Inr (chain_IsFragment c)"

primrec FragOffset :: "IP_Hdr \<Rightarrow> nat res" where
  "FragOffset (IP4 mem) = rbind (be16 mem 6) (\<lambda>ip_off. Inr ((ip_off AND 0x1fff) * 8))"
| "FragOffset (IP6 mem c) = chain_FragOffset mem c"

primrec ID :: "IP_Hdr \<Rightarrow> nat res" where
  "ID (IP4 mem) = be16 mem 4"
| "ID (IP6 mem c) = chain_ID mem c"

primrec MF :: "IP_Hdr \<Rightarrow> bool res" where
  "MF (IP4 mem) = rbind (be16 mem 6) (\<lambda>ip_off. Inr (ip_off AND 0x2000 \<noteq> 0))"
| "MF (IP6 mem c) = chain_MF mem c"

primrec DF :: "IP_Hdr \<Rightarrow> bool res" where
  "DF (IP4 mem) = rbind (be16 mem 6) (\<lambda>ip_off. Inr (ip_off AND 0x4000 \<noteq> 0))"
| "DF (IP6 mem c) = Inr False"

primrec FlowLabel :: "IP_Hdr \<Rightarrow> nat res" where
  "FlowLabel (IP4 mem) = Inr 0"
| "FlowLabel (IP6 mem c) = rbind (be32 mem 0) (\<lambda>ip6_flow. Inr (ip6_flow AND 0xfffff))"

primrec NumHeaders :: "IP_Hdr \<Rightarrow> nat" where
  "NumHeaders (IP4 mem) = 1"
| "NumHeaders (IP6 mem c) = length (chain c)"

subsection \<open>The chain lies inside the packet\<close>

text \<open>
  The headers from \<open>pos\<close> on in a packet of \<open>lim\<close> bytes: each is where the one before ends, of the type
  that the one before names, and whole. They end at \<open>end_pos\<close>, behind a fragment header, an encrypted
  one or one that names no further extension header, or in front of one that is cut off.
\<close>

fun laid_out :: "u8 list \<Rightarrow> nat \<Rightarrow> nat \<Rightarrow> nat \<Rightarrow> nat \<Rightarrow> IPv6_Hdr list \<Rightarrow> bool" where
  "laid_out mem lim pos t end_pos [] \<longleftrightarrow>
     pos = end_pos \<and> (lim - pos < 2 \<or> (\<exists>l. hdr_Length mem \<lparr>hdr_type = t, hdr_data = pos\<rparr> = Inr l \<and> lim - pos < l))"
| "laid_out mem lim pos t end_pos (h # hs) \<longleftrightarrow>
     h = \<lparr>hdr_type = t, hdr_data = pos\<rparr> \<and>
     (\<exists>n l. NextHdr mem h = Inr n \<and> hdr_Length mem h = Inr l \<and> 8 \<le> l \<and> pos + l \<le> lim \<and>
        (if t \<noteq> IPPROTO_FRAGMENT \<and> t \<noteq> IPPROTO_ESP \<and> isIPv6ExtHeader n then laid_out mem lim (pos + l) n end_pos hs
         else hs = [] \<and> end_pos = pos + l))"

lemma laid_out_le: "laid_out mem lim pos t end_pos hs \<Longrightarrow> pos \<le> end_pos \<and> (pos \<le> lim \<longrightarrow> end_pos \<le> lim)"
  by (induction hs arbitrary: pos t) (fastforce split: if_splits)+

lemma header_reads:
  assumes "2 \<le> n" "pos + n \<le> length mem" "t = IPPROTO_IPV6 \<longrightarrow> 40 \<le> n" "h = \<lparr>hdr_type = t, hdr_data = pos\<rparr>"
  shows "\<exists>k. NextHdr mem h = Inr k" "\<exists>l. hdr_Length mem h = Inr l"
  using assms by (auto simp: NextHdr_def hdr_Length_def rdb_ok)

lemma chain_weird_ok:
  assumes "chain c \<noteq> []" "hdr_data (hd (chain c)) = 0" "40 \<le> length mem"
  shows "\<exists>c'. chain_weird name mem c = Inr c' \<and> chain c' = chain c \<and> chain_length c' = chain_length c \<and> finalDst c' = finalDst c"
  using assms by (cases "chain c") (auto simp: chain_weird_def chain_SrcAddr_def chain_DstAddr_def rdn_ok split: option.splits)

lemma routing_reads:
  assumes "chain c \<noteq> []" "hdr_data (hd (chain c)) = 0" "40 \<le> length mem" "r + len \<le> length mem"
    and "hdr_Length mem \<lparr>hdr_type = IPPROTO_ROUTING, hdr_data = r\<rparr> = Inr len" "r + 8 \<le> length mem"
  shows "\<exists>c'. ProcessRoutingHeader mem r len c = Inr c' \<and> chain c' = chain c \<and> chain_length c' = chain_length c"
proof -
  have len: "len = 8 + 8 * unat (mem ! (r + 1))"
    using assms(5,6) by (simp add: hdr_Length_def ipproto_defs rdb_ok)
  show ?thesis
  proof (cases "finalDst c = None")
    case False
    then show ?thesis using chain_weird_ok [OF assms(1-3)] by (fastforce simp: ProcessRoutingHeader_def)
  next
    case True
    have "rdb mem (r + k) = Inr (unat (mem ! (r + k)))" if "k < 8" for k using that assms(6) by (simp add: rdb_ok)
    note rd = this [of 1, simplified] this [of 2, simplified] this [of 3, simplified]
    show ?thesis
    proof (cases "unat (mem ! (r + 2)) = 0")
      case False
      then show ?thesis using True rd by (simp add: ProcessRoutingHeader_def)
    next
      case zero: True
      have addr: "rdn mem (r + len - 16) 16 = Inr (take 16 (drop (r + len - 16) mem))" if "2 \<le> unat (mem ! (r + 1))"
        using that len assms(4) by (intro rdn_ok) simp
      obtain cw where cw: "chain_weird ''odd_routing0_len'' mem c = Inr cw" "chain cw = chain c" "chain_length cw = chain_length c"
        using chain_weird_ok [OF assms(1-3), of "''odd_routing0_len''"] by blast
      have "\<exists>c1. (if unat (mem ! (r + 3)) > 0 \<and> unat (mem ! (r + 1)) \<ge> 2
          then if unat (mem ! (r + 1)) mod 2 = 0
               then rbind (rdn mem (r + len - 16) 16) (\<lambda>addr. Inr (c\<lparr>finalDst := Some addr\<rparr>))
               else chain_weird ''odd_routing0_len'' mem c
          else Inr c) = Inr c1 \<and> chain c1 = chain c \<and> chain_length c1 = chain_length c" (is "\<exists>c1. ?step = Inr c1 \<and> _")
        using addr cw by simp
      then obtain c1 where c1: "?step = Inr c1" "chain c1 = chain c" "chain_length c1 = chain_length c" by blast
      then show ?thesis
        using True zero rd chain_weird_ok [of c1 mem "''routing0_hdr''"] assms(1-3)
        by (auto simp: ProcessRoutingHeader_def c1(1))
    qed
  qed
qed

lemma ChangeNext_works:
  assumes "NextHdr mem h = Inr IPPROTO_FRAGMENT" "v < 256"
  shows "\<exists>mem1. ChangeNext v mem h = Inr mem1 \<and> length mem1 = length mem \<and> NextHdr mem1 h = Inr v \<and>
    hdr_Length mem1 h = hdr_Length mem h \<and> (\<forall>q < hdr_data h. mem1 ! q = mem ! q)"
proof -
  have "unat (of_nat v :: u8) = v" using assms(2) by (simp add: unat_of_nat)
  then show ?thesis
    using assms(1)
    by (auto simp: NextHdr_def ChangeNext_def hdr_Length_def ipproto_defs rdb_def rd8_def nth_list_update Let_def split: if_splits)
qed

lemma header_agrees:
  assumes "\<forall>q < hdr_data h + l. mem' ! q = mem ! q" "length mem' = length mem" "hdr_Length mem h = Inr l" "8 \<le> l"
  shows "NextHdr mem' h = NextHdr mem h" "hdr_Length mem' h = Inr l"
proof -
  have "rdb mem' (hdr_data h + k) = rdb mem (hdr_data h + k)" if "k < 8" for k
    using that assms by (simp add: rdb_def rd8_def)
  note same = this [of 0, simplified] this [of 1, simplified] this [of 6, simplified]
  show "NextHdr mem' h = NextHdr mem h" using same by (simp add: NextHdr_def)
  have "hdr_Length mem' h = hdr_Length mem h" using same by (simp add: hdr_Length_def)
  then show "hdr_Length mem' h = Inr l" using assms(3) by simp
qed

text \<open>What \<^verbatim>\<open>Init\<close> does with one header: it is added, and its next field may be changed.\<close>

definition header_step :: "bool \<Rightarrow> nat \<Rightarrow> IPv6_Hdr \<Rightarrow> u8 list \<Rightarrow> nat \<Rightarrow> u8 list \<Rightarrow> bool" where
  "header_step set_next nxt p mem next2 mem1 \<longleftrightarrow>
     length mem1 = length mem \<and> NextHdr mem1 p = Inr next2 \<and> hdr_Length mem1 p = hdr_Length mem p \<and>
     (\<forall>q < hdr_data p. mem1 ! q = mem ! q) \<and> (\<not> set_next \<longrightarrow> mem1 = mem)"

lemma change_step:
  assumes "NextHdr mem p = Inr next1"
  shows "\<exists>next2 mem1. (if set_next \<and> next1 = IPPROTO_FRAGMENT
               then rbind (ChangeNext (nxt mod 256) mem p) (\<lambda>mem'. Inr (nxt mod 256, mem'))
               else Inr (next1, mem)) = Inr (next2, mem1) \<and> header_step set_next nxt p mem next2 mem1"
  using assms ChangeNext_works [of mem p "nxt mod 256"] by (auto simp: header_step_def)

definition chained :: "bool \<Rightarrow> nat \<Rightarrow> nat \<Rightarrow> nat \<Rightarrow> u8 list \<Rightarrow> IPv6_Hdr_Chain \<Rightarrow> (u8 list \<times> IPv6_Hdr_Chain) res \<Rightarrow> bool" where
  "chained set_next hdrs total_len t mem c r \<longleftrightarrow> (\<exists>mem' c' hs e. r = Inr (mem', c') \<and>
    length mem' = length mem \<and> (\<forall>q < hdrs. mem' ! q = mem ! q) \<and> (\<not> set_next \<longrightarrow> mem' = mem) \<and>
    chain c' = chain c @ hs \<and> laid_out mem' (hdrs + total_len) hdrs t e hs \<and>
    (chain_length c < 2 ^ 16 \<longrightarrow> chain_length c' = (chain_length c + (e - hdrs)) mod 2 ^ 16))"

lemma chained_stop:
  assumes "total_len < 2 \<or> (\<exists>l. hdr_Length mem \<lparr>hdr_type = t, hdr_data = hdrs\<rparr> = Inr l \<and> total_len < l)"
  shows "chained set_next hdrs total_len t mem c (Inr (mem, c))"
  unfolding chained_def using assms by (intro exI [of _ mem] exI [of _ c] exI [of _ "[]"] exI [of _ hdrs]) simp

text \<open>One header, and the headers behind it.\<close>

lemma chained_more:
  assumes step: "header_step set_next nxt \<lparr>hdr_type = t, hdr_data = hdrs\<rparr> mem next2 mem1"
    and l: "hdr_Length mem \<lparr>hdr_type = t, hdr_data = hdrs\<rparr> = Inr l" "8 \<le> l" "l \<le> total_len"
    and c1: "chain c1 = chain c @ [\<lparr>hdr_type = t, hdr_data = hdrs\<rparr>]" "chain_length c1 = (chain_length c + l) mod 2 ^ 16"
    and r: "if t \<noteq> IPPROTO_FRAGMENT \<and> t \<noteq> IPPROTO_ESP \<and> isIPv6ExtHeader next2
      then chained set_next (hdrs + l) (total_len - l) next2 mem1 c1 r else r = Inr (mem1, c1)"
  shows "chained set_next hdrs total_len t mem c r"
proof (cases "t \<noteq> IPPROTO_FRAGMENT \<and> t \<noteq> IPPROTO_ESP \<and> isIPv6ExtHeader next2")
  case False
  then have "laid_out mem1 (hdrs + total_len) hdrs t (hdrs + l) [\<lparr>hdr_type = t, hdr_data = hdrs\<rparr>]" "r = Inr (mem1, c1)"
    using step l r by (auto simp: header_step_def)
  then show ?thesis unfolding chained_def using c1 step by (fastforce simp: header_step_def)
next
  case True
  let ?p = "\<lparr>hdr_type = t, hdr_data = hdrs\<rparr>"
  obtain mem' c' hs e where r: "r = Inr (mem', c')" "length mem' = length mem1" "\<forall>q < hdrs + l. mem' ! q = mem1 ! q"
    "\<not> set_next \<longrightarrow> mem' = mem1" "chain c' = chain c1 @ hs" "laid_out mem' (hdrs + l + (total_len - l)) (hdrs + l) next2 e hs"
    "chain_length c1 < 2 ^ 16 \<longrightarrow> chain_length c' = (chain_length c1 + (e - (hdrs + l))) mod 2 ^ 16"
    using r True unfolding chained_def by auto
  have "NextHdr mem' ?p = Inr next2" "hdr_Length mem' ?p = Inr l"
    using header_agrees [of ?p l mem' mem1] r(2,3) step l by (simp_all add: header_step_def)
  then have "laid_out mem' (hdrs + total_len) hdrs t e (?p # hs)" using r(6) l True by simp
  moreover have "chain_length c' = (chain_length c + (e - hdrs)) mod 2 ^ 16"
  proof -
    have "l + (e - (hdrs + l)) = e - hdrs" using laid_out_le [OF r(6)] by simp
    then show ?thesis using r(7) c1(2) by (simp add: mod_add_left_eq add.assoc)
  qed
  ultimately show ?thesis
    unfolding chained_def using r c1(1) step
    by (intro exI [of _ mem'] exI [of _ c'] exI [of _ "?p # hs"] exI [of _ e]) (simp add: header_step_def)
qed

lemma init_loop_works:
  assumes "hdrs + total_len \<le> length mem" "next_type = IPPROTO_IPV6 \<and> chain c = [] \<and> hdrs = 0 \<and> 40 \<le> total_len \<or>
      isIPv6ExtHeader next_type \<and> chain c \<noteq> [] \<and> hdr_data (hd (chain c)) = 0 \<and> 40 \<le> hdrs"
  shows "chained set_next hdrs total_len next_type mem c (init_loop set_next nxt hdrs total_len next_type mem c)"
  using assms
proof (induction set_next nxt hdrs total_len next_type mem c rule: init_loop.induct)
  case (1 set_next nxt hdrs total_len next_type mem c)
  define p where "p = \<lparr>hdr_type = next_type, hdr_data = hdrs\<rparr>"
  note unf = init_loop.simps [of set_next nxt hdrs total_len next_type mem c, folded p_def, unfolded Let_def]
  show ?case
  proof (cases "total_len < 2")
    case True
    then show ?thesis by (simp add: unf chained_stop)
  next
    case False
    obtain next1 l where rd: "NextHdr mem p = Inr next1" "hdr_Length mem p = Inr l"
      using header_reads [of total_len hdrs mem next_type p] False "1.prems" by (auto simp: p_def isIPv6ExtHeader_def ipproto_defs)
    have l: "8 \<le> l" "hdrs = 0 \<longrightarrow> l = 40" using rd(2) "1.prems"(2)
      by (auto simp: hdr_Length_def p_def isIPv6ExtHeader_def ipproto_defs rbind_eq_Inr split: if_splits)
    show ?thesis
    proof (cases "total_len < l")
      case True
      then show ?thesis using False rd by (simp add: unf chained_stop p_def [symmetric])
    next
      case fits: False
      obtain next2 mem1 where ch: "(if set_next \<and> next1 = IPPROTO_FRAGMENT
               then rbind (ChangeNext (nxt mod 256) mem p) (\<lambda>mem'. Inr (nxt mod 256, mem'))
               else Inr (next1, mem)) = Inr (next2, mem1)" and step: "header_step set_next nxt p mem next2 mem1"
        using change_step [OF rd(1)] by blast
      note st = this(2) [unfolded header_step_def]
      let ?c = "c\<lparr>chain := chain c @ [p]\<rparr>"
      have hd: "hdr_data (hd (chain c @ [p])) = 0" "40 \<le> length mem1" "40 \<le> hdrs + l"
        using "1.prems" st fits l by (auto simp: p_def hd_append)
      obtain c1 where c1: "(if next_type = IPPROTO_ROUTING then ProcessRoutingHeader mem1 hdrs l ?c else Inr ?c) = Inr c1"
          "chain c1 = chain c @ [p]" "chain_length c1 = chain_length c"
        using routing_reads [of ?c mem1 hdrs l] hd st rd fits l "1.prems"(1) by (cases "next_type = IPPROTO_ROUTING") (auto simp: p_def)
      define c2 where "c2 = c1\<lparr>chain_length := (chain_length c1 + l) mod 2 ^ 16\<rparr>"
      have c2: "chain c2 = chain c @ [p]" "chain_length c2 = (chain_length c + l) mod 2 ^ 16" using c1 by (simp_all add: c2_def)
      let ?go = "next_type \<noteq> IPPROTO_FRAGMENT \<and> next_type \<noteq> IPPROTO_ESP \<and> isIPv6ExtHeader next2"
      have run: "init_loop set_next nxt hdrs total_len next_type mem c =
          (if ?go then init_loop set_next nxt (hdrs + l) (total_len - l) next2 mem1 c2 else Inr (mem1, c2))"
        unfolding unf using False fits rd ch c1(1) by (simp add: c2_def)
      have "chained set_next (hdrs + l) (total_len - l) next2 mem1 c2 (init_loop set_next nxt (hdrs + l) (total_len - l) next2 mem1 c2)" if ?go
        by (rule "1.IH" [OF False p_def rd fits ch refl c1(1) c2_def that]) (use "1.prems"(1) fits st that hd c2 in auto)
      then show ?thesis
        unfolding run by (intro chained_more [OF step [unfolded p_def] rd(2) [unfolded p_def] l(1) _ c2 [unfolded p_def]]) (use fits in simp_all)
    qed
  qed
qed

abbreviation empty_chain :: IPv6_Hdr_Chain where
  "empty_chain \<equiv> \<lparr>chain = [], chain_length = 0, finalDst = None, hdr_weirds = []\<rparr>"

lemma chain_Init_chained:
  assumes "total_len \<le> length mem"
  shows "chained set_next 0 total_len IPPROTO_IPV6 mem empty_chain (chain_Init set_next nxt total_len mem)"
proof (cases "total_len < 40")
  case True
  then show ?thesis by (auto simp: chain_Init_def hdr_Length_def intro!: chained_stop)
next
  case False
  then have "chained set_next 0 total_len IPPROTO_IPV6 mem empty_chain (init_loop set_next nxt 0 total_len IPPROTO_IPV6 mem empty_chain)"
    using assms by (intro init_loop_works) simp_all
  then show ?thesis using False by (simp add: chain_Init_def)
qed

text \<open>
  C13. Building the chain of the headers of an IPv6 packet reads no byte behind the \<open>total_len\<close> bytes that
  were captured, ends for every packet, and gives exactly the headers that lie one behind the other
  from the start of the packet on, up to the first that is not whole or that is the last by its type.
\<close>

theorem ipv6_chain_is_laid_out:
  assumes "total_len \<le> length mem"
  shows "\<exists>mem' c e. chain_Init set_next nxt total_len mem = Inr (mem', c) \<and> length mem' = length mem \<and>
    (\<not> set_next \<longrightarrow> mem' = mem) \<and> laid_out mem' total_len 0 IPPROTO_IPV6 e (chain c) \<and> e \<le> total_len \<and> chain_length c = e mod 2 ^ 16"
proof -
  obtain mem' c e where "chain_Init set_next nxt total_len mem = Inr (mem', c)" "length mem' = length mem" "\<not> set_next \<longrightarrow> mem' = mem"
    "laid_out mem' total_len 0 IPPROTO_IPV6 e (chain c)" "chain_length c = e mod 2 ^ 16"
    using chain_Init_chained [OF assms, of set_next nxt] unfolding chained_def by auto
  then show ?thesis using laid_out_le by blast
qed

definition demo_v6_fragment :: "u8 list" where
  "demo_v6_fragment = [96, 0, 0, 0, 0, 16, 44, 64] @ replicate 31 0 @ [1] @ [17, 0, 0, 1, 0, 0, 0, 7] @ [1, 2, 3, 4, 5, 6, 7, 8]"

theorem ipv6_chain_is_laid_out_witness:
  "\<exists>mem' c e. chain_Init False 0 56 demo_v6_fragment = Inr (mem', c) \<and> length mem' = length demo_v6_fragment \<and>
    mem' = demo_v6_fragment \<and> laid_out mem' 56 0 IPPROTO_IPV6 e (chain c) \<and> e \<le> 56 \<and> chain_length c = e mod 2 ^ 16"
  using ipv6_chain_is_laid_out [of 56 demo_v6_fragment False 0] by (simp add: demo_v6_fragment_def)

subsection \<open>Well-formed packets\<close>

text \<open>
  What the caller has checked or what it has built: a whole IPv4 header of at least twenty bytes, or the
  chain of an IPv6 packet. The captured bytes are fewer than \<open>2 ^ 16\<close>.
\<close>

primrec wf_ip :: "IP_Hdr \<Rightarrow> bool" where
  "wf_ip (IP4 mem) \<longleftrightarrow> 20 \<le> length mem \<and> length mem < 2 ^ 16 \<and> 5 \<le> unat (mem ! 0) AND 15 \<and> (unat (mem ! 0) AND 15) * 4 \<le> length mem \<and>
     unat (mem ! 0) div 16 = 4"
| "wf_ip (IP6 mem c) \<longleftrightarrow> 40 \<le> length mem \<and> length mem < 2 ^ 16 \<and> unat (mem ! 0) div 16 = 6 \<and>
     (\<exists>e. laid_out mem (length mem) 0 IPPROTO_IPV6 e (chain c) \<and> chain_length c = e)"

primrec memory :: "IP_Hdr \<Rightarrow> u8 list" where
  "memory (IP4 mem) = mem"
| "memory (IP6 mem c) = mem"

primrec is_v4 :: "IP_Hdr \<Rightarrow> bool" where
  "is_v4 (IP4 mem) = True"
| "is_v4 (IP6 mem c) = False"

lemma laid_out_Nil_v6: "40 \<le> lim \<Longrightarrow> \<not> laid_out mem lim 0 IPPROTO_IPV6 e []"
  by (simp add: hdr_Length_def)

lemma laid_out_last:
  assumes "laid_out mem lim pos t e hs" "hs \<noteq> []"
  shows "\<exists>l n. hdr_Length mem (last hs) = Inr l \<and> NextHdr mem (last hs) = Inr n \<and> hdr_data (last hs) + l = e \<and> e \<le> lim \<and>
    (last hs = \<lparr>hdr_type = t, hdr_data = pos\<rparr> \<or>
     (\<exists>k. hdr_Length mem \<lparr>hdr_type = t, hdr_data = pos\<rparr> = Inr k \<and> pos + k \<le> hdr_data (last hs)))"
  using assms
proof (induction hs arbitrary: pos t)
  case Nil
  then show ?case by simp
next
  case (Cons h hs)
  show ?case
  proof (cases "hs = []")
    case True
    then show ?thesis using Cons.prems by (auto split: if_splits)
  next
    case False
    then obtain n l where h: "h = \<lparr>hdr_type = t, hdr_data = pos\<rparr>" "hdr_Length mem h = Inr l" "laid_out mem lim (pos + l) n e hs"
      using Cons.prems by (auto split: if_splits)
    from Cons.IH [OF h(3) False] show ?thesis using h False by (auto simp: last_ConsR)
  qed
qed

lemma v6_fragment_last:
  assumes "laid_out mem lim 0 IPPROTO_IPV6 e (chain c)" "chain_IsFragment c"
  shows "\<exists>n. NextHdr mem (last (chain c)) = Inr n \<and> GetFragHdr c + 8 = e \<and> 40 \<le> GetFragHdr c \<and> e \<le> lim"
  using laid_out_last [OF assms(1)] assms(2)
  by (auto simp: chain_IsFragment_def GetFragHdr_def hdr_Length_def ipproto_defs split: if_splits)

lemma and_bound: "(a :: nat) AND m \<le> m"
  using AND_upper2 [of "int m" "int a"] by (simp add: and_nat_def nat_le_iff)

lemma v6_first:
  assumes "laid_out mem lim 0 IPPROTO_IPV6 e hs" "40 \<le> lim"
  shows "hs \<noteq> []" "hd hs = \<lparr>hdr_type = IPPROTO_IPV6, hdr_data = 0\<rparr>"
  using assms by (cases hs; auto simp: hdr_Length_def split: if_splits)+

text \<open>Every field that the reassembly of fragments reads is there.\<close>

lemma wf_fragment:
  assumes "wf_ip ip" "IsFragment ip = Inr True"
  obtains hl tl off mf df p where "HdrLen ip = Inr hl" "hl \<le> length (memory ip)" "if is_v4 ip then 20 \<le> hl \<and> hl \<le> 60 else 48 \<le> hl"
    "TotalLen ip = Inr tl" "tl < 2 ^ 17" "FragOffset ip = Inr off" "off < 2 ^ 16" "MF ip = Inr mf" "DF ip = Inr df" "NextProto ip = Inr p"
    "\<exists>src dst i. SrcAddr ip = Inr src \<and> DstAddr ip = Inr dst \<and> ID ip = Inr i"
proof (cases ip)
  case (IP4 mem)
  have "20 \<le> length mem" using assms(1) IP4 by simp
  then have "0 < length mem" by linarith
  then have "ip_hl mem = Inr (unat (mem ! 0) AND 15)" by (simp add: ip_hl_def rdb_ok)
  moreover have "(field16 mem 6 AND 0x1fff) * 8 < 2 ^ 16" using and_bound [of "field16 mem 6" "0x1fff"] by simp
  moreover have "field16 mem 2 < 2 ^ 17" using field16_less [of mem 2] by simp
  ultimately show ?thesis
    using that assms(1) IP4 and_bound [of "unat (mem ! 0)" 15] by (simp add: rd_simps)
next
  case (IP6 mem c)
  obtain e where e: "laid_out mem (length mem) 0 IPPROTO_IPV6 e (chain c)" "chain_length c = e" "40 \<le> length mem"
    using assms(1) IP6 by auto
  have frag: "chain_IsFragment c" using assms(2) IP6 by simp
  obtain n where n: "NextHdr mem (last (chain c)) = Inr n" "GetFragHdr c + 8 = e" "40 \<le> GetFragHdr c" "e \<le> length mem"
    using v6_fragment_last [OF e(1) frag] by blast
  have "field16 mem (GetFragHdr c + 2) AND 0xfff8 < 2 ^ 16" using and_bound [of "field16 mem (GetFragHdr c + 2)" "0xfff8"] by (rule le_less_trans) simp
  moreover have "field16 mem 4 + 40 < 2 ^ 17" using field16_less [of mem 4] by simp
  moreover have "\<exists>src dst i. SrcAddr ip = Inr src \<and> DstAddr ip = Inr dst \<and> ID ip = Inr i"
    using IP6 frag n e(3) v6_first [OF e(1,3)]
    by (cases "chain c") (auto simp: chain_SrcAddr_def chain_DstAddr_def chain_ID_def rd_simps split: option.splits)
  ultimately show ?thesis
    using that IP6 n e frag v6_first(1) [OF e(1,3)] by (simp add: chain_FragOffset_def chain_MF_def rd_simps)
qed

end
