(* ===== verification/NM_Frag.thy ===== *)
theory NM_Frag
  imports NM_Reassem NM_IP
begin

section \<open>The network monitor: fragments of IP packets\<close>

text \<open>
  \<^verbatim>\<open>Frag.cc\<close>, and the table of reassemblers of \<^verbatim>\<open>Sessions.cc\<close>. The record of a reassembler extends that of
  the base class. What it asks of the rest of the program (reports, the timer, its own removal) is a
  list of events, \<open>frag_log\<close>; \<open>expire_timer\<close> says whether the pointer to the timer is not null, and a use
  of a null pointer is the fault \<open>OutOfBounds\<close>.
\<close>

subsection \<open>State\<close>

datatype frag_event = FE_Weird string | FE_InternalWarning string | FE_AddTimer | FE_CancelTimer | FE_Remove

record FragReassembler = Reassembler +
  proto_hdr :: "u8 list"
  proto_hdr_len :: nat
  reassembled_pkt :: "IP_Hdr option"
  frag_size :: nat
  next_proto :: nat
  expire_timer :: bool
  frag_log :: "frag_event list"

definition MIN_ACCEPTABLE_FRAG_SIZE :: nat where "MIN_ACCEPTABLE_FRAG_SIZE = 64"
definition MAX_ACCEPTABLE_FRAG_SIZE :: nat where "MAX_ACCEPTABLE_FRAG_SIZE = 64000"

definition log_frag :: "frag_event \<Rightarrow> FragReassembler \<Rightarrow> FragReassembler" where
  "log_frag e s = s\<lparr>frag_log := frag_log s @ [e]\<rparr>"

text \<open>
  A byte of the saved header. For IPv4 the array has 64 bytes, of which only the header is written.
\<close>

definition proto_byte :: "nat \<Rightarrow> FragReassembler \<Rightarrow> nat res" where
  "proto_byte p s = (if p < length (proto_hdr s) then Inr (unat (proto_hdr s ! p)) else Inl Uninitialised)"

text \<open>\<^verbatim>\<open>Weird\<close> of the reassembler, which has read byte 9 of the header when the fragment came in.\<close>

definition frag_Weird :: "string \<Rightarrow> FragReassembler \<Rightarrow> FragReassembler" where
  "frag_Weird name s =
     (let version = (case proto_hdr s of [] \<Rightarrow> 0 | b # _ \<Rightarrow> unat b div 16) in
      if version = 4 \<or> version = 6 then log_frag (FE_Weird name) s
      else log_frag (FE_Weird name) (log_frag (FE_InternalWarning ''Unexpected IP version in FragReassembler'') s))"

definition frag_Overlap :: "u8 list \<Rightarrow> u8 list \<Rightarrow> FragReassembler \<Rightarrow> FragReassembler" where
  "frag_Overlap b1 b2 s = (if b1 \<noteq> b2 then frag_Weird ''fragment_inconsistency'' s else frag_Weird ''fragment_overlap'' s)"

definition DeleteTimer :: "FragReassembler \<Rightarrow> FragReassembler" where
  "DeleteTimer s = (if expire_timer s then (log_frag FE_CancelTimer s)\<lparr>expire_timer := False\<rparr> else s)"

definition frag_Expire :: "FragReassembler \<Rightarrow> FragReassembler res" where
  "frag_Expire s =
     (if expire_timer s then Inr (log_frag FE_Remove (s\<lparr>blocks := [], expire_timer := False\<rparr>)) else Inl OutOfBounds)"

subsection \<open>Putting a datagram together\<close>

text \<open>The block in front of the first hole, and whether there is one.\<close>

fun first_hole :: "DataBlock list \<Rightarrow> DataBlock \<times> bool" where
  "first_hole (b # b' # bs) = (if db_upper b \<noteq> db_seq b' then (b, True) else first_hole (b' # bs))"
| "first_hole bs = (hd bs, False)"

text \<open>Memory from \<^verbatim>\<open>new\<close>: a byte is \<open>None\<close> until it is written.\<close>

definition put_bytes :: "nat \<Rightarrow> u8 list \<Rightarrow> u8 option list \<Rightarrow> u8 option list res" where
  "put_bytes p bs m =
     (if p + length bs \<le> length m then Inr (take p m @ map Some bs @ drop (p + length bs) m) else Inl OutOfBounds)"

definition initialised :: "u8 option list \<Rightarrow> u8 list res" where
  "initialised m = (if None \<in> set m then Inl Uninitialised else Inr (map the m))"

text \<open>The loop that copies the blocks; the flag is the warning about a bad reassembly.\<close>

fun copy_blocks :: "nat \<Rightarrow> nat \<Rightarrow> DataBlock option \<Rightarrow> DataBlock list \<Rightarrow> u8 option list \<Rightarrow> (bool \<times> u8 option list) res" where
  "copy_blocks hdr_len n prv [] pkt = Inr (False, pkt)"
| "copy_blocks hdr_len n prv (b # bs) pkt =
     (if (case prv of None \<Rightarrow> False | Some b0 \<Rightarrow> db_upper b0 < db_seq b) then Inr (False, pkt)
      else if db_upper b > n then Inr (True, pkt)
      else rbind (put_bytes (hdr_len + db_seq b) (db_block b) pkt) (copy_blocks hdr_len n (Some b) bs))"

definition put16 :: "nat \<Rightarrow> nat \<Rightarrow> u8 list \<Rightarrow> u8 list res" where
  "put16 p v mem =
     (if p + 2 \<le> length mem then Inr (mem[p := of_nat (v div 256 mod 256), p + 1 := of_nat (v mod 256)]) else Inl OutOfBounds)"

definition build_packet :: "FragReassembler \<Rightarrow> FragReassembler res" where
  "build_packet s =
     (let n = proto_hdr_len s + frag_size s in
      rbind (if proto_hdr_len s > length (proto_hdr s) then Inl Uninitialised
             else put_bytes 0 (take (proto_hdr_len s) (proto_hdr s)) (replicate n None)) (\<lambda>pkt0.
      rbind (copy_blocks (proto_hdr_len s) n None (blocks s) pkt0) (\<lambda>(bad, pkt1).
      if bad then frag_Expire (DeleteTimer (log_frag (FE_InternalWarning ''bad fragment reassembly'') s))
      else
        let s1 = s\<lparr>reassembled_pkt := None\<rparr> in
        rbind (initialised pkt1) (\<lambda>pkt.
        rbind (rdb pkt 0) (\<lambda>b0.
        if b0 div 16 = 4
        then rbind (put16 2 n pkt) (\<lambda>pkt'. Inr (DeleteTimer (s1\<lparr>reassembled_pkt := Some (IP4 pkt')\<rparr>)))
        else if b0 div 16 = 6
        then rbind (put16 4 (sub16 n 40) pkt) (\<lambda>pkt'.
             rbind (chain_Init True (next_proto s) n pkt') (\<lambda>(mem, c).
             Inr (DeleteTimer (s1\<lparr>reassembled_pkt := Some (IP6 mem c)\<rparr>))))
        else Inr (log_frag (FE_InternalWarning ''bad IP version in fragment reassembly'') s1))))))"

definition frag_BlockInserted :: "nat \<Rightarrow> FragReassembler \<Rightarrow> FragReassembler res" where
  "frag_BlockInserted start_block s =
     (case blocks s of
        [] \<Rightarrow> Inl OutOfBounds
      | b0 # _ \<Rightarrow>
          if db_seq b0 > 0 \<or> frag_size s = 0 then Inr s
          else let (b, hole) = first_hole (blocks s) in
          if hole
          then if db_upper b \<ge> frag_size s
               then build_packet ((frag_Weird ''fragment_size_inconsistency'' s)\<lparr>frag_size := db_upper b\<rparr>)
               else Inr s
          else
            rbind (case last_block s of None \<Rightarrow> Inl OutOfBounds | Some l \<Rightarrow> block_at l (blocks s)) (\<lambda>i.
            let last_upper = db_upper (blocks s ! i) in
            if last_upper > frag_size s
            then build_packet ((frag_Weird ''fragment_size_inconsistency'' s)\<lparr>frag_size := last_upper\<rparr>)
            else if last_upper < frag_size s then Inr s
            else build_packet s))"

subsection \<open>A fragment arrives\<close>

definition check_protocol :: "IP_Hdr \<Rightarrow> FragReassembler \<Rightarrow> FragReassembler res" where
  "check_protocol ip s =
     (case ip of
        IP4 mem \<Rightarrow>
          rbind (rdb mem 9) (\<lambda>p.
          rbind (proto_byte 9 s) (\<lambda>p0.
          rbind (ip_hl mem) (\<lambda>hl.
          rbind (proto_byte 0 s) (\<lambda>b0.
          Inr (if p \<noteq> p0 \<or> hl \<noteq> b0 AND 15 then log_frag (FE_Weird ''fragment_protocol_inconsistency'') s else s)))))
      | IP6 mem c \<Rightarrow>
          rbind (NextProto ip) (\<lambda>p.
          rbind (HdrLen ip) (\<lambda>hl.
          Inr (if p \<noteq> next_proto s \<or> int hl - 8 \<noteq> int (proto_hdr_len s)
               then log_frag (FE_Weird ''fragment_protocol_inconsistency'') s else s))))"

definition note_size :: "bool \<Rightarrow> nat \<Rightarrow> nat \<Rightarrow> FragReassembler \<Rightarrow> FragReassembler" where
  "note_size mf len upper_seq s =
     (if \<not> mf
      then if frag_size s = 0 then s\<lparr>frag_size := upper_seq\<rparr>
           else if upper_seq \<noteq> frag_size s
           then let s1 = log_frag (FE_Weird ''fragment_size_inconsistency'') s
                in if upper_seq > frag_size s1 then s1\<lparr>frag_size := upper_seq\<rparr> else s1
           else s
      else if len < MIN_ACCEPTABLE_FRAG_SIZE then log_frag (FE_Weird ''excessively_small_fragment'') s
      else s)"

definition note_large :: "nat \<Rightarrow> FragReassembler \<Rightarrow> FragReassembler" where
  "note_large upper_seq s =
     (let s1 = (if upper_seq > MAX_ACCEPTABLE_FRAG_SIZE then log_frag (FE_Weird ''excessively_large_fragment'') s else s)
      in if frag_size s1 \<noteq> 0 \<and> upper_seq > frag_size s1
         then (log_frag (FE_Weird ''fragment_size_inconsistency'') s1)\<lparr>frag_size := upper_seq\<rparr>
         else s1)"

text \<open>\<open>pkt\<close> is the packet from its IP header on.\<close>

definition AddFragment :: "IP_Hdr \<Rightarrow> u8 list \<Rightarrow> FragReassembler \<Rightarrow> FragReassembler res" where
  "AddFragment ip pkt s =
     rbind (check_protocol ip s) (\<lambda>s1.
     rbind (DF ip) (\<lambda>df.
     let s2 = (if df then log_frag (FE_Weird ''fragment_with_DF'') s1 else s1) in
     rbind (FragOffset ip) (\<lambda>offset.
     rbind (TotalLen ip) (\<lambda>len.
     rbind (HdrLen ip) (\<lambda>hdr_len.
     if len < hdr_len then Inr (log_frag (FE_Weird ''fragment_protocol_inconsistency'') s2)
     else
       let upper_seq = offset + len - hdr_len in
       rbind (if offset = 0 then rbind (NextProto ip) (\<lambda>p. Inr (s2\<lparr>next_proto := p\<rparr>)) else Inr s2) (\<lambda>s3.
       rbind (MF ip) (\<lambda>mf.
       let s4 = note_large upper_seq (note_size mf len upper_seq s3) in
       rbind (rdn pkt hdr_len (len - hdr_len)) (\<lambda>data.
       NewBlock frag_Overlap frag_BlockInserted offset data s4))))))))"

text \<open>The constructor; \<open>timeout\<close> says that \<^verbatim>\<open>frag_timeout\<close> is not zero.\<close>

definition FragReassembler_new :: "bool \<Rightarrow> IP_Hdr \<Rightarrow> u8 list \<Rightarrow> FragReassembler res" where
  "FragReassembler_new timeout ip pkt =
     rbind (HdrLen ip) (\<lambda>hdr_len.
     rbind (case ip of
              IP4 mem \<Rightarrow> rbind (rdn mem 0 hdr_len) (\<lambda>h. Inr (h, hdr_len))
            | IP6 mem c \<Rightarrow> rbind (rdn mem 0 (sub16 hdr_len 8)) (\<lambda>h. Inr (h, sub16 hdr_len 8))) (\<lambda>(hdr, len).
     rbind (NextProto ip) (\<lambda>p.
     AddFragment ip pkt
       \<lparr>blocks = [], last_block = None, last_reassem_seq = 0, trim_seq = 0, next_id = 0,
        proto_hdr = hdr, proto_hdr_len = len, reassembled_pkt = None, frag_size = 0, next_proto = p,
        expire_timer = timeout, frag_log = (if timeout then [FE_AddTimer] else [])\<rparr>)))"

subsection \<open>The table of the sessions\<close>

type_synonym frag_key = "u8 list \<times> u8 list \<times> nat"
type_synonym frag_table = "frag_key \<rightharpoonup> FragReassembler"

definition frag_key_of :: "IP_Hdr \<Rightarrow> frag_key res" where
  "frag_key_of ip =
     rbind (ID ip) (\<lambda>frag_id. rbind (SrcAddr ip) (\<lambda>src. rbind (DstAddr ip) (\<lambda>dst. Inr (src, dst, frag_id))))"

definition NextFragment :: "bool \<Rightarrow> IP_Hdr \<Rightarrow> u8 list \<Rightarrow> frag_table \<Rightarrow> (frag_key \<times> FragReassembler \<times> frag_table) res" where
  "NextFragment timeout ip pkt fragments =
     rbind (frag_key_of ip) (\<lambda>h.
     rbind (case fragments h of None \<Rightarrow> FragReassembler_new timeout ip pkt | Some f \<Rightarrow> AddFragment ip pkt f) (\<lambda>f.
     Inr (h, f, fragments(h \<mapsto> f))))"

text \<open>
  The part of \<^verbatim>\<open>DoNextPacket\<close> for a fragment that was captured as a whole: the packet that is analyzed now,
  if the datagram is complete. The reassembler is removed when the analysis is over.
\<close>

definition next_fragment_packet ::
  "bool \<Rightarrow> IP_Hdr \<Rightarrow> u8 list \<Rightarrow> frag_table \<Rightarrow> (IP_Hdr option \<times> frag_table) res" where
  "next_fragment_packet timeout ip pkt fragments =
     rbind (NextFragment timeout ip pkt fragments) (\<lambda>(h, f, fragments').
     case reassembled_pkt f of
       None \<Rightarrow> Inr (None, fragments')
     | Some ih \<Rightarrow> Inr (Some ih, fragments'(h := None)))"

subsection \<open>Blocks without holes\<close>

fun contiguous :: "DataBlock list \<Rightarrow> bool" where
  "contiguous (b # b' # bs) \<longleftrightarrow> db_upper b = db_seq b' \<and> contiguous (b' # bs)"
| "contiguous bs \<longleftrightarrow> True"

abbreviation joined :: "DataBlock list \<Rightarrow> u8 list" where
  "joined bs \<equiv> concat (map db_block bs)"

lemma first_hole_works:
  assumes "bs \<noteq> []" "separated bs"
  shows "\<exists>xs ys. bs = xs @ ys \<and> xs \<noteq> [] \<and> first_hole bs = (last xs, ys \<noteq> []) \<and> contiguous xs \<and>
    (\<forall>b \<in> set ys. db_upper (last xs) < db_seq b)"
  using assms
proof (induction bs rule: first_hole.induct [case_names more none one])
  case (more b b' bs)
  show ?case
  proof (cases "db_upper b = db_seq b'")
    case True
    then obtain xs ys where "b' # bs = xs @ ys" "xs \<noteq> []" "first_hole (b' # bs) = (last xs, ys \<noteq> [])" "contiguous xs"
      "\<forall>b \<in> set ys. db_upper (last xs) < db_seq b"
      using more.IH more.prems(2) by (auto simp: separated_Cons)
    then show ?thesis using True by (intro exI [of _ "b # xs"] exI [of _ ys]) (cases xs; auto)
  next
    case False
    then have "db_upper b < db_seq b'" "db_seq b' < db_upper b'" "\<forall>a \<in> set bs. db_upper b' \<le> db_seq a"
      using more.prems(2) by (auto simp: separated_Cons upper_gt intro: le_neq_trans)
    then show ?thesis using False by (intro exI [of _ "[b]"] exI [of _ "b' # bs"]) (auto dest!: bspec)
  qed
next
  case (one v)
  then show ?case by (intro exI [of _ "[v]"] exI [of _ "[]"]) simp
qed auto

lemma joined_content:
  assumes "contiguous xs" "xs \<noteq> []"
  shows "content xs = bytes_from (db_seq (hd xs)) (joined xs) \<and> db_upper (last xs) = db_seq (hd xs) + length (joined xs)"
  using assms
proof (induction xs rule: contiguous.induct [case_names more none one])
  case (more b b' bs)
  have "bytes_from (db_seq b) (joined (b # b' # bs)) = bytes_from (db_seq b) (db_block b) ++ bytes_from (db_upper b) (joined (b' # bs))"
    using bytes_from_cut [of "length (db_block b)" "joined (b # b' # bs)" "db_seq b"] by (simp add: db_upper_def)
  moreover have "bytes_from (db_seq b) (db_block b) ++ m = m ++ bytes_from (db_seq b) (db_block b)"
    if "m = bytes_from (db_upper b) (joined (b' # bs))" for m
    unfolding that by (rule map_add_comm) (auto simp: bytes_from_def db_upper_def dom_def split: if_splits)
  ultimately show ?case using more by (auto simp: db_upper_def)
next
  case (one v)
  then show ?case by (simp add: db_upper_def)
qed auto

text \<open>The first position at which nothing is held.\<close>

definition first_gap :: "(nat \<rightharpoonup> u8) \<Rightarrow> nat" where
  "first_gap m = (LEAST k. m k = None)"

definition bytes_below :: "(nat \<rightharpoonup> u8) \<Rightarrow> nat \<Rightarrow> u8 list" where
  "bytes_below m k = map (\<lambda>p. the (m p)) [0..<k]"

lemma first_gap_eq: "m k = None \<Longrightarrow> (\<And>p. p < k \<Longrightarrow> m p \<noteq> None) \<Longrightarrow> first_gap m = k"
  unfolding first_gap_def by (rule Least_equality) (use not_le_imp_less in blast)+

lemma first_block_gap:
  assumes "separated bs" "bs \<noteq> []" "bs = xs @ ys" "xs \<noteq> []" "contiguous xs" "\<forall>b \<in> set ys. db_upper (last xs) < db_seq b"
  shows "first_gap (content bs) = (if db_seq (hd bs) = 0 then length (joined xs) else 0)"
    "db_seq (hd bs) = 0 \<Longrightarrow> bytes_below (content bs) (length (joined xs)) = joined xs"
proof -
  note xs = joined_content [OF assms(5,4)]
  have hd: "hd bs = hd xs" using assms(3,4) by simp
  show "first_gap (content bs) = (if db_seq (hd bs) = 0 then length (joined xs) else 0)"
  proof (cases "db_seq (hd bs) = 0")
    case True
    have "content ys p = None" if "p \<le> length (joined xs)" for p
      using that xs True hd assms(6) by (auto simp: content_None holds_def dest!: bspec)
    then have "content bs p = bytes_from 0 (joined xs) p" if "p \<le> length (joined xs)" for p
      using that xs True hd assms(3) by (simp add: content_append map_add_def split: option.splits)
    then show ?thesis using True by (auto intro!: first_gap_eq simp: bytes_from_def)
  next
    case False
    have "db_seq (hd bs) \<le> db_seq b" if "b \<in> set bs" for b
      using that assms(1,2) by (cases bs) (auto simp: separated_Cons db_upper_def dest!: bspec)
    then have "content bs 0 = None" using False by (fastforce simp: content_None holds_def)
    then show ?thesis using False by (simp add: first_gap_eq)
  qed
  show "bytes_below (content bs) (length (joined xs)) = joined xs" if "db_seq (hd bs) = 0"
  proof (rule nth_equalityI)
    show "length (bytes_below (content bs) (length (joined xs))) = length (joined xs)" by (simp add: bytes_below_def)
    fix p
    assume "p < length (bytes_below (content bs) (length (joined xs)))"
    then have "p < length (joined xs)" by (simp add: bytes_below_def)
    then have "content bs p = Some (joined xs ! p)" using that xs hd assms(3) by (simp add: content_append map_add_def bytes_from_def)
    then show "bytes_below (content bs) (length (joined xs)) ! p = joined xs ! p" using \<open>p < length (joined xs)\<close> by (simp add: bytes_below_def)
  qed
qed

lemma put_bytes_next:
  "length bs \<le> m \<Longrightarrow> put_bytes (length pre) bs (map Some pre @ replicate m None) = Inr (map Some (pre @ bs) @ replicate (m - length bs) None)"
  by (simp add: put_bytes_def)

lemma copy_blocks_works:
  assumes "contiguous xs" "length pre = hdr_len + db_seq (hd xs)" "length (joined xs) \<le> m"
    and "db_upper (last xs) \<le> n" "prv = None \<or> db_upper (the prv) = db_seq (hd xs)"
    and "xs \<noteq> []" "\<forall>b \<in> set ys. db_upper (last xs) < db_seq b"
  shows "copy_blocks hdr_len n prv (xs @ ys) (map Some pre @ replicate m None) =
    Inr (False, map Some (pre @ joined xs) @ replicate (m - length (joined xs)) None)"
  using assms
proof (induction xs arbitrary: pre m prv)
  case (Cons b bs)
  have fresh: "\<not> (case prv of None \<Rightarrow> False | Some b0 \<Rightarrow> db_upper b0 < db_seq b)" using Cons.prems(5) by (auto split: option.splits)
  have put: "put_bytes (hdr_len + db_seq b) (db_block b) (map Some pre @ replicate m None) =
      Inr (map Some (pre @ db_block b) @ replicate (m - length (db_block b)) None)"
    using put_bytes_next [of "db_block b" m pre] Cons.prems(2,3) by simp
  show ?case
  proof (cases bs)
    case Nil
    then have "\<not> n < db_upper b" using Cons.prems(4) by simp
    then have "copy_blocks hdr_len n prv ((b # bs) @ ys) (map Some pre @ replicate m None) =
        copy_blocks hdr_len n (Some b) ys (map Some (pre @ db_block b) @ replicate (m - length (db_block b)) None)"
      using Nil fresh put by simp
    then show ?thesis using Nil Cons.prems(7) by (cases ys) simp_all
  next
    case (Cons b' bs')
    note step = this
    have "contiguous (b' # bs')" "db_upper b = db_seq b'" using Cons.prems(1) step by simp_all
    moreover from this have "\<not> n < db_upper b" using joined_content [of "b' # bs'"] Cons.prems(4) step by simp
    ultimately show ?thesis
      using fresh put step Cons.prems Cons.IH [of "pre @ db_block b" "m - length (db_block b)" "Some b"]
      by (simp add: db_upper_def)
  qed
qed simp

subsection \<open>The datagram that is built\<close>

definition frag_inv :: "FragReassembler \<Rightarrow> bool" where
  "frag_inv s \<longleftrightarrow> reassem_inv s \<and> trim_seq s = 0 \<and> proto_hdr_len s = length (proto_hdr s) \<and> 20 \<le> length (proto_hdr s) \<and>
     (unat (proto_hdr s ! 0) div 16 = 4 \<or> unat (proto_hdr s ! 0) div 16 = 6 \<and> 40 \<le> length (proto_hdr s))"

text \<open>The packet made of a saved header and a payload: the length is set, and for IPv6 the next header.\<close>

definition packet_with :: "u8 list \<Rightarrow> nat \<Rightarrow> u8 list \<Rightarrow> IP_Hdr \<Rightarrow> bool" where
  "packet_with hdr nxt payload ih \<longleftrightarrow>
     (let n = length hdr + length payload in
      if unat (hdr ! 0) div 16 = 4
      then ih = IP4 ((hdr @ payload)[2 := of_nat (n div 256 mod 256), 3 := of_nat (n mod 256)])
      else \<exists>mem c. chain_Init True nxt n
             ((hdr @ payload)[4 := of_nat (sub16 n 40 div 256 mod 256), 5 := of_nat (sub16 n 40 mod 256)]) = Inr (mem, c) \<and>
           ih = IP6 mem c)"

lemma DeleteTimer_simps [simp]:
  "reassembled_pkt (DeleteTimer s) = reassembled_pkt s"
  by (simp add: DeleteTimer_def log_frag_def)

lemma initialised_Some: "initialised (map Some bs) = Inr bs"
  by (simp add: initialised_def image_iff comp_def)

lemma chain_Init_total:
  assumes "n = length mem"
  shows "\<exists>mem' c. chain_Init set_next nxt n mem = Inr (mem', c)"
  using chain_Init_chained [of n mem set_next nxt] assms unfolding chained_def by auto

lemma build_packet_works:
  assumes "frag_inv s" "blocks s = xs @ ys" "xs \<noteq> []" "contiguous xs" "\<forall>b \<in> set ys. db_upper (last xs) < db_seq b"
    and "db_seq (hd xs) = 0" "frag_size s = length (joined xs)"
  shows "\<exists>s' ih. build_packet s = Inr s' \<and> reassembled_pkt s' = Some ih \<and> packet_with (proto_hdr s) (next_proto s) (joined xs) ih"
proof -
  let ?h = "proto_hdr s" and ?p = "joined xs"
  define n where "n = length ?h + length ?p"
  have inv: "proto_hdr_len s = length ?h" "20 \<le> length ?h"
    "unat (?h ! 0) div 16 = 4 \<or> unat (?h ! 0) div 16 = 6 \<and> 40 \<le> length ?h"
    using assms(1) by (simp_all add: frag_inv_def)
  have "db_upper (last xs) = length ?p" using joined_content [OF assms(4,3)] assms(6) by simp
  then have copy: "copy_blocks (length ?h) n None (blocks s) (map Some ?h @ replicate (length ?p) None) = Inr (False, map Some (?h @ ?p))"
    using copy_blocks_works [OF assms(4), of ?h "length ?h" "length ?p" n None ys] assms(2,3,5,6) by (simp add: n_def)
  have put: "put_bytes 0 ?h (replicate n None) = Inr (map Some ?h @ replicate (length ?p) None)"
    using put_bytes_next [of ?h n "[]"] by (simp add: n_def)
  have "?h \<noteq> []" using inv(2) by auto
  then have rd: "rdb (?h @ ?p) 0 = Inr (unat (?h ! 0))" by (simp add: rdb_ok nth_append)
  have p16: "put16 q v (?h @ ?p) = Inr ((?h @ ?p)[q := of_nat (v div 256 mod 256), q + 1 := of_nat (v mod 256)])" if "q < 10" for q v
    using that inv(2) by (simp add: put16_def)
  obtain mem c where mc: "chain_Init True (next_proto s) n
      ((?h @ ?p)[4 := of_nat (sub16 n 40 div 256 mod 256), 5 := of_nat (sub16 n 40 mod 256)]) = Inr (mem, c)"
    using chain_Init_total by (fastforce simp: n_def)
  have "build_packet s =
    (if unat (?h ! 0) div 16 = 4
     then Inr (DeleteTimer (s\<lparr>reassembled_pkt := Some (IP4 ((?h @ ?p)[2 := of_nat (n div 256 mod 256), 3 := of_nat (n mod 256)]))\<rparr>))
     else Inr (DeleteTimer (s\<lparr>reassembled_pkt := Some (IP6 mem c)\<rparr>)))"
    unfolding build_packet_def Let_def inv(1) assms(7) n_def [symmetric]
    using inv(3) mc by (auto simp: put copy initialised_Some rd p16 numeral_3_eq_3 simp del: map_append)
  then show ?thesis using mc by (auto simp: packet_with_def n_def [symmetric])
qed

lemma frag_inv_weird: "frag_inv (s\<lparr>frag_size := k\<rparr>) \<longleftrightarrow> frag_inv s" "frag_inv (frag_Weird name s) \<longleftrightarrow> frag_inv s"
  by (simp_all add: frag_inv_def reassem_inv_def frag_Weird_def log_frag_def Let_def)

lemma frag_Weird_fields [simp]:
  "blocks (frag_Weird name s) = blocks s" "proto_hdr (frag_Weird name s) = proto_hdr s" "next_proto (frag_Weird name s) = next_proto s"
  by (simp_all add: frag_Weird_def log_frag_def Let_def)

lemma BlockInserted_works:
  assumes "frag_inv s" "blocks s \<noteq> []"
  defines "k \<equiv> first_gap (content (blocks s))"
  shows "if frag_size s \<noteq> 0 \<and> frag_size s \<le> k
    then \<exists>s' ih. frag_BlockInserted i s = Inr s' \<and> reassembled_pkt s' = Some ih \<and>
      packet_with (proto_hdr s) (next_proto s) (bytes_below (content (blocks s)) k) ih
    else frag_BlockInserted i s = Inr s"
proof -
  have inv: "separated (blocks s)" "distinct (map db_id (blocks s))" "last_block s = Some (db_id (last (blocks s)))"
    using assms(1,2) by (simp_all add: frag_inv_def reassem_inv_def)
  obtain xs ys where xs: "blocks s = xs @ ys" "xs \<noteq> []" "first_hole (blocks s) = (last xs, ys \<noteq> [])" "contiguous xs"
    "\<forall>b \<in> set ys. db_upper (last xs) < db_seq b"
    using first_hole_works [OF assms(2) inv(1)] by blast
  note gap = first_block_gap [OF inv(1) assms(2) xs(1,2,4,5)]
  have hd: "hd (blocks s) = hd xs" "blocks s = hd xs # tl (blocks s)" using xs(1,2) by (cases xs; simp)+
  show ?thesis
  proof (cases "db_seq (hd xs) = 0 \<and> frag_size s \<noteq> 0")
    case False
    then have "frag_BlockInserted i s = Inr s" unfolding frag_BlockInserted_def by (subst hd(2)) simp
    moreover have "\<not> (frag_size s \<noteq> 0 \<and> frag_size s \<le> k)" using False gap(1) hd(1) by (auto simp: k_def)
    ultimately show ?thesis by auto
  next
    case True
    then have k: "k = length (joined xs)" "bytes_below (content (blocks s)) k = joined xs" "db_upper (last xs) = k"
      using gap hd(1) joined_content [OF xs(4,2)] by (simp_all add: k_def)
    let ?s = "(frag_Weird ''fragment_size_inconsistency'' s)\<lparr>frag_size := k\<rparr>"
    have b1: "\<exists>s' ih. build_packet ?s = Inr s' \<and> reassembled_pkt s' = Some ih \<and> packet_with (proto_hdr s) (next_proto s) (joined xs) ih"
      using build_packet_works [of ?s xs ys] assms(1) xs True k by (simp add: frag_inv_weird)
    have b2: "\<exists>s' ih. build_packet s = Inr s' \<and> reassembled_pkt s' = Some ih \<and> packet_with (proto_hdr s) (next_proto s) (joined xs) ih"
      if "frag_size s = k" using build_packet_works [of s xs ys] assms(1) xs True k that by simp
    have at: "block_at (db_id (last (blocks s))) (blocks s) = Inr (length (blocks s) - 1)"
      using block_at_nth [OF inv(2), of "length (blocks s) - 1"] assms(2) by (simp add: last_conv_nth)
    have last: "ys = [] \<Longrightarrow> blocks s ! (length (blocks s) - 1) = last xs" using xs(1,2) by (simp add: last_conv_nth)
    have "frag_BlockInserted i s =
        (if ys \<noteq> [] then if frag_size s \<le> k then build_packet ?s else Inr s
         else if frag_size s < k then build_packet ?s else if k < frag_size s then Inr s else build_packet s)"
      unfolding frag_BlockInserted_def xs(3)
      using True inv(3) at last k(3) by (subst hd(2)) (simp add: Let_def)
    then show ?thesis using True b1 b2 k by auto
  qed
qed

subsection \<open>What fragments mean\<close>

text \<open>Offset, bytes and the flag for more of a fragment whose lengths agree.\<close>

definition frag_of :: "IP_Hdr \<Rightarrow> (nat \<times> u8 list \<times> bool) option" where
  "frag_of ip =
     (case (FragOffset ip, TotalLen ip, HdrLen ip, MF ip) of
        (Inr offset, Inr len, Inr hdr_len, Inr mf) \<Rightarrow>
          if len < hdr_len then None else Some (offset, take (len - hdr_len) (drop hdr_len (memory ip)), mf)
      | _ \<Rightarrow> None)"

text \<open>
  Reassembly as a specification: the bytes held so far, where the first that came wins, and the size of
  the datagram, zero as long as it is not known. The datagram is complete when all bytes up to its size
  are there, and then consists of all bytes up to the first gap.
\<close>

fun spec_add :: "(nat \<times> u8 list \<times> bool) option \<Rightarrow> (nat \<rightharpoonup> u8) \<times> nat \<Rightarrow> ((nat \<rightharpoonup> u8) \<times> nat) \<times> u8 list option" where
  "spec_add None st = (st, None)"
| "spec_add (Some (offset, data, mf)) (m, sz) =
     (let m' = bytes_from offset data ++ m;
          sz' = (if mf \<and> sz = 0 then 0 else max sz (offset + length data))
      in ((m', sz'),
          if data \<noteq> [] \<and> sz' \<noteq> 0 \<and> sz' \<le> first_gap m' then Some (bytes_below m' (first_gap m')) else None))"

definition frag_abs :: "FragReassembler \<Rightarrow> (nat \<rightharpoonup> u8) \<times> nat" where
  "frag_abs s = (content (blocks s), frag_size s)"

definition ready :: "IP_Hdr \<Rightarrow> bool" where
  "ready ip \<longleftrightarrow> wf_ip ip \<and> IsFragment ip = Inr True \<and> (\<exists>len. TotalLen ip = Inr len \<and> len \<le> length (memory ip))"

definition outcome :: "u8 list \<Rightarrow> ((nat \<rightharpoonup> u8) \<times> nat) \<times> u8 list option \<Rightarrow> FragReassembler \<Rightarrow> bool" where
  "outcome hdr r s' \<longleftrightarrow> (case r of
       (st, None) \<Rightarrow> frag_inv s' \<and> reassembled_pkt s' = None \<and> frag_abs s' = st \<and> proto_hdr s' = hdr
     | (st, Some payload) \<Rightarrow> \<exists>ih nxt. reassembled_pkt s' = Some ih \<and> packet_with hdr nxt payload ih)"

abbreviation frag_part :: "FragReassembler \<Rightarrow> u8 list \<times> nat \<times> nat \<times> nat \<times> IP_Hdr option" where
  "frag_part s \<equiv> (proto_hdr s, proto_hdr_len s, frag_size s, next_proto s, reassembled_pkt s)"

interpretation frag: overlap_hook frag_Overlap frag_part
  by unfold_locales (auto simp: reports_only_def same_base_def kept_by_def frag_Overlap_def frag_Weird_def log_frag_def Let_def)

lemma log_frag_simps [simp]:
  "blocks (log_frag e s) = blocks s" "frag_size (log_frag e s) = frag_size s" "proto_hdr (log_frag e s) = proto_hdr s"
  "reassembled_pkt (log_frag e s) = reassembled_pkt s" "frag_inv (log_frag e s) \<longleftrightarrow> frag_inv s"
  by (simp_all add: log_frag_def frag_inv_def reassem_inv_def)

text \<open>A block of a fragment, after the size has been noted.\<close>

lemma frag_NewBlock:
  assumes "frag_inv s" "reassembled_pkt s = None" "offset + length data < 2 ^ 64"
  shows "\<exists>s'. NewBlock frag_Overlap frag_BlockInserted offset data s = Inr s' \<and>
    outcome (proto_hdr s) ((bytes_from offset data ++ content (blocks s), frag_size s),
      if data \<noteq> [] \<and> frag_size s \<noteq> 0 \<and> frag_size s \<le> first_gap (bytes_from offset data ++ content (blocks s))
      then Some (bytes_below (bytes_from offset data ++ content (blocks s)) (first_gap (bytes_from offset data ++ content (blocks s))))
      else None) s'"
proof (cases "data = []")
  case True
  then show ?thesis using assms NewBlock_old [of data offset s] by (simp add: outcome_def frag_abs_def bytes_from_Nil)
next
  case False
  have inv: "reassem_inv s" "trim_seq s = 0" using assms(1) by (simp_all add: frag_inv_def)
  obtain i s1 where s1: "NewBlock frag_Overlap frag_BlockInserted offset data s = frag_BlockInserted i s1"
    "inserted (max offset (trim_seq s)) (drop (trim_seq s - offset) data) s i s1" "frag_part s1 = frag_part s"
    using frag.insertion [OF inv(1) False assms(3)] inv(2) False by auto
  then have ins: "content (blocks s1) = bytes_from offset data ++ content (blocks s)" "frag_inv s1" "blocks s1 \<noteq> []"
    using assms(1) inv(2) by (auto simp: inserted_def frag_inv_def)
  show ?thesis
    using BlockInserted_works [OF ins(2,3), of i] s1 ins assms(2) False
    by (fastforce simp: outcome_def frag_abs_def split: if_splits)
qed

lemma note_size_works:
  fixes s :: FragReassembler and mf :: bool and len upper :: nat
  assumes "frag_inv s"
  defines "s' \<equiv> note_large upper (note_size mf len upper s)"
  shows "frag_size s' = (if mf \<and> frag_size s = 0 then 0 else max (frag_size s) upper)"
    "frag_inv s'" "blocks s' = blocks s" "proto_hdr s' = proto_hdr s" "reassembled_pkt s' = reassembled_pkt s"
  using assms
  by (auto simp: s'_def note_size_def note_large_def Let_def frag_inv_weird max_def)

lemma check_protocol_works:
  assumes "ready ip" "frag_inv s"
  shows "\<exists>s1. check_protocol ip s = Inr s1 \<and> (s1 = s \<or> s1 = log_frag (FE_Weird ''fragment_protocol_inconsistency'') s)"
proof -
  obtain hl p where "HdrLen ip = Inr hl" "NextProto ip = Inr p" using assms(1) wf_fragment unfolding ready_def by metis
  moreover have "20 \<le> length (proto_hdr s)" using assms(2) by (simp add: frag_inv_def)
  then have "proto_byte 9 s = Inr (unat (proto_hdr s ! 9))" "proto_byte 0 s = Inr (unat (proto_hdr s ! 0))"
    by (auto simp: proto_byte_def)
  ultimately show ?thesis by (cases ip) (auto simp: check_protocol_def rbind_eq_Inr)
qed

lemma AddFragment_refines:
  assumes "ready ip" "frag_inv s" "reassembled_pkt s = None"
  shows "\<exists>s'. AddFragment ip (memory ip) s = Inr s' \<and> outcome (proto_hdr s) (spec_add (frag_of ip) (frag_abs s)) s'"
proof -
  obtain hl tl off mf df p where f: "HdrLen ip = Inr hl" "hl \<le> length (memory ip)" "TotalLen ip = Inr tl" "tl < 2 ^ 17"
    "FragOffset ip = Inr off" "off < 2 ^ 16" "MF ip = Inr mf" "DF ip = Inr df" "NextProto ip = Inr p"
    using assms(1) wf_fragment unfolding ready_def by metis
  have tl: "tl \<le> length (memory ip)" using assms(1) f(3) by (auto simp: ready_def)
  obtain s1 where s1: "check_protocol ip s = Inr s1" "frag_inv s1" "reassembled_pkt s1 = None" "proto_hdr s1 = proto_hdr s" "frag_abs s1 = frag_abs s"
    using check_protocol_works [OF assms(1,2)] assms by (auto simp: frag_abs_def)
  define s2 where "s2 = (if df then log_frag (FE_Weird ''fragment_with_DF'') s1 else s1)"
  have s2: "frag_inv s2" "reassembled_pkt s2 = None" "proto_hdr s2 = proto_hdr s" "frag_abs s2 = frag_abs s"
    using s1 by (simp_all add: s2_def frag_abs_def)
  show ?thesis
  proof (cases "tl < hl")
    case True
    then have "AddFragment ip (memory ip) s = Inr (log_frag (FE_Weird ''fragment_protocol_inconsistency'') s2)"
      unfolding AddFragment_def using f s1(1) by (simp add: s2_def)
    moreover have "frag_of ip = None" using True f by (simp add: frag_of_def)
    ultimately show ?thesis using s2 by (simp add: outcome_def frag_abs_def)
  next
    case False
    define s3 where "s3 = (if off = 0 then s2\<lparr>next_proto := p\<rparr> else s2)"
    define data where "data = take (tl - hl) (drop hl (memory ip))"
    have s3: "frag_inv s3" "reassembled_pkt s3 = None" "proto_hdr s3 = proto_hdr s" "frag_abs s3 = frag_abs s"
      using s2 by (auto simp: s3_def frag_abs_def frag_inv_def reassem_inv_def)
    have len: "length data = tl - hl" "off + tl - hl = off + length data" using False tl by (simp_all add: data_def)
    define s4 where "s4 = note_large (off + length data) (note_size mf tl (off + length data) s3)"
    note s4 = note_size_works [OF s3(1), of "off + length data" mf tl, folded s4_def]
    have "AddFragment ip (memory ip) s = NewBlock frag_Overlap frag_BlockInserted off data s4"
      unfolding AddFragment_def using f s1(1) False tl len(2)
      by (simp add: s2_def [symmetric] s3_def s4_def data_def [symmetric] rdn_ok Let_def)
    moreover have "frag_of ip = Some (off, data, mf)" using False f by (simp add: frag_of_def data_def)
    then have "spec_add (frag_of ip) (frag_abs s) = ((bytes_from off data ++ content (blocks s4), frag_size s4),
        if data \<noteq> [] \<and> frag_size s4 \<noteq> 0 \<and> frag_size s4 \<le> first_gap (bytes_from off data ++ content (blocks s4))
        then Some (bytes_below (bytes_from off data ++ content (blocks s4)) (first_gap (bytes_from off data ++ content (blocks s4))))
        else None)"
      using s3(4) s4(1,3) by (simp add: frag_abs_def Let_def)
    moreover have "proto_hdr s4 = proto_hdr s" using s4(4) s3(3) by simp
    moreover have "off + length data < 2 ^ 64" using len f(4,6) by simp
    ultimately show ?thesis using frag_NewBlock [OF s4(2), of off data] s4(5) s3(2) by simp
  qed
qed

definition saved_header :: "IP_Hdr \<Rightarrow> u8 list" where
  "saved_header ip = (case HdrLen ip of Inr hl \<Rightarrow> take (if is_v4 ip then hl else hl - 8) (memory ip) | Inl _ \<Rightarrow> [])"

lemma new_refines:
  assumes "ready ip"
  shows "\<exists>s'. FragReassembler_new timeout ip (memory ip) = Inr s' \<and> outcome (saved_header ip) (spec_add (frag_of ip) (Map.empty, 0)) s'"
proof -
  obtain hl p where f: "HdrLen ip = Inr hl" "hl \<le> length (memory ip)" "if is_v4 ip then 20 \<le> hl \<and> hl \<le> 60 else 48 \<le> hl" "NextProto ip = Inr p"
    using assms wf_fragment unfolding ready_def by metis
  have wf: "wf_ip ip" using assms by (simp add: ready_def)
  define s where "s = \<lparr>blocks = [], last_block = None, last_reassem_seq = 0, trim_seq = 0, next_id = 0,
        proto_hdr = saved_header ip, proto_hdr_len = length (saved_header ip), reassembled_pkt = None, frag_size = 0, next_proto = p,
        expire_timer = timeout, frag_log = (if timeout then [FE_AddTimer] else [])\<rparr>"
  have "FragReassembler_new timeout ip (memory ip) = AddFragment ip (memory ip) s"
  proof (cases ip)
    case (IP4 mem)
    then show ?thesis using f by (simp add: FragReassembler_new_def saved_header_def rdn_ok s_def min_absorb2)
  next
    case (IP6 mem c)
    then have "hl - 8 < 2 ^ 16" "8 \<le> hl" using f wf by auto
    then have "sub16 hl 8 = hl - 8" by (simp add: sub16_def nat_mod_as_int of_nat_diff [symmetric] del: of_nat_diff)
    then show ?thesis using f IP6 by (simp add: FragReassembler_new_def saved_header_def rdn_ok s_def min_absorb2)
  qed
  moreover have "frag_inv s"
    using f wf by (cases ip) (auto simp: frag_inv_def reassem_inv_def separated_def s_def saved_header_def min_def)
  ultimately show ?thesis using AddFragment_refines [OF assms, of s] by (simp add: s_def frag_abs_def)
qed

subsection \<open>All fragments of the traffic\<close>

fun run_fragments :: "bool \<Rightarrow> IP_Hdr list \<Rightarrow> frag_table \<Rightarrow> (IP_Hdr option list \<times> frag_table) res" where
  "run_fragments timeout [] t = Inr ([], t)"
| "run_fragments timeout (ip # ips) t =
     rbind (next_fragment_packet timeout ip (memory ip) t) (\<lambda>(out, t1).
     rbind (run_fragments timeout ips t1) (\<lambda>(outs, t2). Inr (out # outs, t2)))"

text \<open>The specification: a table of the saved header, the bytes and the size for each datagram.\<close>

type_synonym spec_table = "frag_key \<rightharpoonup> u8 list \<times> (nat \<rightharpoonup> u8) \<times> nat"

definition spec_entry :: "IP_Hdr \<Rightarrow> (u8 list \<times> (nat \<rightharpoonup> u8) \<times> nat) option \<Rightarrow> u8 list \<times> (nat \<rightharpoonup> u8) \<times> nat" where
  "spec_entry ip e = (case e of None \<Rightarrow> (saved_header ip, Map.empty, 0) | Some e' \<Rightarrow> e')"

fun spec_run :: "IP_Hdr list \<Rightarrow> spec_table \<Rightarrow> (u8 list \<times> u8 list) option list" where
  "spec_run [] t = []"
| "spec_run (ip # ips) t =
     (case frag_key_of ip of
        Inl _ \<Rightarrow> []
      | Inr h \<Rightarrow>
          let (hdr, st) = spec_entry ip (t h); (st', out) = spec_add (frag_of ip) st
          in case out of
               None \<Rightarrow> None # spec_run ips (t(h \<mapsto> (hdr, st')))
             | Some payload \<Rightarrow> Some (hdr, payload) # spec_run ips (t(h := None)))"

definition built :: "IP_Hdr option \<Rightarrow> (u8 list \<times> u8 list) option \<Rightarrow> bool" where
  "built out spec \<longleftrightarrow> (case spec of
     None \<Rightarrow> out = None | Some (hdr, payload) \<Rightarrow> \<exists>ih nxt. out = Some ih \<and> packet_with hdr nxt payload ih)"

definition entry_rel :: "FragReassembler option \<Rightarrow> (u8 list \<times> (nat \<rightharpoonup> u8) \<times> nat) option \<Rightarrow> bool" where
  "entry_rel f e \<longleftrightarrow> (case f of
       None \<Rightarrow> e = None
     | Some f' \<Rightarrow> frag_inv f' \<and> reassembled_pkt f' = None \<and> e = Some (proto_hdr f', frag_abs f'))"

definition table_rel :: "frag_table \<Rightarrow> spec_table \<Rightarrow> bool" where
  "table_rel t u \<longleftrightarrow> (\<forall>h. entry_rel (t h) (u h))"

lemma table_rel_upd: "table_rel t u \<Longrightarrow> entry_rel f e \<Longrightarrow> table_rel (t(h := f)) (u(h := e))"
  by (simp add: table_rel_def del: split_paired_All)

lemma next_fragment_refines:
  assumes "ready ip" "table_rel t u" "frag_key_of ip = Inr h"
  shows "\<exists>f. NextFragment timeout ip (memory ip) t = Inr (h, f, t(h \<mapsto> f)) \<and>
    outcome (fst (spec_entry ip (u h))) (spec_add (frag_of ip) (snd (spec_entry ip (u h)))) f"
proof (cases "t h")
  case None
  then have "u h = None" using assms(2) by (auto simp: table_rel_def entry_rel_def simp del: split_paired_All dest: spec [of _ h])
  then show ?thesis using new_refines [OF assms(1), of timeout] assms(3) None by (auto simp: NextFragment_def spec_entry_def)
next
  case (Some f)
  then have "frag_inv f" "reassembled_pkt f = None" "u h = Some (proto_hdr f, frag_abs f)"
    using assms(2) by (auto simp: table_rel_def entry_rel_def simp del: split_paired_All dest: spec [of _ h])
  then show ?thesis using AddFragment_refines [OF assms(1), of f] assms(3) Some by (auto simp: NextFragment_def spec_entry_def)
qed

lemma ready_key:
  assumes "ready ip"
  obtains h where "frag_key_of ip = Inr h"
proof -
  have "wf_ip ip" "IsFragment ip = Inr True" using assms by (simp_all add: ready_def)
  then obtain src dst i where "SrcAddr ip = Inr src" "DstAddr ip = Inr dst" "ID ip = Inr i" by (rule wf_fragment) blast
  then show thesis using that by (simp add: frag_key_of_def)
qed

lemma run_step:
  assumes "next_fragment_packet timeout ip (memory ip) t = Inr (out, t1)" "spec_run (ip # ips) u = sp # spec_run ips u1" "built out sp"
    and "\<exists>outs t'. run_fragments timeout ips t1 = Inr (outs, t') \<and> list_all2 built outs (spec_run ips u1)"
  shows "\<exists>outs t'. run_fragments timeout (ip # ips) t = Inr (outs, t') \<and> list_all2 built outs (spec_run (ip # ips) u)"
  using assms(4) unfolding assms(2) run_fragments.simps assms(1) using assms(3) by auto

lemma run_refines:
  assumes "\<forall>ip \<in> set ips. ready ip" "table_rel t u"
  shows "\<exists>outs t'. run_fragments timeout ips t = Inr (outs, t') \<and> list_all2 built outs (spec_run ips u)"
  using assms
proof (induction ips arbitrary: t u)
  case Nil
  then show ?case by simp
next
  case (Cons ip ips)
  obtain h where h: "frag_key_of ip = Inr h" using ready_key [of ip] Cons.prems(1) by auto
  obtain hdr st where e: "spec_entry ip (u h) = (hdr, st)" by (cases "spec_entry ip (u h)")
  obtain st' out where sp: "spec_add (frag_of ip) st = (st', out)" by (cases "spec_add (frag_of ip) st")
  obtain f where f: "NextFragment timeout ip (memory ip) t = Inr (h, f, t(h \<mapsto> f))" "outcome hdr (st', out) f"
    using next_fragment_refines [OF _ Cons.prems(2) h, of timeout] Cons.prems(1) e sp by auto
  have rest: "\<exists>outs t'. run_fragments timeout ips t1 = Inr (outs, t') \<and> list_all2 built outs (spec_run ips u1)"
    if "table_rel t1 u1" for t1 u1
    using Cons.IH [OF _ that] Cons.prems(1) by simp
  show ?case
  proof (cases out)
    case None
    then have "reassembled_pkt f = None" and rel: "table_rel (t(h \<mapsto> f)) (u(h \<mapsto> (hdr, st')))"
      using f(2) by (auto simp: outcome_def entry_rel_def intro!: table_rel_upd [OF Cons.prems(2)])
    then have "next_fragment_packet timeout ip (memory ip) t = Inr (None, t(h \<mapsto> f))" using f(1) by (simp add: next_fragment_packet_def)
    moreover have "spec_run (ip # ips) u = None # spec_run ips (u(h \<mapsto> (hdr, st')))" using None h e sp by simp
    ultimately show ?thesis by (rule run_step) (simp add: built_def, rule rest [OF rel])
  next
    case (Some payload)
    then obtain ih nxt where ih: "reassembled_pkt f = Some ih" "packet_with hdr nxt payload ih" using f(2) by (auto simp: outcome_def)
    then have "next_fragment_packet timeout ip (memory ip) t = Inr (Some ih, t(h := None))" using f(1) by (simp add: next_fragment_packet_def)
    moreover have "spec_run (ip # ips) u = Some (hdr, payload) # spec_run ips (u(h := None))" using Some h e sp by simp
    moreover have "table_rel (t(h := None)) (u(h := None))" by (rule table_rel_upd [OF Cons.prems(2)]) (simp add: entry_rel_def)
    ultimately show ?thesis using ih(2) by (intro run_step [OF _ _ _ rest]) (auto simp: built_def)
  qed
qed


subsection \<open>A datagram comes back\<close>

text \<open>A fragment that carries a part of the payload \<open>P\<close>; the last part has no flag for more.\<close>

definition piece_of :: "u8 list \<Rightarrow> IP_Hdr \<Rightarrow> bool" where
  "piece_of P ip \<longleftrightarrow> (case frag_of ip of
     None \<Rightarrow> False
   | Some (offset, data, mf) \<Rightarrow> data \<noteq> [] \<and> offset + length data \<le> length P \<and> data = take (length data) (drop offset P) \<and>
       (mf \<longleftrightarrow> offset + length data < length P))"

definition parts :: "IP_Hdr \<Rightarrow> nat set" where
  "parts ip = (case frag_of ip of None \<Rightarrow> {} | Some (offset, data, mf) \<Rightarrow> {offset..<offset + length data})"

definition parts_of :: "IP_Hdr list \<Rightarrow> nat set" where
  "parts_of ips = (\<Union>ip \<in> set ips. parts ip)"

text \<open>The bytes held are bytes of \<open>P\<close>, and the size is known once the last byte is there.\<close>

definition partial :: "u8 list \<Rightarrow> (nat \<rightharpoonup> u8) \<times> nat \<Rightarrow> bool" where
  "partial P st \<longleftrightarrow> (\<forall>p b. fst st p = Some b \<longrightarrow> p < length P \<and> b = P ! p) \<and> snd st = (if fst st (length P - 1) = None then 0 else length P)"

lemma partial_complete:
  assumes "\<forall>p b. m p = Some b \<longrightarrow> p < length P \<and> b = P ! p" "P \<noteq> []"
  shows "(if m (length P - 1) = None then 0 else length P) \<noteq> 0 \<and> (if m (length P - 1) = None then 0 else length P) \<le> first_gap m \<longleftrightarrow>
      {..<length P} \<subseteq> dom m"
    "{..<length P} \<subseteq> dom m \<Longrightarrow> bytes_below m (first_gap m) = P"
proof -
  have none: "m (length P) = None" using assms(1) by (cases "m (length P)") auto
  have gap: "first_gap m = length P" if "{..<length P} \<subseteq> dom m"
    by (rule first_gap_eq) (use that none in auto)
  have last: "m (length P - 1) \<noteq> None" if "{..<length P} \<subseteq> dom m"
    using that assms(2) by (auto dest!: subsetD [of _ _ "length P - 1"])
  have "p \<in> dom m" if "length P \<le> first_gap m" "p < length P" for p
    using that not_less_Least [of p "\<lambda>k. m k = None"] by (auto simp: first_gap_def)
  then show "(if m (length P - 1) = None then 0 else length P) \<noteq> 0 \<and> (if m (length P - 1) = None then 0 else length P) \<le> first_gap m \<longleftrightarrow>
      {..<length P} \<subseteq> dom m"
    using gap last assms(2) by (auto split: if_splits)
  show "bytes_below m (first_gap m) = P" if "{..<length P} \<subseteq> dom m"
    using that assms(1) gap by (intro nth_equalityI) (force simp: bytes_below_def)+
qed

lemma add_piece:
  assumes "piece_of P ip" "partial P (m, sz)"
  shows "\<exists>m' sz'. partial P (m', sz') \<and> dom m' = dom m \<union> parts ip \<and>
    spec_add (frag_of ip) (m, sz) = ((m', sz'), if {..<length P} \<subseteq> dom m' then Some P else None)"
proof -
  obtain offset data mf where f: "frag_of ip = Some (offset, data, mf)" "data \<noteq> []" "offset + length data \<le> length P"
    "data = take (length data) (drop offset P)" "mf \<longleftrightarrow> offset + length data < length P"
    using assms(1) by (auto simp: piece_of_def split: option.splits)
  have part: "\<forall>p b. m p = Some b \<longrightarrow> p < length P \<and> b = P ! p" "sz = (if m (length P - 1) = None then 0 else length P)"
    using assms(2) by (simp_all add: partial_def)
  define m' where "m' = bytes_from offset data ++ m"
  define sz' where "sz' = (if mf \<and> sz = 0 then 0 else max sz (offset + length data))"
  have "data ! (p - offset) = P ! p" if "offset \<le> p" "p < offset + length data" for p
    using that f(3) by (subst f(4)) simp
  then have m': "\<forall>p b. m' p = Some b \<longrightarrow> p < length P \<and> b = P ! p"
    using part(1) f(3) by (auto simp: m'_def map_add_def bytes_from_def split: option.splits if_splits)
  have dom: "dom m' = dom m \<union> parts ip" using f(1) by (auto simp: m'_def parts_def bytes_from_def split: if_splits)
  have "P \<noteq> []" "0 < length data" using f(2,3) by auto
  moreover from this have "offset \<le> length P - 1" using f(3) by linarith
  ultimately have "m' (length P - 1) = None \<longleftrightarrow> m (length P - 1) = None \<and> mf"
    using f(3,5) by (auto simp: m'_def bytes_from_def map_add_def split: option.splits)
  then have sz': "sz' = (if m' (length P - 1) = None then 0 else length P)"
    using part(2) f(3,5) by (auto simp: sz'_def)
  have "spec_add (frag_of ip) (m, sz) = ((m', sz'), if {..<length P} \<subseteq> dom m' then Some P else None)"
    using partial_complete [OF m' \<open>P \<noteq> []\<close>] f(1,2) unfolding f(1) spec_add.simps Let_def m'_def [symmetric] sz'_def [symmetric]
    by (simp add: sz')
  then show ?thesis using m' sz' dom by (auto simp: partial_def)
qed

text \<open>The fragments of one datagram; \<open>st\<close> is what came in before.\<close>

lemma pieces_run:
  assumes "ips \<noteq> []" "\<forall>ip \<in> set ips. piece_of P ip \<and> frag_key_of ip = Inr h" "partial P st"
    and "spec_entry (hd ips) (t h) = (hdr, st)" "{..<length P} \<subseteq> dom (fst st) \<union> parts_of ips" "\<not> {..<length P} \<subseteq> dom (fst st) \<union> parts_of (butlast ips)"
  shows "spec_run ips t = replicate (length ips - 1) None @ [Some (hdr, P)]"
  using assms
proof (induction ips arbitrary: t st)
  case (Cons ip ips)
  have piece: "piece_of P ip" and key: "frag_key_of ip = Inr h" using Cons.prems(2) by simp_all
  obtain m sz where st: "st = (m, sz)" by (cases st)
  obtain m' sz' where m': "partial P (m', sz')" "dom m' = dom m \<union> parts ip"
    "spec_add (frag_of ip) (m, sz) = ((m', sz'), if {..<length P} \<subseteq> dom m' then Some P else None)"
    using add_piece [OF piece Cons.prems(3) [unfolded st]] by blast
  show ?case
  proof (cases "ips = []")
    case True
    then have "{..<length P} \<subseteq> dom m'" using Cons.prems(5) m'(2) st by (simp add: parts_of_def)
    then show ?thesis using True key Cons.prems(4) m'(3) st by simp
  next
    case False
    have parts: "dom m' \<union> parts_of qs = dom (fst st) \<union> parts_of (ip # qs)" for qs using m'(2) st by (auto simp: parts_of_def)
    have no: "\<not> {..<length P} \<subseteq> dom m' \<union> parts_of (butlast ips)" using Cons.prems(6) False parts by simp
    then have "\<not> {..<length P} \<subseteq> dom m'" by auto
    then have "spec_run (ip # ips) t = None # spec_run ips (t(h \<mapsto> (hdr, m', sz')))"
      using key Cons.prems(4) m'(3) st by simp
    moreover have "spec_run ips (t(h \<mapsto> (hdr, m', sz'))) = replicate (length ips - 1) None @ [Some (hdr, P)]"
      using False Cons.prems(2,5) m'(1) no parts by (intro Cons.IH [of "(m', sz')"]) (simp_all add: spec_entry_def)
    ultimately show ?thesis using False by (cases ips) simp_all
  qed
qed simp

text \<open>The fragments of a datagram do not feel those of the others.\<close>

lemma spec_run_key:
  assumes "\<forall>ip \<in> set ips. \<exists>k. frag_key_of ip = Inr k" "t h = t' h"
  shows "map snd (filter (\<lambda>(ip, out). frag_key_of ip = Inr h) (zip ips (spec_run ips t))) =
    spec_run (filter (\<lambda>ip. frag_key_of ip = Inr h) ips) t'"
  using assms
proof (induction ips arbitrary: t t')
  case (Cons ip ips)
  obtain k where k: "frag_key_of ip = Inr k" using Cons.prems(1) by auto
  obtain hdr st where e: "spec_entry ip (t k) = (hdr, st)" by (cases "spec_entry ip (t k)")
  obtain st' out where sp: "spec_add (frag_of ip) st = (st', out)" by (cases "spec_add (frag_of ip) st")
  have IH: "map snd (filter (\<lambda>(ip, out). frag_key_of ip = Inr h) (zip ips (spec_run ips u))) =
      spec_run (filter (\<lambda>ip. frag_key_of ip = Inr h) ips) u'" if "u h = u' h" for u u'
    using Cons.IH [of u u'] Cons.prems(1) that by simp
  show ?case
  proof (cases "k = h")
    case True
    then show ?thesis
      using k e sp Cons.prems(2) IH [of "t(h \<mapsto> (hdr, st'))" "t'(h \<mapsto> (hdr, st'))"] IH [of "t(h := None)" "t'(h := None)"]
      by (cases out) simp_all
  next
    case False
    then show ?thesis
      using k e sp Cons.prems(2) IH [of "t(k \<mapsto> (hdr, st'))" t'] IH [of "t(k := None)" t'] by (cases out) simp_all
  qed
qed simp

lemma list_all2_filter_zip:
  "list_all2 R xs ys \<Longrightarrow> list_all2 R (map snd (filter (\<lambda>x. Q (fst x)) (zip zs xs))) (map snd (filter (\<lambda>x. Q (fst x)) (zip zs ys)))"
proof (induction arbitrary: zs rule: list_all2_induct)
  case (Cons x xs y ys)
  then show ?case by (cases zs) simp_all
qed simp

lemma built_last:
  assumes "list_all2 built outs (replicate n None @ [Some (hdr, P)])"
  shows "\<exists>ih nxt. outs = replicate n None @ [Some ih] \<and> packet_with hdr nxt P ih"
  using assms
proof (induction n arbitrary: outs)
  case 0
  then show ?case by (auto simp: built_def list_all2_Cons2)
next
  case (Suc n)
  then obtain b outs' where "outs = b # outs'" "built b None" "list_all2 built outs' (replicate n None @ [Some (hdr, P)])"
    by (auto simp: list_all2_Cons2)
  moreover from this have "b = None" by (simp add: built_def)
  ultimately show ?case using Suc.IH by auto
qed

text \<open>
  C5. A datagram of which every byte arrives in some fragment is put together again, whatever the order of
  its fragments, however they overlap or repeat, and whatever fragments of other datagrams arrive in
  between: nothing is given out until the fragment that closes the last gap, and with that one the header
  of the fragment that came first followed by exactly the payload.
\<close>

theorem datagram_comes_back:
  assumes "\<forall>ip \<in> set ips. ready ip" "frags = filter (\<lambda>ip. frag_key_of ip = Inr h) ips" "\<forall>ip \<in> set frags. piece_of P ip"
    and "{..<length P} \<subseteq> parts_of frags" "\<not> {..<length P} \<subseteq> parts_of (butlast frags)"
  shows "\<exists>outs t' ih nxt. run_fragments timeout ips Map.empty = Inr (outs, t') \<and>
    map snd (filter (\<lambda>(ip, out). frag_key_of ip = Inr h) (zip ips outs)) = replicate (length frags - 1) None @ [Some ih] \<and>
    packet_with (saved_header (hd frags)) nxt P ih"
proof -
  have "P \<noteq> []" "frags \<noteq> []" using assms(4,5) by (auto simp: parts_of_def)
  have keys: "\<forall>ip \<in> set ips. \<exists>k. frag_key_of ip = Inr k" using assms(1) ready_key by meson
  obtain outs t' where outs: "run_fragments timeout ips Map.empty = Inr (outs, t')" "list_all2 built outs (spec_run ips Map.empty)"
    using run_refines [OF assms(1), of Map.empty Map.empty timeout] by (auto simp: table_rel_def entry_rel_def)
  have "spec_run frags Map.empty = replicate (length frags - 1) None @ [Some (saved_header (hd frags), P)]"
    by (rule pieces_run [where h = h and st = "(Map.empty, 0)"])
      (use \<open>frags \<noteq> []\<close> assms(2-5) in \<open>auto simp: partial_def spec_entry_def\<close>)
  moreover have "list_all2 built (map snd (filter (\<lambda>(ip, out). frag_key_of ip = Inr h) (zip ips outs)))
      (map snd (filter (\<lambda>(ip, out). frag_key_of ip = Inr h) (zip ips (spec_run ips Map.empty))))"
    using list_all2_filter_zip [OF outs(2), of "\<lambda>ip. frag_key_of ip = Inr h" ips] by (simp add: case_prod_beta')
  ultimately have "list_all2 built (map snd (filter (\<lambda>(ip, out). frag_key_of ip = Inr h) (zip ips outs)))
      (replicate (length frags - 1) None @ [Some (saved_header (hd frags), P)])"
    using spec_run_key [OF keys, of Map.empty h Map.empty] assms(2) by simp
  then show ?thesis using outs(1) built_last by metis
qed

definition demo_fragment :: "u8 \<Rightarrow> u8 \<Rightarrow> u8 \<Rightarrow> u8 list \<Rightarrow> IP_Hdr" where
  "demo_fragment i off_hi off_lo data =
     IP4 ([69, 0, 0, 20 + of_nat (length data), 0, i, off_hi, off_lo, 64, 17, 0, 0, 10, 0, 0, 1, 10, 0, 0, 2] @ data)"

definition demo_traffic :: "IP_Hdr list" where
  "demo_traffic = [demo_fragment 7 0 1 [9, 10, 11], demo_fragment 8 32 0 [4, 4, 4, 4, 4, 4, 4, 4], demo_fragment 7 32 0 [1, 2, 3, 4, 5, 6, 7, 8]]"

lemmas demo_simps = demo_traffic_def demo_fragment_def rdb_def rd8_def be16_def rdn_def ip_hl_def frag_key_of_def

lemma demo_ready: "\<forall>ip \<in> set demo_traffic. ready ip"
  by (simp add: demo_simps ready_def)


lemma demo_frags:
  "filter (\<lambda>ip. frag_key_of ip = Inr (v4_mapped [10, 0, 0, 1], v4_mapped [10, 0, 0, 2], 7)) demo_traffic =
     [demo_fragment 7 0 1 [9, 10, 11], demo_fragment 7 32 0 [1, 2, 3, 4, 5, 6, 7, 8]]"
  by (simp add: demo_simps)

lemma demo_frag_of:
  "frag_of (demo_fragment 7 0 1 [9, 10, 11]) = Some (8, [9, 10, 11], False)"
  "frag_of (demo_fragment 7 32 0 [1, 2, 3, 4, 5, 6, 7, 8]) = Some (0, [1, 2, 3, 4, 5, 6, 7, 8], True)"
  by (simp_all add: demo_simps frag_of_def)

theorem datagram_comes_back_witness:
  "\<exists>outs t' ih nxt. run_fragments True demo_traffic Map.empty = Inr (outs, t') \<and>
    map snd (filter (\<lambda>(ip, out). frag_key_of ip = Inr (v4_mapped [10, 0, 0, 1], v4_mapped [10, 0, 0, 2], 7)) (zip demo_traffic outs)) =
      replicate (2 - 1) None @ [Some ih] \<and>
    packet_with (saved_header (demo_fragment 7 0 1 [9, 10, 11])) nxt [1, 2, 3, 4, 5, 6, 7, 8, 9, 10, 11] ih"
proof -
  let ?P = "[1, 2, 3, 4, 5, 6, 7, 8, 9, 10, 11] :: u8 list"
  let ?frags = "[demo_fragment 7 0 1 [9, 10, 11], demo_fragment 7 32 0 [1, 2, 3, 4, 5, 6, 7, 8]]"
  have parts: "parts_of ?frags = {8..<11} \<union> {0..<8}" "parts_of (butlast ?frags) = {8..<11}"
    by (simp_all add: parts_of_def parts_def demo_frag_of eval_nat_numeral)
  have "{..<length ?P} \<subseteq> parts_of ?frags" unfolding parts by auto
  moreover have "\<not> {..<length ?P} \<subseteq> parts_of (butlast ?frags)" unfolding parts by (simp add: subset_eq Bex_def) (rule exI [of _ 0], simp)
  moreover have "\<forall>ip \<in> set ?frags. piece_of ?P ip" by (simp add: piece_of_def demo_frag_of)
  ultimately show ?thesis using datagram_comes_back [OF demo_ready demo_frags [symmetric], of ?P True] by simp
qed

text \<open>A header length below three words makes the comparison of the protocols read bytes that were never written.\<close>

lemma short_header_reads_uninitialised:
  assumes "20 \<le> length mem" "unat (mem ! 0) AND 15 \<le> 2"
  shows "FragReassembler_new timeout (IP4 mem) pkt = Inl Uninitialised"
proof -
  have "0 < length mem" using assms(1) by linarith
  then show ?thesis using assms
    by (simp add: FragReassembler_new_def AddFragment_def check_protocol_def proto_byte_def ip_hl_def rd_simps)
qed

end
