(* ===== verification/NM_Tcp.thy ===== *)
theory NM_Tcp
  imports NM_Reassem
begin

section \<open>The network monitor: the TCP reassembler\<close>

text \<open>
  \<^verbatim>\<open>TCP_Reassembler.cc\<close>, and the sequence numbers of \<^verbatim>\<open>TCP_Endpoint\<close>. The record extends that of the base class;
  what is told to the rest of the program is the list \<open>tcp_log\<close>. What an operation reads of the two
  endpoints, of the options and of the other parts of the program is a record \<open>tcp_env\<close>. The analyzer
  that a chunk is delivered to may ask to skip to a sequence number: \<open>skip_on\<close>, zero when it does not.
\<close>

subsection \<open>Endpoints\<close>

datatype EndpointState =
    TCP_ENDPOINT_INACTIVE | TCP_ENDPOINT_SYN_SENT | TCP_ENDPOINT_SYN_ACK_SENT | TCP_ENDPOINT_PARTIAL
  | TCP_ENDPOINT_ESTABLISHED | TCP_ENDPOINT_CLOSED | TCP_ENDPOINT_RESET

record TCP_Endpoint =
  ep_state :: EndpointState
  prev_state :: EndpointState
  start_seq :: u64
  last_seq :: u32
  ack_seq :: u32
  seq_wraps :: u32
  ack_wraps :: u32
  FIN_seq :: nat
  FIN_cnt :: nat
  RST_cnt :: nat
  HasContents :: bool
  HasDoneSomething :: bool
  HasUndeliveredData :: bool

definition ToFullSeqSpace :: "u32 \<Rightarrow> u32 \<Rightarrow> u64" where
  "ToFullSeqSpace tcp_seq_num wraparounds = push_bit 32 (ucast wraparounds) + ucast tcp_seq_num"

definition ToRelativeSeqSpace :: "TCP_Endpoint \<Rightarrow> u32 \<Rightarrow> u32 \<Rightarrow> u64" where
  "ToRelativeSeqSpace e tcp_seq_num wraparounds = ToFullSeqSpace tcp_seq_num wraparounds - start_seq e"

definition UpdateLastSeq :: "u32 \<Rightarrow> TCP_Endpoint \<Rightarrow> TCP_Endpoint" where
  "UpdateLastSeq seq e = (if seq < last_seq e then e\<lparr>seq_wraps := seq_wraps e + 1, last_seq := seq\<rparr> else e\<lparr>last_seq := seq\<rparr>)"

definition UpdateAckSeq :: "u32 \<Rightarrow> TCP_Endpoint \<Rightarrow> TCP_Endpoint" where
  "UpdateAckSeq seq e = (if seq < ack_seq e then e\<lparr>ack_wraps := ack_wraps e + 1, ack_seq := seq\<rparr> else e\<lparr>ack_seq := seq\<rparr>)"

definition NoDataAcked :: "TCP_Endpoint \<Rightarrow> bool" where
  "NoDataAcked e \<longleftrightarrow>
     (let ack = ToFullSeqSpace (ack_seq e) (ack_wraps e); start = start_seq e in ack = start \<or> ack = start + 1)"

definition ep_Size :: "TCP_Endpoint \<Rightarrow> TCP_Endpoint \<Rightarrow> nat" where
  "ep_Size e peer =
     (if prev_state e = TCP_ENDPOINT_SYN_SENT \<and> ep_state e = TCP_ENDPOINT_RESET \<and> ep_state peer = TCP_ENDPOINT_INACTIVE \<and> \<not> NoDataAcked e
      then 0
      else let last_seq_64 = ToFullSeqSpace (last_seq e) (seq_wraps e);
               ack_seq_64 = ToFullSeqSpace (ack_seq e) (ack_wraps e);
               size0 = unat (if last_seq_64 > ack_seq_64 then last_seq_64 - start_seq e else ack_seq_64 - start_seq e);
               size1 = (if size0 \<noteq> 0 then size0 - 1 else size0)
           in if FIN_cnt e > 0 \<and> size1 \<noteq> 0 then size1 - 1 else size1)"

subsection \<open>State\<close>

record tcp_env =
  endp :: TCP_Endpoint
  peer :: TCP_Endpoint
  IsPartial :: bool
  Skipping :: bool
  detect_filtered_trace :: bool
  report_gaps_for_partial :: bool
  content_gap :: bool
  rexmit_inconsistency :: bool
  tcp_match_undelivered :: bool
  rule_matcher :: bool
  tcp_max_initial_window :: nat
  tcp_max_above_hole_without_any_acks :: nat
  tcp_excessive_data_without_further_acks :: nat
  gap_report_due :: bool
  write_ok :: bool
  skip_on :: "nat \<Rightarrow> u8 list \<Rightarrow> nat"

datatype tcp_event =
    TE_Deliver nat "u8 list"
  | TE_Undelivered nat nat
  | TE_ContentGap nat nat
  | TE_Contents nat "u8 list"
  | TE_Match "u8 list"
  | TE_Inconsistency "u8 list" "u8 list"
  | TE_Write "u8 list"
  | TE_WriteGap nat
  | TE_WriteFailed
  | TE_CloseFile
  | TE_NoSuchFile
  | TE_Weird string
  | TE_AckAboveHole
  | TE_GapReport nat u64 nat nat
  | TE_EndpointEOF

record TCP_Reassembler = Reassembler +
  deliver_tcp_contents :: bool
  had_gap :: bool
  did_EOF :: bool
  skip_deliveries :: bool
  seq_to_skip :: nat
  in_delivery :: bool
  record_contents_file :: bool
  tot_ack_events :: nat
  tot_ack_bytes :: u64
  tot_gap_events :: nat
  tot_gap_bytes :: nat
  last_ack_events :: nat
  last_ack_bytes :: u64
  last_gap_events :: nat
  last_gap_bytes :: nat
  tcp_log :: "tcp_event list"

text \<open>
  The constructor, with the decision about \<^verbatim>\<open>tcp_contents\<close> as an argument. The counters of the program for
  acks and gaps are kept in the record.
\<close>

definition TCP_Reassembler_new :: "bool \<Rightarrow> TCP_Reassembler" where
  "TCP_Reassembler_new contents =
     \<lparr>blocks = [], last_block = None, last_reassem_seq = 1, trim_seq = 1, next_id = 0,
      deliver_tcp_contents = contents, had_gap = False, did_EOF = False, skip_deliveries = False, seq_to_skip = 0,
      in_delivery = False, record_contents_file = False, tot_ack_events = 0, tot_ack_bytes = 0, tot_gap_events = 0,
      tot_gap_bytes = 0, last_ack_events = 0, last_ack_bytes = 0, last_gap_events = 0, last_gap_bytes = 0, tcp_log = []\<rparr>"

definition tell :: "tcp_event \<Rightarrow> TCP_Reassembler \<Rightarrow> TCP_Reassembler" where
  "tell e s = s\<lparr>tcp_log := tcp_log s @ [e]\<rparr>"

definition tcp_Overlap :: "tcp_env \<Rightarrow> u8 list \<Rightarrow> u8 list \<Rightarrow> TCP_Reassembler \<Rightarrow> TCP_Reassembler" where
  "tcp_Overlap E b1 b2 s =
     (if rexmit_inconsistency E \<and> b1 \<noteq> b2 \<and> (length b1 > 1 \<or> HasDoneSomething (peer E))
      then tell (TE_Inconsistency b1 b2) s else s)"

subsection \<open>The file of the contents\<close>

definition RecordBlock :: "tcp_env \<Rightarrow> u8 list \<Rightarrow> TCP_Reassembler \<Rightarrow> TCP_Reassembler" where
  "RecordBlock E data s = (if write_ok E then tell (TE_Write data) s else tell TE_WriteFailed s)"

definition RecordGap :: "tcp_env \<Rightarrow> nat \<Rightarrow> nat \<Rightarrow> TCP_Reassembler \<Rightarrow> TCP_Reassembler" where
  "RecordGap E start upper s = (if write_ok E then tell (TE_WriteGap (upper - start)) s else tell TE_WriteFailed s)"

fun record_blocks :: "tcp_env \<Rightarrow> nat \<Rightarrow> nat \<Rightarrow> DataBlock list \<Rightarrow> TCP_Reassembler \<Rightarrow> TCP_Reassembler" where
  "record_blocks E prev_seq stop_seq [] s = s"
| "record_blocks E prev_seq stop_seq (b # bs) s =
     (if db_upper b \<le> stop_seq
      then record_blocks E (db_upper b) stop_seq bs
             (RecordBlock E (db_block b) (if db_seq b > prev_seq then RecordGap E prev_seq (db_seq b) s else s))
      else if prev_seq < stop_seq then RecordGap E prev_seq stop_seq s else s)"

definition RecordToSeq :: "tcp_env \<Rightarrow> nat \<Rightarrow> nat \<Rightarrow> TCP_Reassembler \<Rightarrow> TCP_Reassembler" where
  "RecordToSeq E from_seq stop_seq s =
     record_blocks E from_seq stop_seq (dropWhile (\<lambda>b. db_upper b \<le> from_seq) (blocks s)) s"

definition last_upper :: "TCP_Reassembler \<Rightarrow> nat option res" where
  "last_upper s =
     (case last_block s of None \<Rightarrow> Inr None | Some l \<Rightarrow> rbind (block_at l (blocks s)) (\<lambda>i. Inr (Some (db_upper (blocks s ! i)))))"

definition SetContentsFile :: "tcp_env \<Rightarrow> bool \<Rightarrow> TCP_Reassembler \<Rightarrow> TCP_Reassembler" where
  "SetContentsFile E is_open s =
     (if \<not> is_open then tell TE_NoSuchFile s
      else (if record_contents_file s then s
            else case blocks s of [] \<Rightarrow> s | b # _ \<Rightarrow> RecordToSeq E (db_seq b) (last_reassem_seq s) s)
             \<lparr>record_contents_file := True\<rparr>)"

subsection \<open>Data that is missing\<close>

definition MatchUndelivered :: "tcp_env \<Rightarrow> nat \<Rightarrow> bool \<Rightarrow> TCP_Reassembler \<Rightarrow> TCP_Reassembler res" where
  "MatchUndelivered E up_to_seq use_last_upper s =
     (if blocks s = [] \<or> \<not> rule_matcher E then Inr s
      else rbind (last_upper s) (\<lambda>lu.
      case lu of
        None \<Rightarrow> Inl OutOfBounds
      | Some u \<Rightarrow>
          let up_to = (if use_last_upper then u else up_to_seq) in
          if up_to \<le> last_reassem_seq s \<or> u \<le> last_reassem_seq s then Inr s
          else Inr (fold (\<lambda>b. tell (TE_Match (db_block b))) (takeWhile (\<lambda>b. db_upper b \<le> last_reassem_seq s) (blocks s)) s)))"

definition both_established :: "tcp_env \<Rightarrow> bool" where
  "both_established E \<longleftrightarrow> ep_state (endp E) = TCP_ENDPOINT_ESTABLISHED \<and> ep_state (peer E) = TCP_ENDPOINT_ESTABLISHED"

definition tcp_Undelivered :: "tcp_env \<Rightarrow> nat \<Rightarrow> TCP_Reassembler \<Rightarrow> TCP_Reassembler res" where
  "tcp_Undelivered E up_to_seq s =
     (if up_to_seq \<le> 2 \<and> IsPartial E then Inr s
      else if up_to_seq \<le> last_reassem_seq s then Inl (LibException ''InternalError'')
      else
        let seq = last_reassem_seq s;
            len = up_to_seq - seq;
            s1 = (if detect_filtered_trace E \<and> last_reassem_seq s = 1 \<and>
                     (FIN_cnt (endp E) > 0 \<or> RST_cnt (endp E) > 0 \<or> FIN_cnt (peer E) > 0 \<or> RST_cnt (peer E) > 0)
                  then s\<lparr>skip_deliveries := True\<rparr>
                  else
                    (if \<not> skip_deliveries s
                     then tell (TE_Undelivered seq len)
                            (if content_gap E \<and> (report_gaps_for_partial E \<or> both_established E) then tell (TE_ContentGap seq len) s else s)
                     else s)\<lparr>had_gap := True\<rparr>);
            s2 = (if record_contents_file s1 then RecordToSeq E (last_reassem_seq s1) up_to_seq s1 else s1)
        in rbind (if tcp_match_undelivered E then MatchUndelivered E up_to_seq False s2 else Inr s2) (\<lambda>s3.
           Inr (s3\<lparr>last_reassem_seq := up_to_seq\<rparr>)))"

subsection \<open>Delivery\<close>

text \<open>
  While the chunk is with the analyzer, \<^verbatim>\<open>in_delivery\<close> is set, so that a call of \<^verbatim>\<open>SkipToSeq\<close> only notes the
  number. The call of \<^verbatim>\<open>SkipToSeq(seq_to_skip)\<close> at the end of \<^verbatim>\<open>DeliverBlock\<close> compares the number with itself
  and does nothing.
\<close>

definition DeliverBlock :: "tcp_env \<Rightarrow> nat \<Rightarrow> u8 list \<Rightarrow> TCP_Reassembler \<Rightarrow> TCP_Reassembler" where
  "DeliverBlock E seq data s =
     (if seq + length data \<le> seq_to_skip s then s
      else
        let data1 = drop (seq_to_skip s - seq) data;
            seq1 = max seq (seq_to_skip s);
            s1 = (if deliver_tcp_contents s then tell (TE_Contents seq1 data1) s else s)
        in if skip_deliveries s1 then s1
           else
             let s2 = tell (TE_Deliver seq1 data1) s1
             in if skip_on E seq1 data1 > seq_to_skip s2 then s2\<lparr>seq_to_skip := skip_on E seq1 data1\<rparr> else s2)"

fun deliver_loop :: "tcp_env \<Rightarrow> DataBlock list \<Rightarrow> TCP_Reassembler \<Rightarrow> TCP_Reassembler" where
  "deliver_loop E [] s = s"
| "deliver_loop E (b # bs) s =
     (if db_seq b \<le> last_reassem_seq s
      then deliver_loop E bs
             (if db_seq b = last_reassem_seq s
              then let seq = last_reassem_seq s;
                       s1 = s\<lparr>last_reassem_seq := last_reassem_seq s + length (db_block b)\<rparr>;
                       s2 = (if record_contents_file s1 then RecordBlock E (db_block b) s1 else s1)
                   in DeliverBlock E seq (db_block b) s2
              else s)
      else s)"

definition does_not_wait :: "tcp_env \<Rightarrow> bool" where
  "does_not_wait E \<longleftrightarrow>
     \<not> HasContents (peer E) \<or>
     NoDataAcked (endp E) \<and> tcp_max_initial_window E \<noteq> 0 \<and> ep_Size (endp E) (peer E) > tcp_max_initial_window E"

text \<open>
  \<^verbatim>\<open>BlockInserted\<close> and \<^verbatim>\<open>TrimToSeq\<close> call each other; the first argument bounds the depth, and the fault that
  stands for a deeper call does not occur.
\<close>

fun tcp_BlockInserted :: "nat \<Rightarrow> tcp_env \<Rightarrow> nat \<Rightarrow> TCP_Reassembler \<Rightarrow> TCP_Reassembler res" where
  "tcp_BlockInserted 0 E i s = Inl (LibException ''depth'')"
| "tcp_BlockInserted (Suc n) E i s =
     (if i \<ge> length (blocks s) then Inl OutOfBounds
      else let b = blocks s ! i in
      if db_seq b > last_reassem_seq s \<or> db_upper b \<le> last_reassem_seq s then Inr s
      else
        let s1 = deliver_loop E (drop i (blocks s)) s
        in if does_not_wait E
           then rbind (TrimToSeq (tcp_BlockInserted n E) (tcp_Undelivered E) (last_reassem_seq s1) s1) (\<lambda>(num_missing, s2). Inr s2)
           else Inr s1)"

definition tcp_TrimToSeq :: "tcp_env \<Rightarrow> nat \<Rightarrow> TCP_Reassembler \<Rightarrow> (nat \<times> TCP_Reassembler) res" where
  "tcp_TrimToSeq E = TrimToSeq (tcp_BlockInserted 1 E) (tcp_Undelivered E)"

definition SkipToSeq :: "tcp_env \<Rightarrow> nat \<Rightarrow> TCP_Reassembler \<Rightarrow> TCP_Reassembler res" where
  "SkipToSeq E seq s =
     (if seq > seq_to_skip s
      then let s1 = s\<lparr>seq_to_skip := seq\<rparr>
           in if \<not> in_delivery s1 then rbind (tcp_TrimToSeq E seq s1) (\<lambda>(num_missing, s2). Inr s2) else Inr s1
      else Inr s)"

definition NumUndeliveredBytes :: "TCP_Reassembler \<Rightarrow> nat res" where
  "NumUndeliveredBytes s =
     rbind (last_upper s) (\<lambda>lu. Inr (case lu of None \<Rightarrow> 0 | Some u \<Rightarrow> nat ((int u - int (last_reassem_seq s)) mod 2 ^ 64)))"

definition give_up :: "nat \<Rightarrow> string \<Rightarrow> TCP_Reassembler \<Rightarrow> TCP_Reassembler res" where
  "give_up limit name s =
     (if limit = 0 then Inr s
      else rbind (NumUndeliveredBytes s) (\<lambda>n.
           Inr (if n > limit then (ClearBlocks (tell (TE_Weird name) s))\<lparr>skip_deliveries := True\<rparr> else s)))"

definition tcp_DataSent :: "tcp_env \<Rightarrow> nat \<Rightarrow> u8 list \<Rightarrow> bool \<Rightarrow> TCP_Reassembler \<Rightarrow> (bool \<times> TCP_Reassembler) res" where
  "tcp_DataSent E seq data replaying s =
     (let ack = unat (ToRelativeSeqSpace (endp E) (ack_seq (endp E)) (ack_wraps (endp E)));
          upper_seq = seq + length data
      in if skip_deliveries s \<or> (seq < ack \<and> \<not> replaying \<and> upper_seq \<le> ack) then Inr (False, s)
         else
           let amount_acked = (if replaying then 0 else ack - seq)
           in rbind (NewBlock (tcp_Overlap E) (tcp_BlockInserted 1 E) (seq + amount_acked) (drop amount_acked data) s) (\<lambda>s1.
              rbind (if NoDataAcked (endp E)
                     then give_up (tcp_max_above_hole_without_any_acks E) ''above_hole_data_without_any_acks'' s1 else Inr s1) (\<lambda>s2.
              rbind (give_up (tcp_excessive_data_without_further_acks E) ''excessive_data_without_further_acks'' s2) (\<lambda>s3.
              Inr (True, s3)))))"

subsection \<open>Acknowledgements and the end\<close>

definition DataPending :: "tcp_env \<Rightarrow> TCP_Reassembler \<Rightarrow> bool" where
  "DataPending E s \<longleftrightarrow>
     \<not> skip_deliveries s \<and>
     (let delivered_seq = start_seq (endp E) + of_nat (last_reassem_seq s);
          last = ToFullSeqSpace (last_seq (endp E)) (seq_wraps (endp E))
      in \<not> last < delivered_seq \<and>
         (delivered_seq \<noteq> last - 1 \<and> delivered_seq \<noteq> last \<or>
          ep_state (endp E) \<noteq> TCP_ENDPOINT_RESET \<and> HasUndeliveredData (peer E)))"

definition CheckEOF :: "tcp_env \<Rightarrow> TCP_Reassembler \<Rightarrow> TCP_Reassembler" where
  "CheckEOF E s =
     (if \<not> did_EOF s \<and>
         (FIN_cnt (endp E) > 0 \<or> ep_state (endp E) = TCP_ENDPOINT_CLOSED \<or> ep_state (endp E) = TCP_ENDPOINT_RESET) \<and>
         \<not> DataPending E s
      then tell TE_EndpointEOF (s\<lparr>did_EOF := True\<rparr>) else s)"

definition account_ack :: "tcp_env \<Rightarrow> nat \<Rightarrow> nat \<Rightarrow> TCP_Reassembler \<Rightarrow> TCP_Reassembler" where
  "account_ack E seq num_missing s =
     (let s1 = s\<lparr>tot_ack_events := tot_ack_events s + 1, tot_ack_bytes := tot_ack_bytes s + (of_nat seq - of_nat (trim_seq s))\<rparr>;
          s2 = (if num_missing > 0
                then tell TE_AckAboveHole
                       (s1\<lparr>tot_gap_events := tot_gap_events s1 + 1, tot_gap_bytes := tot_gap_bytes s1 + num_missing\<rparr>)
                else s1)
      in if gap_report_due E
         then (tell (TE_GapReport (tot_ack_events s2 - last_ack_events s2) (tot_ack_bytes s2 - last_ack_bytes s2)
                      (tot_gap_events s2 - last_gap_events s2) (tot_gap_bytes s2 - last_gap_bytes s2)) s2)
                \<lparr>last_ack_events := tot_ack_events s2, last_ack_bytes := tot_ack_bytes s2,
                 last_gap_events := tot_gap_events s2, last_gap_bytes := tot_gap_bytes s2\<rparr>
         else s2)"

definition ack_target :: "tcp_env \<Rightarrow> nat \<Rightarrow> nat" where
  "ack_target E seq = (if FIN_cnt (endp E) > 0 \<and> seq \<ge> FIN_seq (endp E) then nat ((int (FIN_seq (endp E)) - 1) mod 2 ^ 64) else seq)"

definition tcp_AckReceived :: "tcp_env \<Rightarrow> nat \<Rightarrow> TCP_Reassembler \<Rightarrow> TCP_Reassembler res" where
  "tcp_AckReceived E seq0 s =
     (let seq = ack_target E seq0 in
      if seq \<le> trim_seq s then Inr s
      else
        let test_active = (\<not> skip_deliveries s \<and> \<not> Skipping E \<and> (report_gaps_for_partial E \<or> both_established E))
        in rbind (tcp_TrimToSeq E seq s) (\<lambda>(num_missing, s1).
           Inr (CheckEOF E (if test_active then account_ack E seq num_missing s1 else s1))))"

definition tcp_Done :: "tcp_env \<Rightarrow> TCP_Reassembler \<Rightarrow> TCP_Reassembler res" where
  "tcp_Done E s =
     rbind (MatchUndelivered E (2 ^ 64 - 1) True s) (\<lambda>s1.
     if record_contents_file s1
     then rbind (last_upper s1) (\<lambda>lu.
          Inr (tell TE_CloseFile
                 (case lu of
                    None \<Rightarrow> s1
                  | Some u \<Rightarrow> if blocks s1 \<noteq> [] \<and> last_reassem_seq s1 < u then RecordToSeq E (last_reassem_seq s1) u s1 else s1)))
     else Inr s1)"

definition SizeBufferedData :: "TCP_Reassembler \<Rightarrow> nat \<times> nat" where
  "SizeBufferedData s =
     (sum_list (map (\<lambda>b. length (db_block b)) (filter (\<lambda>b. \<not> db_seq b \<le> last_reassem_seq s) (blocks s))),
      sum_list (map (\<lambda>b. length (db_block b)) (filter (\<lambda>b. db_seq b \<le> last_reassem_seq s) (blocks s))))"

subsection \<open>The stream as it was told\<close>

text \<open>The chunks that were delivered and the gaps that were reported, each with its first and its end position.\<close>

fun stretches :: "tcp_event list \<Rightarrow> (nat \<times> nat \<times> u8 list option) list" where
  "stretches [] = []"
| "stretches (TE_Deliver seq data # es) = (seq, seq + length data, Some data) # stretches es"
| "stretches (TE_Undelivered seq len # es) = (seq, seq + len, None) # stretches es"
| "stretches (_ # es) = stretches es"

fun tiles :: "nat \<Rightarrow> nat \<Rightarrow> (nat \<times> nat \<times> u8 list option) list \<Rightarrow> bool" where
  "tiles a z [] \<longleftrightarrow> a = z"
| "tiles a z ((x, y, d) # ss) \<longleftrightarrow> x = a \<and> tiles y z ss"

definition true_to :: "(nat \<Rightarrow> u8) \<Rightarrow> (nat \<times> nat \<times> u8 list option) list \<Rightarrow> bool" where
  "true_to S ss \<longleftrightarrow> (\<forall>x y d. (x, y, Some d) \<in> set ss \<longrightarrow> d = map S [x..<y])"

definition in_order :: "(nat \<Rightarrow> u8) \<Rightarrow> TCP_Reassembler \<Rightarrow> bool" where
  "in_order S s \<longleftrightarrow> (\<not> skip_deliveries s \<longrightarrow>
     tiles 1 (last_reassem_seq s) (stretches (tcp_log s)) \<and> true_to S (stretches (tcp_log s)))"

lemma stretches_append [simp]: "stretches (es @ es') = stretches es @ stretches es'"
  by (induction es rule: stretches.induct) simp_all

lemma tiles_append [simp]: "tiles a z (ss @ [(x, y, d)]) \<longleftrightarrow> tiles a x ss \<and> y = z"
  by (induction ss arbitrary: a) auto

lemma true_to_append [simp]: "true_to S (ss @ ss') \<longleftrightarrow> true_to S ss \<and> true_to S ss'"
  by (auto simp: true_to_def)

definition told_gaps :: "TCP_Reassembler \<Rightarrow> (nat \<times> nat \<times> u8 list option) list" where
  "told_gaps s = filter (\<lambda>(x, y, d). d = None) (stretches (tcp_log s))"

text \<open>The part of the state on which the stream depends.\<close>

definition tcp_view :: "TCP_Reassembler \<Rightarrow> DataBlock list \<times> nat option \<times> nat \<times> nat \<times> nat \<times> bool \<times> nat \<times> (nat \<times> nat \<times> u8 list option) list" where
  "tcp_view s = (blocks s, last_block s, last_reassem_seq s, trim_seq s, next_id s, skip_deliveries s, seq_to_skip s, stretches (tcp_log s))"

lemma view_tell: "stretches [e] = [] \<Longrightarrow> tcp_view (tell e s) = tcp_view s"
  by (simp add: tcp_view_def tell_def)

lemma view_tell_cong: "tcp_view s' = tcp_view s \<Longrightarrow> tcp_view (tell e s') = tcp_view (tell e s)"
  by (simp add: tcp_view_def tell_def)

lemma view_record [simp]: "tcp_view (RecordBlock E data s) = tcp_view s" "tcp_view (RecordGap E a z s) = tcp_view s"
  by (simp_all add: RecordBlock_def RecordGap_def view_tell)

lemma view_RecordToSeq [simp]: "tcp_view (RecordToSeq E a z s) = tcp_view s"
proof -
  have "tcp_view (record_blocks E prev stop bs s) = tcp_view s" for prev stop bs s
    by (induction E prev stop bs s rule: record_blocks.induct) simp_all
  then show ?thesis by (simp add: RecordToSeq_def)
qed

lemma view_matches [simp]: "tcp_view (fold (\<lambda>b. tell (TE_Match (db_block b))) bs s) = tcp_view s"
  by (induction bs arbitrary: s) (simp_all add: view_tell)

lemma viewD:
  assumes "tcp_view s' = tcp_view s"
  shows "blocks s' = blocks s" "last_block s' = last_block s" "last_reassem_seq s' = last_reassem_seq s" "trim_seq s' = trim_seq s"
    "next_id s' = next_id s" "skip_deliveries s' = skip_deliveries s" "seq_to_skip s' = seq_to_skip s"
    "stretches (tcp_log s') = stretches (tcp_log s)"
  using assms by (simp_all add: tcp_view_def)

lemma last_upper_works:
  assumes "reassem_inv s"
  shows "last_upper s = Inr (if blocks s = [] then None else Some (db_upper (last (blocks s))))"
  using assms block_at_nth [of "blocks s" "length (blocks s) - 1"]
  by (cases "blocks s = []") (auto simp: last_upper_def reassem_inv_def last_conv_nth)

lemma MatchUndelivered_works:
  assumes "reassem_inv s"
  shows "\<exists>s'. MatchUndelivered E up_to use_last s = Inr s' \<and> tcp_view s' = tcp_view s"
  using last_upper_works [OF assms] by (auto simp: MatchUndelivered_def Let_def)

text \<open>The bytes of the blocks are those of the stream \<open>S\<close>.\<close>

definition stream_inv :: "(nat \<Rightarrow> u8) \<Rightarrow> TCP_Reassembler \<Rightarrow> bool" where
  "stream_inv S s \<longleftrightarrow> reassem_inv s \<and> (\<forall>p b. content (blocks s) p = Some b \<longrightarrow> b = S p) \<and> seq_to_skip s = 0 \<and> in_order S s"

lemma stream_inv_view: "tcp_view s' = tcp_view s \<Longrightarrow> stream_inv S s' \<longleftrightarrow> stream_inv S s"
  by (simp add: stream_inv_def in_order_def reassem_inv_def tcp_view_def)

lemma content_block:
  assumes "separated bs" "b \<in> set bs" "i < length (db_block b)"
  shows "content bs (db_seq b + i) = Some (db_block b ! i)"
  using assms
proof (induction bs)
  case (Cons a bs)
  show ?case
  proof (cases "a = b")
    case True
    then show ?thesis using Cons.prems(3) by (simp add: bytes_from_def map_add_def)
  next
    case False
    then have "db_upper a \<le> db_seq b + i" using Cons.prems(1,2) by (auto simp: separated_Cons dest!: bspec)
    then have "bytes_from (db_seq a) (db_block a) (db_seq b + i) = None" by (simp add: bytes_from_def db_upper_def)
    then show ?thesis using Cons False by (simp add: separated_Cons map_add_def)
  qed
qed simp

lemma block_of_stream:
  assumes "stream_inv S s" "b \<in> set (blocks s)"
  shows "db_block b = map S [db_seq b..<db_upper b]"
  using assms content_block [of "blocks s" b]
  by (intro nth_equalityI) (auto simp: stream_inv_def reassem_inv_def db_upper_def)

subsection \<open>Delivery of the blocks that follow\<close>

fun run_end :: "nat \<Rightarrow> DataBlock list \<Rightarrow> nat" where
  "run_end l [] = l"
| "run_end l (b # bs) = (if db_seq b \<le> l then run_end (if db_seq b = l then db_upper b else l) bs else l)"

definition no_skips :: "tcp_env \<Rightarrow> bool" where
  "no_skips E \<longleftrightarrow> (\<forall>seq data. skip_on E seq data = 0)"

lemma DeliverBlock_works:
  assumes "no_skips E" "seq_to_skip s = 0" "data \<noteq> []"
  shows "tcp_view (DeliverBlock E seq data s) =
    tcp_view (if skip_deliveries s then s else tell (TE_Deliver seq data) s)"
  using assms by (simp add: DeliverBlock_def Let_def no_skips_def tell_def tcp_view_def)

lemma deliver_loop_works:
  assumes "no_skips E" "stream_inv S s" "set bs \<subseteq> set (blocks s)"
  shows "stream_inv S (deliver_loop E bs s) \<and> blocks (deliver_loop E bs s) = blocks s \<and> last_block (deliver_loop E bs s) = last_block s \<and>
    trim_seq (deliver_loop E bs s) = trim_seq s \<and> skip_deliveries (deliver_loop E bs s) = skip_deliveries s \<and>
    told_gaps (deliver_loop E bs s) = told_gaps s \<and> last_reassem_seq (deliver_loop E bs s) = run_end (last_reassem_seq s) bs"
  using assms
proof (induction bs arbitrary: s)
  case (Cons b bs)
  show ?case
  proof (cases "db_seq b = last_reassem_seq s")
    case True
    define s1 where "s1 = s\<lparr>last_reassem_seq := last_reassem_seq s + length (db_block b)\<rparr>"
    define s2 where "s2 = (if record_contents_file s1 then RecordBlock E (db_block b) s1 else s1)"
    define s3 where "s3 = DeliverBlock E (last_reassem_seq s) (db_block b) s2"
    have b: "db_block b \<noteq> []" "db_block b = map S [db_seq b..<db_upper b]" "seq_to_skip s = 0"
      using Cons.prems(2,3) block_of_stream [OF Cons.prems(2)] by (auto simp: stream_inv_def reassem_inv_def separated_def)
    have v2: "tcp_view s2 = tcp_view s1" by (simp add: s2_def)
    then have "tcp_view s3 = tcp_view (if skip_deliveries s2 then s2 else tell (TE_Deliver (last_reassem_seq s) (db_block b)) s2)"
      unfolding s3_def using Cons.prems(1) b(1,3) viewD(7) [OF v2] by (intro DeliverBlock_works) (simp_all add: s1_def)
    then have v3: "tcp_view s3 = tcp_view (if skip_deliveries s then s1 else tell (TE_Deliver (last_reassem_seq s) (db_block b)) s1)"
      using v2 view_tell_cong [OF v2] viewD(6) [OF v2] by (simp add: s1_def)
    have "stream_inv S (if skip_deliveries s then s1 else tell (TE_Deliver (last_reassem_seq s) (db_block b)) s1)"
      using Cons.prems(2) b(2) True
      by (auto simp: stream_inv_def in_order_def tell_def s1_def reassem_inv_def true_to_def db_upper_def)
    then have "stream_inv S s3" using stream_inv_view [OF v3] by simp
    moreover have "deliver_loop E (b # bs) s = deliver_loop E bs s3"
      using True by (simp add: s3_def s2_def s1_def Let_def)
    moreover have s3: "blocks s3 = blocks s" "last_block s3 = last_block s" "trim_seq s3 = trim_seq s" "skip_deliveries s3 = skip_deliveries s"
      "told_gaps s3 = told_gaps s" "last_reassem_seq s3 = db_upper b"
      using viewD(1,2,4,6,8,3) [OF v3] True by (auto simp: s1_def tell_def db_upper_def told_gaps_def)
    moreover note Cons.IH [of s3]
    ultimately show ?thesis using Cons.prems True by simp
  next
    case False
    then show ?thesis using Cons by (cases "db_seq b \<le> last_reassem_seq s") simp_all
  qed
qed simp

lemma run_end_ge: "separated bs \<Longrightarrow> l \<le> run_end l bs"
proof (induction bs arbitrary: l)
  case (Cons b bs)
  then have "db_seq b \<le> db_upper b" by (simp add: db_upper_def)
  then show ?case using Cons by (force simp: separated_Cons intro: order.trans)
qed simp

lemma run_end_fresh:
  assumes "separated bs"
  shows "\<forall>b \<in> set bs. db_seq b \<noteq> run_end l bs"
  using assms
proof (induction bs arbitrary: l)
  case (Cons b bs)
  have b: "db_seq b < db_upper b" "separated bs" "\<forall>a \<in> set bs. db_upper b \<le> db_seq a"
    using Cons.prems by (simp_all add: separated_Cons upper_gt)
  show ?case
  proof (cases "db_seq b \<le> l")
    case True
    then have "db_seq b < run_end l (b # bs)"
      using run_end_ge [OF b(2), of "if db_seq b = l then db_upper b else l"] b(1) by (auto split: if_splits)
    then show ?thesis using True Cons.IH [OF b(2)] by auto
  next
    case False
    then show ?thesis using b by (auto dest!: bspec)
  qed
qed simp

lemma run_end_covered:
  assumes "separated bs" "l \<le> p" "p < run_end l bs"
  shows "\<exists>b \<in> set bs. holds b p"
  using assms
proof (induction bs arbitrary: l)
  case (Cons b bs)
  show ?case
  proof (cases "holds b p")
    case False
    then have "\<exists>b \<in> set bs. holds b p"
      using Cons.IH [of "if db_seq b = l then db_upper b else l"] Cons.prems by (auto simp: separated_Cons holds_def split: if_splits)
    then show ?thesis by simp
  qed simp
qed simp

lemma run_end_gap:
  assumes "separated bs" "\<forall>b \<in> set bs. db_seq b < l \<longrightarrow> db_upper b \<le> l"
  shows "\<forall>b \<in> set bs. \<not> holds b (run_end l bs)"
  using assms
proof (induction bs arbitrary: l)
  case (Cons b bs)
  have b: "separated bs" "\<forall>a \<in> set bs. db_upper b \<le> db_seq a" "db_seq b < db_upper b"
    using Cons.prems(1) by (simp_all add: separated_Cons upper_gt)
  show ?case
  proof (cases "db_seq b \<le> l")
    case True
    define l' where "l' = (if db_seq b = l then db_upper b else l)"
    have "db_upper b \<le> l'" "\<forall>a \<in> set bs. db_seq a < l' \<longrightarrow> db_upper a \<le> l'"
      using True Cons.prems(2) b(2) by (auto simp: l'_def dest!: bspec)
    moreover from this have "l' \<le> run_end l' bs" "\<forall>a \<in> set bs. \<not> holds a (run_end l' bs)" using run_end_ge Cons.IH b(1) by blast+
    ultimately show ?thesis using True by (auto simp: l'_def [symmetric] holds_def)
  next
    case False
    then show ?thesis using b by (auto simp: holds_def dest!: bspec)
  qed
qed simp

subsection \<open>Throwing away what was delivered\<close>

lemma trim_loop_left:
  "\<exists>n. \<forall>m. trim_loop seq bs m = (dropWhile (\<lambda>b. db_upper b \<le> seq) bs, n m)"
proof -
  have "fst (trim_loop seq bs m) = dropWhile (\<lambda>b. db_upper b \<le> seq) bs" for m
    by (induction seq bs m rule: trim_loop.induct) simp_all
  then show ?thesis by (intro exI [of _ "\<lambda>m. snd (trim_loop seq bs m)"]) (simp add: prod_eq_iff)
qed

definition trimmed :: "nat \<Rightarrow> TCP_Reassembler \<Rightarrow> TCP_Reassembler" where
  "trimmed seq s = (let left = dropWhile (\<lambda>b. db_upper b \<le> seq) (blocks s) in
     s\<lparr>blocks := left, last_block := if left = [] then None else last_block s\<rparr>)"

lemma content_trimmed:
  assumes "separated bs"
  shows "content (dropWhile (\<lambda>b. db_upper b \<le> seq) bs) p = Some b \<Longrightarrow> content bs p = Some b"
    "seq \<le> p \<Longrightarrow> content (dropWhile (\<lambda>b. db_upper b \<le> seq) bs) p = content bs p"
proof -
  define gone left where "gone = takeWhile (\<lambda>b. db_upper b \<le> seq) bs" and "left = dropWhile (\<lambda>b. db_upper b \<le> seq) bs"
  have bs: "bs = gone @ left" by (simp add: gone_def left_def)
  then have all: "content bs = content left ++ content gone" by (simp add: content_append)
  show "content left p = content bs p" if "seq \<le> p"
  proof -
    have "content gone p = None" using that by (auto simp: gone_def content_None holds_def dest!: set_takeWhileD)
    then show ?thesis by (simp add: all map_add_def)
  qed
  show "content bs p = Some b" if b: "content left p = Some b"
  proof -
    obtain a where "a \<in> set left" "holds a p" using b content_None [of left p] by auto
    moreover have "\<forall>x \<in> set gone. \<forall>y \<in> set left. db_upper x \<le> db_seq y" using assms unfolding bs separated_append by blast
    ultimately have "content gone p = None" by (fastforce simp: content_None holds_def)
    then show ?thesis using b by (simp add: all map_add_def)
  qed
qed

lemma trimmed_inv:
  assumes "stream_inv S s"
  shows "stream_inv S (trimmed seq s)"
proof -
  define gone left where "gone = takeWhile (\<lambda>b. db_upper b \<le> seq) (blocks s)" and "left = dropWhile (\<lambda>b. db_upper b \<le> seq) (blocks s)"
  have bl: "blocks s = gone @ left" by (simp add: gone_def left_def)
  have inv: "separated (gone @ left)" "distinct (map db_id (gone @ left))" "\<forall>b \<in> set (gone @ left). db_id b < next_id s"
    "last_block s = (if gone @ left = [] then None else Some (db_id (last (gone @ left))))"
    using assms unfolding stream_inv_def reassem_inv_def bl by blast+
  then have "reassem_inv (trimmed seq s)"
    unfolding reassem_inv_def trimmed_def Let_def left_def [symmetric] by (auto simp: separated_append)
  moreover have "\<forall>p b. content left p = Some b \<longrightarrow> b = S p"
    using assms content_trimmed(1) [OF inv(1) [folded bl]] by (simp add: stream_inv_def left_def)
  ultimately show ?thesis
    using assms by (simp add: stream_inv_def trimmed_def Let_def in_order_def left_def [symmetric])
qed

text \<open>Nothing undelivered is below \<open>seq\<close> and no block begins at the next byte: no block is delivered.\<close>

lemma trim_delivered:
  assumes "seq \<le> last_reassem_seq s" "\<forall>b \<in> set (blocks s). db_seq b \<noteq> last_reassem_seq s"
  shows "\<exists>n. TrimToSeq BI U seq s = Inr (n, (trimmed seq s)\<lparr>trim_seq := max (trim_seq s) seq\<rparr>)"
proof -
  define left where "left = dropWhile (\<lambda>b. db_upper b \<le> seq) (blocks s)"
  obtain n where loop: "\<And>m. trim_loop seq (blocks s) m = (left, n m)"
    using trim_loop_left [of seq "blocks s"] by (auto simp: left_def)
  have "\<forall>b \<in> set left. db_seq b \<noteq> last_reassem_seq s" using assms(2) by (auto simp: left_def dest!: set_dropWhileD)
  then show ?thesis
    using assms(1) unfolding TrimToSeq_def trimmed_def Let_def left_def [symmetric] by (cases left) (simp_all add: loop max_def)
qed

lemma BlockInserted_step:
  assumes "no_skips E" "stream_inv S s" "i < length (blocks s)"
  defines "b \<equiv> blocks s ! i" and "L \<equiv> run_end (last_reassem_seq s) (drop i (blocks s))"
  shows "\<exists>s'. tcp_BlockInserted (Suc n) E i s = Inr s' \<and> stream_inv S s' \<and> skip_deliveries s' = skip_deliveries s \<and> told_gaps s' = told_gaps s \<and>
    (if db_seq b > last_reassem_seq s \<or> db_upper b \<le> last_reassem_seq s then s' = s
     else last_reassem_seq s' = L \<and>
       (blocks s', trim_seq s') =
         (if does_not_wait E then (dropWhile (\<lambda>b. db_upper b \<le> L) (blocks s), max (trim_seq s) L) else (blocks s, trim_seq s)))"
proof (cases "db_seq b > last_reassem_seq s \<or> db_upper b \<le> last_reassem_seq s")
  case True
  then show ?thesis using assms by (auto simp: Let_def)
next
  case False
  define s1 where "s1 = deliver_loop E (drop i (blocks s)) s"
  have s1: "stream_inv S s1" "blocks s1 = blocks s" "trim_seq s1 = trim_seq s" "skip_deliveries s1 = skip_deliveries s" "last_reassem_seq s1 = L"
    "told_gaps s1 = told_gaps s"
    using deliver_loop_works [OF assms(1,2) set_drop_subset, of i] by (simp_all add: s1_def L_def)
  have run: "tcp_BlockInserted (Suc n) E i s =
      (if does_not_wait E then rbind (TrimToSeq (tcp_BlockInserted n E) (tcp_Undelivered E) L s1) (\<lambda>(num_missing, s2). Inr s2) else Inr s1)"
    using False assms(3) s1(5) by (simp add: s1_def [symmetric] b_def Let_def)
  have "separated (take i (blocks s) @ drop i (blocks s))" using assms(2) by (simp add: stream_inv_def reassem_inv_def)
  then have sep: "separated (take i (blocks s))" "separated (drop i (blocks s))"
    "\<forall>a \<in> set (take i (blocks s)). \<forall>c \<in> set (drop i (blocks s)). db_upper a \<le> db_seq c" unfolding separated_append by blast+
  have L: "last_reassem_seq s \<le> L" using run_end_ge [OF sep(2)] by (simp add: L_def)
  have b: "b \<in> set (drop i (blocks s))" using assms(3) by (simp add: b_def Cons_nth_drop_Suc [symmetric])
  have "db_seq a < L" if a: "a \<in> set (take i (blocks s))" for a
  proof -
    have "db_seq a < db_upper a" using sep(1) a upper_gt [of a] by (simp add: separated_def)
    also have "db_upper a \<le> db_seq b" using sep(3) a b by blast
    finally show ?thesis using L False by simp
  qed
  moreover have "\<forall>a \<in> set (drop i (blocks s)). db_seq a \<noteq> L" using run_end_fresh [OF sep(2)] by (simp add: L_def)
  ultimately have "\<forall>a \<in> set (blocks s1). db_seq a \<noteq> last_reassem_seq s1"
    unfolding s1(2,5) by (metis Un_iff append_take_drop_id less_irrefl set_append)
  then obtain m where "TrimToSeq (tcp_BlockInserted n E) (tcp_Undelivered E) L s1 = Inr (m, (trimmed L s1)\<lparr>trim_seq := max (trim_seq s1) L\<rparr>)"
    using trim_delivered [of L s1 "tcp_BlockInserted n E" "tcp_Undelivered E"] s1(5) by auto
  moreover have "stream_inv S ((trimmed L s1)\<lparr>trim_seq := max (trim_seq s1) L\<rparr>)"
    using trimmed_inv [OF s1(1), of L] by (simp add: stream_inv_def reassem_inv_def in_order_def)
  ultimately show ?thesis using run s1 False by (auto simp: trimmed_def Let_def told_gaps_def)
qed

declare tcp_BlockInserted.simps [simp del]

lemma stream_inv_trim_seq [simp]: "stream_inv S (s\<lparr>trim_seq := t\<rparr>) \<longleftrightarrow> stream_inv S s"
  by (simp add: stream_inv_def reassem_inv_def in_order_def)

lemma Undelivered_keeps:
  assumes "stream_inv S s" "last_reassem_seq s < up_to"
  shows "\<exists>s'. tcp_Undelivered E up_to s = Inr s' \<and> stream_inv S s' \<and> (skip_deliveries s \<longrightarrow> skip_deliveries s')"
proof (cases "up_to \<le> 2 \<and> IsPartial E")
  case False
  define s1 where "s1 = (if detect_filtered_trace E \<and> last_reassem_seq s = 1 \<and>
                     (FIN_cnt (endp E) > 0 \<or> RST_cnt (endp E) > 0 \<or> FIN_cnt (peer E) > 0 \<or> RST_cnt (peer E) > 0)
                  then s\<lparr>skip_deliveries := True\<rparr>
                  else
                    (if \<not> skip_deliveries s
                     then tell (TE_Undelivered (last_reassem_seq s) (up_to - last_reassem_seq s))
                            (if content_gap E \<and> (report_gaps_for_partial E \<or> both_established E)
                             then tell (TE_ContentGap (last_reassem_seq s) (up_to - last_reassem_seq s)) s else s)
                     else s)\<lparr>had_gap := True\<rparr>)"
  define s2 where "s2 = (if record_contents_file s1 then RecordToSeq E (last_reassem_seq s1) up_to s1 else s1)"
  have s1: "stream_inv S (s1\<lparr>last_reassem_seq := up_to\<rparr>)" "skip_deliveries s \<longrightarrow> skip_deliveries s1" "reassem_inv s1"
    using assms by (auto simp: s1_def stream_inv_def reassem_inv_def in_order_def tell_def true_to_def)
  have v2: "tcp_view s2 = tcp_view s1" by (simp add: s2_def)
  then have "reassem_inv s2" using s1(3) viewD [OF v2] by (simp add: reassem_inv_def)
  then have "\<exists>s3. (if tcp_match_undelivered E then MatchUndelivered E up_to False s2 else Inr s2) = Inr s3 \<and> tcp_view s3 = tcp_view s2"
    using MatchUndelivered_works [of s2 E up_to False] by auto
  then obtain s3 where s3: "(if tcp_match_undelivered E then MatchUndelivered E up_to False s2 else Inr s2) = Inr s3" "tcp_view s3 = tcp_view s2"
    by blast
  then have v3: "tcp_view s3 = tcp_view s1" using v2 by simp
  then have "tcp_view (s3\<lparr>last_reassem_seq := up_to\<rparr>) = tcp_view (s1\<lparr>last_reassem_seq := up_to\<rparr>)" by (simp add: tcp_view_def)
  then have "stream_inv S (s3\<lparr>last_reassem_seq := up_to\<rparr>)" using s1(1) stream_inv_view by blast
  moreover have "tcp_Undelivered E up_to s = Inr (s3\<lparr>last_reassem_seq := up_to\<rparr>)"
    using False assms(2) s3(1) unfolding tcp_Undelivered_def Let_def s1_def [symmetric] s2_def [symmetric] by auto
  ultimately show ?thesis using viewD(6) [OF v3] s1(2) by simp
qed (use assms(1) in \<open>simp add: tcp_Undelivered_def\<close>)

lemma tcp_TrimToSeq_keeps:
  assumes "no_skips E" "stream_inv S s"
  shows "\<exists>n s'. tcp_TrimToSeq E seq s = Inr (n, s') \<and> stream_inv S s' \<and> (skip_deliveries s \<longrightarrow> skip_deliveries s')"
proof -
  have "\<exists>s1. (if seq > last_reassem_seq s then tcp_Undelivered E seq s else Inr s) = Inr s1 \<and> stream_inv S s1 \<and>
      (skip_deliveries s \<longrightarrow> skip_deliveries s1)"
    using Undelivered_keeps [OF assms(2), of seq E] assms(2) by auto
  then obtain s1 where s1: "(if seq > last_reassem_seq s then tcp_Undelivered E seq s else Inr s) = Inr s1" "stream_inv S s1"
    "skip_deliveries s \<longrightarrow> skip_deliveries s1"
    by blast
  define left where "left = dropWhile (\<lambda>b. db_upper b \<le> seq) (blocks s1)"
  obtain n where loop: "\<And>m. trim_loop seq (blocks s1) m = (left, n m)"
    using trim_loop_left [of seq "blocks s1"] by (auto simp: left_def)
  have inv: "stream_inv S (trimmed seq s1)" by (rule trimmed_inv [OF s1(2)])
  have "\<exists>s3. (case left of b # bs \<Rightarrow> if db_seq b = last_reassem_seq (s1\<lparr>blocks := left\<rparr>) then tcp_BlockInserted 1 E 0 (s1\<lparr>blocks := left\<rparr>) else Inr (s1\<lparr>blocks := left\<rparr>)
      | [] \<Rightarrow> Inr (s1\<lparr>blocks := left, last_block := None\<rparr>)) = Inr s3 \<and> stream_inv S s3 \<and> skip_deliveries s3 = skip_deliveries s1"
  proof (cases left)
    case Nil
    then show ?thesis using inv by (simp add: trimmed_def left_def [symmetric])
  next
    case (Cons b bs)
    then have eq: "trimmed seq s1 = s1\<lparr>blocks := left\<rparr>" by (simp add: trimmed_def left_def [symmetric])
    show ?thesis
      using BlockInserted_step [OF assms(1) inv, of 0 0] inv unfolding eq by (auto simp: Cons)
  qed
  then obtain s3 where "(case left of b # bs \<Rightarrow> if db_seq b = last_reassem_seq (s1\<lparr>blocks := left\<rparr>) then tcp_BlockInserted 1 E 0 (s1\<lparr>blocks := left\<rparr>) else Inr (s1\<lparr>blocks := left\<rparr>)
      | [] \<Rightarrow> Inr (s1\<lparr>blocks := left, last_block := None\<rparr>)) = Inr s3" "stream_inv S s3" "skip_deliveries s3 = skip_deliveries s1"
    by blast
  then show ?thesis using s1(3) unfolding tcp_TrimToSeq_def TrimToSeq_def Let_def s1(1) by (simp add: loop)
qed

subsection \<open>What arrives from outside\<close>

interpretation tcp: overlap_hook "tcp_Overlap E" "\<lambda>s. (skip_deliveries s, seq_to_skip s, stretches (tcp_log s))" for E
  by unfold_locales (simp_all add: reports_only_def same_base_def kept_by_def tcp_Overlap_def tell_def)

definition agrees :: "(nat \<Rightarrow> u8) \<Rightarrow> nat \<Rightarrow> u8 list \<Rightarrow> bool" where
  "agrees S seq data \<longleftrightarrow> data = map S [seq..<seq + length data]"

lemma agrees_drop:
  assumes "agrees S seq data"
  shows "agrees S (seq + n) (drop n data)"
proof -
  have "drop n data = map S [seq + n..<seq + length data]"
    using arg_cong [OF assms [unfolded agrees_def], of "drop n"] by (simp add: drop_map)
  then show ?thesis by (cases "n \<le> length data") (simp_all add: agrees_def)
qed

lemma agrees_bytes: "agrees S seq data \<Longrightarrow> bytes_from seq data p = Some b \<Longrightarrow> b = S p"
  unfolding agrees_def bytes_from_def by (metis add_diff_inverse_nat diff_add_inverse length_upt nth_map nth_upt option.sel option.simps(3) not_less add_less_cancel_left)

text \<open>The state when \<^verbatim>\<open>BlockInserted\<close> is called.\<close>

lemma tcp_NewBlock:
  assumes "stream_inv S s" "agrees S seq data" "seq + length data < 2 ^ 64" "data \<noteq> []" "trim_seq s < seq + length data"
  obtains i s1 where "NewBlock (tcp_Overlap E) BI seq data s = BI i s1"
    "inserted (max seq (trim_seq s)) (drop (trim_seq s - seq) data) s i s1" "stream_inv S s1"
    "skip_deliveries s1 = skip_deliveries s" "told_gaps s1 = told_gaps s"
proof -
  have "reassem_inv s" using assms(1) by (simp add: stream_inv_def)
  from tcp.insertion [OF this assms(4,3,5), of E BI]
  obtain i s1 where s1: "NewBlock (tcp_Overlap E) BI seq data s = BI i s1"
    "inserted (max seq (trim_seq s)) (drop (trim_seq s - seq) data) s i s1"
    "(skip_deliveries s1, seq_to_skip s1, stretches (tcp_log s1)) = (skip_deliveries s, seq_to_skip s, stretches (tcp_log s))"
    by blast
  then have "content (blocks s1) = (bytes_from seq data |` {trim_seq s..}) ++ content (blocks s)" "reassem_inv s1"
    "last_reassem_seq s1 = last_reassem_seq s"
    by (simp_all add: inserted_def bytes_from_trim)
  moreover have "b = S p" if "((bytes_from seq data |` {trim_seq s..}) ++ content (blocks s)) p = Some b" for p b
    using that agrees_bytes [OF assms(2)] assms(1) by (auto simp: stream_inv_def restrict_map_def split: if_splits)
  ultimately have "stream_inv S s1" using assms(1) s1(3) by (simp add: stream_inv_def in_order_def)
  then show thesis using that s1 by (simp add: told_gaps_def)
qed

lemma give_up_works:
  assumes "stream_inv S s"
  shows "\<exists>s'. give_up limit name s = Inr s' \<and> stream_inv S s' \<and> (\<not> skip_deliveries s' \<longrightarrow> s' = s)"
  using assms last_upper_works [of s]
  by (auto simp: give_up_def NumUndeliveredBytes_def stream_inv_def ClearBlocks_def tell_def in_order_def reassem_inv_def separated_def)

lemma tcp_NewBlock_keeps:
  assumes "no_skips E" "stream_inv S s" "agrees S seq data" "seq + length data < 2 ^ 64"
  shows "\<exists>s'. NewBlock (tcp_Overlap E) (tcp_BlockInserted 1 E) seq data s = Inr s' \<and> stream_inv S s'"
proof (cases "data = [] \<or> seq + length data \<le> trim_seq s")
  case True
  then show ?thesis using NewBlock_old [of data seq s] assms(2,4) by auto
next
  case False
  then have "data \<noteq> []" "trim_seq s < seq + length data" by auto
  from tcp_NewBlock [OF assms(2-4) this, of E "tcp_BlockInserted 1 E"]
  obtain i s1 where "NewBlock (tcp_Overlap E) (tcp_BlockInserted 1 E) seq data s = tcp_BlockInserted 1 E i s1"
    "inserted (max seq (trim_seq s)) (drop (trim_seq s - seq) data) s i s1" "stream_inv S s1" by blast
  then show ?thesis using BlockInserted_step [OF assms(1), of S s1 i 0] by (auto simp: inserted_def)
qed

lemma give_ups_work:
  assumes "stream_inv S s"
  shows "\<exists>s'. rbind (if b then give_up l1 n1 s else Inr s) (\<lambda>s2. rbind (give_up l2 n2 s2) (\<lambda>s3. Inr (True, s3))) = Inr (True, s') \<and>
    stream_inv S s' \<and> (\<not> skip_deliveries s' \<longrightarrow> s' = s)"
proof -
  obtain s2 where s2: "(if b then give_up l1 n1 s else Inr s) = Inr s2" "stream_inv S s2" "\<not> skip_deliveries s2 \<longrightarrow> s2 = s"
    using give_up_works [OF assms, of l1 n1] assms by (cases b) auto
  obtain s3 where s3: "give_up l2 n2 s2 = Inr s3" "stream_inv S s3" "\<not> skip_deliveries s3 \<longrightarrow> s3 = s2"
    using give_up_works [OF s2(2)] by blast
  show ?thesis unfolding s2(1) using s2(3) s3 by auto
qed

lemma DataSent_keeps:
  assumes "no_skips E" "stream_inv S s" "agrees S seq data" "seq + length data < 2 ^ 64"
  shows "\<exists>r s'. tcp_DataSent E seq data replaying s = Inr (r, s') \<and> stream_inv S s'"
proof -
  define ack where "ack = unat (ToRelativeSeqSpace (endp E) (ack_seq (endp E)) (ack_wraps (endp E)))"
  define n where "n = (if replaying then 0 else ack - seq)"
  show ?thesis
  proof (cases "skip_deliveries s \<or> (seq < ack \<and> \<not> replaying \<and> seq + length data \<le> ack)")
    case True
    then show ?thesis using assms(2) by (auto simp: tcp_DataSent_def Let_def ack_def)
  next
    case False
    then have "n \<le> length data" by (auto simp: n_def)
    then obtain s1 where s1: "NewBlock (tcp_Overlap E) (tcp_BlockInserted 1 E) (seq + n) (drop n data) s = Inr s1" "stream_inv S s1"
      using tcp_NewBlock_keeps [OF assms(1,2) agrees_drop [OF assms(3)], of n] assms(4) by auto
    have "tcp_DataSent E seq data replaying s =
        rbind (if NoDataAcked (endp E) then give_up (tcp_max_above_hole_without_any_acks E) ''above_hole_data_without_any_acks'' s1 else Inr s1)
          (\<lambda>s2. rbind (give_up (tcp_excessive_data_without_further_acks E) ''excessive_data_without_further_acks'' s2) (\<lambda>s3. Inr (True, s3)))"
      using False s1(1) unfolding tcp_DataSent_def Let_def ack_def [symmetric] n_def [symmetric] by auto
    then show ?thesis using give_ups_work [OF s1(2)] by metis
  qed
qed

lemma view_CheckEOF [simp]: "tcp_view (CheckEOF E s) = tcp_view s"
  by (simp add: CheckEOF_def tcp_view_def tell_def)

lemma view_account [simp]: "tcp_view (account_ack E seq n s) = tcp_view s"
  by (simp add: account_ack_def Let_def tcp_view_def tell_def)

lemma skip_quiet [simp]:
  "skip_deliveries (CheckEOF E s) = skip_deliveries s" "skip_deliveries (account_ack E seq n s) = skip_deliveries s"
  by (rule viewD(6), simp)+

lemma AckReceived_keeps:
  assumes "no_skips E" "stream_inv S s"
  shows "\<exists>s'. tcp_AckReceived E seq s = Inr s' \<and> stream_inv S s' \<and> (skip_deliveries s \<longrightarrow> skip_deliveries s')"
proof -
  obtain n s1 where "tcp_TrimToSeq E (ack_target E seq) s = Inr (n, s1)" "stream_inv S s1" "skip_deliveries s \<longrightarrow> skip_deliveries s1"
    using tcp_TrimToSeq_keeps [OF assms] by blast
  moreover have "stream_inv S (CheckEOF E (if test then account_ack E a n s1 else s1))" for test a
    using calculation(2) stream_inv_view [of "CheckEOF E (if test then account_ack E a n s1 else s1)" s1 S] by simp
  ultimately show ?thesis using assms(2) by (simp add: tcp_AckReceived_def Let_def)
qed

text \<open>What has arrived, as long as no acknowledgement was ahead of it.\<close>

definition received_inv :: "(nat \<Rightarrow> bool) \<Rightarrow> TCP_Reassembler \<Rightarrow> bool" where
  "received_inv R s \<longleftrightarrow> (\<not> skip_deliveries s \<longrightarrow>
     told_gaps s = [] \<and> trim_seq s \<le> last_reassem_seq s \<and> content (blocks s) (last_reassem_seq s) = None \<and>
     (\<forall>p. trim_seq s \<le> p \<and> p < last_reassem_seq s \<longrightarrow> content (blocks s) p \<noteq> None) \<and>
     (\<forall>p. R p \<longleftrightarrow> p < last_reassem_seq s \<or> content (blocks s) p \<noteq> None))"

lemma run_of_blocks:
  assumes "separated bs" "i < length bs"
  defines "l \<equiv> db_seq (bs ! i)" and "L \<equiv> run_end (db_seq (bs ! i)) (drop i bs)"
  shows "l \<le> L" "\<forall>p. l \<le> p \<and> p < L \<longrightarrow> content bs p \<noteq> None" "content bs L = None"
proof -
  have d: "drop i bs = bs ! i # drop (Suc i) bs" using assms(2) by (simp add: Cons_nth_drop_Suc)
  have "separated (take i bs @ drop i bs)" using assms(1) by simp
  then have sep: "separated (drop i bs)" "\<forall>a \<in> set (take i bs). \<forall>c \<in> set (drop i bs). db_upper a \<le> db_seq c"
    unfolding separated_append by blast+
  show L: "l \<le> L" using run_end_ge [OF sep(1)] by (simp add: l_def L_def)
  have "\<exists>b \<in> set bs. holds b p" if "l \<le> p" "p < L" for p
    using run_end_covered [OF sep(1), of l p] that set_drop_subset [of i bs] by (auto simp: l_def L_def)
  then show "\<forall>p. l \<le> p \<and> p < L \<longrightarrow> content bs p \<noteq> None" unfolding content_None by blast
  have "db_upper (bs ! i) \<le> db_seq a" if "a \<in> set (drop (Suc i) bs)" for a using sep(1) that by (simp add: d separated_Cons)
  then have "\<forall>b \<in> set (drop i bs). db_seq b < l \<longrightarrow> db_upper b \<le> l" by (force simp: d l_def db_upper_def)
  then have "\<forall>b \<in> set (drop i bs). \<not> holds b L" using run_end_gap [OF sep(1), of l] by (simp add: l_def L_def)
  moreover have "\<not> holds b L" if "b \<in> set (take i bs)" for b 
  proof -
    have "db_upper b \<le> l" using sep(2) that by (simp add: d l_def)
    then show ?thesis using L by (simp add: holds_def)
  qed
  ultimately have "\<forall>b \<in> set (take i bs @ drop i bs). \<not> holds b L" unfolding set_append by blast
  then show "content bs L = None" by (simp add: content_None)
qed

text \<open>Data that fills the first hole: the new block begins there.\<close>

lemma hole_filled:
  assumes "inserted q d s i s1" "content (blocks s) l = None" "q \<le> l" "l < q + length d"
    and "\<And>p. q \<le> p \<Longrightarrow> p < l \<Longrightarrow> content (blocks s) p \<noteq> None"
  shows "db_seq (blocks s1 ! i) = l"
proof -
  let ?b = "blocks s1 ! i"
  have "\<not> covered s q (length d)" using assms(2-4) by (auto simp: covered_def)
  then have b: "content (blocks s) (db_seq ?b) = None" "q \<le> db_seq ?b" "covered s q (db_seq ?b - q)"
    using assms(1) by (simp_all add: inserted_def first_new_def)
  have "\<not> l < db_seq ?b" using b(3) assms(2,3) by (auto simp: covered_def)
  moreover have "\<not> db_seq ?b < l" using b(1,2) assms(5) by blast
  ultimately show ?thesis by simp
qed

lemma received_inserted:
  assumes "no_skips E" "received_inv R s" "\<not> skip_deliveries s" "stream_inv S s1"
    and ins: "inserted (max seq (trim_seq s)) (drop (trim_seq s - seq) data) s i s1"
    and eqs: "skip_deliveries s1 = skip_deliveries s" "told_gaps s1 = told_gaps s"
  shows "\<exists>s'. tcp_BlockInserted 1 E i s1 = Inr s' \<and> stream_inv S s' \<and> received_inv (\<lambda>p. R p \<or> seq \<le> p \<and> p < seq + length data) s'"
proof -
  let ?l = "last_reassem_seq s" and ?t = "trim_seq s" and ?b = "blocks s1 ! i"
  define L where "L = run_end ?l (drop i (blocks s1))"
  have inv: "told_gaps s = []" "?t \<le> ?l" "content (blocks s) ?l = None" "\<And>p. ?t \<le> p \<Longrightarrow> p < ?l \<Longrightarrow> content (blocks s) p \<noteq> None"
    "\<And>p. R p \<longleftrightarrow> p < ?l \<or> content (blocks s) p \<noteq> None"
    using assms(2,3) by (auto simp: received_inv_def)
  have s1: "reassem_inv s1" "i < length (blocks s1)" "last_reassem_seq s1 = ?l" "trim_seq s1 = ?t"
    using ins by (simp_all add: inserted_def)
  have held: "content (blocks s1) p \<noteq> None \<longleftrightarrow> content (blocks s) p \<noteq> None \<or> ?t \<le> p \<and> seq \<le> p \<and> p < seq + length data" for p
    using ins by (auto simp: inserted_def bytes_from_trim restrict_map_def bytes_from_def map_add_def split: option.splits if_splits)
  then have R': "(R p \<or> seq \<le> p \<and> p < seq + length data) \<longleftrightarrow> p < ?l \<or> content (blocks s1) p \<noteq> None" for p
    using inv(2,5) by (metis less_le_trans not_le)
  obtain s' where s': "tcp_BlockInserted 1 E i s1 = Inr s'" "stream_inv S s'" "\<not> skip_deliveries s'" "told_gaps s' = []"
    and step: "if db_seq ?b > ?l \<or> db_upper ?b \<le> ?l then s' = s1
      else last_reassem_seq s' = L \<and> (blocks s', trim_seq s') =
        (if does_not_wait E then (dropWhile (\<lambda>b. db_upper b \<le> L) (blocks s1), max ?t L) else (blocks s1, ?t))"
    using BlockInserted_step [OF assms(1,4) s1(2), of 0] assms(3) eqs inv(1) unfolding s1(3,4) L_def by auto
  have "received_inv (\<lambda>p. R p \<or> seq \<le> p \<and> p < seq + length data) s'"
  proof (cases "content (blocks s1) ?l = None")
    case True
    then have "\<not> holds ?b ?l" using s1(2) by (simp add: content_None)
    then have "s' = s1" using step by (auto simp: holds_def split: if_splits)
    then show ?thesis using True inv s1 s'(4) R' held by (simp add: received_inv_def)
  next
    case False
    then have l: "max seq ?t \<le> ?l" "?l < max seq ?t + length (drop (?t - seq) data)" using held [of ?l] inv(2,3) by auto
    have "db_seq ?b = ?l" by (rule hole_filled [OF ins inv(3) l]) (use inv(4) in auto)
    then have run: "?l \<le> L" "\<forall>p. ?l \<le> p \<and> p < L \<longrightarrow> content (blocks s1) p \<noteq> None" "content (blocks s1) L = None" "?l < db_upper ?b"
      using run_of_blocks [of "blocks s1" i] s1(1,2) upper_gt [of ?b] by (auto simp: L_def reassem_inv_def separated_def)
    have same: "content (dropWhile (\<lambda>b. db_upper b \<le> L) (blocks s1)) p = content (blocks s1) p" if "L \<le> p" for p
      using content_trimmed(2) that s1(1) by (simp add: reassem_inv_def)
    have R: "(R p \<or> seq \<le> p \<and> p < seq + length data) \<longleftrightarrow> p < L \<or> content (blocks s1) p \<noteq> None" for p
      using R' run(1,2) by (metis less_le_trans not_le)
    have "last_reassem_seq s' = L" and bt: "(blocks s', trim_seq s') =
        (if does_not_wait E then (dropWhile (\<lambda>b. db_upper b \<le> L) (blocks s1), max ?t L) else (blocks s1, ?t))"
      using step \<open>db_seq ?b = ?l\<close> run(4) by simp_all
    moreover have "content (blocks s') p = content (blocks s1) p" if "L \<le> p" for p
      using bt same [OF that] by (auto split: if_splits)
    moreover have "content (blocks s') p \<noteq> None" if "trim_seq s' \<le> p" "p < L" for p
      using bt that held [of p] inv(4) [of p] run(2) by (cases "p < ?l") (auto split: if_splits)
    moreover have "trim_seq s' \<le> L" using bt inv(2) run(1) by (auto split: if_splits)
    ultimately show ?thesis using s'(3,4) R run(3) by (simp add: received_inv_def) (metis not_le)
  qed
  then show ?thesis using s' by blast
qed

lemma DataSent_receives:
  assumes "no_skips E" "stream_inv S s" "agrees S seq data" "seq + length data < 2 ^ 64" "received_inv R s"
  shows "\<exists>r s'. tcp_DataSent E seq data True s = Inr (r, s') \<and> stream_inv S s' \<and> received_inv (\<lambda>p. R p \<or> seq \<le> p \<and> p < seq + length data) s'"
proof (cases "skip_deliveries s")
  case True
  then show ?thesis using assms(2) by (auto simp: tcp_DataSent_def Let_def received_inv_def)
next
  case False
  have "\<exists>s1. NewBlock (tcp_Overlap E) (tcp_BlockInserted 1 E) seq data s = Inr s1 \<and> stream_inv S s1 \<and>
      received_inv (\<lambda>p. R p \<or> seq \<le> p \<and> p < seq + length data) s1"
  proof (cases "data = [] \<or> seq + length data \<le> trim_seq s")
    case True
    then have "(R p \<or> seq \<le> p \<and> p < seq + length data) \<longleftrightarrow> R p" for p using assms(5) False by (auto simp: received_inv_def)
    then show ?thesis using True NewBlock_old [of data seq s] assms(2,4,5) by auto
  next
    case new: False
    then have "data \<noteq> []" "trim_seq s < seq + length data" by auto
    from tcp_NewBlock [OF assms(2-4) this, of E "tcp_BlockInserted 1 E"] obtain i s1
      where s1: "NewBlock (tcp_Overlap E) (tcp_BlockInserted 1 E) seq data s = tcp_BlockInserted 1 E i s1"
      "inserted (max seq (trim_seq s)) (drop (trim_seq s - seq) data) s i s1" "stream_inv S s1"
      "skip_deliveries s1 = skip_deliveries s" "told_gaps s1 = told_gaps s" by blast
    show ?thesis unfolding s1(1) by (rule received_inserted [OF assms(1,5) False s1(3,2,4,5)])
  qed
  then obtain s1 where s1: "NewBlock (tcp_Overlap E) (tcp_BlockInserted 1 E) seq data s = Inr s1" "stream_inv S s1"
    "received_inv (\<lambda>p. R p \<or> seq \<le> p \<and> p < seq + length data) s1" by blast
  obtain s' where s': "rbind (if NoDataAcked (endp E) then give_up (tcp_max_above_hole_without_any_acks E) ''above_hole_data_without_any_acks'' s1 else Inr s1)
      (\<lambda>s2. rbind (give_up (tcp_excessive_data_without_further_acks E) ''excessive_data_without_further_acks'' s2) (\<lambda>s3. Inr (True, s3))) = Inr (True, s')"
    "stream_inv S s'" "\<not> skip_deliveries s' \<longrightarrow> s' = s1"
    using give_ups_work [OF s1(2)] by blast
  then have "received_inv (\<lambda>p. R p \<or> seq \<le> p \<and> p < seq + length data) s'" using s1(3) by (auto simp: received_inv_def)
  then show ?thesis using s' s1(1) False by (auto simp: tcp_DataSent_def Let_def)
qed

lemma received_inv_view: "tcp_view s' = tcp_view s \<Longrightarrow> received_inv R s' \<longleftrightarrow> received_inv R s"
  by (simp add: received_inv_def tcp_view_def told_gaps_def)

lemma AckReceived_receives:
  assumes "stream_inv S s" "received_inv R s" "\<forall>p < ack_target E seq. R p" "\<not> skip_deliveries s"
  shows "\<exists>s'. tcp_AckReceived E seq s = Inr s' \<and> stream_inv S s' \<and> received_inv R s'"
proof -
  let ?q = "ack_target E seq" and ?l = "last_reassem_seq s"
  have inv: "told_gaps s = []" "trim_seq s \<le> ?l" "content (blocks s) ?l = None"
    "\<forall>p. trim_seq s \<le> p \<and> p < ?l \<longrightarrow> content (blocks s) p \<noteq> None" "\<And>p. R p \<longleftrightarrow> p < ?l \<or> content (blocks s) p \<noteq> None"
    using assms(2,4) by (simp_all add: received_inv_def)
  have sep: "separated (blocks s)" using assms(1) by (simp add: stream_inv_def reassem_inv_def)
  have q: "?q \<le> ?l" using inv(3) inv(5) [of ?l] assms(3) by (meson less_irrefl not_le)
  have "db_seq b \<noteq> ?l" if "b \<in> set (blocks s)" for b
  proof -
    have "db_seq b < db_upper b" "\<not> holds b ?l" using that sep inv(3) upper_gt by (auto simp: separated_def content_None)
    then show ?thesis by (auto simp: holds_def)
  qed
  then obtain n where n: "tcp_TrimToSeq E ?q s = Inr (n, (trimmed ?q s)\<lparr>trim_seq := max (trim_seq s) ?q\<rparr>)"
    using trim_delivered [OF q] unfolding tcp_TrimToSeq_def by blast
  define s1 where "s1 = (trimmed ?q s)\<lparr>trim_seq := max (trim_seq s) ?q\<rparr>"
  have "content (blocks s1) p = content (blocks s) p" if "?q \<le> p" for p
    using content_trimmed(2) [OF sep that] by (simp add: s1_def trimmed_def Let_def)
  then have "received_inv R s1" "stream_inv S s1"
    using inv q trimmed_inv [OF assms(1), of ?q] by (auto simp: received_inv_def s1_def trimmed_def Let_def told_gaps_def)
  then have "received_inv R (CheckEOF E (if test then account_ack E ?q n s1 else s1)) \<and> stream_inv S (CheckEOF E (if test then account_ack E ?q n s1 else s1))"
    for test
    using received_inv_view [of "CheckEOF E (if test then account_ack E ?q n s1 else s1)" s1]
      stream_inv_view [of "CheckEOF E (if test then account_ack E ?q n s1 else s1)" s1] by simp
  then show ?thesis using assms(1,2) n by (simp add: tcp_AckReceived_def Let_def s1_def [symmetric])
qed

subsection \<open>The stream that the analyzers see\<close>

datatype tcp_call =
    TC_Data tcp_env nat "u8 list" bool
  | TC_Ack tcp_env nat
  | TC_File tcp_env bool
  | TC_Done tcp_env

fun tcp_call_step :: "tcp_call \<Rightarrow> TCP_Reassembler \<Rightarrow> TCP_Reassembler res" where
  "tcp_call_step (TC_Data E seq data replaying) s = rbind (tcp_DataSent E seq data replaying s) (\<lambda>(r, s'). Inr s')"
| "tcp_call_step (TC_Ack E seq) s = tcp_AckReceived E seq s"
| "tcp_call_step (TC_File E is_open) s = Inr (SetContentsFile E is_open s)"
| "tcp_call_step (TC_Done E) s = tcp_Done E s"

fun call_ok :: "(nat \<Rightarrow> u8) \<Rightarrow> tcp_call \<Rightarrow> bool" where
  "call_ok S (TC_Data E seq data replaying) \<longleftrightarrow> no_skips E \<and> agrees S seq data \<and> seq + length data < 2 ^ 64"
| "call_ok S (TC_Ack E seq) \<longleftrightarrow> no_skips E"
| "call_ok S (TC_File E is_open) \<longleftrightarrow> True"
| "call_ok S (TC_Done E) \<longleftrightarrow> True"

fun brings :: "tcp_call \<Rightarrow> nat \<Rightarrow> bool" where
  "brings (TC_Data E seq data replaying) p \<longleftrightarrow> seq \<le> p \<and> p < seq + length data"
| "brings _ p \<longleftrightarrow> False"

definition received :: "tcp_call list \<Rightarrow> nat \<Rightarrow> bool" where
  "received cs p \<longleftrightarrow> p = 0 \<or> list_ex (\<lambda>c. brings c p) cs"

text \<open>
  The data comes by way of \<^verbatim>\<open>TCP_Endpoint::DataSent\<close>, which leaves \<^verbatim>\<open>replaying\<close> at its default; the
  other side acknowledges only what went past.
\<close>

fun follows :: "tcp_call list \<Rightarrow> tcp_call \<Rightarrow> bool" where
  "follows past (TC_Data E seq data replaying) \<longleftrightarrow> replaying"
| "follows past (TC_Ack E seq) \<longleftrightarrow> list_all (received past) [0..<ack_target E seq]"
| "follows past _ \<longleftrightarrow> True"

fun acks_follow :: "tcp_call list \<Rightarrow> tcp_call list \<Rightarrow> bool" where
  "acks_follow past [] \<longleftrightarrow> True"
| "acks_follow past (c # cs) \<longleftrightarrow> follows past c \<and> acks_follow (past @ [c]) cs"

fun delivered :: "tcp_event list \<Rightarrow> u8 list" where
  "delivered [] = []"
| "delivered (TE_Deliver seq data # es) = data @ delivered es"
| "delivered (_ # es) = delivered es"

lemma Done_view:
  assumes "reassem_inv s"
  shows "\<exists>s'. tcp_Done E s = Inr s' \<and> tcp_view s' = tcp_view s"
proof -
  obtain s1 where s1: "MatchUndelivered E (2 ^ 64 - 1) True s = Inr s1" "tcp_view s1 = tcp_view s"
    using MatchUndelivered_works [OF assms] by blast
  then have "reassem_inv s1" using assms viewD [OF s1(2)] by (simp add: reassem_inv_def)
  then show ?thesis using s1 last_upper_works [of s1] by (auto simp: tcp_Done_def view_tell)
qed

lemma File_view: "tcp_view (SetContentsFile E is_open s) = tcp_view s"
proof -
  have "tcp_view (s\<lparr>record_contents_file := True\<rparr>) = tcp_view s" for s by (simp add: tcp_view_def)
  then show ?thesis by (simp add: SetContentsFile_def view_tell split: list.split)
qed

lemma call_keeps:
  assumes "call_ok S c" "stream_inv S s"
  shows "\<exists>s'. tcp_call_step c s = Inr s' \<and> stream_inv S s'"
proof (cases c)
  case (TC_Data E seq data replaying)
  then show ?thesis using DataSent_keeps [OF _ assms(2), of E seq data replaying] assms(1) by auto
next
  case (TC_Ack E seq)
  then show ?thesis using AckReceived_keeps [OF _ assms(2), of E seq] assms(1) by auto
next
  case (TC_File E is_open)
  then show ?thesis using stream_inv_view [OF File_view] assms(2) by simp
next
  case (TC_Done E)
  obtain s' where "tcp_Done E s = Inr s'" "tcp_view s' = tcp_view s" using Done_view [of s E] assms(2) by (auto simp: stream_inv_def)
  then show ?thesis using TC_Done stream_inv_view [of s' s S] assms(2) by simp
qed

lemma calls_keep:
  assumes "\<forall>c \<in> set cs. call_ok S c" "stream_inv S s"
  shows "\<exists>s'. rfold tcp_call_step cs s = Inr s' \<and> stream_inv S s'"
  using assms
proof (induction cs arbitrary: s)
  case (Cons c cs)
  then obtain s1 where "tcp_call_step c s = Inr s1" "stream_inv S s1" using call_keeps [of S c s] by auto
  then show ?case using Cons by simp
qed simp

lemma stream_inv_new: "stream_inv S (TCP_Reassembler_new contents)"
  by (simp add: stream_inv_def reassem_inv_def TCP_Reassembler_new_def in_order_def true_to_def separated_def)

text \<open>
  C6. Whatever segments of a stream the monitor sees, in any order, with any repetition and any
  acknowledgements, and whatever the state of the two endpoints is at each moment: the reassembler does
  not fail, and as long as it has not given up on the connection, the chunks that it has handed to the
  analyzers and the gaps that it has reported follow each other without overlap from the first byte to
  the next one it waits for, and every chunk has the bytes of the stream at its place.
\<close>

theorem analyzers_see_the_stream:
  assumes "\<forall>c \<in> set cs. call_ok S c"
  shows "\<exists>s'. rfold tcp_call_step cs (TCP_Reassembler_new contents) = Inr s' \<and> reassem_inv s' \<and>
    (\<not> skip_deliveries s' \<longrightarrow> tiles 1 (last_reassem_seq s') (stretches (tcp_log s')) \<and> true_to S (stretches (tcp_log s')))"
  using calls_keep [OF assms stream_inv_new [of S contents]] by (auto simp: stream_inv_def in_order_def)

definition demo_endpoint :: TCP_Endpoint where
  "demo_endpoint =
     \<lparr>ep_state = TCP_ENDPOINT_ESTABLISHED, prev_state = TCP_ENDPOINT_SYN_SENT, start_seq = 1000, last_seq = 1007, ack_seq = 1001,
      seq_wraps = 0, ack_wraps = 0, FIN_seq = 0, FIN_cnt = 0, RST_cnt = 0, HasContents = True, HasDoneSomething = True, HasUndeliveredData = False\<rparr>"

definition demo_env :: tcp_env where
  "demo_env =
     \<lparr>endp = demo_endpoint, peer = demo_endpoint, IsPartial = False, Skipping = False, detect_filtered_trace = False,
      report_gaps_for_partial = False, content_gap = True, rexmit_inconsistency = True, tcp_match_undelivered = True, rule_matcher = True,
      tcp_max_initial_window = 10, tcp_max_above_hole_without_any_acks = 10, tcp_excessive_data_without_further_acks = 20,
      gap_report_due = True, write_ok = True, skip_on = (\<lambda>seq data. 0)\<rparr>"

lemma demo_skips: "no_skips demo_env"
  by (simp add: no_skips_def demo_env_def)

definition demo_stream :: "nat \<Rightarrow> u8" where
  "demo_stream p = of_nat (p + 96)"

definition demo_gap :: "tcp_call list" where
  "demo_gap = [TC_Data demo_env 1 [97, 98] True, TC_Data demo_env 5 [101, 102, 103] True, TC_Ack demo_env 5, TC_Data demo_env 2 [98, 99, 100] True]"

text \<open>For evaluation, the limit on the sequence numbers is compared as an integer.\<close>

lemma NewBlock_code [code]:
  "NewBlock Overlap BlockInserted seq data s =
     (if data = [] then Inr s
      else if int (seq + length data) \<ge> 2 ^ 64 then Inl LengthError
      else if seq + length data \<le> trim_seq s then Inr s
      else let data1 = drop (trim_seq s - seq) data; seq1 = max seq (trim_seq s)
           in rbind
                (if blocks s = []
                 then rbind (new_block 0 True data1 (length data1) seq1 s) (\<lambda>s1. Inr (0, s1\<lparr>last_block := Some (next_id s)\<rparr>))
                 else AddAndCheck Overlap 0 seq1 (seq + length data) data1 s)
                (\<lambda>(i, s1). BlockInserted i s1))"
proof -
  have "2 ^ 64 \<le> int n \<longleftrightarrow> 2 ^ 64 \<le> n" for n by (metis of_nat_le_iff of_nat_numeral of_nat_power)
  then show ?thesis unfolding NewBlock_def Let_def by simp
qed

text \<open>Bytes 3 and 4 were acknowledged before they were seen: they are a gap, and what comes too late is ignored.\<close>

lemma gap_is_told:
  "(case rfold tcp_call_step demo_gap (TCP_Reassembler_new False) of
      Inl _ \<Rightarrow> None | Inr s \<Rightarrow> Some (skip_deliveries s, stretches (tcp_log s))) =
   Some (False, [(1, 3, Some [97, 98]), (3, 5, None), (5, 8, Some [101, 102, 103])])"
  by code_simp

theorem analyzers_see_the_stream_witness:
  "list_all (call_ok demo_stream) demo_gap \<and>
   (\<exists>s'. rfold tcp_call_step demo_gap (TCP_Reassembler_new False) = Inr s' \<and> reassem_inv s' \<and>
      tiles 1 (last_reassem_seq s') (stretches (tcp_log s')) \<and> true_to demo_stream (stretches (tcp_log s')))"
proof -
  have "agrees demo_stream 1 [97, 98] \<and> agrees demo_stream 5 [101, 102, 103] \<and> agrees demo_stream 2 [98, 99, 100]" by code_simp
  then have "list_all (call_ok demo_stream) demo_gap" by (simp add: demo_gap_def demo_skips)
  then show ?thesis using analyzers_see_the_stream [of demo_gap demo_stream False] gap_is_told by (auto simp: list_all_iff)
qed

text \<open>
  An acknowledgement that ends inside a block above a hole: the rest of the block has arrived, but it is not
  delivered, and the next acknowledgement reports it as missing.
\<close>

lemma rest_of_block_is_lost:
  "(case rfold tcp_call_step [TC_Data demo_env 5 [101, 102, 103] True, TC_Ack demo_env 6, TC_Data demo_env 8 [104] True, TC_Ack demo_env 9]
          (TCP_Reassembler_new False) of
      Inl _ \<Rightarrow> [] | Inr s \<Rightarrow> stretches (tcp_log s)) = [(1, 6, None), (6, 9, None)]"
  by code_simp

lemma received_snoc: "received (past @ [c]) = (\<lambda>p. received past p \<or> brings c p)"
  by (auto simp: received_def)

lemma call_receives:
  assumes "call_ok S c" "stream_inv S s" "received_inv (received past) s" "follows past c"
  shows "\<exists>s'. tcp_call_step c s = Inr s' \<and> stream_inv S s' \<and> received_inv (received (past @ [c])) s'"
proof (cases c)
  case (TC_Data E seq data replaying)
  then obtain r s' where "tcp_DataSent E seq data True s = Inr (r, s')" "stream_inv S s'"
    "received_inv (\<lambda>p. received past p \<or> seq \<le> p \<and> p < seq + length data) s'"
    using DataSent_receives [OF _ assms(2) _ _ assms(3), of E seq data] assms(1) by auto
  then show ?thesis using TC_Data assms(4) by (simp add: received_snoc)
next
  case (TC_Ack E seq)
  show ?thesis
  proof (cases "skip_deliveries s")
    case True
    then show ?thesis using TC_Ack AckReceived_keeps [OF _ assms(2), of E seq] assms(1) by (auto simp: received_inv_def)
  next
    case False
    have "\<forall>p < ack_target E seq. received past p" using assms(4) TC_Ack by (auto simp: list_all_iff)
    then show ?thesis using TC_Ack AckReceived_receives [OF assms(2,3) _ False] by (simp add: received_snoc)
  qed
next
  case (TC_File E is_open)
  then show ?thesis using stream_inv_view [OF File_view] received_inv_view [OF File_view] assms(2,3) by (simp add: received_snoc)
next
  case (TC_Done E)
  obtain s' where "tcp_Done E s = Inr s'" "tcp_view s' = tcp_view s" using Done_view [of s E] assms(2) by (auto simp: stream_inv_def)
  then show ?thesis using TC_Done stream_inv_view [of s' s S] received_inv_view [of s' s] assms(2,3) by (simp add: received_snoc)
qed

lemma calls_receive:
  assumes "\<forall>c \<in> set cs. call_ok S c" "stream_inv S s" "received_inv (received past) s" "acks_follow past cs"
  shows "\<exists>s'. rfold tcp_call_step cs s = Inr s' \<and> stream_inv S s' \<and> received_inv (received (past @ cs)) s'"
  using assms
proof (induction cs arbitrary: past s)
  case (Cons c cs)
  then obtain s1 where "tcp_call_step c s = Inr s1" "stream_inv S s1" "received_inv (received (past @ [c])) s1"
    using call_receives [of S c s past] by auto
  then show ?case using Cons.IH [of s1 "past @ [c]"] Cons.prems by simp
qed simp

lemma delivered_tiles:
  assumes "tiles a z (stretches es)" "true_to S (stretches es)" "filter (\<lambda>(x, y, d). d = None) (stretches es) = []"
  shows "a \<le> z \<and> delivered es = map S [a..<z]"
  using assms
proof (induction es arbitrary: a rule: stretches.induct)
  case (2 seq data es)
  have "tiles (seq + length data) z (stretches es)" "seq = a" "true_to S (stretches es)" "data = map S [seq..<seq + length data]"
    using "2.prems"(1,2) by (auto simp: true_to_def)
  then have es: "seq + length data \<le> z" "delivered es = map S [seq + length data..<z]" using "2.IH" "2.prems"(3) by simp_all
  then have "[seq..<z] = [seq..<seq + length data] @ [seq + length data..<z]"
    using upt_add_eq_append [of seq "seq + length data" "z - (seq + length data)"] by simp
  then show ?case using es \<open>data = _\<close> \<open>seq = a\<close> by (metis add_leD1 delivered.simps(2) map_append)
qed simp_all

text \<open>
  C3. If the other side acknowledges only data that went past the monitor, then whatever the order of
  the segments is, whatever is repeated, split or overlaps, and whenever what was acknowledged is thrown
  away: as long as the reassembler has not given up on the connection, the analyzers have been handed
  the stream from its first byte to the first byte that has not arrived, each byte exactly once and in order.
\<close>

theorem in_order_and_complete:
  assumes "\<forall>c \<in> set cs. call_ok S c" "acks_follow [] cs"
  shows "\<exists>s'. rfold tcp_call_step cs (TCP_Reassembler_new contents) = Inr s' \<and>
    (\<not> skip_deliveries s' \<longrightarrow> (\<exists>n. \<not> received cs n \<and> (\<forall>p < n. received cs p) \<and> delivered (tcp_log s') = map S [1..<n]))"
proof -
  have "received_inv (received []) (TCP_Reassembler_new contents)"
    by (auto simp: received_inv_def TCP_Reassembler_new_def told_gaps_def received_def)
  from calls_receive [OF assms(1) stream_inv_new this assms(2)] obtain s' where
    s': "rfold tcp_call_step cs (TCP_Reassembler_new contents) = Inr s'" "stream_inv S s'" "received_inv (received cs) s'" by auto
  have "delivered (tcp_log s') = map S [1..<last_reassem_seq s']" if "\<not> skip_deliveries s'"
    using that s'(2,3) delivered_tiles [of 1 "last_reassem_seq s'" "tcp_log s'" S]
    by (simp add: stream_inv_def in_order_def received_inv_def told_gaps_def)
  then show ?thesis using s'(1,3) by (auto simp: received_inv_def)
qed

definition demo_calls :: "tcp_call list" where
  "demo_calls =
     [TC_File demo_env True, TC_Data demo_env 4 [100, 101] True, TC_Data demo_env 1 [97, 98, 99] True, TC_Ack demo_env 6,
      TC_Data demo_env 3 [99, 100, 101, 102] True, TC_Data demo_env 9 [105] True, TC_Ack demo_env 7]"

text \<open>All six bytes are delivered, and not one acknowledged byte was counted.\<close>

lemma demo_is_delivered:
  "(case rfold tcp_call_step demo_calls (TCP_Reassembler_new True) of
      Inl _ \<Rightarrow> None | Inr s \<Rightarrow> Some (skip_deliveries s, delivered (tcp_log s), tot_ack_events s, tot_ack_bytes s)) =
   Some (False, [97, 98, 99, 100, 101, 102], 2, 0)"
  by code_simp

theorem in_order_and_complete_witness:
  "list_all (call_ok demo_stream) demo_calls \<and> acks_follow [] demo_calls \<and>
   (\<exists>s' n. rfold tcp_call_step demo_calls (TCP_Reassembler_new True) = Inr s' \<and>
      \<not> received demo_calls n \<and> delivered (tcp_log s') = map demo_stream [1..<n])"
proof -
  have "agrees demo_stream 4 [100, 101] \<and> agrees demo_stream 1 [97, 98, 99] \<and> agrees demo_stream 3 [99, 100, 101, 102] \<and>
      agrees demo_stream 9 [105]"
    by code_simp
  then have "list_all (call_ok demo_stream) demo_calls" by (simp add: demo_calls_def demo_skips)
  moreover have "ack_target demo_env seq = seq" for seq by (simp add: ack_target_def demo_env_def demo_endpoint_def)
  then have "acks_follow [] demo_calls" by (auto simp: demo_calls_def received_def list_all_iff)
  ultimately show ?thesis
    using in_order_and_complete [of demo_calls demo_stream True] demo_is_delivered by (auto simp: list_all_iff)
qed

end
