(* ===== verification/Spec2Isabelle.thy ===== *)
theory Spec2Isabelle
  imports KF_Threads HP_Cut HP_Url CC_Serve NM_Timer NM_Frag NM_Tcp
begin

text \<open>
  \<^bold>\<open>A verification development for the deepsecurity sandbox\<close>

  The repository holds the parts of a malware sandbox. \<^emph>\<open>killerfinder\<close> captures packets, puts TCP sessions
  together, decodes HTTP and SMTP and blocks listed hosts. \<^emph>\<open>capture-client\<close> runs inside the guest and is
  driven by HTTP requests to a small web server. \<^emph>\<open>netmonitor\<close> is a copy of the Bro network monitor. The
  parts do not call each other: killerfinder writes the files that the sandbox hands to the client by an upload,
  and the two monitors see the same traffic. Paths below are relative to \<^verbatim>\<open>src/src/\<close>.

  Every function of the source is a HOL function on an explicit state. What the source may do wrong is a value of
  the result type: a read outside an object, a use of freed or uninitialised memory, an exception of the library,
  a failed assertion. Words have their width where they may wrap. What the sources only call is a parameter:
  libpcap, libnet, log4cplus, vmime and the XML library for killerfinder, Windows for the client, the
  dispatch of a timer and the analyzers for netmonitor.

  \<^bold>\<open>killerfinder\<close> (\<^verbatim>\<open>killerfinder/src\<close>; theories \<^verbatim>\<open>KF_*\<close>)

  \<^item> \<^verbatim>\<open>KF_Prelude\<close>: results, reads at offsets, words, \<^verbatim>\<open>std::string\<close>.
  \<^item> \<^verbatim>\<open>KF_IpAddress\<close>, \<^verbatim>\<open>KF_Packet\<close>, \<^verbatim>\<open>KF_SessionId\<close>: \<^verbatim>\<open>CIpAddress\<close>, the layouts of \<^verbatim>\<open>packet_def.hpp\<close> and the
    layer records, \<^verbatim>\<open>CTcpSessionId\<close>. Equality and hash of a session do not depend on the direction.
  \<^item> \<^verbatim>\<open>KF_SegBuf\<close>, \<^verbatim>\<open>KF_State\<close>, \<^verbatim>\<open>KF_Session\<close>: \<^verbatim>\<open>CTcpSession\<close>, its plug-in and the reset packets. Segments in any order give the
    stream; a stream that is read while it arrives is handed out exactly once; a session is closed exactly when
    both sides have finished.
  \<^item> \<^verbatim>\<open>KF_HttpInfo\<close>, \<^verbatim>\<open>KF_HttpDecoder\<close>, \<^verbatim>\<open>KF_Smtp\<close>, \<^verbatim>\<open>KF_DB\<close>: the decoders, their records and the lists of hosts. A verdict on
    a host does not depend on the pieces in which the header arrives; mails are cut out of the stream.
  \<^item> \<^verbatim>\<open>KF_Pool\<close>, \<^verbatim>\<open>KF_Handler\<close>: \<^verbatim>\<open>CTcpSessionPool\<close> with its sessions in a heap, and \<^verbatim>\<open>CPacketHandler\<close> from the link layer to the
    session. No packet leads to a pool that is inconsistent; no IPv4 frame leads to a read outside the captured bytes.
  \<^item> \<^verbatim>\<open>KF_Log\<close>, \<^verbatim>\<open>KF_Config\<close>: directories, configuration file and command line.
  \<^item> \<^verbatim>\<open>KF_Safety\<close>, \<^verbatim>\<open>KF_Threads\<close>: the three threads as a step relation. No interleaving uses a session that was deleted.

  \<^bold>\<open>The HTTP parser\<close> (\<^verbatim>\<open>capture-hpc/capture-client/http_parser.c\<close>; theories \<^verbatim>\<open>HP_*\<close>)

  \<^item> \<^verbatim>\<open>HP_Types\<close>, \<^verbatim>\<open>HP_Exec\<close>, \<^verbatim>\<open>HP_Loop\<close>: the states, every case of the switch, the loop over the bytes. \<^verbatim>\<open>HP_Safe\<close>: no assertion
    fails. \<^verbatim>\<open>HP_Stream\<close>, \<^verbatim>\<open>HP_Cut\<close>: how the input is cut into calls makes no difference to the events.
    \<^verbatim>\<open>HP_Url\<close>: \<^verbatim>\<open>http_parser_parse_url\<close> finds the fields of a URL. \<^verbatim>\<open>HP_Request\<close>: what the parser does with the head of a request.

  \<^bold>\<open>The web server of the client\<close> (\<^verbatim>\<open>sha1.cpp\<close>, \<^verbatim>\<open>WebService.cpp\<close>; theories \<^verbatim>\<open>CC_*\<close>)

  \<^item> \<^verbatim>\<open>CC_Sha1\<close>: SHA-1 of a message that arrives in any pieces, against the definition of the standard.
  \<^item> \<^verbatim>\<open>CC_Web\<close>, \<^verbatim>\<open>CC_Upload\<close>, \<^verbatim>\<open>CC_Serve\<close>: the routes as sequences of calls to Windows. An upload is written as it was sent, through the
    parser above; a route makes only the calls of its kind and closes what it opens.

  \<^bold>\<open>netmonitor\<close> (\<^verbatim>\<open>netmonitor/platform/src\<close>; theories \<^verbatim>\<open>NM_*\<close>)

  \<^item> \<^verbatim>\<open>NM_PQueue\<close>, \<^verbatim>\<open>NM_Timer\<close>: the heap of \<^verbatim>\<open>PriorityQueue.cc\<close> refines a set of timed elements; the timers of \<^verbatim>\<open>Timer.cc\<close> fire in order.
  \<^item> \<^verbatim>\<open>NM_Reassem\<close>: \<^verbatim>\<open>Reassem.cc\<close>, the list of blocks under both reassemblers. The first data for a position wins. Its virtual methods are
    parameters; the locale \<open>overlap_hook\<close> is the contract with the two subclasses below, which interpret it.
  \<^item> \<^verbatim>\<open>NM_IP\<close>: the headers of \<^verbatim>\<open>IP.h\<close> and the chain of IPv6 extension headers, which stays inside the packet.
  \<^item> \<^verbatim>\<open>NM_Frag\<close>: \<^verbatim>\<open>Frag.cc\<close> and the table of fragments in \<^verbatim>\<open>Sessions.cc\<close>. It refines a table of partial maps, and a datagram that was
    cut up comes back in the moment its last part arrives.
  \<^item> \<^verbatim>\<open>NM_Tcp\<close>: \<^verbatim>\<open>TCP_Reassembler.cc\<close>. Chunks and gaps follow each other without overlap, each chunk with the bytes of the stream; when
    acknowledgements only follow the data, everything up to the first missing byte is delivered, once and in order.

  \<^bold>\<open>Interfaces.\<close> A locale states what a client relies on where one component uses another, and is
  interpreted on the definitions of the provider in its theory; properties that rest on it are stated over these definitions.

  \<^bold>\<open>Bounds.\<close> Loops over data are structural or have a measure. \<^verbatim>\<open>BlockInserted\<close> and \<^verbatim>\<open>TrimToSeq\<close> of the TCP reassembler call
  each other; \<open>tcp_BlockInserted\<close> has a depth, and depth one is enough, since after a delivery no block begins at the next byte
  (\<open>trim_delivered\<close>): the fault of a deeper call does not occur in the properties. The loop that advances the timers may run forever
  if a timer re-arms itself; it is a partial function, and \<open>limited_advance_returns\<close> shows that it returns under a limit. The receive loop
  of the web server ends because its buffer cannot grow beyond the largest \<^verbatim>\<open>int\<close>. A sequence number of the reassemblers stays below \<open>2 ^ 64\<close>, and a queue below \<open>2 ^ 31\<close>
  elements; beyond them the model has a fault of its own and the properties a hypothesis.

  \<^bold>\<open>Not modelled.\<close> The drivers, the monitors, the plug-ins and the control of the client are calls to Windows and its kernel.
  The two cloud parts are Python around HTTP, a file watch and a database server. Printing and logging texts are left out. Of netmonitor, a
  vendored program of many hundred files, the script language with its values, the analyzers above TCP, the state machine of a connection,
  serialization, logging and communication are left out, and of the components above what the text of their theories names. The
  vendored Redis server is left out. Tests and generated files are no part of the program.
\<close>

end
